(* ===== verification/Prelude.thy ===== *)
theory Prelude
  imports Main "HOL-Library.AList" "HOL-Library.Multiset" "HOL-Library.List_Lexorder"
    "HOL-Library.Char_ord" "HOL-Library.Word"
begin

text \<open>
  What the components share: the containers of the language (\<open>Map\<close>, \<open>Set\<close>, arrays)
  and the collections of lemmas the component proofs use.

  A JavaScript \<open>Map\<close> iterates in insertion order: \<open>set\<close> of a present key keeps its
  position, \<open>set\<close> of an absent key appends, \<open>delete\<close> closes the gap. That is exactly
  \<open>AList.update\<close> and \<open>AList.delete\<close> on an association list with distinct keys.
  A \<open>Set\<close> is a duplicate-free list in insertion order.
\<close>

named_theorems js_simps \<open>unfolding of the container operations\<close>

section \<open>Map\<close>

type_synonym ('k, 'v) jsmap = "('k \<times> 'v) list"

abbreviation jget :: "('k, 'v) jsmap \<Rightarrow> 'k \<Rightarrow> 'v option" where
  "jget m k \<equiv> map_of m k"

abbreviation jput :: "('k, 'v) jsmap \<Rightarrow> 'k \<Rightarrow> 'v \<Rightarrow> ('k, 'v) jsmap" where
  "jput m k v \<equiv> AList.update k v m"

abbreviation jdel :: "('k, 'v) jsmap \<Rightarrow> 'k \<Rightarrow> ('k, 'v) jsmap" where
  "jdel m k \<equiv> AList.delete k m"

abbreviation jkeys :: "('k, 'v) jsmap \<Rightarrow> 'k list" where
  "jkeys m \<equiv> map fst m"

abbreviation jvals :: "('k, 'v) jsmap \<Rightarrow> 'v list" where
  "jvals m \<equiv> map snd m"

abbreviation jwf :: "('k, 'v) jsmap \<Rightarrow> bool" where
  "jwf m \<equiv> distinct (map fst m)"

definition jhas :: "('k, 'v) jsmap \<Rightarrow> 'k \<Rightarrow> bool" where
  [js_simps]: "jhas m k \<longleftrightarrow> jget m k \<noteq> None"

definition jmodify :: "('k, 'v) jsmap \<Rightarrow> 'k \<Rightarrow> ('v \<Rightarrow> 'v) \<Rightarrow> ('k, 'v) jsmap" where
  "jmodify m k f = (case jget m k of None \<Rightarrow> m | Some v \<Rightarrow> jput m k (f v))"

declare distinct_update [simp] distinct_delete [simp] map_of_eq_Some_iff [simp del] Some_eq_map_of_iff [simp del]

lemma jhas_iff: "jhas m k \<longleftrightarrow> k \<in> set (jkeys m)"
  by (auto simp: jhas_def map_of_eq_None_iff)

lemma jget_jput [simp]: "jget (jput m k v) x = (if x = k then Some v else jget m x)"
  by (simp add: update_conv)

lemma jget_jdel [simp]: "jget (jdel m k) x = (if x = k then None else jget m x)"
  by (simp add: delete_conv)

lemma jhas_jput [simp]: "jhas (jput m k v) x \<longleftrightarrow> x = k \<or> jhas m x"
  by (simp add: jhas_def)

lemma jhas_jdel [simp]: "jhas (jdel m k) x \<longleftrightarrow> x \<noteq> k \<and> jhas m x"
  by (simp add: jhas_def)

lemma jget_jmodify [simp]:
  "jget (jmodify m k f) x = (if x = k then map_option f (jget m k) else jget m x)"
  by (simp add: jmodify_def split: option.split)

lemma jwf_jmodify [simp]: "jwf m \<Longrightarrow> jwf (jmodify m k f)"
  by (simp add: jmodify_def split: option.split)

lemma jkeys_jput_present: "jhas m k \<Longrightarrow> jkeys (jput m k v) = jkeys m"
  by (simp add: jhas_iff update_keys del: set_map)

lemma jkeys_jmodify [simp]: "jkeys (jmodify m k f) = jkeys m"
  by (simp add: jmodify_def jkeys_jput_present jhas_def split: option.split)

lemma jhas_jmodify [simp]: "jhas (jmodify m k f) x \<longleftrightarrow> jhas m x"
  by (simp add: jhas_iff)

lemma jkeys_jdel: "jkeys (jdel m k) = filter (\<lambda>x. x \<noteq> k) (jkeys m)"
  by (induction m) (auto simp: AList.delete_eq)

lemma set_jdel: "set (jdel m k) = {p \<in> set m. fst p \<noteq> k}"
  by (auto simp: AList.delete_eq)

lemma set_jput_subset: "set (jput m k v) \<subseteq> insert (k, v) (set m)"
  by (induction m) auto

lemma jdel_absent: "jget m k = None \<Longrightarrow> jdel m k = m"
  by (simp add: map_of_eq_None_iff)

lemma jget_in_set: "jwf m \<Longrightarrow> (k, v) \<in> set m \<longleftrightarrow> jget m k = Some v"
  by (auto simp: map_of_eq_Some_iff)

text \<open>A map whose values carry their own key.\<close>

lemma map_snd_keys:
  assumes "jwf m" and "\<And>k v. jget m k = Some v \<Longrightarrow> f v = k"
  shows "map f (jvals m) = jkeys m"
proof -
  have "f v = k" if "(k, v) \<in> set m" for k v
    using assms(2) jget_in_set [OF assms(1)] that by blast
  then show ?thesis unfolding map_map by (intro map_cong) auto
qed

lemma jvals_get:
  assumes "jwf m" and "\<And>k v. jget m k = Some v \<Longrightarrow> f v = k" and "e \<in> set (jvals m)"
  shows "jget m (f e) = Some e"
proof -
  obtain k where "(k, e) \<in> set m" using assms(3) by auto
  then have "jget m k = Some e" using jget_in_set [OF assms(1)] by blast
  then show ?thesis using assms(2) by blast
qed

lemma jget_jvals: "jget m k = Some v \<Longrightarrow> v \<in> set (jvals m)"
  by (drule map_of_SomeD) force

lemma jvals_iff:
  assumes "jwf m"
  shows "v \<in> set (jvals m) \<longleftrightarrow> (\<exists>k. jget m k = Some v)"
proof
  assume "v \<in> set (jvals m)"
  then obtain k where "(k, v) \<in> set m" by auto
  then show "\<exists>k. jget m k = Some v" using jget_in_set [OF assms] by blast
qed (auto dest: jget_jvals)

section \<open>Set\<close>

text \<open>A \<open>Set\<close> in insertion order; \<open>sadd\<close> of a present element changes nothing.\<close>

definition sadd :: "'a list \<Rightarrow> 'a \<Rightarrow> 'a list" where
  "sadd s x = (if x \<in> set s then s else s @ [x])"

definition sdel :: "'a list \<Rightarrow> 'a \<Rightarrow> 'a list" where
  "sdel s x = filter (\<lambda>y. y \<noteq> x) s"

lemma set_sadd [simp]: "set (sadd s x) = insert x (set s)"
  by (auto simp: sadd_def)

lemma distinct_sadd [simp]: "distinct (sadd s x) \<longleftrightarrow> distinct s"
  by (auto simp: sadd_def)

lemma set_sdel [simp]: "set (sdel s x) = set s - {x}"
  by (auto simp: sdel_def)

lemma distinct_sdel [simp]: "distinct s \<Longrightarrow> distinct (sdel s x)"
  by (simp add: sdel_def)

lemma sdel_absent [simp]: "x \<notin> set s \<Longrightarrow> sdel s x = s"
  by (auto simp: sdel_def intro!: filter_True)

section \<open>Arrays\<close>

text \<open>
  Reading an array out of range gives \<open>undefined\<close>, writing out of range extends the
  array; an array of possibly undefined cells is a list of options.
\<close>

definition aread :: "'a option list \<Rightarrow> nat \<Rightarrow> 'a option" where
  "aread xs i = (if i < length xs then xs ! i else None)"

definition awrite :: "'a option list \<Rightarrow> nat \<Rightarrow> 'a option \<Rightarrow> 'a option list" where
  "awrite xs i x =
     (if i < length xs then xs[i := x] else xs @ replicate (i - length xs) None @ [x])"

lemma length_awrite [simp]: "length (awrite xs i x) = max (length xs) (Suc i)"
  by (auto simp: awrite_def)

lemma aread_awrite [simp]: "aread (awrite xs i x) j = (if j = i then x else aread xs j)"
  by (auto simp: awrite_def aread_def nth_append nth_list_update)

section \<open>Small facts about lists\<close>

lemma filter_neq_remove: "distinct xs \<Longrightarrow> filter (\<lambda>y. y \<noteq> x) xs = remove1 x xs"
  by (simp add: distinct_remove1_removeAll removeAll_filter_not_eq) (metis (mono_tags))

lemma fold_inv:
  assumes "P s" and "\<And>x s. x \<in> set xs \<Longrightarrow> P s \<Longrightarrow> P (f x s)"
  shows "P (fold f xs s)"
  using assms by (induction xs arbitrary: s) auto

end
