(* ===== verification/Errors.thy ===== *)
theory Errors
  imports Prelude
begin

text \<open>
  The error classes of \<open>src/errors.ts\<close> and \<open>src/migration.ts\<close>: one datatype, with the
  \<open>name\<close>, the \<open>code\<close> and the \<open>message\<close> each constructor gives its object. The record
  \<open>context\<close> only repeats the arguments.
\<close>

section \<open>Numbers in messages\<close>

definition js_digit :: "nat \<Rightarrow> char" where
  "js_digit d = char_of (48 + d)"

fun js_nat :: "nat \<Rightarrow> string" where
  "js_nat n = (if n < 10 then [js_digit n] else js_nat (n div 10) @ [js_digit (n mod 10)])"

definition js_int :: "int \<Rightarrow> string" where
  "js_int i = (if i < 0 then CHR ''-'' # js_nat (nat (- i)) else js_nat (nat i))"

section \<open>The classes\<close>

datatype js_error =
    ActorNotFoundError string "string option"
  | RegistryLookupError string
  | ActorClassNotRegisteredError string
  | TimeoutError string int
  | SystemShuttingDownError string
  | TransportError string "string option" "string option"
  | PeerNotFoundError string
  | NoRoleMatchError string "string option"
  | AuthenticationError string "string option"
  | CookieRotationError string
  | MailboxFullError "string option"
  | MaxChildrenError nat
  | ActorNotMigratableError string
  | ActorHasChildrenError string nat
  | MigrationFailedError string string
  | NameReservationError string string
  | MigrationInProgressError string string
  | StateSerializationTimeoutError string int
  | PlainError string

text \<open>An optional part of a message: the empty string counts as absent.\<close>

definition opt_text :: "string \<Rightarrow> string option \<Rightarrow> string \<Rightarrow> string" where
  "opt_text before x after' = (case x of None \<Rightarrow> '''' | Some t \<Rightarrow> if t = '''' then '''' else before @ t @ after')"

text \<open>
  \<open>LibeamError\<close> takes the message first and the code second; the classes of
  \<open>src/migration.ts\<close> pass them the other way round, and do not set a name of their own.
\<close>

fun error_message :: "js_error \<Rightarrow> string" where
  "error_message (ActorNotFoundError a n) = ''Actor not found: '' @ a @ opt_text '' on node '' n ''''"
| "error_message (RegistryLookupError n) = ''Could not find node for actor name: '' @ n"
| "error_message (ActorClassNotRegisteredError c) =
     ''Actor class \"'' @ c @ ''\" not registered. Call system.registerActorClass() first.''"
| "error_message (TimeoutError oper ms) = ''Operation timed out after '' @ js_int ms @ ''ms: '' @ oper"
| "error_message (SystemShuttingDownError oper) = ''Cannot '' @ oper @ '': system is shutting down''"
| "error_message (TransportError m n c) = m"
| "error_message (PeerNotFoundError n) = ''No address found for node '' @ n @ ''. Call updatePeers() first.''"
| "error_message (NoRoleMatchError role n) =
     (if opt_text '''' n '''' = '''' then ''No nodes in the cluster have role \"'' @ role @ ''\"''
      else ''Local node \"'' @ the n @ ''\" does not have role \"'' @ role @ ''\"'')"
| "error_message (AuthenticationError reason n) =
     ''Authentication failed: '' @ reason @ opt_text '' (node: '' n '')''"
| "error_message (CookieRotationError reason) = ''Cookie rotation error: '' @ reason"
| "error_message (MailboxFullError a) =
     (if opt_text '''' a '''' = '''' then ''Mailbox is full'' else ''Mailbox full for actor '' @ the a)"
| "error_message (MaxChildrenError n) =
     ''DynamicSupervisor has reached the maximum number of children ('' @ js_nat n @ '')''"
| "error_message (ActorNotMigratableError a) = ''ACTOR_NOT_MIGRATABLE''"
| "error_message (ActorHasChildrenError a n) = ''ACTOR_HAS_CHILDREN''"
| "error_message (MigrationFailedError a reason) = ''MIGRATION_FAILED''"
| "error_message (NameReservationError a reason) = ''NAME_RESERVATION_FAILED''"
| "error_message (MigrationInProgressError a n) = ''MIGRATION_IN_PROGRESS''"
| "error_message (StateSerializationTimeoutError a ms) = ''STATE_SERIALIZATION_TIMEOUT''"
| "error_message (PlainError m) = m"

fun error_code :: "js_error \<Rightarrow> string option" where
  "error_code (ActorNotFoundError a n) = Some ''ACTOR_NOT_FOUND''"
| "error_code (RegistryLookupError n) = Some ''REGISTRY_LOOKUP_FAILED''"
| "error_code (ActorClassNotRegisteredError c) = Some ''ACTOR_CLASS_NOT_REGISTERED''"
| "error_code (TimeoutError oper ms) = Some ''TIMEOUT''"
| "error_code (SystemShuttingDownError oper) = Some ''SYSTEM_SHUTTING_DOWN''"
| "error_code (TransportError m n c) = Some ''TRANSPORT_ERROR''"
| "error_code (PeerNotFoundError n) = Some ''PEER_NOT_FOUND''"
| "error_code (NoRoleMatchError role n) = Some ''NO_ROLE_MATCH''"
| "error_code (AuthenticationError reason n) = Some ''AUTHENTICATION_FAILED''"
| "error_code (CookieRotationError reason) = Some ''COOKIE_ROTATION_ERROR''"
| "error_code (MailboxFullError a) = Some ''MAILBOX_FULL''"
| "error_code (MaxChildrenError n) = Some ''MAX_CHILDREN''"
| "error_code (ActorNotMigratableError a) =
     Some (''Actor '' @ a @ '' does not implement Migratable interface'')"
| "error_code (ActorHasChildrenError a n) =
     Some (''Actor '' @ a @ '' has '' @ js_nat n @ '' children and cannot be migrated'')"
| "error_code (MigrationFailedError a reason) = Some (''Migration of '' @ a @ '' failed: '' @ reason)"
| "error_code (NameReservationError a reason) = Some (''Failed to reserve name '' @ a @ '': '' @ reason)"
| "error_code (MigrationInProgressError a n) = Some (''Actor '' @ a @ '' is migrating to '' @ n @ '', please retry'')"
| "error_code (StateSerializationTimeoutError a ms) =
     Some (''Actor '' @ a @ '' state serialization timed out after '' @ js_int ms @ ''ms'')"
| "error_code (PlainError m) = None"

fun error_name :: "js_error \<Rightarrow> string" where
  "error_name (ActorNotFoundError a n) = ''ActorNotFoundError''"
| "error_name (RegistryLookupError n) = ''RegistryLookupError''"
| "error_name (ActorClassNotRegisteredError c) = ''ActorClassNotRegisteredError''"
| "error_name (TimeoutError oper ms) = ''TimeoutError''"
| "error_name (SystemShuttingDownError oper) = ''SystemShuttingDownError''"
| "error_name (TransportError m n c) = ''TransportError''"
| "error_name (PeerNotFoundError n) = ''PeerNotFoundError''"
| "error_name (NoRoleMatchError role n) = ''NoRoleMatchError''"
| "error_name (AuthenticationError reason n) = ''AuthenticationError''"
| "error_name (CookieRotationError reason) = ''CookieRotationError''"
| "error_name (MailboxFullError a) = ''MailboxFullError''"
| "error_name (MaxChildrenError n) = ''MaxChildrenError''"
| "error_name (PlainError m) = ''Error''"
| "error_name _ = ''LibeamError''"

fun migration_error :: "js_error \<Rightarrow> bool" where
  "migration_error (ActorNotMigratableError a) = True"
| "migration_error (ActorHasChildrenError a n) = True"
| "migration_error (MigrationFailedError a reason) = True"
| "migration_error (NameReservationError a reason) = True"
| "migration_error (MigrationInProgressError a n) = True"
| "migration_error (StateSerializationTimeoutError a ms) = True"
| "migration_error _ = False"

section \<open>What the code of an error tells\<close>

text \<open>
  The code of an error of \<open>src/errors.ts\<close> identifies its class and nothing else. The code of
  a migration error is the sentence meant as its message: the same error about another actor
  has another code, the short upper-case constant is the message, and the name is that of the
  base class.
\<close>

theorem error_codes:
  "(\<not> migration_error e \<and> \<not> migration_error e' \<longrightarrow>
      (error_code e = error_code e' \<longleftrightarrow> error_name e = error_name e')) \<and>
   (migration_error e \<longrightarrow> error_name e = ''LibeamError'' \<and>
      error_message e \<in> {''ACTOR_NOT_MIGRATABLE'', ''ACTOR_HAS_CHILDREN'', ''MIGRATION_FAILED'',
        ''NAME_RESERVATION_FAILED'', ''MIGRATION_IN_PROGRESS'', ''STATE_SERIALIZATION_TIMEOUT''}) \<and>
   (error_code (ActorNotMigratableError a) = error_code (ActorNotMigratableError b) \<longleftrightarrow> a = b)"
proof (intro conjI impI)
  assume "\<not> migration_error e \<and> \<not> migration_error e'"
  then show "error_code e = error_code e' \<longleftrightarrow> error_name e = error_name e'"
    by (cases e; simp; cases e'; simp)
next
  assume "migration_error e"
  then show "error_name e = ''LibeamError''" by (cases e) simp_all
next
  assume "migration_error e"
  then show "error_message e \<in> {''ACTOR_NOT_MIGRATABLE'', ''ACTOR_HAS_CHILDREN'', ''MIGRATION_FAILED'',
        ''NAME_RESERVATION_FAILED'', ''MIGRATION_IN_PROGRESS'', ''STATE_SERIALIZATION_TIMEOUT''}"
    by (cases e) simp_all
qed simp

theorem error_codes_witness:
  "error_code (TimeoutError ''a'' 1) = error_code (TimeoutError ''b'' 2)
   \<and> error_name (ActorHasChildrenError ''a'' 2) = ''LibeamError''"
proof
  show "error_code (TimeoutError ''a'' 1) = error_code (TimeoutError ''b'' 2)"
    using error_codes [of "TimeoutError ''a'' 1" "TimeoutError ''b'' 2"] by simp
  show "error_name (ActorHasChildrenError ''a'' 2) = ''LibeamError''"
    using error_codes [of "ActorHasChildrenError ''a'' 2"] by simp
qed

end
