(* ===== verification/Mailbox.thy ===== *)
theory Mailbox
  imports Errors
begin

unbundle bit_operations_syntax

text \<open>
  \<open>src/mailbox.ts\<close>: the ring buffer behind every actor's mailbox, with its three overflow
  strategies. The concrete operations are refined to a plain list (\<open>mb_rep\<close>); the interface
  the scheduler relies on is the locale \<open>message_queue\<close>, interpreted on the ring buffer at
  the end. \<open>replaceWith\<close> leaves the write index at the length of the buffer when the messages
  fill it exactly, which is outside the refinement; \<open>replaceWith_loses_message\<close> shows what
  happens then.
\<close>

section \<open>The state\<close>

datatype overflow_strategy = DropNewest | DropOldest | ErrorStrategy

record mailbox_config =
  cfg_maxSize :: "nat option"
  cfg_overflow :: "overflow_strategy option"

definition DEFAULT_MAILBOX_CONFIG :: mailbox_config where
  "DEFAULT_MAILBOX_CONFIG = \<lparr>cfg_maxSize = None, cfg_overflow = None\<rparr>"

datatype message_type = CastMsg | CallMsg

text \<open>
  A \<open>StashedMessage\<close>: its type, the user's message and, for a call somebody waits for, the
  promise its \<open>resolve\<close> and \<open>reject\<close> closures settle (both are always set together).
\<close>

record 'm stashed_message =
  sm_type :: message_type
  sm_message :: 'm
  sm_reply :: "nat option"

record 'm mailbox =
  mb_maxSize :: "nat option"
  mb_overflow :: overflow_strategy
  mb_buf :: "'m stashed_message option list"
  mb_head :: nat
  mb_tail :: nat
  mb_size :: nat
  mb_dropped :: nat

definition new_mailbox :: "mailbox_config \<Rightarrow> 'm mailbox" where
  "new_mailbox c =
     \<lparr>mb_maxSize = cfg_maxSize c,
      mb_overflow = (case cfg_overflow c of None \<Rightarrow> DropNewest | Some s \<Rightarrow> s),
      mb_buf = replicate 16 None, mb_head = 0, mb_tail = 0, mb_size = 0, mb_dropped = 0\<rparr>"

section \<open>The operations\<close>

definition isFull :: "'m mailbox \<Rightarrow> bool" where
  "isFull mb \<longleftrightarrow> (case mb_maxSize mb of None \<Rightarrow> False | Some n \<Rightarrow> n \<le> mb_size mb)"

definition grow :: "'m mailbox \<Rightarrow> 'm mailbox" where
  "grow mb =
     (let oldLen = length (mb_buf mb);
          newBuf = map (\<lambda>i. if i < mb_size mb then aread (mb_buf mb) ((mb_head mb + i) mod oldLen)
                           else None) [0..<oldLen * 2]
      in mb\<lparr>mb_buf := newBuf, mb_head := 0, mb_tail := mb_size mb\<rparr>)"

text \<open>Writing at the tail: the store may extend the array, the modulus uses the new length.\<close>

definition push_tail :: "'m mailbox \<Rightarrow> 'm stashed_message \<Rightarrow> 'm mailbox" where
  "push_tail mb msg =
     (let buf = awrite (mb_buf mb) (mb_tail mb) (Some msg)
      in mb\<lparr>mb_buf := buf, mb_tail := (mb_tail mb + 1) mod length buf\<rparr>)"

text \<open>
  The result of \<open>enqueue\<close>: the mailbox afterwards, the returned boolean or the thrown error,
  and the promises rejected with a \<open>MailboxFullError\<close>.
\<close>

definition enqueue ::
  "'m mailbox \<Rightarrow> 'm stashed_message \<Rightarrow> 'm mailbox \<times> (js_error + bool) \<times> nat list" where
  "enqueue mb msg =
     (if \<not> isFull mb then
        let mb1 = (if mb_size mb = length (mb_buf mb) then grow mb else mb);
            mb2 = push_tail mb1 msg
        in (mb2\<lparr>mb_size := mb_size mb2 + 1\<rparr>, Inr True, [])
      else
        let mb1 = mb\<lparr>mb_dropped := mb_dropped mb + 1\<rparr>
        in case mb_overflow mb of
             DropNewest \<Rightarrow> (mb1, Inr False, [])
           | DropOldest \<Rightarrow>
               let rejected = (case aread (mb_buf mb1) (mb_head mb1) of
                                 None \<Rightarrow> []
                               | Some d \<Rightarrow> (if sm_type d = CallMsg
                                            then (case sm_reply d of None \<Rightarrow> [] | Some p \<Rightarrow> [p])
                                            else []));
                   buf = awrite (mb_buf mb1) (mb_head mb1) None;
                   mb2 = mb1\<lparr>mb_buf := buf, mb_head := (mb_head mb1 + 1) mod length buf\<rparr>
               in (push_tail mb2 msg, Inr True, rejected)
           | ErrorStrategy \<Rightarrow> (mb1, Inl (MailboxFullError None), []))"

definition dequeue :: "'m mailbox \<Rightarrow> 'm stashed_message option \<times> 'm mailbox" where
  "dequeue mb =
     (if mb_size mb = 0 then (None, mb)
      else let msg = aread (mb_buf mb) (mb_head mb);
               buf = awrite (mb_buf mb) (mb_head mb) None
           in (msg, mb\<lparr>mb_buf := buf, mb_head := (mb_head mb + 1) mod length buf,
                       mb_size := mb_size mb - 1\<rparr>))"

text \<open>
  The loop that grows until the messages fit. On an empty buffer the source would loop for
  ever; the buffer starts with 16 cells and no operation shrinks it (\<open>buf_nonempty\<close> below).
\<close>

function grow_until :: "nat \<Rightarrow> 'm mailbox \<Rightarrow> 'm mailbox" where
  "grow_until need mb =
     (if length (mb_buf mb) < need \<and> mb_buf mb \<noteq> [] then grow_until need (grow mb) else mb)"
  by pat_completeness auto
termination
  by (relation "measure (\<lambda>(need, mb). need - length (mb_buf mb))")
     (auto simp: grow_def Let_def intro!: diff_less_mono2)

declare grow_until.simps [simp del]

definition push_head :: "'m stashed_message \<Rightarrow> 'm mailbox \<Rightarrow> 'm mailbox" where
  "push_head msg mb =
     (let len = length (mb_buf mb); h = (mb_head mb + len - 1) mod len
      in mb\<lparr>mb_head := h, mb_buf := awrite (mb_buf mb) h (Some msg), mb_size := mb_size mb + 1\<rparr>)"

definition unshift :: "'m mailbox \<Rightarrow> 'm stashed_message list \<Rightarrow> 'm mailbox" where
  "unshift mb msgs = fold push_head (rev msgs) (grow_until (mb_size mb + length msgs) mb)"

definition clear :: "'m mailbox \<Rightarrow> 'm mailbox" where
  "clear mb = mb\<lparr>mb_buf := replicate (length (mb_buf mb)) None,
                mb_head := 0, mb_tail := 0, mb_size := 0\<rparr>"

definition toArray :: "'m mailbox \<Rightarrow> 'm stashed_message option list" where
  "toArray mb = map (\<lambda>i. aread (mb_buf mb) ((mb_head mb + i) mod length (mb_buf mb)))
                    [0..<mb_size mb]"

definition drain :: "'m mailbox \<Rightarrow> 'm stashed_message option list \<times> 'm mailbox" where
  "drain mb = (toArray mb, clear mb)"

text \<open>
  \<open>nextPow2\<close>: the bit operators of the language convert their operands to signed 32-bit
  integers (\<open>to_int32\<close>); \<open>>>\<close> is the arithmetic shift.
\<close>

definition to_int32 :: "int \<Rightarrow> int" where
  "to_int32 v = signed_take_bit 31 v"

definition or_shift :: "nat \<Rightarrow> int \<Rightarrow> int" where
  "or_shift k v = to_int32 v OR drop_bit k (to_int32 v)"

definition nextPow2 :: "int \<Rightarrow> int" where
  "nextPow2 n =
     (let v = n - 1; v = or_shift 1 v; v = or_shift 2 v; v = or_shift 4 v;
          v = or_shift 8 v; v = or_shift 16 v
      in v + 1)"

definition replaceWith :: "'m mailbox \<Rightarrow> 'm stashed_message list \<Rightarrow> 'm mailbox" where
  "replaceWith mb msgs =
     (let needed = nat (max 16 (nextPow2 (int (length msgs))));
          buf0 = (if length (mb_buf mb) < needed then replicate needed None
                  else replicate (length (mb_buf mb)) None);
          buf = fold (\<lambda>i b. awrite b i (Some (msgs ! i))) [0..<length msgs] buf0
      in mb\<lparr>mb_buf := buf, mb_head := 0, mb_tail := length msgs, mb_size := length msgs\<rparr>)"

section \<open>Refinement to a list\<close>

text \<open>
  \<open>mb_rep mb xs\<close>: the ring is well formed and holds exactly the messages \<open>xs\<close>, oldest first.
\<close>

definition mb_rep :: "'m mailbox \<Rightarrow> 'm stashed_message list \<Rightarrow> bool" where
  "mb_rep mb xs \<longleftrightarrow>
     mb_head mb < length (mb_buf mb) \<and> mb_size mb \<le> length (mb_buf mb) \<and>
     mb_tail mb = (mb_head mb + mb_size mb) mod length (mb_buf mb) \<and>
     toArray mb = map Some xs"

lemma ring_index: "h < L \<Longrightarrow> i < L \<Longrightarrow> (h + i) mod L = (if h + i < L then h + i else h + i - L)"
  for L :: nat
  by (auto simp: le_mod_geq)

lemma ring_inj: "h < L \<Longrightarrow> i < L \<Longrightarrow> j < L \<Longrightarrow> (h + i) mod L = (h + j) mod L \<longleftrightarrow> i = j"
  for L :: nat
  by (auto simp: ring_index split: if_splits)

lemma ring_prev: "h < L \<Longrightarrow> Suc i < L \<Longrightarrow> ((h + L - 1) mod L + Suc i) mod L = (h + i) mod L"
  for L :: nat
  by (cases h) (auto simp: ring_index split: if_splits)

lemma mod_lt: "h < L \<Longrightarrow> x mod L < L"
  for L :: nat
  by (cases L) auto

lemma map_nth_conv: "map f [0..<n] = map Some xs \<longleftrightarrow> n = length xs \<and> (\<forall>i<n. f i = Some (xs ! i))"
  by (auto simp: list_eq_iff_nth_eq)

lemma mb_rep_iff:
  "mb_rep mb xs \<longleftrightarrow>
     mb_head mb < length (mb_buf mb) \<and> mb_size mb \<le> length (mb_buf mb) \<and>
     mb_tail mb = (mb_head mb + mb_size mb) mod length (mb_buf mb) \<and> mb_size mb = length xs \<and>
     (\<forall>i<mb_size mb. aread (mb_buf mb) ((mb_head mb + i) mod length (mb_buf mb)) = Some (xs ! i))"
  by (auto simp: mb_rep_def toArray_def map_nth_conv simp del: upt_Suc)

lemma mb_rep_size: "mb_rep mb xs \<Longrightarrow> mb_size mb = length xs"
  by (simp add: mb_rep_iff)

lemma mb_rep_more [simp]: "mb_rep (mb\<lparr>mb_dropped := d\<rparr>) xs = mb_rep mb xs"
  by (simp add: mb_rep_iff)

lemma buf_nonempty:
  assumes "mb_rep mb xs"
  shows "mb_buf mb \<noteq> []"
proof -
  from assms have "mb_head mb < length (mb_buf mb)" unfolding mb_rep_iff by (elim conjE)
  then show ?thesis by auto
qed

lemma mb_rep_new [simp]: "mb_rep (new_mailbox c) []"
  by (simp add: mb_rep_iff new_mailbox_def)

lemma mb_rep_clear: "mb_rep mb xs \<Longrightarrow> mb_rep (clear mb) []"
  using buf_nonempty [of mb xs] by (simp add: mb_rep_iff clear_def)

lemma mb_rep_grow:
  assumes "mb_rep mb xs"
  shows "mb_rep (grow mb) xs"
proof -
  let ?L = "length (mb_buf mb)"
  from assms have b: "mb_head mb < ?L" "mb_size mb \<le> ?L" "mb_size mb = length xs"
    "\<And>i. i < length xs \<Longrightarrow> aread (mb_buf mb) ((mb_head mb + i) mod ?L) = Some (xs ! i)"
    by (auto simp: mb_rep_iff)
  then have "i < length xs \<Longrightarrow> aread (mb_buf (grow mb)) (i mod (2 * ?L)) = Some (xs ! i)" for i
    by (simp add: grow_def Let_def aread_def)
  with b show ?thesis
    by (auto simp: mb_rep_iff grow_def Let_def)
qed

lemma length_grow [simp]: "length (mb_buf (grow mb)) = 2 * length (mb_buf mb)"
  and grow_config [simp]: "mb_maxSize (grow mb) = mb_maxSize mb"
    "mb_overflow (grow mb) = mb_overflow mb" "mb_size (grow mb) = mb_size mb"
    "mb_dropped (grow mb) = mb_dropped mb"
  by (simp_all add: grow_def Let_def)

lemma push_tail_config [simp]:
  "mb_maxSize (push_tail mb m) = mb_maxSize mb" "mb_overflow (push_tail mb m) = mb_overflow mb"
  "mb_size (push_tail mb m) = mb_size mb" "mb_head (push_tail mb m) = mb_head mb"
  "mb_dropped (push_tail mb m) = mb_dropped mb"
  by (simp_all add: push_tail_def Let_def)

lemma mb_rep_push_tail:
  assumes rep: "mb_rep mb xs" and room: "mb_size mb < length (mb_buf mb)"
  shows "mb_rep ((push_tail mb m)\<lparr>mb_size := mb_size mb + 1\<rparr>) (xs @ [m])"
proof -
  let ?L = "length (mb_buf mb)"
  from rep have b: "mb_head mb < ?L" "mb_tail mb = (mb_head mb + length xs) mod ?L"
    "mb_size mb = length xs"
    "\<And>i. i < length xs \<Longrightarrow> aread (mb_buf mb) ((mb_head mb + i) mod ?L) = Some (xs ! i)"
    by (auto simp: mb_rep_iff)
  with room have len: "length xs < ?L" by simp
  from b(2) have t: "mb_tail mb < ?L" by (simp add: mod_lt [OF b(1)])
  have neq: "i < length xs \<Longrightarrow> (mb_head mb + i) mod ?L \<noteq> mb_tail mb" for i
    using b(1,2) len by (simp add: ring_inj)
  have m: "max ?L (Suc (mb_tail mb)) = ?L" using t by simp
  have "i < Suc (length xs) \<Longrightarrow>
      aread (awrite (mb_buf mb) (mb_tail mb) (Some m)) ((mb_head mb + i) mod ?L)
        = Some ((xs @ [m]) ! i)" for i
    using b neq by (cases "i = length xs") (auto simp: nth_append)
  then show ?thesis
    using b len m by (simp add: mb_rep_iff push_tail_def Let_def mod_Suc_eq)
qed

lemma mb_rep_drop_head:
  assumes rep: "mb_rep mb (x # xs)"
  shows "mb_rep (mb\<lparr>mb_buf := awrite (mb_buf mb) (mb_head mb) None,
                   mb_head := (mb_head mb + 1) mod length (awrite (mb_buf mb) (mb_head mb) None),
                   mb_size := mb_size mb - 1\<rparr>) xs"
    and "aread (mb_buf mb) (mb_head mb) = Some x"
proof -
  let ?L = "length (mb_buf mb)"
  from rep have b: "mb_head mb < ?L" "mb_tail mb = (mb_head mb + Suc (length xs)) mod ?L"
    "mb_size mb = Suc (length xs)" "Suc (length xs) \<le> ?L"
    and rd: "\<And>i. i < Suc (length xs) \<Longrightarrow>
       aread (mb_buf mb) ((mb_head mb + i) mod ?L) = Some ((x # xs) ! i)"
    by (auto simp: mb_rep_iff)
  from rd [of 0] b(1) show "aread (mb_buf mb) (mb_head mb) = Some x" by simp
  have m: "max ?L (Suc (mb_head mb)) = ?L" using b(1) by simp
  have "i < length xs \<Longrightarrow> (mb_head mb + Suc i) mod ?L \<noteq> mb_head mb" for i
    using b(1,4) ring_inj [of "mb_head mb" ?L "Suc i" 0] buf_nonempty [OF rep] by auto
  with rd [of "Suc _"] have "i < length xs \<Longrightarrow>
      aread (awrite (mb_buf mb) (mb_head mb) None) ((mb_head mb + Suc i) mod ?L) = Some (xs ! i)" for i
    by simp
  with b m show "mb_rep (mb\<lparr>mb_buf := awrite (mb_buf mb) (mb_head mb) None,
      mb_head := (mb_head mb + 1) mod length (awrite (mb_buf mb) (mb_head mb) None),
      mb_size := mb_size mb - 1\<rparr>) xs"
    by (simp add: mb_rep_iff mod_simps mod_lt [OF b(1)])
qed

lemma dequeue_empty: "mb_rep mb [] \<Longrightarrow> dequeue mb = (None, mb)"
  by (simp add: mb_rep_iff dequeue_def)

lemma dequeue_Cons:
  assumes "mb_rep mb (x # xs)"
  shows "fst (dequeue mb) = Some x" and "mb_rep (snd (dequeue mb)) xs"
  using mb_rep_drop_head [OF assms] mb_rep_size [OF assms]
  by (simp_all add: dequeue_def Let_def)


section \<open>Every operation against its list specification\<close>

text \<open>What \<open>enqueue\<close> promises of the list of messages, on each branch.\<close>

definition spec_full :: "nat option \<Rightarrow> 'a list \<Rightarrow> bool" where
  "spec_full cap xs \<longleftrightarrow> (case cap of None \<Rightarrow> False | Some n \<Rightarrow> n \<le> length xs)"

definition reject_of :: "'m stashed_message \<Rightarrow> nat list" where
  "reject_of m = (if sm_type m = CallMsg then (case sm_reply m of None \<Rightarrow> [] | Some p \<Rightarrow> [p]) else [])"

definition spec_enqueue ::
  "nat option \<Rightarrow> overflow_strategy \<Rightarrow> 'm stashed_message list \<Rightarrow> 'm stashed_message \<Rightarrow>
     'm stashed_message list \<times> (js_error + bool) \<times> nat list" where
  "spec_enqueue cap strategy xs m =
     (if \<not> spec_full cap xs then (xs @ [m], Inr True, [])
      else case strategy of
             DropNewest \<Rightarrow> (xs, Inr False, [])
           | DropOldest \<Rightarrow> (tl xs @ [m], Inr True, reject_of (hd xs))
           | ErrorStrategy \<Rightarrow> (xs, Inl (MailboxFullError None), []))"

lemma isFull_spec: "mb_rep mb xs \<Longrightarrow> isFull mb = spec_full (mb_maxSize mb) xs"
  by (simp add: isFull_def spec_full_def mb_rep_size split: option.split)

lemma enqueue_config [simp]:
  "mb_maxSize (fst (enqueue mb m)) = mb_maxSize mb"
  "mb_overflow (fst (enqueue mb m)) = mb_overflow mb"
  by (simp_all add: enqueue_def Let_def split: overflow_strategy.split)

lemma enqueue_room:
  assumes rep: "mb_rep mb xs" and room: "\<not> isFull mb"
  shows "mb_rep (fst (enqueue mb m)) (xs @ [m])" and "snd (enqueue mb m) = (Inr True, [])"
proof -
  let ?mb = "if mb_size mb = length (mb_buf mb) then grow mb else mb"
  have rep': "mb_rep ?mb xs" using rep by (simp add: mb_rep_grow)
  have "mb_size ?mb < length (mb_buf ?mb)"
    using rep buf_nonempty [OF rep] by (auto simp: mb_rep_iff)
  from mb_rep_push_tail [OF rep' this]
  show "mb_rep (fst (enqueue mb m)) (xs @ [m])"
    using room by (simp add: enqueue_def Let_def split: if_splits)
  show "snd (enqueue mb m) = (Inr True, [])"
    using room by (simp add: enqueue_def Let_def)
qed

lemma push_tail_ring:
  assumes "mb_rep (mb\<lparr>mb_size := n\<rparr>) xs" and "n < length (mb_buf mb)" and "mb_size mb = Suc n"
  shows "mb_rep (push_tail mb m) (xs @ [m])"
  using mb_rep_push_tail [OF assms(1), of m] assms(2,3)
  by (simp add: mb_rep_iff push_tail_def Let_def)

lemma enqueue_full:
  assumes rep: "mb_rep mb xs" and full: "isFull mb" and pos: "mb_maxSize mb = Some 0 \<Longrightarrow> xs \<noteq> []"
  shows "case spec_enqueue (mb_maxSize mb) (mb_overflow mb) xs m of
           (ys, r) \<Rightarrow> mb_rep (fst (enqueue mb m)) ys \<and> snd (enqueue mb m) = r"
proof -
  have spec: "spec_full (mb_maxSize mb) xs" using full isFull_spec [OF rep] by simp
  show ?thesis
  proof (cases "mb_overflow mb")
    case DropOldest
    from spec pos obtain x ys where Cons: "xs = x # ys"
      by (cases xs) (auto simp: spec_full_def split: option.splits)
    note head = mb_rep_drop_head [OF rep [unfolded Cons]]
    let ?mb = "mb\<lparr>mb_dropped := mb_dropped mb + 1,
                 mb_buf := awrite (mb_buf mb) (mb_head mb) None,
                 mb_head := (mb_head mb + 1) mod length (awrite (mb_buf mb) (mb_head mb) None)\<rparr>"
    have "mb_rep (?mb\<lparr>mb_size := mb_size mb - 1\<rparr>) ys"
      using head(1) by (simp add: mb_rep_iff)
    moreover have "mb_size mb = Suc (length ys)" using mb_rep_size [OF rep] Cons by simp
    moreover have "length ys < length (mb_buf ?mb)"
      using rep Cons by (auto simp: mb_rep_iff)
    ultimately have "mb_rep (push_tail ?mb m) (ys @ [m])"
      by (intro push_tail_ring [where n = "mb_size mb - 1"]) auto
    then show ?thesis
      using spec full Cons DropOldest head(2)
      by (simp add: spec_enqueue_def enqueue_def Let_def reject_of_def)
  qed (use rep spec full in \<open>simp_all add: spec_enqueue_def enqueue_def Let_def\<close>)
qed

lemma enqueue_refines:
  assumes "mb_rep mb xs" and "mb_maxSize mb \<noteq> Some 0"
  shows "case spec_enqueue (mb_maxSize mb) (mb_overflow mb) xs m of
           (ys, r) \<Rightarrow> mb_rep (fst (enqueue mb m)) ys \<and> snd (enqueue mb m) = r"
  using enqueue_full [OF assms(1)] assms(2) enqueue_room [OF assms(1)] isFull_spec [OF assms(1)]
  by (cases "isFull mb") (simp_all add: spec_enqueue_def)

text \<open>The ring stays well formed with every configuration, capacity 0 included.\<close>

lemma enqueue_keeps_rep:
  assumes "mb_rep mb xs"
  shows "\<exists>ys. mb_rep (fst (enqueue mb m)) ys"
proof (cases "isFull mb \<and> mb_maxSize mb = Some 0 \<and> xs = []")
  case False
  then show ?thesis
    using enqueue_full [OF assms, of m] enqueue_room(1) [OF assms, of m] by (cases "isFull mb") (auto split: prod.splits)
next
  case True
  then have "mb_rep mb []" using assms by simp
  then have "mb_size mb = 0" "mb_head mb < length (mb_buf mb)" "mb_tail mb = mb_head mb"
    by (auto simp: mb_rep_iff)
  then show ?thesis
    using True assms
    by (cases "mb_overflow mb") (auto simp: enqueue_def Let_def push_tail_def mb_rep_iff intro!: exI [of _ "[]"] mod_lt)
qed

lemma mb_rep_grow_until: "mb_rep mb xs \<Longrightarrow> mb_rep (grow_until n mb) xs"
proof (induction n mb rule: grow_until.induct)
  case (1 n mb)
  then show ?case by (simp add: grow_until.simps [of n mb] mb_rep_grow)
qed

lemma grow_until_enough: "mb_buf mb \<noteq> [] \<Longrightarrow> n \<le> length (mb_buf (grow_until n mb))"
proof (induction n mb rule: grow_until.induct)
  case (1 n mb)
  have ne: "mb_buf (grow mb) \<noteq> []"
    using "1.prems" by (simp add: grow_def Let_def)
  show ?case
  proof (cases "length (mb_buf mb) < n")
    case True
    with "1.IH" "1.prems" ne have "n \<le> length (mb_buf (grow_until n (grow mb)))" by blast
    with True "1.prems" show ?thesis by (simp add: grow_until.simps [of n mb])
  next
    case False
    then show ?thesis by (simp add: grow_until.simps [of n mb])
  qed
qed

lemma grow_until_config [simp]:
  "mb_maxSize (grow_until n mb) = mb_maxSize mb" "mb_overflow (grow_until n mb) = mb_overflow mb"
  "mb_size (grow_until n mb) = mb_size mb"
proof (induction n mb rule: grow_until.induct)
  case (1 n mb)
  { case 1 from "1.IH"(1) show ?case by (simp add: grow_until.simps [of n mb]) }
  { case 2 from "1.IH"(2) show ?case by (simp add: grow_until.simps [of n mb]) }
  { case 3 from "1.IH"(3) show ?case by (simp add: grow_until.simps [of n mb]) }
qed

lemma mb_rep_push_head:
  assumes rep: "mb_rep mb xs" and room: "length xs < length (mb_buf mb)"
  shows "mb_rep (push_head m mb) (m # xs)" and "length (mb_buf (push_head m mb)) = length (mb_buf mb)"
proof -
  let ?L = "length (mb_buf mb)" and ?h = "(mb_head mb + length (mb_buf mb) - 1) mod length (mb_buf mb)"
  from rep have b: "mb_head mb < ?L" "mb_tail mb = (mb_head mb + length xs) mod ?L"
    "mb_size mb = length xs"
    "\<And>i. i < length xs \<Longrightarrow> aread (mb_buf mb) ((mb_head mb + i) mod ?L) = Some (xs ! i)"
    by (auto simp: mb_rep_iff)
  have h: "?h < ?L" by (rule mod_lt [OF b(1)])
  have prev: "i < length xs \<Longrightarrow> (?h + Suc i) mod ?L = (mb_head mb + i) mod ?L" for i
    using ring_prev [OF b(1)] room by simp
  have neq: "i < length xs \<Longrightarrow> (?h + Suc i) mod ?L \<noteq> ?h" for i
    using ring_inj [OF h, of "Suc i" 0] room b(1) mod_less [OF h] by force
  have m: "max ?L (Suc ?h) = ?L" using h by simp
  then show "length (mb_buf (push_head m mb)) = ?L" by (simp add: push_head_def Let_def)
  have tail: "(?h + Suc (length xs)) mod ?L = (mb_head mb + length xs) mod ?L"
    using room b(1) by (cases "mb_head mb") (auto simp: mod_simps)
  have "i < Suc (length xs) \<Longrightarrow>
     aread (awrite (mb_buf mb) ?h (Some m)) ((?h + i) mod ?L) = Some ((m # xs) ! i)" for i
    using b(4) prev neq h by (cases i) auto
  then show "mb_rep (push_head m mb) (m # xs)"
    using b room h m tail by (simp add: mb_rep_iff push_head_def Let_def)
qed

lemma push_head_config [simp]:
  "mb_maxSize (push_head m mb) = mb_maxSize mb" "mb_overflow (push_head m mb) = mb_overflow mb"
  by (simp_all add: push_head_def Let_def)

lemma mb_rep_fold_push_head:
  "mb_rep mb xs \<Longrightarrow> length ms + length xs \<le> length (mb_buf mb) \<Longrightarrow>
     mb_rep (fold push_head ms mb) (rev ms @ xs)"
  by (induction ms arbitrary: mb xs) (simp_all add: mb_rep_push_head)

lemma mb_rep_unshift:
  assumes "mb_rep mb xs"
  shows "mb_rep (unshift mb msgs) (msgs @ xs)"
  using mb_rep_fold_push_head [OF mb_rep_grow_until [OF assms],
          of "rev msgs" "mb_size mb + length msgs"]
    grow_until_enough [OF buf_nonempty [OF assms], of "mb_size mb + length msgs"]
    mb_rep_size [OF assms]
  by (simp add: unshift_def)

lemma unshift_config [simp]:
  "mb_maxSize (unshift mb ms) = mb_maxSize mb" "mb_overflow (unshift mb ms) = mb_overflow mb"
proof -
  have "mb_maxSize (fold push_head xs m) = mb_maxSize m"
    "mb_overflow (fold push_head xs m) = mb_overflow m" for xs and m :: "'a mailbox"
    by (induction xs arbitrary: m) simp_all
  then show "mb_maxSize (unshift mb ms) = mb_maxSize mb" "mb_overflow (unshift mb ms) = mb_overflow mb"
    by (simp_all add: unshift_def)
qed


section \<open>\<open>nextPow2\<close> and \<open>replaceWith\<close>\<close>

text \<open>\<open>smeared d v w\<close>: a bit of \<open>w\<close> is set when one of the \<open>d\<close> bits of \<open>v\<close> from it upwards is.\<close>

definition smeared :: "nat \<Rightarrow> int \<Rightarrow> int \<Rightarrow> bool" where
  "smeared d v w \<longleftrightarrow> 0 \<le> w \<and> w < 2 ^ 31 \<and> (\<forall>i. bit w i \<longleftrightarrow> (\<exists>j<d. bit v (i + j)))"

lemma smeared_step:
  assumes sm: "smeared d v w" and k: "k \<le> d"
  shows "smeared (d + k) v (or_shift k w)"
proof -
  from sm have w: "0 \<le> w" "w < 2 ^ 31" and b: "\<And>i. bit w i \<longleftrightarrow> (\<exists>j<d. bit v (i + j))"
    by (auto simp: smeared_def)
  have id: "to_int32 w = w"
    using w by (simp add: to_int32_def signed_take_bit_int_eq_self)
  have "drop_bit k w \<le> w" using w zdiv_mono2 [of w 1 "2 ^ k"] by (simp add: drop_bit_eq_div)
  then have "or_shift k w < 2 ^ 31"
    using w OR_upper [of w 31 "drop_bit k w"] by (simp add: or_shift_def id)
  moreover have "bit (or_shift k w) i \<longleftrightarrow> (\<exists>j<d + k. bit v (i + j))" for i
  proof -
    have "bit (or_shift k w) i \<longleftrightarrow> (\<exists>j<d. bit v (i + j)) \<or> (\<exists>j<d. bit v (i + k + j))"
      by (simp add: or_shift_def id bit_or_iff bit_drop_bit_eq b add.commute)
    also have "\<dots> \<longleftrightarrow> (\<exists>j<d + k. bit v (i + j))"
    proof
      assume "(\<exists>j<d. bit v (i + j)) \<or> (\<exists>j<d. bit v (i + k + j))"
      then show "\<exists>j<d + k. bit v (i + j)"
        by (metis add.assoc add.commute nat_add_left_cancel_less trans_less_add1)
    next
      assume "\<exists>j<d + k. bit v (i + j)"
      then obtain j where j: "j < d + k" "bit v (i + j)" by blast
      show "(\<exists>j<d. bit v (i + j)) \<or> (\<exists>j<d. bit v (i + k + j))"
      proof (cases "j < d")
        case False
        with j k have "j - k < d" "bit v (i + k + (j - k))" by auto
        then show ?thesis by blast
      qed (use j in blast)
    qed
    finally show ?thesis .
  qed
  ultimately show ?thesis
    using w by (simp add: smeared_def or_shift_def id)
qed

lemma smeared_start: "0 \<le> v \<Longrightarrow> v < 2 ^ 31 \<Longrightarrow> smeared 1 v v"
  by (simp add: smeared_def)

lemma nextPow2_smeared:
  assumes "1 \<le> n" and "n \<le> 2 ^ 31"
  shows "smeared 32 (n - 1) (nextPow2 n - 1)"
proof -
  have "smeared 1 (n - 1) (n - 1)" using assms by (intro smeared_start) auto
  from smeared_step [OF smeared_step [OF smeared_step [OF smeared_step [OF smeared_step
        [OF this, of 1], of 2], of 4], of 8], of 16]
  show ?thesis by (simp add: nextPow2_def)
qed

lemma nextPow2_eq:
  assumes "2 \<le> n" and "n \<le> 2 ^ 31"
  shows "\<exists>k. nextPow2 n = 2 ^ k \<and> n \<le> 2 ^ k \<and> 2 ^ k < 2 * n"
proof -
  have "1 \<le> nat (n - 1)" using assms(1) by linarith
  then obtain m where m: "2 ^ m \<le> nat (n - 1)" "nat (n - 1) < 2 ^ (m + 1)"
    using ex_power_ivl1 [of 2 "nat (n - 1)"] by blast
  then have lo: "2 ^ m \<le> n - 1" and hi: "n - 1 < 2 ^ (m + 1)"
    using assms(1) by (simp_all add: le_nat_iff nat_less_iff)
  have "(2::int) ^ m < 2 ^ 31" using lo assms(2) by linarith
  then have m31: "m < 31" by (simp only: power_strict_increasing_iff)
  have top: "bit (n - 1) m"
  proof -
    have "(n - 1) div 2 ^ m = 1" using lo hi by (simp add: int_div_pos_eq [of _ _ 1 "n - 1 - 2 ^ m"])
    then show ?thesis by (simp add: bit_iff_odd)
  qed
  have above: "m < i \<Longrightarrow> \<not> bit (n - 1) i" for i
  proof -
    assume "m < i"
    then have "(2::int) ^ (m + 1) \<le> 2 ^ i" by (intro power_increasing) auto
    with hi assms(1) show "\<not> bit (n - 1) i" by (simp add: bit_iff_odd)
  qed
  have bits: "bit (nextPow2 n - 1) i \<longleftrightarrow> i < m + 1" for i
  proof -
    have "bit (nextPow2 n - 1) i \<longleftrightarrow> (\<exists>j<32. bit (n - 1) (i + j))"
      using nextPow2_smeared assms by (auto simp: smeared_def)
    moreover have "i \<le> m \<Longrightarrow> m - i < 32 \<and> bit (n - 1) (i + (m - i))" using top m31 by simp
    ultimately show ?thesis using above by (metis less_Suc_eq_le not_le Suc_eq_plus1 trans_less_add1)
  qed
  then have "nextPow2 n - 1 = mask (m + 1)"
    by (intro bit_eqI) (simp add: bit_mask_iff)
  then have "nextPow2 n = 2 ^ (m + 1)" by (simp add: mask_eq_exp_minus_1)
  with lo hi show ?thesis by (intro exI [of _ "m + 1"]) auto
qed


lemma fold_awrite:
  assumes "length msgs \<le> length buf"
  shows "length (fold (\<lambda>i b. awrite b i (Some (msgs ! i))) [0..<length msgs] buf) = length buf \<and>
    (\<forall>i<length msgs. aread (fold (\<lambda>i b. awrite b i (Some (msgs ! i))) [0..<length msgs] buf) i
       = Some (msgs ! i))"
proof -
  have "n \<le> length msgs \<Longrightarrow>
      length (fold (\<lambda>i b. awrite b i (Some (msgs ! i))) [0..<n] buf) = length buf \<and>
      (\<forall>i<n. aread (fold (\<lambda>i b. awrite b i (Some (msgs ! i))) [0..<n] buf) i = Some (msgs ! i))" for n
    using assms by (induction n) (auto simp: less_Suc_eq)
  then show ?thesis by blast
qed

lemma replaceWith_fits:
  assumes "int (length msgs) \<le> 2 ^ 31"
  shows "length msgs \<le> length (mb_buf (replaceWith mb msgs))"
    and "\<forall>i<length msgs. aread (mb_buf (replaceWith mb msgs)) i = Some (msgs ! i)"
proof -
  have "length msgs \<le> nat (max 16 (nextPow2 (int (length msgs))))"
  proof (cases "length msgs < 2")
    case False
    with nextPow2_eq [of "int (length msgs)"] assms
    have "int (length msgs) \<le> nextPow2 (int (length msgs))" by auto
    then show ?thesis by (simp add: le_nat_iff)
  qed simp
  then have "length msgs \<le> length (if length (mb_buf mb) < nat (max 16 (nextPow2 (int (length msgs))))
      then replicate (nat (max 16 (nextPow2 (int (length msgs))))) None
      else replicate (length (mb_buf mb)) None)" by simp
  from fold_awrite [OF this] this
  show "length msgs \<le> length (mb_buf (replaceWith mb msgs))"
    "\<forall>i<length msgs. aread (mb_buf (replaceWith mb msgs)) i = Some (msgs ! i)"
    by (simp_all add: replaceWith_def Let_def)
qed

lemma replaceWith_toArray:
  assumes "int (length msgs) \<le> 2 ^ 31"
  shows "toArray (replaceWith mb msgs) = map Some msgs"
proof (cases msgs)
  case Nil
  then show ?thesis by (simp add: toArray_def replaceWith_def Let_def)
next
  case Cons
  then have "i < length msgs \<Longrightarrow> i mod length (mb_buf (replaceWith mb msgs)) = i" for i
    using replaceWith_fits(1) [OF assms, of mb] by simp
  moreover have "mb_head (replaceWith mb msgs) = 0" "mb_size (replaceWith mb msgs) = length msgs"
    by (simp_all add: replaceWith_def Let_def)
  ultimately show ?thesis
    using replaceWith_fits(2) [OF assms, of mb] by (simp add: toArray_def map_nth_conv del: upt_Suc)
qed

lemma replaceWith_rep:
  assumes "int (length msgs) \<le> 2 ^ 31" and "length msgs < length (mb_buf (replaceWith mb msgs))"
  shows "mb_rep (replaceWith mb msgs) msgs"
  using assms(2) replaceWith_toArray [OF assms(1), of mb]
  by (auto simp: mb_rep_def replaceWith_def Let_def)

lemma length_fold_awrite:
  "length msgs \<le> length buf \<Longrightarrow>
     length (fold (\<lambda>i b. awrite b i (Some (msgs ! i))) [0..<length msgs] buf) = length buf"
  using fold_awrite by blast

text \<open>
  \<open>drained L n q\<close>: the state after replacing a mailbox by as many messages as its buffer has
  cells, \<open>L\<close>, and taking \<open>n\<close> of them out again; the write index stays at \<open>L\<close>.
\<close>

definition drained :: "nat \<Rightarrow> nat \<Rightarrow> 'm mailbox \<Rightarrow> bool" where
  "drained L n q \<longleftrightarrow> mb_size q = L - n \<and> mb_tail q = L \<and> mb_head q = n mod L \<and>
     length (mb_buf q) = L \<and> (\<forall>i<n. aread (mb_buf q) i = None) \<and> 0 < L"

lemma drained_dequeue:
  assumes "drained L n q" and "n < L"
  shows "drained L (Suc n) (snd (dequeue q)) \<and> mb_maxSize (snd (dequeue q)) = mb_maxSize q"
proof -
  from assms have "mb_size q = L - n" "mb_tail q = L" "mb_head q = n" "length (mb_buf q) = L"
    "\<forall>i<n. aread (mb_buf q) i = None" by (simp_all add: drained_def)
  moreover from this assms(2) have "max (length (mb_buf q)) (Suc n) = L" "mb_size q \<noteq> 0" by simp_all
  ultimately show ?thesis
    using assms(2) by (simp add: drained_def dequeue_def Let_def less_Suc_eq)
qed

lemma drained_start:
  assumes full: "length msgs = length (mb_buf (replaceWith mb msgs))"
  shows "drained (length msgs) 0 (replaceWith mb msgs)"
proof -
  have "msgs \<noteq> []"
    using full by (cases msgs) (auto simp: replaceWith_def Let_def split: if_splits)
  then show ?thesis using full by (simp add: drained_def replaceWith_def Let_def)
qed

lemma drained_after_replace:
  assumes full: "length msgs = length (mb_buf (replaceWith mb msgs))" and n: "n \<le> length msgs"
  defines "mb' \<equiv> ((\<lambda>q. snd (dequeue q)) ^^ n) (replaceWith mb msgs)"
  shows "drained (length msgs) n mb' \<and> mb_maxSize mb' = mb_maxSize mb"
  unfolding mb'_def using n
proof (induction n)
  case 0
  have "mb_maxSize (replaceWith mb msgs) = mb_maxSize mb" by (simp add: replaceWith_def Let_def)
  then show ?case using drained_start [OF full] by simp
next
  case (Suc n)
  then show ?case using drained_dequeue [of "length msgs" n] by auto
qed

lemma drained_loses:
  assumes "drained L L q" and "mb_maxSize q = None"
  shows "mb_size q = 0" and "snd (enqueue q m) = (Inr True, [])"
    and "mb_size (fst (enqueue q m)) = 1" and "fst (dequeue (fst (enqueue q m))) = None"
    and "mb_size (snd (dequeue (fst (enqueue q m)))) = 0"
  using assms by (simp_all add: drained_def enqueue_def isFull_def push_tail_def dequeue_def Let_def)

section \<open>The queue interface and its client lemmas\<close>

text \<open>
  What the scheduler of an actor relies on: a relation between a queue and the list it holds,
  and the law of each operation. \<open>put\<close> succeeds when there is room.
\<close>

locale message_queue =
  fixes rep :: "'q \<Rightarrow> 'm list \<Rightarrow> bool"
    and room :: "'q \<Rightarrow> bool"
    and put :: "'q \<Rightarrow> 'm \<Rightarrow> 'q"
    and take :: "'q \<Rightarrow> 'm option \<times> 'q"
  assumes put_rep: "rep q xs \<Longrightarrow> room q \<Longrightarrow> rep (put q m) (xs @ [m])"
    and take_empty: "rep q [] \<Longrightarrow> take q = (None, q)"
    and take_first: "rep q (x # xs) \<Longrightarrow> fst (take q) = Some x \<and> rep (snd (take q)) xs"
begin

text \<open>Draining a queue \<open>n\<close> times, as the batch loop of the scheduler does.\<close>

primrec take_n :: "nat \<Rightarrow> 'q \<Rightarrow> 'm list \<times> 'q" where
  "take_n 0 q = ([], q)"
| "take_n (Suc n) q =
     (case take q of (None, q') \<Rightarrow> ([], q')
      | (Some m, q') \<Rightarrow> (let (ms, q'') = take_n n q' in (m # ms, q'')))"

lemma take_n_prefix:
  "rep q xs \<Longrightarrow> fst (take_n n q) = List.take n xs \<and> rep (snd (take_n n q)) (drop n xs)"
proof (induction n arbitrary: q xs)
  case (Suc n)
  show ?case
  proof (cases xs)
    case Nil
    with Suc.prems show ?thesis by (simp add: take_empty)
  next
    case (Cons x ys)
    with Suc.prems take_first obtain q' where "take q = (Some x, q')" "rep q' ys"
      by (metis prod.collapse)
    with Cons Suc.IH [of q' ys] show ?thesis by (simp add: split_beta)
  qed
qed simp

lemma put_take_order:
  assumes "rep q xs" and "room q"
  shows "fst (take_n (Suc (length xs)) (put q m)) = xs @ [m]"
  using take_n_prefix [OF put_rep [OF assms], of "Suc (length xs)" m] by simp

end

text \<open>A queue that messages can also be put back at the front of (stash, migration rollback).\<close>

locale message_deque = message_queue rep room put take
  for rep :: "'q \<Rightarrow> 'm list \<Rightarrow> bool" and room put take +
  fixes push_front :: "'q \<Rightarrow> 'm list \<Rightarrow> 'q"
  assumes push_front_rep: "rep q xs \<Longrightarrow> rep (push_front q ms) (ms @ xs)"
begin

lemma push_front_first:
  "rep q xs \<Longrightarrow> fst (take_n (length ms) (push_front q ms)) = ms"
  using take_n_prefix [OF push_front_rep, of q xs "length ms" ms] by simp

lemma push_front_restores:
  assumes "rep q xs"
  shows "rep (push_front (snd (take_n n q)) (fst (take_n n q))) xs"
  using push_front_rep [of "snd (take_n n q)" "drop n xs" "fst (take_n n q)"] take_n_prefix [OF assms, of n]
  by simp

end

interpretation ring: message_deque mb_rep "\<lambda>mb. \<not> isFull mb" "\<lambda>mb m. fst (enqueue mb m)"
  dequeue unshift
  by unfold_locales (simp_all add: enqueue_room dequeue_empty dequeue_Cons mb_rep_unshift)


section \<open>Traces\<close>

text \<open>
  A mailbox driven by a sequence of operations and the outputs its owner sees, next to the
  same sequence on a list.
\<close>

datatype 'm mb_op =
    Enq "'m stashed_message" | Deq | Unshift "'m stashed_message list" | Clear | Drain | ToArray

datatype 'm mb_out =
    OEnq "js_error + bool" "nat list"
  | OMsg "'m stashed_message option"
  | ONone
  | OAll "'m stashed_message option list"

fun mb_step :: "'m mb_op \<Rightarrow> 'm mailbox \<Rightarrow> 'm mb_out \<times> 'm mailbox" where
  "mb_step (Enq m) mb = (case enqueue mb m of (mb', r, rej) \<Rightarrow> (OEnq r rej, mb'))"
| "mb_step Deq mb = (case dequeue mb of (m, mb') \<Rightarrow> (OMsg m, mb'))"
| "mb_step (Unshift ms) mb = (ONone, unshift mb ms)"
| "mb_step Clear mb = (ONone, clear mb)"
| "mb_step Drain mb = (case drain mb of (ms, mb') \<Rightarrow> (OAll ms, mb'))"
| "mb_step ToArray mb = (OAll (toArray mb), mb)"

fun mb_run :: "'m mb_op list \<Rightarrow> 'm mailbox \<Rightarrow> 'm mb_out list" where
  "mb_run [] mb = []"
| "mb_run (x # xs) mb = (case mb_step x mb of (out, mb') \<Rightarrow> out # mb_run xs mb')"

fun list_step :: "nat option \<Rightarrow> overflow_strategy \<Rightarrow> 'm mb_op \<Rightarrow> 'm stashed_message list \<Rightarrow>
    'm mb_out \<times> 'm stashed_message list" where
  "list_step cap st (Enq m) xs = (case spec_enqueue cap st xs m of (ys, r, rej) \<Rightarrow> (OEnq r rej, ys))"
| "list_step cap st Deq xs = (case xs of [] \<Rightarrow> (OMsg None, []) | y # ys \<Rightarrow> (OMsg (Some y), ys))"
| "list_step cap st (Unshift ms) xs = (ONone, ms @ xs)"
| "list_step cap st Clear xs = (ONone, [])"
| "list_step cap st Drain xs = (OAll (map Some xs), [])"
| "list_step cap st ToArray xs = (OAll (map Some xs), xs)"

fun list_run :: "nat option \<Rightarrow> overflow_strategy \<Rightarrow> 'm mb_op list \<Rightarrow> 'm stashed_message list \<Rightarrow>
    'm mb_out list" where
  "list_run cap st [] xs = []"
| "list_run cap st (x # ops) xs = (case list_step cap st x xs of (out, ys) \<Rightarrow> out # list_run cap st ops ys)"

lemma dequeue_config [simp]:
  "mb_maxSize (snd (dequeue mb)) = mb_maxSize mb" "mb_overflow (snd (dequeue mb)) = mb_overflow mb"
  by (simp_all add: dequeue_def Let_def)

lemma clear_config [simp]:
  "mb_maxSize (clear mb) = mb_maxSize mb" "mb_overflow (clear mb) = mb_overflow mb"
  by (simp_all add: clear_def)

lemma mb_rep_toArray: "mb_rep mb xs \<Longrightarrow> toArray mb = map Some xs"
  by (simp add: mb_rep_def)

lemma mb_step_refines:
  assumes rep: "mb_rep mb xs" and pos: "mb_maxSize mb \<noteq> Some 0"
  shows "fst (mb_step x mb) = fst (list_step (mb_maxSize mb) (mb_overflow mb) x xs)"
    and "mb_rep (snd (mb_step x mb)) (snd (list_step (mb_maxSize mb) (mb_overflow mb) x xs))"
    and "mb_maxSize (snd (mb_step x mb)) = mb_maxSize mb"
    and "mb_overflow (snd (mb_step x mb)) = mb_overflow mb"
proof -
  have "fst (mb_step x mb) = fst (list_step (mb_maxSize mb) (mb_overflow mb) x xs) \<and>
    mb_rep (snd (mb_step x mb)) (snd (list_step (mb_maxSize mb) (mb_overflow mb) x xs)) \<and>
    mb_maxSize (snd (mb_step x mb)) = mb_maxSize mb \<and> mb_overflow (snd (mb_step x mb)) = mb_overflow mb"
  proof (cases x)
    case (Enq m)
    then show ?thesis
      using enqueue_refines [OF rep pos, of m] enqueue_config [of mb m]
      by (cases "enqueue mb m") (auto simp: split_beta)
  next
    case Deq
    then show ?thesis
      using rep dequeue_empty [of mb] dequeue_Cons [of mb] dequeue_config [of mb]
      by (cases xs; cases "dequeue mb") auto
  next
    case Drain
    then show ?thesis using rep by (simp add: drain_def mb_rep_toArray mb_rep_clear)
  qed (use rep in \<open>simp_all add: mb_rep_unshift mb_rep_clear mb_rep_toArray\<close>)
  then show "fst (mb_step x mb) = fst (list_step (mb_maxSize mb) (mb_overflow mb) x xs)"
    "mb_rep (snd (mb_step x mb)) (snd (list_step (mb_maxSize mb) (mb_overflow mb) x xs))"
    "mb_maxSize (snd (mb_step x mb)) = mb_maxSize mb"
    "mb_overflow (snd (mb_step x mb)) = mb_overflow mb"
    by blast+
qed

lemma mb_run_refines:
  "mb_rep mb xs \<Longrightarrow> mb_maxSize mb \<noteq> Some 0 \<Longrightarrow>
     mb_run ops mb = list_run (mb_maxSize mb) (mb_overflow mb) ops xs"
proof (induction ops arbitrary: mb xs)
  case (Cons x ops)
  note step = mb_step_refines [OF Cons.prems, of x]
  have "mb_run ops (snd (mb_step x mb)) = list_run (mb_maxSize mb) (mb_overflow mb) ops
      (snd (list_step (mb_maxSize mb) (mb_overflow mb) x xs))"
    using Cons.IH [OF step(2)] step(3,4) Cons.prems(2) by simp
  with step(1) show ?case by (simp add: split_beta)
qed simp

section \<open>Properties\<close>

text \<open>
  C1: Driven by any sequence of enqueue, dequeue, unshift, clear, drain and toArray, a new
  mailbox shows its owner exactly what a first-in first-out list with the configured capacity
  and overflow strategy shows: the same results, thrown errors, dropped and rejected messages,
  in the same order (the ring, its growth and its wrap-around are invisible). Capacity 0 is
  the one configuration left out.
\<close>

theorem mailbox_refines_fifo:
  assumes "cfg_maxSize c \<noteq> Some 0"
  shows "mb_run ops (new_mailbox c) =
    list_run (cfg_maxSize c) (case cfg_overflow c of None \<Rightarrow> DropNewest | Some s \<Rightarrow> s) ops []"
  using mb_run_refines [OF mb_rep_new, of c ops] assms by (simp add: new_mailbox_def)

theorem mailbox_refines_fifo_witness:
  "mb_run [Enq \<lparr>sm_type = CallMsg, sm_message = ''a'', sm_reply = Some 7\<rparr>,
           Enq \<lparr>sm_type = CastMsg, sm_message = ''b'', sm_reply = None\<rparr>, Deq, Deq]
     (new_mailbox \<lparr>cfg_maxSize = Some 1, cfg_overflow = Some DropOldest\<rparr>) =
   [OEnq (Inr True) [], OEnq (Inr True) [7],
    OMsg (Some \<lparr>sm_type = CastMsg, sm_message = ''b'', sm_reply = None\<rparr>), OMsg None]"
  by (subst mailbox_refines_fifo) (simp_all add: spec_enqueue_def spec_full_def reject_of_def)

text \<open>
  \<open>replaceWith\<close> (which migration uses to keep the casts of a mailbox after rejecting its
  calls) makes the mailbox hold exactly the given messages, whatever it held before, and the
  mailbox is a well-formed queue again provided the messages do not fill the buffer exactly.
\<close>

theorem replaceWith_restores_queue:
  assumes "int (length msgs) \<le> 2 ^ 31"
    and "length msgs < length (mb_buf (replaceWith mb msgs))"
  shows "toArray (replaceWith mb msgs) = map Some msgs \<and> mb_rep (replaceWith mb msgs) msgs"
  using replaceWith_toArray [OF assms(1)] replaceWith_rep [OF assms] by blast

theorem replaceWith_restores_queue_witness:
  "mb_rep (replaceWith (new_mailbox DEFAULT_MAILBOX_CONFIG)
             [\<lparr>sm_type = CastMsg, sm_message = ''a'', sm_reply = None\<rparr>])
     [\<lparr>sm_type = CastMsg, sm_message = ''a'', sm_reply = None\<rparr>]"
  using replaceWith_restores_queue
    [of "[\<lparr>sm_type = CastMsg, sm_message = ''a'', sm_reply = None\<rparr>]"
        "new_mailbox DEFAULT_MAILBOX_CONFIG"]
  by (simp add: replaceWith_def new_mailbox_def DEFAULT_MAILBOX_CONFIG_def Let_def max_def
      split: if_splits)

text \<open>
  C40: A message lost after an exact fill. Let \<open>replaceWith\<close> put exactly as many messages into an
  unbounded mailbox as its new ring holds, which leaves the write index one past the end, and let
  all of them be taken out before anything else is enqueued. Then the next message enqueued is
  accepted (\<open>enqueue\<close> returns true and the length becomes 1), yet the following \<open>dequeue\<close> returns
  undefined, brings the length back to 0 and the message is never delivered. (While the ring is
  still full a message makes it grow and is kept; one enqueued after some but not all were taken
  out is read where it was written.)
\<close>

theorem replaceWith_loses_message:
  assumes "int (length msgs) \<le> 2 ^ 31" and "mb_maxSize mb = None"
    and "length msgs = length (mb_buf (replaceWith mb msgs))"
  shows "let mb1 = ((\<lambda>q. snd (dequeue q)) ^^ length msgs) (replaceWith mb msgs);
             mb2 = fst (enqueue mb1 m)
         in mb_size mb1 = 0 \<and> snd (enqueue mb1 m) = (Inr True, []) \<and> mb_size mb2 = 1 \<and>
            fst (dequeue mb2) = None \<and> mb_size (snd (dequeue mb2)) = 0"
proof -
  have "drained (length msgs) (length msgs) (((\<lambda>q. snd (dequeue q)) ^^ length msgs) (replaceWith mb msgs))"
    "mb_maxSize (((\<lambda>q. snd (dequeue q)) ^^ length msgs) (replaceWith mb msgs)) = None"
    using drained_after_replace [OF assms(3) order_refl] assms(2) by simp_all
  from drained_loses [OF this] show ?thesis unfolding Let_def by blast
qed

theorem replaceWith_loses_message_witness:
  "let m = \<lparr>sm_type = CastMsg, sm_message = ''m'', sm_reply = None\<rparr>;
       mb1 = ((\<lambda>q. snd (dequeue q)) ^^ 16)
               (replaceWith (new_mailbox DEFAULT_MAILBOX_CONFIG) (replicate 16 m))
   in fst (dequeue (fst (enqueue mb1 m))) = None"
proof -
  let ?m = "\<lparr>sm_type = CastMsg, sm_message = ''m'', sm_reply = None\<rparr>"
  have p: "nextPow2 16 = 16" by code_simp
  have "length (mb_buf (replaceWith (new_mailbox DEFAULT_MAILBOX_CONFIG) (replicate 16 ?m))) = 16"
    using length_fold_awrite [of "replicate 16 ?m" "replicate 16 None"]
    by (simp add: replaceWith_def new_mailbox_def Let_def p del: replicate.simps)
  moreover have "mb_maxSize (new_mailbox DEFAULT_MAILBOX_CONFIG :: string mailbox) = None"
    by (simp add: new_mailbox_def DEFAULT_MAILBOX_CONFIG_def)
  ultimately show ?thesis
    using replaceWith_loses_message
      [of "replicate 16 ?m" "new_mailbox DEFAULT_MAILBOX_CONFIG" ?m]
    by (simp add: Let_def del: replicate.simps)
qed

end
