(* ===== verification/Actor_State.thy ===== *)
theory Actor_State
  imports Mailbox
begin

text \<open>
  The data of the actor system: the references, messages and contexts of \<open>src/actor.ts\<close> and
  the tables of the class \<open>ActorSystem\<close> of \<open>src/actor_system.ts\<close>, as one record. User code
  (the handlers of an actor) is not modelled: what the system does to it or to other nodes is
  recorded, in order, in the field \<open>outbox\<close>.
\<close>

section \<open>References and messages\<close>

text \<open>
  An \<open>ActorRef\<close>. A \<open>Set\<close> of references compares object identities, so the model
  remembers whether a reference is the object created when the actor was spawned
  (\<open>ref_original\<close>) or one rebuilt from the actor's id with \<open>new ActorRef\<close>.
\<close>

record actor_ref =
  ref_node :: string
  ref_id :: string
  ref_name :: "string option"
  ref_original :: bool

definition ActorId_toString :: "actor_ref \<Rightarrow> string" where
  "ActorId_toString r =
     ref_node r @ ''/'' @ (case ref_name r of Some n \<Rightarrow> (if n = '''' then ref_id r else n)
                          | None \<Rightarrow> ref_id r)"

record watch_ref =
  wr_id :: string
  wr_watcherId :: string
  wr_watchedId :: string

record link_ref =
  lr_id :: string
  lr_actor1Id :: string
  lr_actor2Id :: string

record timer_ref =
  tr_id :: string
  tr_actorId :: string
  tr_isInterval :: bool

record timer_entry =
  te_ref :: timer_ref
  te_message :: string

datatype termination_reason = NormalExit | ErrorExit string | KilledExit

datatype info_message =
    DownMessage watch_ref actor_ref termination_reason
  | ExitMessage "link_ref option" actor_ref termination_reason
  | TimeoutMessage int
  | MovedMessage "watch_ref option" "link_ref option" actor_ref string string string

datatype child_strategy = OneForOne | OneForAll | RestForOne

record child_supervision =
  cs_strategy :: child_strategy
  cs_maxRestarts :: nat
  cs_periodMs :: int

definition DEFAULT_CHILD_SUPERVISION :: child_supervision where
  "DEFAULT_CHILD_SUPERVISION = \<lparr>cs_strategy = OneForOne, cs_maxRestarts = 3, cs_periodMs = 5000\<rparr>"

text \<open>
  A user's actor class: its name, what its \<open>childSupervision\<close> returns, and whether it defines
  both \<open>getState\<close> and \<open>setState\<close>.
\<close>

record actor_class =
  ac_name :: string
  ac_supervision :: child_supervision
  ac_getState :: bool
  ac_setState :: bool

definition isMigratable :: "actor_class \<Rightarrow> bool" where
  "isMigratable c \<longleftrightarrow> ac_getState c \<and> ac_setState c"

datatype placement_strategy = LocalPlacement | RoundRobin

record spawn_options =
  so_name :: "string option"
  so_args :: "string list option"
  so_strategy :: "placement_strategy option"
  so_role :: "string option"
  so_mailbox :: "mailbox_config option"

text \<open>\<open>if (name)\<close>: the empty string counts as no name.\<close>

definition truthy_name :: "string option \<Rightarrow> string option" where
  "truthy_name n = (case n of Some s \<Rightarrow> (if s = '''' then None else Some s) | None \<Rightarrow> None)"

section \<open>Contexts\<close>

text \<open>
  An actor instance: its class, its own reference (\<open>self\<close>) and its context. \<open>children\<close> and
  the maps \<open>watches\<close>, \<open>links\<close>, \<open>timers\<close> keep insertion order.
\<close>

record actor =
  a_class :: actor_class
  a_self :: actor_ref
  a_parent :: "actor_ref option"
  a_children :: "actor_ref list"
  a_childOrder :: "actor_ref list"
  a_watches :: "(string, watch_ref) jsmap"
  a_links :: "(string, link_ref) jsmap"
  a_stash :: "string stashed_message list"
  a_current :: "string stashed_message option"
  a_timers :: "(string, timer_entry) jsmap"
  a_trapExit :: bool
  a_idleTimeout :: int
  a_lastActivity :: int
  a_idleArmed :: bool

definition new_actor :: "actor_class \<Rightarrow> actor_ref \<Rightarrow> actor_ref option \<Rightarrow> int \<Rightarrow> actor" where
  "new_actor c self parent now =
     \<lparr>a_class = c, a_self = self, a_parent = parent, a_children = [], a_childOrder = [],
      a_watches = [], a_links = [], a_stash = [], a_current = None, a_timers = [],
      a_trapExit = False, a_idleTimeout = 0, a_lastActivity = now, a_idleArmed = False\<rparr>"

record actor_metadata =
  md_class :: actor_class
  md_options :: spawn_options
  md_parent :: "actor_ref option"

section \<open>Tables of the system\<close>

record watch_entry =
  we_ref :: watch_ref
  we_watcher :: actor_ref
  we_watched :: actor_ref

record remote_watcher =
  rw_refId :: string
  rw_node :: string
  rw_actor :: string

record remote_watch =
  rwe_ref :: watch_ref
  rwe_watcher :: actor_ref
  rwe_node :: string
  rwe_actor :: string

record link_entry =
  le_ref :: link_ref
  le_actor1 :: actor_ref
  le_actor2 :: actor_ref

record remote_linker =
  rl_refId :: string
  rl_node :: string
  rl_actor :: string
  rl_trapExit :: bool

record remote_link =
  rle_ref :: link_ref
  rle_local :: actor_ref
  rle_node :: string
  rle_actor :: string

record remote_child =
  rc_ref :: actor_ref
  rc_node :: string
  rc_parent :: actor_ref
  rc_class :: actor_class
  rc_options :: spawn_options

record remote_parent =
  rp_node :: string
  rp_actor :: string

record restart_record =
  rr_count :: nat
  rr_timestamp :: int

datatype supervision_strategy = RestartStrategy | StopStrategy

record supervision_options =
  sup_strategy :: supervision_strategy
  sup_maxRestarts :: nat
  sup_periodMs :: int

section \<open>What the system sends\<close>

text \<open>
  A termination reason on the wire: errors are not serializable, so the message travels. A
  reason whose error carries no text arrives as it was sent (\<open>WireError None\<close>).
\<close>

datatype wire_reason = WireNormal | WireError "string option" | WireKilled

datatype rpc =
    WatchAdd string string string string
  | WatchRemove string string
  | WatchDown string string wire_reason
  | WatchMoved string "string option" string string string
  | LinkAdd string string string string bool
  | LinkRemove string string
  | LinkExit string string wire_reason
  | LinkMoved string "string option" string string string
  | ChildSpawn string string spawn_options string string
  | ChildRestart string string string string
  | ChildStop string string string
  | ChildCrash string string string termination_reason "string option"
  | SpawnRpc string actor_ref spawn_options
  | CastRpc actor_ref string
  | CallRpc actor_ref string

text \<open>
  The effects of the system, in the order it performs them: calls of user code
  (\<open>handleInfo\<close>, \<open>init\<close>, \<open>terminate\<close>), messages and requests to other nodes, and the
  operations on the registry and the process groups.
\<close>

datatype out_effect =
    HandleInfo string info_message
  | CallInit string
  | CallTerminate string
  | SendTo string rpc
  | RequestTo string rpc
  | RegistryRegister string string string
  | RegistryUnregister string
  | GroupsLeaveAll string

text \<open>
  The state of one node. \<open>uuids\<close> counts the ids drawn from the \<open>uuid\<close> package: the operations
  that create actors take the sequence of ids as a parameter.
\<close>

record sys =
  sys_id :: string
  actors :: "(string, actor) jsmap"
  mailboxes :: "(string, string mailbox) jsmap"
  actorMetadata :: "(string, actor_metadata) jsmap"
  watches :: "(string, watch_entry) jsmap"
  watchedBy :: "(string, string list) jsmap"
  links :: "(string, link_entry) jsmap"
  linkedWith :: "(string, string list) jsmap"
  remoteWatchers :: "(string, remote_watcher list) jsmap"
  remoteWatches :: "(string, remote_watch) jsmap"
  remoteLinkers :: "(string, remote_linker list) jsmap"
  remoteLinks :: "(string, remote_link) jsmap"
  remoteChildren :: "(string, remote_child) jsmap"
  remoteParents :: "(string, remote_parent) jsmap"
  supervisorOptions :: supervision_options
  rootRestarts :: "(string, restart_record) jsmap"
  childRestarts :: "(string, restart_record) jsmap"
  isShuttingDown :: bool
  isDraining :: bool
  isRunning :: bool
  pausedMailboxes :: "string list"
  processingActors :: "string list"
  mailboxScheduled :: "string list"
  defaultMailboxConfig :: mailbox_config
  uuids :: nat
  outbox :: "out_effect list"

definition DEFAULT_SUPERVISION :: supervision_options where
  "DEFAULT_SUPERVISION = \<lparr>sup_strategy = RestartStrategy, sup_maxRestarts = 3, sup_periodMs = 5000\<rparr>"

text \<open>The constructor; the system is running once \<open>start\<close> was called.\<close>

definition new_system :: "string \<Rightarrow> supervision_options option \<Rightarrow> mailbox_config option \<Rightarrow> sys" where
  "new_system node sopt mcfg =
     \<lparr>sys_id = node, actors = [], mailboxes = [], actorMetadata = [], watches = [], watchedBy = [],
      links = [], linkedWith = [], remoteWatchers = [], remoteWatches = [], remoteLinkers = [],
      remoteLinks = [], remoteChildren = [], remoteParents = [],
      supervisorOptions = (case sopt of None \<Rightarrow> DEFAULT_SUPERVISION | Some x \<Rightarrow> x),
      rootRestarts = [], childRestarts = [], isShuttingDown = False, isDraining = False,
      isRunning = False, pausedMailboxes = [], processingActors = [], mailboxScheduled = [],
      defaultMailboxConfig = (case mcfg of None \<Rightarrow> DEFAULT_MAILBOX_CONFIG | Some c \<Rightarrow> c),
      uuids = 0, outbox = []\<rparr>"

definition start_system :: "sys \<Rightarrow> sys" where
  "start_system s = s\<lparr>isRunning := True\<rparr>"

definition emit :: "out_effect \<Rightarrow> sys \<Rightarrow> sys" where
  "emit e s = s\<lparr>outbox := outbox s @ [e]\<rparr>"

text \<open>The actor with an id, and a change of its context (nothing happens if it is gone).\<close>

abbreviation getActor :: "sys \<Rightarrow> string \<Rightarrow> actor option" where
  "getActor s a \<equiv> jget (actors s) a"

abbreviation alive :: "sys \<Rightarrow> string \<Rightarrow> bool" where
  "alive s a \<equiv> jhas (actors s) a"

definition on_actor :: "string \<Rightarrow> (actor \<Rightarrow> actor) \<Rightarrow> sys \<Rightarrow> sys" where
  "on_actor a f s = s\<lparr>actors := jmodify (actors s) a f\<rparr>"

text \<open>A \<open>Map\<close> whose values are \<open>Set\<close>s: an absent key reads as no elements.\<close>

definition jset_get :: "(string, 'a list) jsmap \<Rightarrow> string \<Rightarrow> 'a list" where
  "jset_get m k = (case jget m k of None \<Rightarrow> [] | Some xs \<Rightarrow> xs)"

definition jset_add :: "(string, 'a list) jsmap \<Rightarrow> string \<Rightarrow> 'a \<Rightarrow> (string, 'a list) jsmap" where
  "jset_add m k x = jput m k (sadd (jset_get m k) x)"

definition jset_del :: "(string, 'a list) jsmap \<Rightarrow> string \<Rightarrow> 'a \<Rightarrow> (string, 'a list) jsmap" where
  "jset_del m k x =
     (case jget m k of
        None \<Rightarrow> m
      | Some xs \<Rightarrow> (let ys = sdel xs x in if ys = [] then jdel m k else jput m k ys))"

lemma jset_get_add [simp]:
  "jset_get (jset_add m k x) k' = (if k' = k then sadd (jset_get m k) x else jset_get m k')"
  by (simp add: jset_get_def jset_add_def)

lemma jset_get_del [simp]:
  "jset_get (jset_del m k x) k' = (if k' = k then sdel (jset_get m k) x else jset_get m k')"
  by (simp add: jset_get_def jset_del_def Let_def sdel_def split: option.split)

lemma jset_get_jdel [simp]: "jset_get (jdel m k) k' = (if k' = k then [] else jset_get m k')"
  by (simp add: jset_get_def)

lemma emit_simps [simp]:
  "sys_id (emit e s) = sys_id s" "actors (emit e s) = actors s"
  "mailboxes (emit e s) = mailboxes s" "actorMetadata (emit e s) = actorMetadata s"
  "watches (emit e s) = watches s" "watchedBy (emit e s) = watchedBy s"
  "links (emit e s) = links s" "linkedWith (emit e s) = linkedWith s"
  "remoteWatchers (emit e s) = remoteWatchers s" "remoteWatches (emit e s) = remoteWatches s"
  "remoteLinkers (emit e s) = remoteLinkers s" "remoteLinks (emit e s) = remoteLinks s"
  "remoteChildren (emit e s) = remoteChildren s" "remoteParents (emit e s) = remoteParents s"
  "rootRestarts (emit e s) = rootRestarts s" "childRestarts (emit e s) = childRestarts s"
  "supervisorOptions (emit e s) = supervisorOptions s"
  "isShuttingDown (emit e s) = isShuttingDown s" "isDraining (emit e s) = isDraining s"
  "isRunning (emit e s) = isRunning s"
  "pausedMailboxes (emit e s) = pausedMailboxes s"
  "processingActors (emit e s) = processingActors s"
  "mailboxScheduled (emit e s) = mailboxScheduled s"
  "defaultMailboxConfig (emit e s) = defaultMailboxConfig s"
  "uuids (emit e s) = uuids s"
  "outbox (emit e s) = outbox s @ [e]"
  by (simp_all add: emit_def)

lemma on_actor_simps [simp]:
  "sys_id (on_actor a f s) = sys_id s" "actors (on_actor a f s) = jmodify (actors s) a f"
  "mailboxes (on_actor a f s) = mailboxes s" "actorMetadata (on_actor a f s) = actorMetadata s"
  "watches (on_actor a f s) = watches s" "watchedBy (on_actor a f s) = watchedBy s"
  "links (on_actor a f s) = links s" "linkedWith (on_actor a f s) = linkedWith s"
  "remoteWatchers (on_actor a f s) = remoteWatchers s"
  "remoteWatches (on_actor a f s) = remoteWatches s"
  "remoteLinkers (on_actor a f s) = remoteLinkers s" "remoteLinks (on_actor a f s) = remoteLinks s"
  "remoteChildren (on_actor a f s) = remoteChildren s"
  "remoteParents (on_actor a f s) = remoteParents s"
  "rootRestarts (on_actor a f s) = rootRestarts s" "childRestarts (on_actor a f s) = childRestarts s"
  "supervisorOptions (on_actor a f s) = supervisorOptions s"
  "isShuttingDown (on_actor a f s) = isShuttingDown s" "isDraining (on_actor a f s) = isDraining s"
  "isRunning (on_actor a f s) = isRunning s"
  "pausedMailboxes (on_actor a f s) = pausedMailboxes s"
  "processingActors (on_actor a f s) = processingActors s"
  "mailboxScheduled (on_actor a f s) = mailboxScheduled s"
  "defaultMailboxConfig (on_actor a f s) = defaultMailboxConfig s"
  "uuids (on_actor a f s) = uuids s"
  "outbox (on_actor a f s) = outbox s"
  by (simp_all add: on_actor_def)

end
