(* ===== verification/Watching.thy ===== *)
theory Watching
  imports Actor_State
begin

text \<open>
  Watches (monitors): the operations of \<open>src/actor_system.ts\<close> that let an actor learn that
  another one terminated, on one node and across two. \<open>watch_inv\<close> says how the tables
  \<open>watches\<close>, \<open>watchedBy\<close> and the watchers' contexts agree; every operation keeps it, and
  \<open>notifyWatchers\<close> delivers exactly one DOWN message per watch and forgets the watch.
\<close>

section \<open>Termination reasons on the wire\<close>

text \<open>
  \<open>error.message || String(error)\<close>: an error without text is rendered by \<open>String\<close> as the
  name of its class.
\<close>

fun serializeTerminationReason :: "termination_reason \<Rightarrow> wire_reason" where
  "serializeTerminationReason (ErrorExit m) = WireError (Some (if m = '''' then ''Error'' else m))"
| "serializeTerminationReason NormalExit = WireNormal"
| "serializeTerminationReason KilledExit = WireKilled"

fun deserializeTerminationReason :: "wire_reason \<Rightarrow> termination_reason" where
  "deserializeTerminationReason (WireError (Some m)) = ErrorExit m"
| "deserializeTerminationReason (WireError None) = ErrorExit ''''"
| "deserializeTerminationReason WireNormal = NormalExit"
| "deserializeTerminationReason WireKilled = KilledExit"

section \<open>Watching and unwatching\<close>

definition sendDownMessage :: "watch_ref \<Rightarrow> actor_ref \<Rightarrow> termination_reason \<Rightarrow> sys \<Rightarrow> sys" where
  "sendDownMessage w watched reason s =
     (if alive s (wr_watcherId w)
      then emit (HandleInfo (wr_watcherId w) (DownMessage w watched reason)) s else s)"

definition setupRemoteWatch :: "watch_ref \<Rightarrow> actor_ref \<Rightarrow> actor_ref \<Rightarrow> sys \<Rightarrow> sys" where
  "setupRemoteWatch w watcher watched s =
     (let entry = \<lparr>rwe_ref = w, rwe_watcher = watcher, rwe_node = ref_node watched,
                   rwe_actor = ref_id watched\<rparr>;
          s1 = s\<lparr>remoteWatches := jput (remoteWatches s) (wr_id w) entry\<rparr>;
          s2 = on_actor (ref_id watcher) (\<lambda>a. a\<lparr>a_watches := jput (a_watches a) (wr_id w) w\<rparr>) s1
      in emit (RequestTo (ref_node watched)
           (WatchAdd (wr_id w) (sys_id s) (ref_id watcher) (ref_id watched))) s2)"

text \<open>\<open>watch\<close>, with the fresh id the \<open>uuid\<close> package returns as its first argument.\<close>

definition watch :: "string \<Rightarrow> actor_ref \<Rightarrow> actor_ref \<Rightarrow> sys \<Rightarrow> watch_ref \<times> sys" where
  "watch fresh watcher watched s =
     (let w = \<lparr>wr_id = fresh, wr_watcherId = ref_id watcher, wr_watchedId = ref_id watched\<rparr>
      in if ref_node watched \<noteq> sys_id s then (w, setupRemoteWatch w watcher watched s)
         else
           let entry = \<lparr>we_ref = w, we_watcher = watcher, we_watched = watched\<rparr>;
               s1 = s\<lparr>watches := jput (watches s) fresh entry,
                      watchedBy := jset_add (watchedBy s) (ref_id watched) fresh\<rparr>;
               s2 = on_actor (ref_id watcher) (\<lambda>a. a\<lparr>a_watches := jput (a_watches a) fresh w\<rparr>) s1
           in (w, if alive s2 (ref_id watched) then s2
                  else sendDownMessage w watched NormalExit s2))"

definition unwatchRemote :: "watch_ref \<Rightarrow> remote_watch \<Rightarrow> sys \<Rightarrow> sys" where
  "unwatchRemote w entry s =
     (let s1 = s\<lparr>remoteWatches := jdel (remoteWatches s) (wr_id w)\<rparr>;
          s2 = on_actor (ref_id (rwe_watcher entry))
                 (\<lambda>a. a\<lparr>a_watches := jdel (a_watches a) (wr_id w)\<rparr>) s1
      in emit (SendTo (rwe_node entry) (WatchRemove (wr_id w) (rwe_actor entry))) s2)"

definition unwatch :: "watch_ref \<Rightarrow> sys \<Rightarrow> sys" where
  "unwatch w s =
     (case jget (remoteWatches s) (wr_id w) of
        Some entry \<Rightarrow> unwatchRemote w entry s
      | None \<Rightarrow>
          (case jget (watches s) (wr_id w) of
             None \<Rightarrow> s
           | Some _ \<Rightarrow>
               on_actor (wr_watcherId w) (\<lambda>a. a\<lparr>a_watches := jdel (a_watches a) (wr_id w)\<rparr>)
                 (s\<lparr>watches := jdel (watches s) (wr_id w),
                    watchedBy := jset_del (watchedBy s) (wr_watchedId w) (wr_id w)\<rparr>)))"

section \<open>Notifications\<close>

text \<open>One watch of a terminated actor: the DOWN message, then the watch is forgotten.\<close>

definition notify_watch :: "actor_ref \<Rightarrow> termination_reason \<Rightarrow> string \<Rightarrow> sys \<Rightarrow> sys" where
  "notify_watch r reason i s =
     (case jget (watches s) i of
        None \<Rightarrow> s
      | Some e \<Rightarrow> unwatch (we_ref e) (sendDownMessage (we_ref e) r reason s))"

definition notifyRemoteWatcher ::
  "string \<Rightarrow> termination_reason \<Rightarrow> remote_watcher \<Rightarrow> sys \<Rightarrow> sys" where
  "notifyRemoteWatcher watched reason rw s =
     emit (SendTo (rw_node rw)
       (WatchDown (rw_refId rw) watched (serializeTerminationReason reason))) s"

text \<open>
  The loops run over a copy of the set. Every remote watcher is told and removed, so the
  table entry of the actor goes.
\<close>

definition notifyWatchers :: "actor_ref \<Rightarrow> termination_reason \<Rightarrow> sys \<Rightarrow> sys" where
  "notifyWatchers r reason s =
     (let a = ref_id r;
          s1 = fold (notify_watch r reason) (jset_get (watchedBy s) a) s;
          rws = jset_get (remoteWatchers s1) a
      in if rws = [] then s1
         else (fold (notifyRemoteWatcher a reason) rws s1)
                \<lparr>remoteWatchers := jdel (remoteWatchers s1) a\<rparr>)"

section \<open>Requests from other nodes\<close>

datatype add_response = AddOk | AddAlreadyDead

definition handleRemoteWatchAdd ::
  "string \<Rightarrow> string \<Rightarrow> string \<Rightarrow> string \<Rightarrow> sys \<Rightarrow> add_response \<times> sys" where
  "handleRemoteWatchAdd refId node watcher watched s =
     (if \<not> alive s watched then (AddAlreadyDead, s)
      else (AddOk, s\<lparr>remoteWatchers := jput (remoteWatchers s) watched
              (jset_get (remoteWatchers s) watched @
                 [\<lparr>rw_refId = refId, rw_node = node, rw_actor = watcher\<rparr>])\<rparr>))"

text \<open>Removing the first watcher with the given id; an emptied set goes.\<close>

primrec remove_first :: "('a \<Rightarrow> bool) \<Rightarrow> 'a list \<Rightarrow> 'a list" where
  "remove_first p [] = []"
| "remove_first p (x # xs) = (if p x then xs else x # remove_first p xs)"

definition handleRemoteWatchRemove :: "string \<Rightarrow> string \<Rightarrow> sys \<Rightarrow> sys" where
  "handleRemoteWatchRemove refId watched s =
     (case jget (remoteWatchers s) watched of
        None \<Rightarrow> s
      | Some ws \<Rightarrow>
          (let ws' = remove_first (\<lambda>w. rw_refId w = refId) ws
           in s\<lparr>remoteWatchers := (if ws' = [] then jdel (remoteWatchers s) watched
                                   else jput (remoteWatchers s) watched ws')\<rparr>))"

text \<open>A reference to an actor of another node, built from what the message says.\<close>

definition pseudo_ref :: "string \<Rightarrow> string \<Rightarrow> actor_ref" where
  "pseudo_ref node a = \<lparr>ref_node = node, ref_id = a, ref_name = None, ref_original = False\<rparr>"

definition handleRemoteDown :: "string \<Rightarrow> string \<Rightarrow> wire_reason \<Rightarrow> sys \<Rightarrow> sys" where
  "handleRemoteDown refId watched reason s =
     (case jget (remoteWatches s) refId of
        None \<Rightarrow> s
      | Some entry \<Rightarrow>
          (let s1 = s\<lparr>remoteWatches := jdel (remoteWatches s) refId\<rparr>;
               watcher = ref_id (rwe_watcher entry)
           in if \<not> alive s1 watcher then s1
              else emit (HandleInfo watcher
                     (DownMessage (rwe_ref entry) (pseudo_ref (rwe_node entry) watched)
                        (deserializeTerminationReason reason)))
                     (on_actor watcher (\<lambda>a. a\<lparr>a_watches := jdel (a_watches a) refId\<rparr>) s1)))"

text \<open>
  What \<open>setupRemoteWatch\<close> does when the request it sent is answered: nothing on success, a
  DOWN message when the actor is already dead or the node unreachable.
\<close>

definition remoteWatchReply :: "watch_ref \<Rightarrow> string \<Rightarrow> (string + add_response) \<Rightarrow> sys \<Rightarrow> sys" where
  "remoteWatchReply w watched reply s =
     (case reply of
        Inr AddOk \<Rightarrow> s
      | Inr AddAlreadyDead \<Rightarrow> handleRemoteDown (wr_id w) watched WireNormal s
      | Inl err \<Rightarrow> handleRemoteDown (wr_id w) watched (WireError (Some err)) s)"

section \<open>Node failure\<close>

text \<open>One watch on an actor of the failed node: forgotten, and the watcher told.\<close>

definition fail_watch :: "remote_watch \<Rightarrow> sys \<Rightarrow> sys" where
  "fail_watch entry s =
     (let i = wr_id (rwe_ref entry);
          s1 = s\<lparr>remoteWatches := jdel (remoteWatches s) i\<rparr>;
          watcher = ref_id (rwe_watcher entry)
      in if \<not> alive s1 watcher then s1
         else emit (HandleInfo watcher
                (DownMessage (rwe_ref entry) (pseudo_ref (rwe_node entry) (rwe_actor entry)) KilledExit))
                (on_actor watcher (\<lambda>a. a\<lparr>a_watches := jdel (a_watches a) i\<rparr>) s1))"

text \<open>Dropping the entries of the failed node from every set, and the sets this empties.\<close>

definition purge_node :: "('a \<Rightarrow> string) \<Rightarrow> string \<Rightarrow> (string, 'a list) jsmap \<Rightarrow> (string, 'a list) jsmap" where
  "purge_node node_of dead m =
     filter (\<lambda>(_, ws). ws \<noteq> []) (map (\<lambda>(k, ws). (k, filter (\<lambda>w. node_of w \<noteq> dead) ws)) m)"

definition handleNodeFailureForWatches :: "string \<Rightarrow> sys \<Rightarrow> sys" where
  "handleNodeFailureForWatches dead s =
     (let dying = filter (\<lambda>e. rwe_node e = dead) (jvals (remoteWatches s));
          s1 = fold fail_watch dying s
      in s1\<lparr>remoteWatchers := purge_node rw_node dead (remoteWatchers s1)\<rparr>)"

section \<open>The tables agree\<close>

text \<open>
  \<open>watches\<close> and \<open>watchedBy\<close> index the same watches, no index set is empty or holds an id
  twice, and an id is local or remote, not both.
\<close>

definition watch_index :: "sys \<Rightarrow> bool" where
  "watch_index s \<longleftrightarrow>
     (\<forall>i e. jget (watches s) i = Some e \<longrightarrow>
        wr_id (we_ref e) = i \<and> jget (remoteWatches s) i = None) \<and>
     (\<forall>a i. i \<in> set (jset_get (watchedBy s) a) \<longleftrightarrow>
        (\<exists>e. jget (watches s) i = Some e \<and> wr_watchedId (we_ref e) = a)) \<and>
     (\<forall>a. distinct (jset_get (watchedBy s) a) \<and> jget (watchedBy s) a \<noteq> Some []) \<and>
     jwf (remoteWatches s)"

text \<open>
  The watch with an id, wherever the tables keep it. The watches in an actor's context are
  exactly the local and remote watches it started.
\<close>

definition either_ref :: "watch_entry option \<Rightarrow> remote_watch option \<Rightarrow> watch_ref option" where
  "either_ref l r = (case l of Some e \<Rightarrow> Some (we_ref e) | None \<Rightarrow> map_option rwe_ref r)"

definition watch_at :: "sys \<Rightarrow> string \<Rightarrow> watch_ref option" where
  "watch_at s i = either_ref (jget (watches s) i) (jget (remoteWatches s) i)"

definition own_watch :: "string \<Rightarrow> watch_ref option \<Rightarrow> watch_ref option" where
  "own_watch b x = (case x of Some w \<Rightarrow> if wr_watcherId w = b then Some w else None | None \<Rightarrow> None)"

definition watch_contexts :: "sys \<Rightarrow> bool" where
  "watch_contexts s \<longleftrightarrow>
     (\<forall>i e. jget (remoteWatches s) i = Some e \<longrightarrow>
        wr_id (rwe_ref e) = i \<and> wr_watcherId (rwe_ref e) = ref_id (rwe_watcher e)) \<and>
     (\<forall>b act i. getActor s b = Some act \<longrightarrow>
        jget (a_watches act) i = own_watch b (watch_at s i))"

lemma either_ref_simps [simp]:
  "either_ref (Some e) r = Some (we_ref e)" "either_ref None r = map_option rwe_ref r"
  by (simp_all add: either_ref_def)

lemma own_watch_simps [simp]:
  "own_watch b None = None"
  "own_watch b (Some w) = (if wr_watcherId w = b then Some w else None)"
  by (simp_all add: own_watch_def)

definition watch_inv :: "sys \<Rightarrow> bool" where
  "watch_inv s \<longleftrightarrow> watch_index s \<and> watch_contexts s"

text \<open>An id no watch uses, as the \<open>uuid\<close> package returns one.\<close>

definition fresh_watch :: "string \<Rightarrow> sys \<Rightarrow> bool" where
  "fresh_watch i s \<longleftrightarrow> jget (watches s) i = None \<and> jget (remoteWatches s) i = None"

text \<open>A reference the system handed out: if its id is in a table, it is the one stored there.\<close>

definition known_watch :: "watch_ref \<Rightarrow> sys \<Rightarrow> bool" where
  "known_watch w s \<longleftrightarrow>
     (\<forall>e. jget (watches s) (wr_id w) = Some e \<longrightarrow> we_ref e = w) \<and>
     (\<forall>e. jget (remoteWatches s) (wr_id w) = Some e \<longrightarrow> rwe_ref e = w)"

lemma watch_at_emit [simp]: "watch_at (emit e s) = watch_at s"
  by (rule ext) (simp add: watch_at_def)

lemma watch_index_emit [simp]: "watch_index (emit e s) = watch_index s"
  by (simp add: watch_index_def)

lemma watch_contexts_emit [simp]: "watch_contexts (emit e s) = watch_contexts s"
  by (simp add: watch_contexts_def)

lemma watch_index_sendDown [simp]: "watch_index (sendDownMessage w r x s) = watch_index s"
  by (simp add: sendDownMessage_def)

lemma watch_contexts_sendDown [simp]: "watch_contexts (sendDownMessage w r x s) = watch_contexts s"
  by (simp add: sendDownMessage_def)

lemma watch_inv_emit [simp]: "watch_inv (emit e s) = watch_inv s"
  by (simp add: watch_inv_def watch_index_def watch_contexts_def)

lemma known_watch_emit [simp]: "known_watch w (emit e s) = known_watch w s"
  by (simp add: known_watch_def)

lemma watch_inv_sendDown [simp]: "watch_inv (sendDownMessage w r x s) = watch_inv s"
  by (simp add: sendDownMessage_def)

lemma jget_jset_add_ne [simp]: "jget (jset_add m k x) k' \<noteq> Some [] \<longleftrightarrow> k' = k \<or> jget m k' \<noteq> Some []"
  by (auto simp: jset_add_def sadd_def)

lemma jget_jset_del_ne: "\<forall>a. jget m a \<noteq> Some [] \<Longrightarrow> jget (jset_del m k x) k' \<noteq> Some []"
  by (auto simp: jset_del_def Let_def split: option.split if_splits)

lemma watch_index_add:
  assumes "watch_index s" and "fresh_watch (wr_id w) s"
  shows "watch_index (s\<lparr>watches := jput (watches s) (wr_id w) \<lparr>we_ref = w, we_watcher = r, we_watched = r'\<rparr>,
    watchedBy := jset_add (watchedBy s) (wr_watchedId w) (wr_id w)\<rparr>)"
  using assms unfolding watch_index_def fresh_watch_def by auto

lemma watch_contexts_add:
  assumes "watch_contexts s" and "fresh_watch (wr_id w) s"
  shows "watch_contexts (on_actor (wr_watcherId w) (\<lambda>a. a\<lparr>a_watches := jput (a_watches a) (wr_id w) w\<rparr>)
    (s\<lparr>watches := jput (watches s) (wr_id w) \<lparr>we_ref = w, we_watcher = r, we_watched = r'\<rparr>,
       watchedBy := m\<rparr>))"
  using assms unfolding watch_contexts_def fresh_watch_def by (auto simp: watch_at_def)

lemma watch_contexts_add_remote:
  assumes "watch_contexts s" and "fresh_watch (wr_id w) s" and "wr_watcherId w = ref_id r"
  shows "watch_contexts (on_actor (ref_id r) (\<lambda>a. a\<lparr>a_watches := jput (a_watches a) (wr_id w) w\<rparr>)
    (s\<lparr>remoteWatches := jput (remoteWatches s) (wr_id w) \<lparr>rwe_ref = w, rwe_watcher = r,
         rwe_node = n, rwe_actor = a'\<rparr>\<rparr>))"
  using assms unfolding watch_contexts_def fresh_watch_def by (auto simp: watch_at_def)

lemma watch_index_on_actor [simp]: "watch_index (on_actor a f s) = watch_index s"
  by (simp add: watch_index_def)

lemma watch_index_del:
  assumes "watch_index s" and "jget (watches s) (wr_id w) = Some e" and "we_ref e = w"
  shows "watch_index (s\<lparr>watches := jdel (watches s) (wr_id w),
    watchedBy := jset_del (watchedBy s) (wr_watchedId w) (wr_id w)\<rparr>)"
  using assms unfolding watch_index_def by (auto simp: jget_jset_del_ne)

lemma watch_index_del_remote:
  assumes "watch_index s"
  shows "watch_index (s\<lparr>remoteWatches := jdel (remoteWatches s) i\<rparr>)"
  using assms unfolding watch_index_def by auto

lemma watch_contexts_del:
  assumes "watch_contexts s" and "watch_index s"
    and "jget (watches s) (wr_id w) = Some e" and "we_ref e = w"
  shows "watch_contexts (on_actor (wr_watcherId w) (\<lambda>a. a\<lparr>a_watches := jdel (a_watches a) (wr_id w)\<rparr>)
    (s\<lparr>watches := jdel (watches s) (wr_id w), watchedBy := m\<rparr>))"
proof -
  have "jget (remoteWatches s) (wr_id w) = None"
    using assms(2,3) by (simp add: watch_index_def)
  then show ?thesis
    using assms(1,3,4) unfolding watch_contexts_def by (auto simp: watch_at_def)
qed

lemma watch_contexts_del_remote:
  assumes "watch_contexts s" and "watch_index s" and "jget (remoteWatches s) i = Some e"
  shows "watch_contexts (on_actor (ref_id (rwe_watcher e)) (\<lambda>a. a\<lparr>a_watches := jdel (a_watches a) i\<rparr>)
    (s\<lparr>remoteWatches := jdel (remoteWatches s) i\<rparr>))"
proof -
  have "jget (watches s) i = None"
    using assms(2,3) by (cases "jget (watches s) i") (auto simp: watch_index_def)
  then show ?thesis
    using assms(1,3) unfolding watch_contexts_def by (auto simp: watch_at_def)
qed

lemma watch_contexts_dead_remote:
  assumes "watch_contexts s" and "watch_index s" and "jget (remoteWatches s) i = Some e"
    and "\<not> alive s (ref_id (rwe_watcher e))"
  shows "watch_contexts (s\<lparr>remoteWatches := jdel (remoteWatches s) i\<rparr>)"
proof -
  have "jget (watches s) i = None"
    using assms(2,3) by (cases "jget (watches s) i") (auto simp: watch_index_def)
  then show ?thesis
    using assms(1,3,4) unfolding watch_contexts_def jhas_def by (auto simp: watch_at_def)
qed

lemma watch_index_add_remote:
  assumes "watch_index s" and "fresh_watch i s"
  shows "watch_index (s\<lparr>remoteWatches := jput (remoteWatches s) i e\<rparr>)"
  using assms unfolding watch_index_def fresh_watch_def by auto

lemma watch_inv_setupRemote:
  assumes "watch_inv s" and "fresh_watch (wr_id w) s" and "wr_watcherId w = ref_id p"
  shows "watch_inv (setupRemoteWatch w p q s)"
  using assms watch_index_add_remote watch_contexts_add_remote
  by (simp add: setupRemoteWatch_def Let_def watch_inv_def)

lemma watch_inv_watch:
  assumes "watch_inv s" and "fresh_watch i s"
  shows "watch_inv (snd (watch i p q s))"
proof -
  define w where "w = \<lparr>wr_id = i, wr_watcherId = ref_id p, wr_watchedId = ref_id q\<rparr>"
  have w [simp]: "wr_id w = i" "wr_watcherId w = ref_id p" "wr_watchedId w = ref_id q"
    by (simp_all add: w_def)
  show ?thesis
    using assms watch_inv_setupRemote [of s w p q] watch_index_add [of s w p q]
      watch_contexts_add [of s w _ p q]
    by (simp add: watch_def Let_def w_def [symmetric] watch_inv_def)
qed

lemma watch_inv_forget_remote:
  assumes "watch_inv s" and "jget (remoteWatches s) i = Some e"
  shows "watch_inv (on_actor (ref_id (rwe_watcher e)) (\<lambda>a. a\<lparr>a_watches := jdel (a_watches a) i\<rparr>)
    (s\<lparr>remoteWatches := jdel (remoteWatches s) i\<rparr>))"
  using assms watch_index_del_remote watch_contexts_del_remote by (simp add: watch_inv_def)

lemma watch_inv_unwatch:
  assumes "watch_inv s" and "known_watch w s"
  shows "watch_inv (unwatch w s)"
proof (cases "jget (remoteWatches s) (wr_id w)")
  case (Some e)
  then show ?thesis
    using watch_inv_forget_remote [OF assms(1) Some] by (simp add: unwatch_def unwatchRemote_def Let_def)
next
  case None
  show ?thesis
  proof (cases "jget (watches s) (wr_id w)")
    case (Some e)
    then have "we_ref e = w" using assms(2) by (simp add: known_watch_def)
    then show ?thesis
      using None Some assms(1) watch_index_del [OF _ Some] watch_contexts_del [OF _ _ Some]
      by (simp add: unwatch_def watch_inv_def)
  qed (simp add: unwatch_def None assms(1))
qed

lemma watch_inv_dead_remote:
  assumes "watch_inv s" and "jget (remoteWatches s) i = Some e" and "\<not> alive s (ref_id (rwe_watcher e))"
  shows "watch_inv (s\<lparr>remoteWatches := jdel (remoteWatches s) i\<rparr>)"
  using assms watch_index_del_remote watch_contexts_dead_remote by (simp add: watch_inv_def)

lemma watch_inv_handleRemoteDown: "watch_inv s \<Longrightarrow> watch_inv (handleRemoteDown i q x s)"
  using watch_inv_forget_remote [of s i] watch_inv_dead_remote [of s i]
  by (auto simp: handleRemoteDown_def Let_def split: option.split)

lemma watch_inv_remoteWatchReply: "watch_inv s \<Longrightarrow> watch_inv (remoteWatchReply w q x s)"
  by (auto simp: remoteWatchReply_def watch_inv_handleRemoteDown split: sum.split add_response.split)

lemma known_watch_entry:
  "watch_inv s \<Longrightarrow> jget (watches s) i = Some e \<Longrightarrow> known_watch (we_ref e) s"
  by (auto simp: known_watch_def watch_inv_def watch_index_def)

lemma watch_inv_notify_watch:
  assumes "watch_inv s"
  shows "watch_inv (notify_watch r x i s)"
proof (cases "jget (watches s) i")
  case (Some e)
  have "known_watch (we_ref e) (sendDownMessage (we_ref e) r x s)"
    using known_watch_entry [OF assms Some] by (simp add: sendDownMessage_def)
  then show ?thesis
    using assms Some by (simp add: notify_watch_def watch_inv_unwatch)
qed (simp add: notify_watch_def assms)

lemma watch_inv_remoteWatchers [simp]: "watch_inv (s\<lparr>remoteWatchers := m\<rparr>) = watch_inv s"
  by (simp add: watch_inv_def watch_index_def watch_contexts_def watch_at_def)

lemma watch_inv_notify_remotes [simp]:
  "watch_inv (fold (notifyRemoteWatcher a x) rws s) = watch_inv s"
  by (induction rws arbitrary: s) (simp_all add: notifyRemoteWatcher_def)

lemma watch_inv_notifyWatchers:
  assumes "watch_inv s"
  shows "watch_inv (notifyWatchers r x s)"
proof -
  have "watch_inv (fold (notify_watch r x) ids s)" for ids
    by (rule fold_inv [where P = watch_inv, OF assms]) (simp add: watch_inv_notify_watch)
  then show ?thesis by (simp add: notifyWatchers_def Let_def)
qed

lemma fail_watch_remote:
  "wr_id (rwe_ref e) = i \<Longrightarrow> remoteWatches (fail_watch e s) = jdel (remoteWatches s) i"
  by (simp add: fail_watch_def Let_def)

lemma alive_fail_watch [simp]: "alive (fail_watch e s) a = alive s a"
  by (simp add: fail_watch_def Let_def)

lemma watch_inv_fail_watch:
  "watch_inv s \<Longrightarrow> jget (remoteWatches s) (wr_id (rwe_ref e)) = Some e \<Longrightarrow> watch_inv (fail_watch e s)"
  using watch_inv_forget_remote [of s "wr_id (rwe_ref e)" e]
    watch_inv_dead_remote [of s "wr_id (rwe_ref e)" e]
  by (auto simp: fail_watch_def Let_def)

text \<open>The DOWN message of a lost remote watch.\<close>

definition killed_down :: "(string \<Rightarrow> bool) \<Rightarrow> remote_watch \<Rightarrow> out_effect list" where
  "killed_down live e = (if live (ref_id (rwe_watcher e))
     then [HandleInfo (ref_id (rwe_watcher e))
             (DownMessage (rwe_ref e) (pseudo_ref (rwe_node e) (rwe_actor e)) KilledExit)] else [])"

lemma outbox_fail_watch: "outbox (fail_watch e s) = outbox s @ killed_down (alive s) e"
  by (simp add: fail_watch_def Let_def killed_down_def)

lemma fold_fail_watch:
  assumes "watch_inv s" and "distinct (map (\<lambda>e. wr_id (rwe_ref e)) es)"
    and "\<forall>e\<in>set es. jget (remoteWatches s) (wr_id (rwe_ref e)) = Some e"
  shows "watch_inv (fold fail_watch es s) \<and>
     outbox (fold fail_watch es s) = outbox s @ concat (map (killed_down (alive s)) es) \<and>
     (\<forall>i. jget (remoteWatches (fold fail_watch es s)) i =
        (if i \<in> (\<lambda>e. wr_id (rwe_ref e)) ` set es then None else jget (remoteWatches s) i))"
  using assms
proof (induction es arbitrary: s)
  case (Cons e es)
  have live: "alive (fail_watch e s) = alive s" by (rule ext) simp
  have "watch_inv (fail_watch e s)"
    using Cons.prems by (simp add: watch_inv_fail_watch)
  moreover have "\<forall>e'\<in>set es. jget (remoteWatches (fail_watch e s)) (wr_id (rwe_ref e')) = Some e'"
    using Cons.prems by (auto simp: fail_watch_remote image_iff)
  ultimately show ?case
    using Cons.IH [of "fail_watch e s"] Cons.prems(2) live
    by (auto simp: outbox_fail_watch fail_watch_remote)
qed simp

lemma remote_key:
  assumes "watch_inv s"
  shows "jget (remoteWatches s) i = Some e \<Longrightarrow> wr_id (rwe_ref e) = i" and "jwf (remoteWatches s)"
  using assms by (simp_all add: watch_inv_def watch_index_def watch_contexts_def)

lemma dying_watches:
  assumes "watch_inv s"
  shows "distinct (map (\<lambda>e. wr_id (rwe_ref e)) (filter p (jvals (remoteWatches s))))"
    and "\<forall>e\<in>set (filter p (jvals (remoteWatches s))). jget (remoteWatches s) (wr_id (rwe_ref e)) = Some e"
    and "jget (remoteWatches s) i = Some e \<Longrightarrow> p e \<Longrightarrow>
      i \<in> (\<lambda>e. wr_id (rwe_ref e)) ` set (filter p (jvals (remoteWatches s)))"
proof -
  note rk = remote_key [OF assms]
  show "distinct (map (\<lambda>e. wr_id (rwe_ref e)) (filter p (jvals (remoteWatches s))))"
    by (rule distinct_map_filter) (simp only: map_snd_keys [OF rk(2) rk(1)] rk(2))
  show "\<forall>e\<in>set (filter p (jvals (remoteWatches s))). jget (remoteWatches s) (wr_id (rwe_ref e)) = Some e"
    using jvals_get [where f = "\<lambda>e. wr_id (rwe_ref e)", OF rk(2) rk(1)]
    unfolding set_filter by blast
  show "i \<in> (\<lambda>e. wr_id (rwe_ref e)) ` set (filter p (jvals (remoteWatches s)))"
    if "jget (remoteWatches s) i = Some e" "p e"
    using rk(1) [OF that(1)] jget_jvals [OF that(1)] that(2) by (intro image_eqI [of _ _ e]) simp_all
qed

section \<open>Local notifications, one by one\<close>

text \<open>What a termination sends for the watch with id \<open>i\<close>.\<close>

definition down_effect :: "sys \<Rightarrow> actor_ref \<Rightarrow> termination_reason \<Rightarrow> string \<Rightarrow> out_effect list" where
  "down_effect s r x i = (case jget (watches s) i of None \<Rightarrow> []
     | Some e \<Rightarrow> if alive s (wr_watcherId (we_ref e))
         then [HandleInfo (wr_watcherId (we_ref e)) (DownMessage (we_ref e) r x)] else [])"

lemma sendDown_simps [simp]:
  "watches (sendDownMessage w r x s) = watches s"
  "watchedBy (sendDownMessage w r x s) = watchedBy s"
  "remoteWatches (sendDownMessage w r x s) = remoteWatches s"
  "remoteWatchers (sendDownMessage w r x s) = remoteWatchers s"
  "actors (sendDownMessage w r x s) = actors s"
  by (simp_all add: sendDownMessage_def)

text \<open>
  Telling the watchers of an actor something and forgetting their watches: the loop of
  \<open>notifyWatchers\<close>, and the one of a migration.
\<close>

definition notice_watch :: "(watch_ref \<Rightarrow> sys \<Rightarrow> sys) \<Rightarrow> string \<Rightarrow> sys \<Rightarrow> sys" where
  "notice_watch tell i s =
     (case jget (watches s) i of None \<Rightarrow> s | Some e \<Rightarrow> unwatch (we_ref e) (tell (we_ref e) s))"

definition notice_effect :: "(watch_ref \<Rightarrow> info_message) \<Rightarrow> sys \<Rightarrow> string \<Rightarrow> out_effect list" where
  "notice_effect info s i = (case jget (watches s) i of None \<Rightarrow> []
     | Some e \<Rightarrow> if alive s (wr_watcherId (we_ref e))
         then [HandleInfo (wr_watcherId (we_ref e)) (info (we_ref e))] else [])"

locale watch_notice =
  fixes tell :: "watch_ref \<Rightarrow> sys \<Rightarrow> sys" and info :: "watch_ref \<Rightarrow> info_message"
  assumes tell: "tell w s = (if alive s (wr_watcherId w) then emit (HandleInfo (wr_watcherId w) (info w)) s else s)"
begin

lemma watch_inv_notice:
  assumes "watch_inv s"
  shows "watch_inv (notice_watch tell i s)"
proof (cases "jget (watches s) i")
  case (Some e)
  have "known_watch (we_ref e) (tell (we_ref e) s)" "watch_inv (tell (we_ref e) s)"
    using known_watch_entry [OF assms Some] assms by (simp_all add: tell)
  then show ?thesis using Some by (simp add: notice_watch_def watch_inv_unwatch)
qed (simp add: notice_watch_def assms)

lemma notice_step:
  assumes "watch_inv s" and "jget (watches s) i = Some e"
  shows "watches (notice_watch tell i s) = jdel (watches s) i"
    and "watchedBy (notice_watch tell i s) = jset_del (watchedBy s) (wr_watchedId (we_ref e)) i"
    and "remoteWatchers (notice_watch tell i s) = remoteWatchers s"
    and "outbox (notice_watch tell i s) = outbox s @ notice_effect info s i"
    and "alive (notice_watch tell i s) a = alive s a"
proof -
  have "jget (remoteWatches s) i = None" "wr_id (we_ref e) = i"
    using assms by (auto simp: watch_inv_def watch_index_def)
  then show "watches (notice_watch tell i s) = jdel (watches s) i"
    and "watchedBy (notice_watch tell i s) = jset_del (watchedBy s) (wr_watchedId (we_ref e)) i"
    and "remoteWatchers (notice_watch tell i s) = remoteWatchers s"
    and "outbox (notice_watch tell i s) = outbox s @ notice_effect info s i"
    and "alive (notice_watch tell i s) a = alive s a"
    using assms(2) by (simp_all add: notice_watch_def unwatch_def notice_effect_def tell)
qed

lemma fold_notice:
  assumes "watch_inv s" and "distinct ids" and "\<forall>i\<in>set ids. jget (watches s) i \<noteq> None"
  shows "watch_inv (fold (notice_watch tell) ids s) \<and>
     outbox (fold (notice_watch tell) ids s) = outbox s @ concat (map (notice_effect info s) ids) \<and>
     remoteWatchers (fold (notice_watch tell) ids s) = remoteWatchers s \<and>
     (\<forall>i. jget (watches (fold (notice_watch tell) ids s)) i =
        (if i \<in> set ids then None else jget (watches s) i))"
  using assms
proof (induction ids arbitrary: s)
  case (Cons i ids)
  obtain e where e: "jget (watches s) i = Some e" using Cons.prems(3) by auto
  note step = notice_step [OF Cons.prems(1) e]
  have same: "map (notice_effect info (notice_watch tell i s)) ids = map (notice_effect info s) ids"
    using Cons.prems(2) by (intro map_cong) (auto simp: notice_effect_def step split: option.split)
  have "watch_inv (notice_watch tell i s)" by (rule watch_inv_notice [OF Cons.prems(1)])
  moreover have "\<forall>j\<in>set ids. jget (watches (notice_watch tell i s)) j \<noteq> None"
    using Cons.prems by (auto simp: step)
  ultimately show ?case
    using Cons.IH [of "notice_watch tell i s"] Cons.prems(2) by (auto simp: step same)
qed simp

end

interpretation down: watch_notice "\<lambda>w. sendDownMessage w r x" "\<lambda>w. DownMessage w r x"
  by unfold_locales (simp add: sendDownMessage_def)

lemma notify_watch_notice: "notify_watch r x = notice_watch (\<lambda>w. sendDownMessage w r x)"
  by (intro ext) (simp add: notify_watch_def notice_watch_def)

lemma down_effect_notice: "down_effect s r x = notice_effect (\<lambda>w. DownMessage w r x) s"
  by (rule ext) (simp add: down_effect_def notice_effect_def)

lemmas fold_notify_watch = down.fold_notice [folded notify_watch_notice down_effect_notice]

lemma notify_remotes_simps [simp]:
  "watches (fold (notifyRemoteWatcher a x) rws s) = watches s"
  "watchedBy (fold (notifyRemoteWatcher a x) rws s) = watchedBy s"
  "remoteWatchers (fold (notifyRemoteWatcher a x) rws s) = remoteWatchers s"
  "outbox (fold (notifyRemoteWatcher a x) rws s) = outbox s @
     map (\<lambda>w. SendTo (rw_node w) (WatchDown (rw_refId w) a (serializeTerminationReason x))) rws"
  by (induction rws arbitrary: s) (simp_all add: notifyRemoteWatcher_def)

lemma watchedBy_ids:
  assumes "watch_inv s"
  shows "distinct (jset_get (watchedBy s) a)"
    and "\<forall>i\<in>set (jset_get (watchedBy s) a). jget (watches s) i \<noteq> None"
  using assms by (auto simp: watch_inv_def watch_index_def)

lemma no_watch_left:
  assumes "watch_inv s" and "\<And>i e. jget (watches s) i = Some e \<Longrightarrow> wr_watchedId (we_ref e) \<noteq> a"
  shows "jset_get (watchedBy s) a = []"
proof -
  have "i \<notin> set (jset_get (watchedBy s) a)" for i
    using assms unfolding watch_inv_def watch_index_def by blast
  then show ?thesis by (cases "jset_get (watchedBy s) a") auto
qed

lemma notifyWatchers_outbox:
  assumes inv: "watch_inv s"
  shows "outbox (notifyWatchers r x s) = outbox s @
     concat (map (down_effect s r x) (jset_get (watchedBy s) (ref_id r))) @
     map (\<lambda>w. SendTo (rw_node w) (WatchDown (rw_refId w) (ref_id r) (serializeTerminationReason x)))
       (jset_get (remoteWatchers s) (ref_id r))"
  using fold_notify_watch [OF inv watchedBy_ids [OF inv], where r = r and x = x and a1 = "ref_id r"]
  by (simp add: notifyWatchers_def Let_def)

section \<open>Properties\<close>

text \<open>
  C4: When an actor terminates, every local watch on it gets exactly one DOWN message, in the
  order the watches were set up (if the watcher is still there), every remote watcher gets one
  message with the serialized reason, no watch on the actor is left, the tables still agree,
  and notifying a second time does nothing.
\<close>

theorem notifyWatchers_exactly_once:
  assumes inv: "watch_inv s" and s': "s' = notifyWatchers r x s"
  shows "outbox s' = outbox s @
           concat (map (down_effect s r x) (jset_get (watchedBy s) (ref_id r))) @
           map (\<lambda>w. SendTo (rw_node w) (WatchDown (rw_refId w) (ref_id r) (serializeTerminationReason x)))
             (jset_get (remoteWatchers s) (ref_id r))
       \<and> (\<forall>i e. jget (watches s') i = Some e \<longrightarrow> wr_watchedId (we_ref e) \<noteq> ref_id r)
       \<and> watch_inv s' \<and> notifyWatchers r x' s' = s'"
proof -
  define ids where "ids = jset_get (watchedBy s) (ref_id r)"
  define s1 where "s1 = fold (notify_watch r x) ids s"
  note F = fold_notify_watch [OF inv watchedBy_ids [OF inv], where r = r and x = x and a1 = "ref_id r", folded ids_def, folded s1_def]
  have none: "wr_watchedId (we_ref e) \<noteq> ref_id r" if "jget (watches s1) i = Some e" for i e
  proof
    assume "wr_watchedId (we_ref e) = ref_id r"
    moreover have "jget (watches s) i = Some e" "i \<notin> set ids" using F that by (auto split: if_splits)
    ultimately show False using inv by (auto simp: ids_def watch_inv_def watch_index_def)
  qed
  have W: "watches s' = watches s1" and B: "watchedBy s' = watchedBy s1"
    and R: "jset_get (remoteWatchers s') (ref_id r) = []" and I: "watch_inv s'"
    using F by (simp_all add: s' notifyWatchers_def Let_def ids_def [symmetric] s1_def [symmetric])
  moreover have "jset_get (watchedBy s') (ref_id r) = []"
    by (rule no_watch_left [OF I]) (use none W in auto)
  then have "notifyWatchers r x' s' = s'" by (simp add: notifyWatchers_def R)
  ultimately show ?thesis using none notifyWatchers_outbox [OF inv, of r x] by (simp add: s')
qed

text \<open>
  When a node fails, every watch on an actor of that node is dropped and its watcher told
  exactly once that the actor was killed, watches on other nodes are untouched, and no
  watcher of the failed node stays in a set.
\<close>

theorem node_failure_watches:
  assumes inv: "watch_inv s" and s': "s' = handleNodeFailureForWatches dead s"
  shows "outbox s' = outbox s @ concat (map (killed_down (alive s))
           (filter (\<lambda>e. rwe_node e = dead) (jvals (remoteWatches s))))
       \<and> (\<forall>i. jget (remoteWatches s') i = (case jget (remoteWatches s) i of None \<Rightarrow> None
            | Some e \<Rightarrow> if rwe_node e = dead then None else Some e))
       \<and> (\<forall>a ws w. (a, ws) \<in> set (remoteWatchers s') \<longrightarrow> w \<in> set ws \<longrightarrow> rw_node w \<noteq> dead)
       \<and> watch_inv s'"
proof -
  let ?es = "filter (\<lambda>e. rwe_node e = dead) (jvals (remoteWatches s))"
  note D = dying_watches [OF inv]
  note F = fold_fail_watch [OF inv D(1) D(2), where p1 = "\<lambda>e. rwe_node e = dead"]
  have key: "i \<in> (\<lambda>e. wr_id (rwe_ref e)) ` set ?es \<longleftrightarrow>
      (\<exists>e. jget (remoteWatches s) i = Some e \<and> rwe_node e = dead)" for i
    using D(2) [of "\<lambda>e. rwe_node e = dead"] D(3) [of i _ "\<lambda>e. rwe_node e = dead"] by fastforce
  have "jget (remoteWatches s') i = (case jget (remoteWatches s) i of None \<Rightarrow> None
            | Some e \<Rightarrow> if rwe_node e = dead then None else Some e)" for i
    using F key [of i] by (auto simp: s' handleNodeFailureForWatches_def Let_def split: option.split)
  moreover have "outbox s' = outbox s @ concat (map (killed_down (alive s)) ?es)" "watch_inv s'"
    using F by (simp_all add: s' handleNodeFailureForWatches_def Let_def)
  moreover have "rw_node w \<noteq> dead" if "(a, ws) \<in> set (remoteWatchers s')" "w \<in> set ws" for a ws w
    using that by (auto simp: s' handleNodeFailureForWatches_def Let_def purge_node_def)
  ultimately show ?thesis by blast
qed

text \<open>A small system for the witnesses: actors \<open>a\<close> and \<open>b\<close> on node \<open>n\<close>.\<close>

definition demo_class :: actor_class where
  "demo_class = \<lparr>ac_name = ''Demo'', ac_supervision = DEFAULT_CHILD_SUPERVISION,
     ac_getState = False, ac_setState = False\<rparr>"

definition demo_ref :: "string \<Rightarrow> string \<Rightarrow> actor_ref" where
  "demo_ref node a = \<lparr>ref_node = node, ref_id = a, ref_name = None, ref_original = True\<rparr>"

definition demo_sys :: "string \<Rightarrow> string list \<Rightarrow> sys" where
  "demo_sys node ids = (new_system node None None)
     \<lparr>actors := map (\<lambda>a. (a, new_actor demo_class (demo_ref node a) None 0)) ids\<rparr>"

lemma demo_ref_simps [simp]:
  "ref_id (demo_ref n a) = a" "ref_node (demo_ref n a) = n" "ref_name (demo_ref n a) = None"
  by (simp_all add: demo_ref_def)

lemma demo_sys_simps [simp]:
  "sys_id (demo_sys n ids) = n" "watches (demo_sys n ids) = []" "watchedBy (demo_sys n ids) = []"
  "remoteWatches (demo_sys n ids) = []" "remoteWatchers (demo_sys n ids) = []"
  "links (demo_sys n ids) = []" "linkedWith (demo_sys n ids) = []"
  "remoteLinks (demo_sys n ids) = []" "remoteLinkers (demo_sys n ids) = []"
  "outbox (demo_sys n ids) = []" "isShuttingDown (demo_sys n ids) = False"
  by (simp_all add: demo_sys_def new_system_def)

lemma demo_actor [simp]:
  "getActor (demo_sys n ids) b = (if b \<in> set ids then Some (new_actor demo_class (demo_ref n b) None 0) else None)"
  by (simp add: demo_sys_def) (induction ids; simp)

lemma demo_alive [simp]: "alive (demo_sys n ids) b \<longleftrightarrow> b \<in> set ids"
  by (simp add: jhas_def)

lemma demo_watch_inv [simp]: "watch_inv (demo_sys n ids)"
  by (simp add: watch_inv_def watch_index_def watch_contexts_def watch_at_def jset_get_def new_actor_def)

definition demo_watched :: sys where
  "demo_watched = snd (watch ''w1'' (demo_ref ''n'' ''a'') (demo_ref ''n'' ''b'')
     (demo_sys ''n'' [''a'', ''b'']))"

lemma demo_watched_inv: "watch_inv demo_watched"
  unfolding demo_watched_def by (rule watch_inv_watch) (simp_all add: fresh_watch_def)

theorem notifyWatchers_exactly_once_witness:
  "outbox (notifyWatchers (demo_ref ''n'' ''b'') KilledExit demo_watched) =
     [HandleInfo ''a'' (DownMessage \<lparr>wr_id = ''w1'', wr_watcherId = ''a'', wr_watchedId = ''b''\<rparr>
        (demo_ref ''n'' ''b'') KilledExit)]"
  by (subst notifyWatchers_exactly_once [OF demo_watched_inv refl, THEN conjunct1])
    (simp add: demo_watched_def watch_def Let_def jset_add_def jset_get_def sadd_def down_effect_def)

definition demo_remote_watched :: sys where
  "demo_remote_watched = snd (watch ''w1'' (demo_ref ''n'' ''a'') (demo_ref ''m'' ''b'')
     (demo_sys ''n'' [''a'']))"

lemma demo_remote_watched_inv: "watch_inv demo_remote_watched"
  unfolding demo_remote_watched_def by (rule watch_inv_watch) (simp_all add: fresh_watch_def)

theorem node_failure_watches_witness:
  "outbox (handleNodeFailureForWatches ''m'' demo_remote_watched) = outbox demo_remote_watched @
     [HandleInfo ''a'' (DownMessage \<lparr>wr_id = ''w1'', wr_watcherId = ''a'', wr_watchedId = ''b''\<rparr>
        (pseudo_ref ''m'' ''b'') KilledExit)]"
  by (subst node_failure_watches [OF demo_remote_watched_inv refl, THEN conjunct1])
    (simp add: demo_remote_watched_def watch_def setupRemoteWatch_def Let_def killed_down_def)

lemma wire_roundtrip:
  "deserializeTerminationReason (serializeTerminationReason x) =
     (if x = ErrorExit '''' then ErrorExit ''Error'' else x)"
  by (cases x) auto

text \<open>
  A watch across two nodes. The watched node accepts the request of a live actor; when
  that actor terminates, the message it sends makes the watching node deliver exactly one DOWN
  message with the same reason (an error without a text gets the text "Error") and forget the
  watch; a repeated message, as a retrying network may deliver it, changes nothing.
\<close>

theorem remote_watch_delivers:
  assumes inv: "watch_inv sA" and fresh: "fresh_watch i sA" and live: "alive sA (ref_id p)"
    and remote: "ref_node q \<noteq> sys_id sA" and target: "alive sB (ref_id q)" and invB: "watch_inv sB"
    and w: "(w, sA1) = watch i p q sA"
    and ack: "(ack, sB1) = handleRemoteWatchAdd i (sys_id sA) (ref_id p) (ref_id q) sB"
    and sA2: "sA2 = remoteWatchReply w (ref_id q) (Inr ack) sA1"
    and sB2: "sB2 = notifyWatchers q x sB1"
    and sA3: "sA3 = handleRemoteDown i (ref_id q) (serializeTerminationReason x) sA2"
  shows "ack = AddOk
     \<and> last (outbox sB2) = SendTo (sys_id sA) (WatchDown i (ref_id q) (serializeTerminationReason x))
     \<and> outbox sA3 = outbox sA2 @ [HandleInfo (ref_id p) (DownMessage w (pseudo_ref (ref_node q) (ref_id q))
           (if x = ErrorExit '''' then ErrorExit ''Error'' else x))]
     \<and> jget (remoteWatches sA3) i = None \<and> watch_inv sA3
     \<and> handleRemoteDown i (ref_id q) y sA3 = sA3"
proof -
  have A: "ack = AddOk" and B1: "sB1 = sB\<lparr>remoteWatchers := jput (remoteWatchers sB) (ref_id q)
      (jset_get (remoteWatchers sB) (ref_id q) @ [\<lparr>rw_refId = i, rw_node = sys_id sA, rw_actor = ref_id p\<rparr>])\<rparr>"
    using ack target by (simp_all add: handleRemoteWatchAdd_def)
  have I1: "watch_inv sA1" using watch_inv_watch [OF inv fresh, of p q] w by (metis snd_conv)
  have W: "w = \<lparr>wr_id = i, wr_watcherId = ref_id p, wr_watchedId = ref_id q\<rparr>"
    and A1: "sA1 = setupRemoteWatch w p q sA"
    using w remote by (simp_all add: watch_def Let_def)
  have A2: "sA2 = sA1" using sA2 A by (simp add: remoteWatchReply_def)
  have R: "jget (remoteWatches sA2) i = Some \<lparr>rwe_ref = w, rwe_watcher = p, rwe_node = ref_node q,
      rwe_actor = ref_id q\<rparr>" and L: "alive sA2 (ref_id p)"
    using live W by (simp_all add: A2 A1 setupRemoteWatch_def Let_def)
  have D: "outbox sA3 = outbox sA2 @ [HandleInfo (ref_id p) (DownMessage w (pseudo_ref (ref_node q) (ref_id q))
           (if x = ErrorExit '''' then ErrorExit ''Error'' else x))]"
    and N: "jget (remoteWatches sA3) i = None"
    using R L by (simp_all add: sA3 handleRemoteDown_def Let_def wire_roundtrip)
  have "watch_inv sB1" by (simp add: B1 invB)
  then have "last (outbox sB2) = SendTo (sys_id sA) (WatchDown i (ref_id q) (serializeTerminationReason x))"
    by (simp add: sB2 notifyWatchers_outbox) (simp add: B1 jset_get_def)
  moreover have "watch_inv sA3" by (simp add: sA3 A2 watch_inv_handleRemoteDown I1)
  ultimately show ?thesis using A D N by (simp add: handleRemoteDown_def)
qed

definition demo_peer :: sys where
  "demo_peer = snd (handleRemoteWatchAdd ''w1'' ''n'' ''a'' ''b'' (demo_sys ''m'' [''b'']))"

theorem remote_watch_delivers_witness:
  "jget (remoteWatches (handleRemoteDown ''w1'' ''b'' (serializeTerminationReason KilledExit)
     (remoteWatchReply \<lparr>wr_id = ''w1'', wr_watcherId = ''a'', wr_watchedId = ''b''\<rparr> ''b'' (Inr AddOk)
        demo_remote_watched))) ''w1'' = None"
  by (rule remote_watch_delivers [of "demo_sys ''n'' [''a'']" _ "demo_ref ''n'' ''a''" "demo_ref ''m'' ''b''"
        "demo_sys ''m'' [''b'']" _ demo_remote_watched AddOk demo_peer _ _ KilledExit,
      THEN conjunct2, THEN conjunct2, THEN conjunct2, THEN conjunct1])
    (simp_all add: fresh_watch_def demo_remote_watched_def watch_def Let_def demo_peer_def
      handleRemoteWatchAdd_def)

section \<open>Every reachable state\<close>

text \<open>
  The operations of this theory in any order, with actors coming and going in between. A new
  actor has an id no watch mentions as its watcher; \<open>unwatch\<close> is given a reference that
  \<open>watch\<close> returned.
\<close>

definition unused_watcher :: "string \<Rightarrow> sys \<Rightarrow> bool" where
  "unused_watcher a s \<longleftrightarrow> (\<forall>i w. watch_at s i = Some w \<longrightarrow> wr_watcherId w \<noteq> a)"

inductive watch_step :: "sys \<Rightarrow> sys \<Rightarrow> bool" where
  actor_spawned: "unused_watcher a s \<Longrightarrow>
     watch_step s (s\<lparr>actors := jput (actors s) a (new_actor c r p now)\<rparr>)"
| actor_gone: "watch_step s (s\<lparr>actors := jdel (actors s) a\<rparr>)"
| watch_called: "fresh_watch i s \<Longrightarrow> watch_step s (snd (watch i p q s))"
| unwatch_called: "known_watch w s \<Longrightarrow> watch_step s (unwatch w s)"
| terminated: "watch_step s (notifyWatchers r x s)"
| remote_add: "watch_step s (snd (handleRemoteWatchAdd i n p q s))"
| remote_remove: "watch_step s (handleRemoteWatchRemove i q s)"
| remote_down: "watch_step s (handleRemoteDown i q y s)"
| remote_reply: "watch_step s (remoteWatchReply w q z s)"
| node_failed: "watch_step s (handleNodeFailureForWatches n s)"

inductive watch_reachable :: "sys \<Rightarrow> bool" where
  initial: "watch_reachable (new_system n so mc)"
| more: "watch_reachable s \<Longrightarrow> watch_step s s' \<Longrightarrow> watch_reachable s'"

lemma watch_inv_new: "watch_inv (new_system n so mc)"
  by (simp add: new_system_def watch_inv_def watch_index_def watch_contexts_def jset_get_def)

lemma own_watch_unused: "unused_watcher a s \<Longrightarrow> own_watch a (watch_at s i) = None"
  by (cases "watch_at s i") (auto simp: unused_watcher_def)

lemma watch_at_actors [simp]: "watch_at (s\<lparr>actors := m\<rparr>) = watch_at s"
  by (rule ext) (simp add: watch_at_def)

lemma watch_inv_spawned:
  assumes "watch_inv s" and "unused_watcher a s"
  shows "watch_inv (s\<lparr>actors := jput (actors s) a (new_actor c r p now)\<rparr>)"
  using assms by (auto simp: watch_inv_def watch_index_def watch_contexts_def own_watch_unused new_actor_def)

lemma watch_inv_gone: "watch_inv s \<Longrightarrow> watch_inv (s\<lparr>actors := jdel (actors s) a\<rparr>)"
  by (auto simp: watch_inv_def watch_index_def watch_contexts_def)

lemma watch_inv_nodeFailure: "watch_inv s \<Longrightarrow> watch_inv (handleNodeFailureForWatches n s)"
  using fold_fail_watch [OF _ dying_watches(1,2), of s "\<lambda>e. rwe_node e = n"]
  by (simp add: handleNodeFailureForWatches_def Let_def)

lemma watch_inv_step: "watch_step s s' \<Longrightarrow> watch_inv s \<Longrightarrow> watch_inv s'"
proof (induction rule: watch_step.induct)
  case (remote_remove s i q)
  then show ?case by (simp add: handleRemoteWatchRemove_def Let_def split: option.split)
qed (simp_all add: watch_inv_spawned watch_inv_gone watch_inv_watch watch_inv_unwatch
  watch_inv_notifyWatchers handleRemoteWatchAdd_def watch_inv_handleRemoteDown
  watch_inv_remoteWatchReply watch_inv_nodeFailure)

text \<open>
  C6: In every state the operations can reach, in any order and with any messages from other
  nodes, the watch tables agree: \<open>watches\<close> and \<open>watchedBy\<close> hold the same watches, an id is
  local or remote but not both, and the context of every live actor holds exactly the watches
  that actor started.
\<close>

theorem watch_tables_agree:
  assumes "watch_reachable s"
  shows "watch_inv s"
  using assms by induction (auto intro: watch_inv_new watch_inv_step)

definition demo_started :: sys where
  "demo_started = snd (watch ''w'' (demo_ref ''n'' ''a'') (demo_ref ''n'' ''b'') (new_system ''n'' None None))"

theorem watch_tables_agree_witness: "watch_inv demo_started"
proof (rule watch_tables_agree)
  show "watch_reachable demo_started"
    unfolding demo_started_def
    by (rule watch_reachable.more, rule watch_reachable.initial, rule watch_called)
      (simp add: fresh_watch_def new_system_def)
qed

end
