(* ===== verification/Linking.thy ===== *)
theory Linking
  imports Watching
begin

text \<open>
  Links: the operations of \<open>src/actor_system.ts\<close> that tie the fates of two actors, on one node
  and across two. A termination reaches a linked actor as an EXIT message when it traps exits;
  otherwise an abnormal one crashes it, which is the supervisor's \<open>handleCrash\<close>: here the
  parameter \<open>crash\<close>, instantiated in \<open>Supervision\<close>.
\<close>

section \<open>Linking and unlinking\<close>

definition ctx_link :: "link_ref \<Rightarrow> string \<Rightarrow> sys \<Rightarrow> sys" where
  "ctx_link l a s = on_actor a (\<lambda>c. c\<lparr>a_links := jput (a_links c) (lr_id l) l\<rparr>) s"

definition ctx_unlink :: "string \<Rightarrow> string \<Rightarrow> sys \<Rightarrow> sys" where
  "ctx_unlink i a s = on_actor a (\<lambda>c. c\<lparr>a_links := jdel (a_links c) i\<rparr>) s"

definition setupRemoteLink :: "link_ref \<Rightarrow> actor_ref \<Rightarrow> actor_ref \<Rightarrow> actor \<Rightarrow> sys \<Rightarrow> sys" where
  "setupRemoteLink l r1 r2 act s =
     (let s1 = s\<lparr>remoteLinks := jput (remoteLinks s) (lr_id l)
                   \<lparr>rle_ref = l, rle_local = r1, rle_node = ref_node r2, rle_actor = ref_id r2\<rparr>,
                 linkedWith := jset_add (linkedWith s) (ref_id r1) (lr_id l)\<rparr>
      in emit (RequestTo (ref_node r2)
           (LinkAdd (lr_id l) (sys_id s) (ref_id r1) (ref_id r2) (a_trapExit act)))
           (ctx_link l (ref_id r1) s1))"

definition link ::
  "string \<Rightarrow> actor_ref \<Rightarrow> actor_ref \<Rightarrow> sys \<Rightarrow> js_error + link_ref \<times> sys" where
  "link fresh r1 r2 s =
     (if ref_node r1 \<noteq> sys_id s then Inl (PlainError ''Cannot link from remote actor'')
      else case getActor s (ref_id r1) of
             None \<Rightarrow> Inl (ActorNotFoundError (ref_id r1) (Some (sys_id s)))
           | Some act1 \<Rightarrow>
               (let l = \<lparr>lr_id = fresh, lr_actor1Id = ref_id r1, lr_actor2Id = ref_id r2\<rparr>
                in if ref_node r2 \<noteq> sys_id s then Inr (l, setupRemoteLink l r1 r2 act1 s)
                   else case getActor s (ref_id r2) of
                          None \<Rightarrow> Inl (ActorNotFoundError (ref_id r2) (Some (sys_id s)))
                        | Some _ \<Rightarrow>
                            Inr (l, ctx_link l (ref_id r2) (ctx_link l (ref_id r1)
                              (s\<lparr>links := jput (links s) fresh
                                   \<lparr>le_ref = l, le_actor1 = r1, le_actor2 = r2\<rparr>,
                                 linkedWith := jset_add (jset_add (linkedWith s) (ref_id r1) fresh)
                                   (ref_id r2) fresh\<rparr>)))))"

definition unlinkRemote :: "link_ref \<Rightarrow> remote_link \<Rightarrow> sys \<Rightarrow> sys" where
  "unlinkRemote l e s =
     (let a = ref_id (rle_local e);
          s1 = s\<lparr>remoteLinks := jdel (remoteLinks s) (lr_id l),
                 linkedWith := jset_del (linkedWith s) a (lr_id l)\<rparr>
      in emit (SendTo (rle_node e) (LinkRemove (lr_id l) (rle_actor e))) (ctx_unlink (lr_id l) a s1))"

definition unlink :: "link_ref \<Rightarrow> sys \<Rightarrow> sys" where
  "unlink l s =
     (case jget (remoteLinks s) (lr_id l) of
        Some e \<Rightarrow> unlinkRemote l e s
      | None \<Rightarrow>
          (case jget (links s) (lr_id l) of
             None \<Rightarrow> s
           | Some _ \<Rightarrow>
               ctx_unlink (lr_id l) (lr_actor2Id l) (ctx_unlink (lr_id l) (lr_actor1Id l)
                 (s\<lparr>links := jdel (links s) (lr_id l),
                    linkedWith := jset_del (jset_del (linkedWith s) (lr_actor1Id l) (lr_id l))
                      (lr_actor2Id l) (lr_id l)\<rparr>))))"

section \<open>Exit notifications\<close>

text \<open>\<open>errorMessage: reason.error?.message || "Unknown"\<close>.\<close>

fun serializeLinkReason :: "termination_reason \<Rightarrow> wire_reason" where
  "serializeLinkReason (ErrorExit m) = WireError (Some (if m = '''' then ''Unknown'' else m))"
| "serializeLinkReason NormalExit = WireNormal"
| "serializeLinkReason KilledExit = WireKilled"

definition sendExitMessage ::
  "link_ref option \<Rightarrow> actor_ref \<Rightarrow> string \<Rightarrow> termination_reason \<Rightarrow> sys \<Rightarrow> sys" where
  "sendExitMessage l terminated target reason s =
     emit (HandleInfo target (ExitMessage l terminated reason)) s"

fun reason_type :: "termination_reason \<Rightarrow> string" where
  "reason_type NormalExit = ''normal''"
| "reason_type (ErrorExit _) = ''error''"
| "reason_type KilledExit = ''killed''"

definition linked_error :: "string \<Rightarrow> termination_reason \<Rightarrow> string" where
  "linked_error a reason = ''Linked actor '' @ a @ '' terminated: '' @ reason_type reason"

definition notifyRemoteLinkExit :: "remote_link \<Rightarrow> string \<Rightarrow> termination_reason \<Rightarrow> sys \<Rightarrow> sys" where
  "notifyRemoteLinkExit e a reason s =
     emit (SendTo (rle_node e) (LinkExit (lr_id (rle_ref e)) a (serializeLinkReason reason)))
       (s\<lparr>remoteLinks := jdel (remoteLinks s) (lr_id (rle_ref e)),
          linkedWith := jset_del (linkedWith s) a (lr_id (rle_ref e))\<rparr>)"

text \<open>The end of a link that is not the terminated actor.\<close>

definition other_end :: "string \<Rightarrow> link_entry \<Rightarrow> actor_ref" where
  "other_end a e = (if ref_id (le_actor1 e) = a then le_actor2 e else le_actor1 e)"

definition notify_link ::
  "(actor_ref \<Rightarrow> string \<Rightarrow> sys \<Rightarrow> sys) \<Rightarrow> actor_ref \<Rightarrow> termination_reason \<Rightarrow> string \<Rightarrow> sys \<Rightarrow> sys" where
  "notify_link crash r reason i s =
     (case jget (links s) i of
        Some e \<Rightarrow>
          (let other = other_end (ref_id r) e; s1 = unlink (le_ref e) s
           in case getActor s1 (ref_id other) of
                None \<Rightarrow> s1
              | Some act \<Rightarrow>
                  if a_trapExit act then sendExitMessage (Some (le_ref e)) r (ref_id other) reason s1
                  else if reason \<noteq> NormalExit then crash other (linked_error (ref_id r) reason) s1
                  else s1)
      | None \<Rightarrow>
          (case jget (remoteLinks s) i of
             None \<Rightarrow> s
           | Some e \<Rightarrow> notifyRemoteLinkExit e (ref_id r) reason s))"

definition notifyRemoteLinker :: "string \<Rightarrow> termination_reason \<Rightarrow> remote_linker \<Rightarrow> sys \<Rightarrow> sys" where
  "notifyRemoteLinker a reason l s =
     emit (SendTo (rl_node l) (LinkExit (rl_refId l) a (serializeLinkReason reason))) s"

definition notifyRemoteLinkers :: "string \<Rightarrow> termination_reason \<Rightarrow> sys \<Rightarrow> sys" where
  "notifyRemoteLinkers a reason s =
     (let ls = jset_get (remoteLinkers s) a
      in if ls = [] then s
         else (fold (notifyRemoteLinker a reason) ls s)\<lparr>remoteLinkers := jdel (remoteLinkers s) a\<rparr>)"

definition notifyLinkedActors ::
  "(actor_ref \<Rightarrow> string \<Rightarrow> sys \<Rightarrow> sys) \<Rightarrow> actor_ref \<Rightarrow> termination_reason \<Rightarrow> sys \<Rightarrow> sys" where
  "notifyLinkedActors crash r reason s =
     notifyRemoteLinkers (ref_id r) reason
       (fold (notify_link crash r reason) (jset_get (linkedWith s) (ref_id r)) s)"

text \<open>\<open>sendExit\<close>; \<open>stop\<close> is the system's, as \<open>crash\<close> is the supervisor's.\<close>

definition sendExit ::
  "(actor_ref \<Rightarrow> string \<Rightarrow> sys \<Rightarrow> sys) \<Rightarrow> (actor_ref \<Rightarrow> sys \<Rightarrow> sys) \<Rightarrow>
   actor_ref \<Rightarrow> actor_ref \<Rightarrow> string \<Rightarrow> sys \<Rightarrow> sys" where
  "sendExit crash stop sender target reason s =
     (case getActor s (ref_id target) of
        None \<Rightarrow> s
      | Some act \<Rightarrow>
          if reason = ''normal'' then s
          else if reason = ''kill'' then stop target s
          else if a_trapExit act then sendExitMessage None sender (ref_id target) KilledExit s
          else crash target (''Exit signal from '' @ ref_id sender @ '': '' @ reason) s)"

section \<open>Requests from other nodes\<close>

definition handleRemoteLinkAdd ::
  "string \<Rightarrow> string \<Rightarrow> string \<Rightarrow> string \<Rightarrow> bool \<Rightarrow> sys \<Rightarrow> add_response \<times> sys" where
  "handleRemoteLinkAdd refId node linker linked trap s =
     (if \<not> alive s linked then (AddAlreadyDead, s)
      else (AddOk, s\<lparr>remoteLinkers := jput (remoteLinkers s) linked
              (jset_get (remoteLinkers s) linked @
                 [\<lparr>rl_refId = refId, rl_node = node, rl_actor = linker, rl_trapExit = trap\<rparr>])\<rparr>))"

definition handleRemoteLinkRemove :: "string \<Rightarrow> string \<Rightarrow> sys \<Rightarrow> sys" where
  "handleRemoteLinkRemove refId linked s =
     (case jget (remoteLinkers s) linked of
        None \<Rightarrow> s
      | Some ls \<Rightarrow>
          (let ls' = remove_first (\<lambda>l. rl_refId l = refId) ls
           in s\<lparr>remoteLinkers := (if ls' = [] then jdel (remoteLinkers s) linked
                                  else jput (remoteLinkers s) linked ls')\<rparr>))"

definition handleRemoteLinkExit ::
  "(actor_ref \<Rightarrow> string \<Rightarrow> sys \<Rightarrow> sys) \<Rightarrow> string \<Rightarrow> string \<Rightarrow> wire_reason \<Rightarrow> sys \<Rightarrow> sys" where
  "handleRemoteLinkExit crash refId exited wire s =
     (case jget (remoteLinks s) refId of
        None \<Rightarrow> s
      | Some e \<Rightarrow>
          (let a = ref_id (rle_local e);
               s1 = s\<lparr>remoteLinks := jdel (remoteLinks s) refId,
                      linkedWith := jset_del (linkedWith s) a refId\<rparr>
           in case getActor s1 a of
                None \<Rightarrow> s1
              | Some act \<Rightarrow>
                  (let s2 = ctx_unlink refId a s1; reason = deserializeTerminationReason wire;
                       l = \<lparr>lr_id = refId, lr_actor1Id = a, lr_actor2Id = exited\<rparr>
                   in if a_trapExit act
                      then emit (HandleInfo a (ExitMessage (Some l) (pseudo_ref (rle_node e) exited) reason)) s2
                      else if reason \<noteq> NormalExit
                      then crash (rle_local e)
                             (''Linked remote actor '' @ exited @ '' terminated: '' @ reason_type reason) s2
                      else s2)))"

definition remoteLinkReply ::
  "(actor_ref \<Rightarrow> string \<Rightarrow> sys \<Rightarrow> sys) \<Rightarrow> link_ref \<Rightarrow> string \<Rightarrow> (string + add_response) \<Rightarrow> sys \<Rightarrow> sys" where
  "remoteLinkReply crash l linked reply s =
     (case reply of
        Inr AddOk \<Rightarrow> s
      | Inr AddAlreadyDead \<Rightarrow> handleRemoteLinkExit crash (lr_id l) linked WireNormal s
      | Inl err \<Rightarrow> handleRemoteLinkExit crash (lr_id l) linked (WireError (Some err)) s)"

definition handleNodeFailureForLinks ::
  "(actor_ref \<Rightarrow> string \<Rightarrow> sys \<Rightarrow> sys) \<Rightarrow> string \<Rightarrow> sys \<Rightarrow> sys" where
  "handleNodeFailureForLinks crash dead s =
     (let dying = filter (\<lambda>e. rle_node e = dead) (jvals (remoteLinks s));
          s1 = fold (\<lambda>e. handleRemoteLinkExit crash (lr_id (rle_ref e)) (rle_actor e) WireKilled) dying s
      in s1\<lparr>remoteLinkers := purge_node rl_node dead (remoteLinkers s1)\<rparr>)"

section \<open>The tables agree\<close>

text \<open>
  The ends of a link on this node: both actors of a local link, the local one of a remote
  link. \<open>linkedWith\<close> indexes the links by their ends, an id is local or remote, and every live
  end has the link in its context (which is what \<open>stopSingle\<close> cleans up from).
\<close>

definition ends_of :: "link_entry option \<Rightarrow> remote_link option \<Rightarrow> string set" where
  "ends_of l r = (case l of Some e \<Rightarrow> {ref_id (le_actor1 e), ref_id (le_actor2 e)}
     | None \<Rightarrow> (case r of Some e \<Rightarrow> {ref_id (rle_local e)} | None \<Rightarrow> {}))"

definition link_ends :: "sys \<Rightarrow> string \<Rightarrow> string set" where
  "link_ends s i = ends_of (jget (links s) i) (jget (remoteLinks s) i)"

lemma ends_of_simps [simp]:
  "ends_of (Some e) r = {ref_id (le_actor1 e), ref_id (le_actor2 e)}"
  "ends_of None (Some e') = {ref_id (rle_local e')}" "ends_of None None = {}"
  by (simp_all add: ends_of_def)

definition link_refs :: "sys \<Rightarrow> bool" where
  "link_refs s \<longleftrightarrow>
     (\<forall>i e. jget (links s) i = Some e \<longrightarrow> lr_id (le_ref e) = i \<and>
        lr_actor1Id (le_ref e) = ref_id (le_actor1 e) \<and> lr_actor2Id (le_ref e) = ref_id (le_actor2 e)) \<and>
     (\<forall>i e. jget (links s) i = Some e \<longrightarrow> jget (remoteLinks s) i = None) \<and>
     (\<forall>i e. jget (remoteLinks s) i = Some e \<longrightarrow> lr_id (rle_ref e) = i) \<and>
     jwf (links s) \<and> jwf (remoteLinks s)"

definition link_index :: "sys \<Rightarrow> bool" where
  "link_index s \<longleftrightarrow>
     (\<forall>a i. i \<in> set (jset_get (linkedWith s) a) \<longleftrightarrow> a \<in> link_ends s i) \<and>
     (\<forall>a. distinct (jset_get (linkedWith s) a) \<and> jget (linkedWith s) a \<noteq> Some [])"

definition link_held :: "sys \<Rightarrow> bool" where
  "link_held s \<longleftrightarrow> (\<forall>b act i. getActor s b = Some act \<longrightarrow> b \<in> link_ends s i \<longrightarrow>
     (\<exists>l. jget (a_links act) i = Some l \<and> lr_id l = i))"

definition link_inv :: "sys \<Rightarrow> bool" where
  "link_inv s \<longleftrightarrow> link_refs s \<and> link_index s \<and> link_held s"

definition fresh_link :: "string \<Rightarrow> sys \<Rightarrow> bool" where
  "fresh_link i s \<longleftrightarrow> jget (links s) i = None \<and> jget (remoteLinks s) i = None"

text \<open>A reference \<open>link\<close> returned: if the link is still there, the reference names its ends.\<close>

definition known_link :: "link_ref \<Rightarrow> sys \<Rightarrow> bool" where
  "known_link l s \<longleftrightarrow> (\<forall>e. jget (links s) (lr_id l) = Some e \<longrightarrow>
     lr_actor1Id l = ref_id (le_actor1 e) \<and> lr_actor2Id l = ref_id (le_actor2 e))"

lemma ctx_simps [simp]:
  "links (ctx_unlink i a s) = links s" "remoteLinks (ctx_unlink i a s) = remoteLinks s"
  "linkedWith (ctx_unlink i a s) = linkedWith s" "remoteLinkers (ctx_unlink i a s) = remoteLinkers s"
  "outbox (ctx_unlink i a s) = outbox s" "sys_id (ctx_unlink i a s) = sys_id s"
  "links (ctx_link l a s) = links s" "remoteLinks (ctx_link l a s) = remoteLinks s"
  "linkedWith (ctx_link l a s) = linkedWith s" "outbox (ctx_link l a s) = outbox s"
  by (simp_all add: ctx_link_def ctx_unlink_def)

lemma link_refs_emit [simp]: "link_refs (emit x s) = link_refs s"
  by (simp add: link_refs_def)

lemma link_ends_emit [simp]: "link_ends (emit x s) = link_ends s"
  by (rule ext) (simp add: link_ends_def)

lemma link_index_emit [simp]: "link_index (emit x s) = link_index s"
  by (simp add: link_index_def)

lemma link_held_emit [simp]: "link_held (emit x s) = link_held s"
  by (simp add: link_held_def)

lemma link_inv_emit [simp]: "link_inv (emit x s) = link_inv s"
  by (simp add: link_inv_def)

lemma link_inv_remoteLinkers [simp]: "link_inv (s\<lparr>remoteLinkers := m\<rparr>) = link_inv s"
  by (simp add: link_inv_def link_refs_def link_index_def link_held_def link_ends_def)

text \<open>Taking a link out of the tables, and then out of contexts.\<close>

definition drop_link :: "string \<Rightarrow> sys \<Rightarrow> sys" where
  "drop_link i s = s\<lparr>links := jdel (links s) i, remoteLinks := jdel (remoteLinks s) i,
     linkedWith := (case jget (links s) i of
         Some e \<Rightarrow> jset_del (jset_del (linkedWith s) (ref_id (le_actor1 e)) i) (ref_id (le_actor2 e)) i
       | None \<Rightarrow> (case jget (remoteLinks s) i of
           Some e \<Rightarrow> jset_del (linkedWith s) (ref_id (rle_local e)) i | None \<Rightarrow> linkedWith s))\<rparr>"

lemma link_ends_drop: "link_ends (drop_link i s) j = (if j = i then {} else link_ends s j)"
  by (simp add: link_ends_def drop_link_def)

lemma link_refs_drop: "link_refs s \<Longrightarrow> link_refs (drop_link i s)"
  by (auto simp: link_refs_def drop_link_def)

lemma jset_get_drop:
  assumes "link_index s"
  shows "set (jset_get (linkedWith (drop_link i s)) a) = set (jset_get (linkedWith s) a) - {i}"
proof -
  have "i \<in> set (jset_get (linkedWith s) a) \<longleftrightarrow> a \<in> link_ends s i"
    using assms by (simp add: link_index_def)
  then show ?thesis
    by (auto simp: drop_link_def link_ends_def split: option.splits)
qed

lemma distinct_drop:
  assumes "\<And>a. distinct (jset_get m a)" and "\<And>a. jget m a \<noteq> Some []"
  shows "distinct (jset_get (jset_del m b i) a)" and "jget (jset_del m b i) a \<noteq> Some []"
  using assms jget_jset_del_ne [of m b i a] by simp_all

lemma link_index_drop:
  assumes "link_index s"
  shows "link_index (drop_link i s)"
proof -
  have d: "distinct (jset_get (linkedWith s) a)" "jget (linkedWith s) a \<noteq> Some []" for a
    using assms by (simp_all add: link_index_def)
  have "distinct (jset_get (linkedWith (drop_link i s)) a) \<and> jget (linkedWith (drop_link i s)) a \<noteq> Some []" for a
    using d by (auto simp: drop_link_def distinct_drop split: option.split)
  moreover have "j \<in> set (jset_get (linkedWith (drop_link i s)) a) \<longleftrightarrow> a \<in> link_ends (drop_link i s) j" for a j
    using assms by (simp add: jset_get_drop link_ends_drop) (auto simp: link_index_def)
  ultimately show ?thesis by (simp add: link_index_def)
qed

lemma link_held_drop: "link_held s \<Longrightarrow> link_held (drop_link i s)"
  by (auto simp: link_held_def link_ends_drop) (auto simp: drop_link_def split: if_splits)

lemma link_inv_drop: "link_inv s \<Longrightarrow> link_inv (drop_link i s)"
  by (simp add: link_inv_def link_refs_drop link_index_drop link_held_drop)

lemma link_inv_ctx_unlink:
  assumes "link_inv s" and "b \<notin> link_ends s i"
  shows "link_inv (ctx_unlink i b s)"
proof -
  have "link_ends (ctx_unlink i b s) = link_ends s" by (rule ext) (simp add: link_ends_def)
  then have "link_held (ctx_unlink i b s)"
    using assms by (auto simp: link_inv_def link_held_def ctx_unlink_def)
  then show ?thesis
    using assms(1) by (simp add: link_inv_def link_refs_def link_index_def link_ends_def)
qed

lemma unlink_drop:
  assumes "link_inv s" and "known_link l s" and "jget (links s) (lr_id l) \<noteq> None"
  shows "unlink l s = ctx_unlink (lr_id l) (lr_actor2Id l) (ctx_unlink (lr_id l) (lr_actor1Id l) (drop_link (lr_id l) s))"
  using assms by (auto simp: unlink_def drop_link_def known_link_def link_inv_def link_refs_def jdel_absent
      split: option.split)

lemma link_inv_unlink:
  assumes "link_inv s" and "known_link l s"
  shows "link_inv (unlink l s)"
proof (cases "jget (remoteLinks s) (lr_id l)")
  case (Some e)
  then have none: "jget (links s) (lr_id l) = None"
    using assms(1) by (cases "jget (links s) (lr_id l)") (auto simp: link_inv_def link_refs_def)
  then have "unlink l s = emit (SendTo (rle_node e) (LinkRemove (lr_id l) (rle_actor e)))
      (ctx_unlink (lr_id l) (ref_id (rle_local e)) (drop_link (lr_id l) s))"
    using Some by (simp add: unlink_def unlinkRemote_def Let_def drop_link_def jdel_absent)
  then show ?thesis using assms(1) by (simp add: link_inv_ctx_unlink link_inv_drop link_ends_drop)
next
  case None
  show ?thesis
  proof (cases "jget (links s) (lr_id l) = None")
    case False
    show ?thesis
      unfolding unlink_drop [OF assms False]
      by (intro link_inv_ctx_unlink link_inv_drop assms(1)) (simp_all add: link_ends_def ctx_unlink_def drop_link_def)
  qed (simp add: unlink_def None assms(1))
qed

lemma link_inv_ctx_link:
  assumes "link_inv s"
  shows "link_inv (ctx_link l b s)"
proof -
  have "link_ends (ctx_link l b s) = link_ends s" by (rule ext) (simp add: link_ends_def)
  then have "link_held (ctx_link l b s)"
    using assms by (auto simp: link_inv_def link_held_def ctx_link_def)
  then show ?thesis
    using assms by (simp add: link_inv_def link_refs_def link_index_def link_ends_def)
qed

text \<open>Only removals: what termination does to the tables.\<close>

definition fewer_links :: "sys \<Rightarrow> sys \<Rightarrow> bool" where
  "fewer_links s s' \<longleftrightarrow>
     (\<forall>i e. jget (links s') i = Some e \<longrightarrow> jget (links s) i = Some e) \<and>
     (\<forall>i e. jget (remoteLinks s') i = Some e \<longrightarrow> jget (remoteLinks s) i = Some e)"

lemma fewer_refl [simp]: "fewer_links s s"
  by (simp add: fewer_links_def)

lemma fewer_trans: "fewer_links s s' \<Longrightarrow> fewer_links s' s'' \<Longrightarrow> fewer_links s s''"
  by (simp add: fewer_links_def)

lemma fewer_same [simp]: "links s' = links s \<Longrightarrow> remoteLinks s' = remoteLinks s \<Longrightarrow> fewer_links s s'"
  by (simp add: fewer_links_def)

lemma fewer_emit [simp]: "fewer_links s (emit x s') = fewer_links s s'"
  by (simp add: fewer_links_def)

lemma fewer_ctx [simp]: "fewer_links s (ctx_unlink i a s') = fewer_links s s'"
  by (simp add: fewer_links_def)

lemma fewer_drop: "fewer_links s (drop_link i s)"
  by (simp add: fewer_links_def drop_link_def)

lemma fewer_unlink: "fewer_links s (unlink l s)"
  by (simp add: unlink_def unlinkRemote_def Let_def fewer_links_def split: option.split)

text \<open>What unlinking leaves: the same actors, with no more links in the tables and the contexts.\<close>

definition ctx_links :: "sys \<Rightarrow> string \<Rightarrow> (string \<times> link_ref) set" where
  "ctx_links s b = (case getActor s b of None \<Rightarrow> {} | Some a \<Rightarrow> set (a_links a))"

definition shrinks :: "sys \<Rightarrow> sys \<Rightarrow> bool" where
  "shrinks s t \<longleftrightarrow> fewer_links s t \<and> uuids t = uuids s \<and> (\<forall>b. alive t b = alive s b) \<and>
     (\<forall>b. ctx_links t b \<subseteq> ctx_links s b)"

lemma shrinks_refl [simp]: "shrinks s s"
  by (simp add: shrinks_def)

lemma shrinks_trans: "shrinks s t \<Longrightarrow> shrinks t u \<Longrightarrow> shrinks s u"
  using fewer_trans by (fastforce simp: shrinks_def)

lemma shrinks_emit [simp]: "shrinks s (emit x t) = shrinks s t"
  by (simp add: shrinks_def ctx_links_def)

lemma shrinks_ctx_unlink: "shrinks s (ctx_unlink i a s)"
proof -
  have "ctx_links (ctx_unlink i a s) b \<subseteq> ctx_links s b" for b
    by (auto simp: ctx_links_def ctx_unlink_def set_jdel split: option.split)
  then show ?thesis by (auto simp: shrinks_def) (auto simp: ctx_unlink_def)
qed

lemma shrinks_tables: "fewer_links s t \<Longrightarrow> uuids t = uuids s \<Longrightarrow> actors t = actors s \<Longrightarrow> shrinks s t"
  by (simp add: shrinks_def ctx_links_def)

lemma shrinks_drop: "shrinks s (drop_link i s)"
  by (rule shrinks_tables [OF fewer_drop]) (simp_all add: drop_link_def)

lemma shrinks_unlink: "shrinks s (unlink l s)"
proof -
  have t: "shrinks s (s\<lparr>remoteLinks := jdel (remoteLinks s) i, linkedWith := w\<rparr>)"
    "shrinks s (s\<lparr>links := jdel (links s) i, linkedWith := w\<rparr>)" for i w
    by (rule shrinks_tables; simp add: fewer_links_def)+
  show ?thesis
    by (auto simp: unlink_def unlinkRemote_def Let_def
        intro: shrinks_trans [OF t(1) shrinks_ctx_unlink]
          shrinks_trans [OF shrinks_trans [OF t(2) shrinks_ctx_unlink] shrinks_ctx_unlink] split: option.split)
qed

lemma remote_ends:
  assumes "link_inv s" and "i \<in> set (jset_get (linkedWith s) a)" and "jget (remoteLinks s) i = Some e"
  shows "ref_id (rle_local e) = a"
proof -
  have "jget (links s) i = None"
    using assms(1,3) by (cases "jget (links s) i") (auto simp: link_inv_def link_refs_def)
  moreover have "a \<in> link_ends s i" using assms(1,2) by (simp add: link_inv_def link_index_def)
  ultimately show ?thesis using assms(3) by (simp add: link_ends_def)
qed

lemma remoteLinkers_same:
  "links (notifyRemoteLinkers a reason s) = links s" "remoteLinks (notifyRemoteLinkers a reason s) = remoteLinks s"
  "link_inv (notifyRemoteLinkers a reason s) = link_inv s"
proof -
  have f: "links (fold (notifyRemoteLinker a reason) ls s) = links s \<and>
      remoteLinks (fold (notifyRemoteLinker a reason) ls s) = remoteLinks s \<and>
      link_inv (fold (notifyRemoteLinker a reason) ls s) = link_inv s" for ls
    by (induction ls arbitrary: s) (simp_all add: notifyRemoteLinker_def)
  show "links (notifyRemoteLinkers a reason s) = links s" "remoteLinks (notifyRemoteLinkers a reason s) = remoteLinks s"
    "link_inv (notifyRemoteLinkers a reason s) = link_inv s"
    by (simp_all add: notifyRemoteLinkers_def Let_def f)
qed

lemma shrinks_remoteLinkers: "shrinks s (notifyRemoteLinkers a reason s)"
proof -
  have "shrinks s (fold (notifyRemoteLinker a reason) ls s)" for ls
  proof (induction ls arbitrary: s)
    case (Cons l ls)
    have "shrinks s (notifyRemoteLinker a reason l s)" by (simp add: notifyRemoteLinker_def)
    from shrinks_trans [OF this Cons.IH] show ?case by simp
  qed simp
  moreover have "shrinks t (t\<lparr>remoteLinkers := m\<rparr>)" for t m by (simp add: shrinks_tables)
  ultimately show ?thesis by (auto simp: notifyRemoteLinkers_def Let_def intro: shrinks_trans)
qed

lemma fewer_ends: "fewer_links s t \<Longrightarrow> link_inv s \<Longrightarrow> link_ends t i \<subseteq> link_ends s i"
proof -
  assume few: "fewer_links s t" and inv: "link_inv s"
  show ?thesis
  proof (cases "jget (links t) i")
    case None
    show ?thesis
    proof (cases "jget (remoteLinks t) i")
      case (Some e)
      then have "jget (remoteLinks s) i = Some e" using few by (simp add: fewer_links_def)
      moreover from this have "jget (links s) i = None"
        using inv by (cases "jget (links s) i") (auto simp: link_inv_def link_refs_def)
      ultimately show ?thesis using None Some by (simp add: link_ends_def)
    qed (simp add: link_ends_def None)
  next
    case (Some e)
    then have "jget (links s) i = Some e" using few by (simp add: fewer_links_def)
    with Some show ?thesis by (simp add: link_ends_def)
  qed
qed

section \<open>What the supervisor must keep\<close>

text \<open>
  The interface of \<open>handleCrash\<close> for this component: it keeps what is known of the links
  (\<open>ok\<close>, which unlinking keeps too and which makes the link tables agree) and never adds a
  link. Under these laws every notification keeps it.
\<close>

locale crash_handler =
  fixes crash :: "actor_ref \<Rightarrow> string \<Rightarrow> sys \<Rightarrow> sys" and ok :: "sys \<Rightarrow> bool"
  assumes ok_links: "ok s \<Longrightarrow> link_inv s"
    and ok_shrinks: "ok s \<Longrightarrow> link_inv t \<Longrightarrow> shrinks s t \<Longrightarrow> ok t"
    and crash_ok: "ok s \<Longrightarrow> ok (crash r x s)"
    and crash_fewer: "fewer_links s (crash r x s)"
begin

lemma notify_link_local:
  assumes "ok s" and "jget (links s) i = Some e"
  shows "ok (notify_link crash r reason i s)" and "fewer_links s (notify_link crash r reason i s)"
    and "link_ends (notify_link crash r reason i s) i = {}"
proof -
  have "known_link (le_ref e) s" and i: "lr_id (le_ref e) = i" "jget (remoteLinks s) i = None"
    using ok_links [OF assms(1)] assms(2) by (auto simp: known_link_def link_inv_def link_refs_def)
  then have u: "ok (unlink (le_ref e) s)" "fewer_links s (unlink (le_ref e) s)"
    using ok_shrinks [OF assms(1) link_inv_unlink [OF ok_links [OF assms(1)]] shrinks_unlink] fewer_unlink by blast+
  have emits: "ok (emit x (unlink (le_ref e) s))" for x
    by (rule ok_shrinks [OF u(1)]) (simp_all add: ok_links u)
  have none: "link_ends (unlink (le_ref e) s) i = {}"
    using assms(2) i by (simp add: link_ends_def unlink_def)
  then have "link_ends (crash a x (unlink (le_ref e) s)) i = {}" for a x
    using fewer_ends [OF crash_fewer ok_links [OF u(1)]] by blast
  then show "ok (notify_link crash r reason i s)" "fewer_links s (notify_link crash r reason i s)"
    "link_ends (notify_link crash r reason i s) i = {}"
    using assms(2) u none emits fewer_trans [OF u(2) crash_fewer]
    by (simp_all add: notify_link_def Let_def sendExitMessage_def crash_ok split: option.split)
qed

lemma notify_link_remote:
  assumes "ok s" and "jget (links s) i = None" and "\<And>e. jget (remoteLinks s) i = Some e \<Longrightarrow> ref_id (rle_local e) = ref_id r"
  shows "ok (notify_link crash r reason i s)" and "fewer_links s (notify_link crash r reason i s)"
    and "link_ends (notify_link crash r reason i s) i = {}"
proof -
  note inv = ok_links [OF assms(1)]
  have "notifyRemoteLinkExit e (ref_id r) reason s = emit (SendTo (rle_node e)
      (LinkExit i (ref_id r) (serializeLinkReason reason))) (drop_link i s)" if "jget (remoteLinks s) i = Some e" for e
    using that assms inv by (simp add: notifyRemoteLinkExit_def drop_link_def jdel_absent link_inv_def link_refs_def)
  moreover have "ok (emit x (drop_link i s))" for x
    by (rule ok_shrinks [OF assms(1)]) (simp_all add: link_inv_drop inv shrinks_drop)
  ultimately show "ok (notify_link crash r reason i s)" "fewer_links s (notify_link crash r reason i s)"
    "link_ends (notify_link crash r reason i s) i = {}"
    using assms by (simp_all add: notify_link_def fewer_drop link_ends_drop link_ends_def [of s] split: option.split)
qed

lemma fold_notify_link:
  assumes "ok s" and "\<forall>i\<in>set ids. \<forall>e. jget (remoteLinks s) i = Some e \<longrightarrow> ref_id (rle_local e) = ref_id r"
  shows "ok (fold (notify_link crash r reason) ids s) \<and> fewer_links s (fold (notify_link crash r reason) ids s) \<and>
    (\<forall>i\<in>set ids. link_ends (fold (notify_link crash r reason) ids s) i = {})"
  using assms
proof (induction ids arbitrary: s)
  case (Cons i ids)
  let ?s = "notify_link crash r reason i s"
  have s: "ok ?s \<and> fewer_links s ?s \<and> link_ends ?s i = {}"
  proof (cases "jget (links s) i")
    case None
    then show ?thesis using notify_link_remote [OF Cons.prems(1) None] Cons.prems(2) by simp
  qed (use notify_link_local [OF Cons.prems(1)] in blast)
  moreover from this have "\<forall>j\<in>set ids. \<forall>e. jget (remoteLinks ?s) j = Some e \<longrightarrow> ref_id (rle_local e) = ref_id r"
    using Cons.prems(2) by (auto simp: fewer_links_def)
  ultimately have IH: "ok (fold (notify_link crash r reason) ids ?s)" "fewer_links ?s (fold (notify_link crash r reason) ids ?s)"
    "\<forall>i\<in>set ids. link_ends (fold (notify_link crash r reason) ids ?s) i = {}"
    using Cons.IH [of ?s] by auto
  then have "link_ends (fold (notify_link crash r reason) ids ?s) i = {}"
    using s fewer_ends [OF IH(2), of i] ok_links by auto
  with IH s show ?case using fewer_trans [of s ?s] by auto
qed simp

lemma notifyLinked_keeps:
  assumes "ok s"
  shows "ok (notifyLinkedActors crash r reason s)" and "fewer_links s (notifyLinkedActors crash r reason s)"
    and "ref_id r \<notin> link_ends (notifyLinkedActors crash r reason s) i"
proof -
  let ?f = "fold (notify_link crash r reason) (jset_get (linkedWith s) (ref_id r)) s"
  have "ok ?f \<and> fewer_links s ?f \<and> (\<forall>i\<in>set (jset_get (linkedWith s) (ref_id r)). link_ends ?f i = {})"
    using fold_notify_link [OF assms, of "jset_get (linkedWith s) (ref_id r)" r reason] remote_ends [OF ok_links [OF assms]] by blast
  then have F: "ok ?f" "fewer_links s ?f" "\<forall>i\<in>set (jset_get (linkedWith s) (ref_id r)). link_ends ?f i = {}" by blast+
  have "ok (notifyRemoteLinkers (ref_id r) reason ?f)"
    by (rule ok_shrinks [OF F(1)]) (simp_all add: remoteLinkers_same ok_links F(1) shrinks_remoteLinkers)
  then show "ok (notifyLinkedActors crash r reason s)" by (simp add: notifyLinkedActors_def)
  from F show "fewer_links s (notifyLinkedActors crash r reason s)"
    by (simp add: notifyLinkedActors_def fewer_links_def remoteLinkers_same)
  have "i \<in> set (jset_get (linkedWith s) (ref_id r)) \<longleftrightarrow> ref_id r \<in> link_ends s i"
    using ok_links [OF assms] by (simp add: link_inv_def link_index_def)
  then have "ref_id r \<notin> link_ends ?f i"
    using F(3) fewer_ends [OF F(2) ok_links [OF assms]] by blast
  then show "ref_id r \<notin> link_ends (notifyLinkedActors crash r reason s) i"
    by (simp add: notifyLinkedActors_def link_ends_def remoteLinkers_same)
qed

lemma handleRemoteLinkExit_keeps:
  assumes "ok s"
  shows "ok (handleRemoteLinkExit crash i q w s)" and "fewer_links s (handleRemoteLinkExit crash i q w s)"
proof -
  note inv = ok_links [OF assms]
  have D: "s\<lparr>remoteLinks := jdel (remoteLinks s) i, linkedWith := jset_del (linkedWith s) (ref_id (rle_local e)) i\<rparr> =
      drop_link i s" if "jget (remoteLinks s) i = Some e" for e
  proof -
    have "jget (links s) i = None"
      using inv that by (cases "jget (links s) i") (auto simp: link_inv_def link_refs_def)
    then show ?thesis using that by (simp add: drop_link_def jdel_absent)
  qed
  have o: "ok (drop_link i s)" by (rule ok_shrinks [OF assms]) (simp_all add: link_inv_drop inv shrinks_drop)
  have c: "ok (ctx_unlink i a (drop_link i s))" for a
    by (rule ok_shrinks [OF o _ shrinks_ctx_unlink]) (simp add: link_inv_ctx_unlink link_inv_drop inv link_ends_drop)
  have e: "ok (emit x (ctx_unlink i a (drop_link i s)))" for x a
    by (rule ok_shrinks [OF c [of a]]) (simp_all add: ok_links [OF c])
  have few: "fewer_links s (crash r x (ctx_unlink i a (drop_link i s)))" for r x a
    by (rule fewer_trans [OF _ crash_fewer]) (simp add: fewer_drop)
  show "ok (handleRemoteLinkExit crash i q w s)" "fewer_links s (handleRemoteLinkExit crash i q w s)"
    using assms o c e few
    by (auto simp: handleRemoteLinkExit_def Let_def D crash_ok fewer_drop split: option.split)
qed

lemma nodeFailureForLinks_keeps:
  assumes "ok s"
  shows "ok (handleNodeFailureForLinks crash n s)"
proof -
  let ?f = "\<lambda>es. fold (\<lambda>e. handleRemoteLinkExit crash (lr_id (rle_ref e)) (rle_actor e) WireKilled) es s"
  have f: "ok (?f es)" for es
    by (rule fold_inv [where P = ok, OF assms]) (simp add: handleRemoteLinkExit_keeps)
  have "ok (?f es\<lparr>remoteLinkers := m\<rparr>)" for es m
    by (rule ok_shrinks [OF f [of es]]) (simp_all add: ok_links f shrinks_def ctx_links_def)
  then show ?thesis by (simp add: handleNodeFailureForLinks_def Let_def)
qed

end

section \<open>Adding a link\<close>

lemma link_ends_ctx [simp]: "link_ends (ctx_link l b s) = link_ends s"
  by (rule ext) (simp add: link_ends_def)

lemma getActor_ctx_link:
  "getActor (ctx_link l a s) b =
     (if b = a then map_option (\<lambda>c. c\<lparr>a_links := jput (a_links c) (lr_id l) l\<rparr>) (getActor s b) else getActor s b)"
  by (simp add: ctx_link_def)

lemma link_inv_add_local:
  assumes "link_inv s" and "fresh_link (lr_id l) s" and "lr_actor1Id l = ref_id r1" and "lr_actor2Id l = ref_id r2"
  shows "link_inv (ctx_link l (ref_id r2) (ctx_link l (ref_id r1) (s\<lparr>links := jput (links s) (lr_id l)
      \<lparr>le_ref = l, le_actor1 = r1, le_actor2 = r2\<rparr>,
    linkedWith := jset_add (jset_add (linkedWith s) (ref_id r1) (lr_id l)) (ref_id r2) (lr_id l)\<rparr>)))"
    (is "link_inv (ctx_link l _ (ctx_link l _ ?s))")
proof -
  have ends: "link_ends ?s j = (if j = lr_id l then {ref_id r1, ref_id r2} else link_ends s j)" for j
    by (simp add: link_ends_def)
  have none: "link_ends s (lr_id l) = {}" using assms(2) by (simp add: link_ends_def fresh_link_def)
  have "link_refs ?s" using assms by (auto simp: link_inv_def link_refs_def fresh_link_def)
  moreover have "link_index ?s"
    using assms(1) none unfolding link_index_def ends link_inv_def by (auto simp: link_index_def)
  moreover have "link_held (ctx_link l (ref_id r2) (ctx_link l (ref_id r1) ?s))"
    using assms(1) by (auto simp: link_held_def ends link_inv_def getActor_ctx_link split: if_splits)
  ultimately show ?thesis by (simp add: link_inv_def link_refs_def link_index_def)
qed

lemma link_inv_add_remote:
  assumes "link_inv s" and "fresh_link (lr_id l) s"
  shows "link_inv (setupRemoteLink l r1 r2 act s)"
proof -
  let ?s = "s\<lparr>remoteLinks := jput (remoteLinks s) (lr_id l)
                   \<lparr>rle_ref = l, rle_local = r1, rle_node = ref_node r2, rle_actor = ref_id r2\<rparr>,
                 linkedWith := jset_add (linkedWith s) (ref_id r1) (lr_id l)\<rparr>"
  have ends: "link_ends ?s j = (if j = lr_id l then {ref_id r1} else link_ends s j)" for j
    using assms(2) by (simp add: link_ends_def fresh_link_def)
  have none: "link_ends s (lr_id l) = {}" using assms(2) by (simp add: link_ends_def fresh_link_def)
  have "link_refs ?s" using assms by (auto simp: link_inv_def link_refs_def fresh_link_def)
  moreover have "link_index ?s"
    using assms(1) none unfolding link_index_def ends link_inv_def by (auto simp: link_index_def)
  moreover have "link_held (ctx_link l (ref_id r1) ?s)"
    using assms(1) by (auto simp: link_held_def ends link_inv_def getActor_ctx_link split: if_splits)
  ultimately have "link_inv (ctx_link l (ref_id r1) ?s)" by (simp add: link_inv_def link_refs_def link_index_def)
  then show ?thesis by (simp add: setupRemoteLink_def Let_def)
qed

lemma link_inv_link:
  assumes "link_inv s" and "fresh_link i s" and "link i r1 r2 s = Inr (l, s')"
  shows "link_inv s'"
proof -
  define k where "k = \<lparr>lr_id = i, lr_actor1Id = ref_id r1, lr_actor2Id = ref_id r2\<rparr>"
  have k: "lr_id k = i" "lr_actor1Id k = ref_id r1" "lr_actor2Id k = ref_id r2" by (simp_all add: k_def)
  show ?thesis
    using assms link_inv_add_local [of s k r1 r2] link_inv_add_remote [of s k r1 r2] k
    by (auto simp: link_def Let_def k_def [symmetric] split: if_splits option.splits)
qed

section \<open>A normal termination\<close>

text \<open>
  What a termination that crashes nobody tells for the link with id \<open>i\<close>.
\<close>

definition exit_message ::
  "link_entry option \<Rightarrow> remote_link option \<Rightarrow> (string \<Rightarrow> bool option) \<Rightarrow> actor_ref \<Rightarrow> termination_reason \<Rightarrow>
   string \<Rightarrow> out_effect list" where
  "exit_message l rl traps r reason i = (case l of
       Some e \<Rightarrow> if traps (ref_id (other_end (ref_id r) e)) = Some True
         then [HandleInfo (ref_id (other_end (ref_id r) e)) (ExitMessage (Some (le_ref e)) r reason)] else []
     | None \<Rightarrow> (case rl of
           Some e \<Rightarrow> [SendTo (rle_node e) (LinkExit i (ref_id r) (serializeLinkReason reason))] | None \<Rightarrow> []))"

definition exit_effect :: "sys \<Rightarrow> actor_ref \<Rightarrow> termination_reason \<Rightarrow> string \<Rightarrow> out_effect list" where
  "exit_effect s r reason i = exit_message (jget (links s) i) (jget (remoteLinks s) i)
     (\<lambda>b. map_option a_trapExit (getActor s b)) r reason i"

lemma trap_ctx_unlink [simp]:
  "map_option a_trapExit (getActor (ctx_unlink i a s) b) = map_option a_trapExit (getActor s b)"
  by (simp add: ctx_unlink_def option.map_comp comp_def)

lemma notify_link_local_normal:
  assumes inv: "link_inv s" and e: "jget (links s) i = Some e"
  shows "links (notify_link crash r NormalExit i s) = jdel (links s) i"
    and "remoteLinks (notify_link crash r NormalExit i s) = jdel (remoteLinks s) i"
    and "remoteLinkers (notify_link crash r NormalExit i s) = remoteLinkers s"
    and "map_option a_trapExit (getActor (notify_link crash r NormalExit i s) b) = map_option a_trapExit (getActor s b)"
    and "outbox (notify_link crash r NormalExit i s) = outbox s @ exit_effect s r NormalExit i"
    and "link_inv (notify_link crash r NormalExit i s)"
proof -
  let ?u = "unlink (le_ref e) s"
  have k: "known_link (le_ref e) s" "lr_id (le_ref e) = i" "jget (remoteLinks s) i = None"
    using inv e by (auto simp: known_link_def link_inv_def link_refs_def)
  have u: "links ?u = jdel (links s) i" "remoteLinks ?u = jdel (remoteLinks s) i"
    "remoteLinkers ?u = remoteLinkers s" "outbox ?u = outbox s"
    "map_option a_trapExit (getActor ?u b) = map_option a_trapExit (getActor s b)" "link_inv ?u" for b
    using k e inv by (simp_all add: link_inv_unlink, simp_all add: unlink_def jdel_absent)
  have n: "notify_link crash r NormalExit i s =
      (if map_option a_trapExit (getActor ?u (ref_id (other_end (ref_id r) e))) = Some True
       then sendExitMessage (Some (le_ref e)) r (ref_id (other_end (ref_id r) e)) NormalExit ?u else ?u)"
    using e by (auto simp: notify_link_def Let_def split: option.split)
  show "links (notify_link crash r NormalExit i s) = jdel (links s) i"
    and "remoteLinks (notify_link crash r NormalExit i s) = jdel (remoteLinks s) i"
    and "remoteLinkers (notify_link crash r NormalExit i s) = remoteLinkers s"
    and "map_option a_trapExit (getActor (notify_link crash r NormalExit i s) b) = map_option a_trapExit (getActor s b)"
    and "outbox (notify_link crash r NormalExit i s) = outbox s @ exit_effect s r NormalExit i"
    and "link_inv (notify_link crash r NormalExit i s)"
    unfolding n by (simp_all add: u e exit_effect_def exit_message_def sendExitMessage_def)
qed

lemma notify_link_remote_normal:
  assumes inv: "link_inv s" and n: "jget (links s) i = None"
    and own: "\<And>e. jget (remoteLinks s) i = Some e \<Longrightarrow> ref_id (rle_local e) = ref_id r"
  shows "links (notify_link crash r NormalExit i s) = jdel (links s) i"
    and "remoteLinks (notify_link crash r NormalExit i s) = jdel (remoteLinks s) i"
    and "remoteLinkers (notify_link crash r NormalExit i s) = remoteLinkers s"
    and "map_option a_trapExit (getActor (notify_link crash r NormalExit i s) b) = map_option a_trapExit (getActor s b)"
    and "outbox (notify_link crash r NormalExit i s) = outbox s @ exit_effect s r NormalExit i"
proof -
  have "lr_id (rle_ref e) = i" if "jget (remoteLinks s) i = Some e" for e
    using inv that by (simp add: link_inv_def link_refs_def)
  then show "links (notify_link crash r NormalExit i s) = jdel (links s) i"
    and "remoteLinks (notify_link crash r NormalExit i s) = jdel (remoteLinks s) i"
    and "remoteLinkers (notify_link crash r NormalExit i s) = remoteLinkers s"
    and "map_option a_trapExit (getActor (notify_link crash r NormalExit i s) b) = map_option a_trapExit (getActor s b)"
    and "outbox (notify_link crash r NormalExit i s) = outbox s @ exit_effect s r NormalExit i"
    using n by (simp_all add: notify_link_def notifyRemoteLinkExit_def jdel_absent exit_effect_def
        exit_message_def split: option.split)
qed

text \<open>With a normal reason no one crashes, so the handler does not matter.\<close>

lemma notify_link_normal_any: "notify_link crash r NormalExit = notify_link crash' r NormalExit"
  by (intro ext) (simp add: notify_link_def Let_def split: option.split)

lemma notifyLinked_normal_any:
  "notifyLinkedActors crash r NormalExit s = notifyLinkedActors crash' r NormalExit s"
  by (simp add: notifyLinkedActors_def notify_link_normal_any [of crash r crash'])

definition no_crash :: "actor_ref \<Rightarrow> string \<Rightarrow> sys \<Rightarrow> sys" where
  "no_crash r x s = s"

text \<open>A normal \<open>stop\<close> notifies with this handler.\<close>

interpretation none: crash_handler no_crash link_inv
  by unfold_locales (simp_all add: no_crash_def)

lemma exit_effect_cong:
  assumes "jget (links s') i = jget (links s) i" and "jget (remoteLinks s') i = jget (remoteLinks s) i"
    and "\<And>b. map_option a_trapExit (getActor s' b) = map_option a_trapExit (getActor s b)"
  shows "exit_effect s' r reason i = exit_effect s r reason i"
  by (simp add: exit_effect_def assms)

lemma fold_notify_normal:
  fixes crash
  assumes "link_inv s" and "distinct ids"
    and "\<forall>i\<in>set ids. \<forall>e. jget (remoteLinks s) i = Some e \<longrightarrow> ref_id (rle_local e) = ref_id r"
  defines "s' \<equiv> fold (notify_link crash r NormalExit) ids s"
  shows "outbox s' = outbox s @ concat (map (exit_effect s r NormalExit) ids) \<and> remoteLinkers s' = remoteLinkers s \<and>
    (\<forall>i. jget (links s') i = (if i \<in> set ids then None else jget (links s) i)) \<and>
    (\<forall>i. jget (remoteLinks s') i = (if i \<in> set ids then None else jget (remoteLinks s) i)) \<and>
    (\<forall>b. map_option a_trapExit (getActor s' b) = map_option a_trapExit (getActor s b))"
  using assms(1-3) unfolding s'_def
proof (induction ids arbitrary: s)
  case (Cons i ids)
  let ?s = "notify_link crash r NormalExit i s"
  have step: "links ?s = jdel (links s) i \<and> remoteLinks ?s = jdel (remoteLinks s) i \<and> remoteLinkers ?s = remoteLinkers s
      \<and> (\<forall>b. map_option a_trapExit (getActor ?s b) = map_option a_trapExit (getActor s b))
      \<and> outbox ?s = outbox s @ exit_effect s r NormalExit i \<and> link_inv ?s"
  proof (cases "jget (links s) i")
    case None
    then show ?thesis
      using notify_link_remote_normal [OF Cons.prems(1) None] none.notify_link_remote [OF Cons.prems(1) None] Cons.prems(3)
        notify_link_normal_any [of crash r no_crash]
      by simp
  next
    case (Some e)
    then show ?thesis using notify_link_local_normal [OF Cons.prems(1) Some] by blast
  qed
  have same: "map (exit_effect ?s r NormalExit) ids = map (exit_effect s r NormalExit) ids"
    using Cons.prems(2) step by (intro map_cong refl exit_effect_cong) auto
  have "\<forall>j\<in>set ids. \<forall>e. jget (remoteLinks ?s) j = Some e \<longrightarrow> ref_id (rle_local e) = ref_id r"
    using step Cons.prems(3) by auto
  then show ?case
    using Cons.IH [of ?s] step Cons.prems(2) by (auto simp: same)
qed simp

lemma remoteLinkers_out:
  "outbox (notifyRemoteLinkers a x s) = outbox s @
     map (\<lambda>l. SendTo (rl_node l) (LinkExit (rl_refId l) a (serializeLinkReason x))) (jset_get (remoteLinkers s) a)"
  "jset_get (remoteLinkers (notifyRemoteLinkers a x s)) a = []"
  "linkedWith (notifyRemoteLinkers a x s) = linkedWith s"
proof -
  have f: "outbox (fold (notifyRemoteLinker a x) ls s) = outbox s @
      map (\<lambda>l. SendTo (rl_node l) (LinkExit (rl_refId l) a (serializeLinkReason x))) ls \<and>
      linkedWith (fold (notifyRemoteLinker a x) ls s) = linkedWith s" for ls
    by (induction ls arbitrary: s) (simp_all add: notifyRemoteLinker_def)
  show "outbox (notifyRemoteLinkers a x s) = outbox s @
     map (\<lambda>l. SendTo (rl_node l) (LinkExit (rl_refId l) a (serializeLinkReason x))) (jset_get (remoteLinkers s) a)"
    "jset_get (remoteLinkers (notifyRemoteLinkers a x s)) a = []"
    "linkedWith (notifyRemoteLinkers a x s) = linkedWith s"
    by (simp_all add: notifyRemoteLinkers_def Let_def f)
qed

text \<open>
  C12: When an actor stops normally, every live linked actor that traps exits gets exactly one
  EXIT message, in the order the links were made, no linked actor is crashed, the other ends
  on other nodes get one exit notice each, and no link of the actor is left.
\<close>

theorem normal_stop_unlinks:
  assumes inv: "link_inv s" and s': "s' = notifyLinkedActors crash r NormalExit s"
  shows "outbox s' = outbox s @
           concat (map (exit_effect s r NormalExit) (jset_get (linkedWith s) (ref_id r))) @
           map (\<lambda>l. SendTo (rl_node l) (LinkExit (rl_refId l) (ref_id r) WireNormal))
             (jset_get (remoteLinkers s) (ref_id r))
     \<and> jset_get (linkedWith s') (ref_id r) = [] \<and> jset_get (remoteLinkers s') (ref_id r) = []
     \<and> link_inv s'"
proof -
  let ?ids = "jset_get (linkedWith s) (ref_id r)"
  let ?f = "fold (notify_link crash r NormalExit) ?ids s"
  have dist: "distinct ?ids" using inv by (simp add: link_inv_def link_index_def)
  note F = fold_notify_normal [OF inv dist, of r crash]
  have own: "\<forall>i\<in>set ?ids. \<forall>e. jget (remoteLinks s) i = Some e \<longrightarrow> ref_id (rle_local e) = ref_id r"
    using remote_ends [OF inv] by blast
  have inv': "link_inv s'"
    using none.notifyLinked_keeps(1) [OF inv] s' notifyLinked_normal_any [of crash r s no_crash] by simp
  have L: "links s' = links ?f" "remoteLinks s' = remoteLinks ?f" "linkedWith s' = linkedWith ?f"
    by (simp_all add: s' notifyLinkedActors_def remoteLinkers_same remoteLinkers_out)
  have "i \<notin> set (jset_get (linkedWith s') (ref_id r))" for i
  proof
    assume "i \<in> set (jset_get (linkedWith s') (ref_id r))"
    then have m: "ref_id r \<in> link_ends s' i" using inv' by (simp add: link_inv_def link_index_def)
    then have "i \<notin> set ?ids" using F own L by (auto simp: link_ends_def split: if_splits)
    moreover from this have "link_ends s' i = link_ends s i" using F own L by (simp add: link_ends_def)
    ultimately show False using m inv by (simp add: link_inv_def link_index_def)
  qed
  then have "jset_get (linkedWith s') (ref_id r) = []" by (cases "jset_get (linkedWith s') (ref_id r)") auto
  then show ?thesis
    using F own inv' by (simp add: s' notifyLinkedActors_def remoteLinkers_out)
qed

definition demo_linked :: sys where
  "demo_linked = (case link ''l1'' (demo_ref ''n'' ''a'') (demo_ref ''n'' ''b'')
      (on_actor ''b'' (\<lambda>c. c\<lparr>a_trapExit := True\<rparr>) (demo_sys ''n'' [''a'', ''b'']))
    of Inr (_, s) \<Rightarrow> s | Inl _ \<Rightarrow> demo_sys ''n'' [])"

lemma demo_link_inv: "link_inv (demo_sys n ids)"
  by (simp add: link_inv_def link_refs_def link_index_def link_held_def link_ends_def jset_get_def)

lemma demo_linked_inv: "link_inv demo_linked"
proof -
  have "link_inv (on_actor ''b'' (\<lambda>c. c\<lparr>a_trapExit := True\<rparr>) (demo_sys ''n'' [''a'', ''b'']))"
    by (simp add: link_inv_def link_refs_def link_index_def link_held_def link_ends_def jset_get_def)
  then show ?thesis
    unfolding demo_linked_def
    by (auto simp: fresh_link_def demo_link_inv split: sum.split intro: link_inv_link)
qed

theorem normal_stop_unlinks_witness:
  "outbox (notifyLinkedActors no_crash (demo_ref ''n'' ''a'') NormalExit demo_linked) =
     [HandleInfo ''b'' (ExitMessage (Some \<lparr>lr_id = ''l1'', lr_actor1Id = ''a'', lr_actor2Id = ''b''\<rparr>)
        (demo_ref ''n'' ''a'') NormalExit)]"
  by (subst normal_stop_unlinks [OF demo_linked_inv refl, THEN conjunct1])
    (simp add: demo_linked_def link_def Let_def ctx_link_def jset_add_def jset_get_def sadd_def exit_effect_def
      exit_message_def other_end_def
      new_actor_def)

end
