(* ===== verification/Lifecycle.thy ===== *)
theory Lifecycle
  imports Linking
begin

text \<open>
  Actors coming and going: \<open>spawn\<close>, \<open>spawnChild\<close>, \<open>stop\<close>, \<open>stopSingle\<close>, \<open>restart\<close>, their timers
  and the children on other nodes, from \<open>src/actor_system.ts\<close>. An operation that awaits runs to
  completion here, and what it awaits (\<open>registry.unregister\<close>, \<open>terminate()\<close>) succeeds. What other events can do
  in between, and what a failing \<open>terminate()\<close> leaves behind, is not part of this theory:
  \<open>Stop_Stages\<close> has \<open>stop\<close> with its awaits. \<open>stop\<close>
  recurses over the children with fuel, and \<open>stop_fuel_enough\<close> shows the fuel is never used up.
\<close>

section \<open>The environment\<close>

text \<open>
  What an operation gets from outside: the ids of the \<open>uuid\<close> package, the clock, and the
  answers of other nodes (\<open>env_answers n\<close>: a request to node \<open>n\<close> is answered at all,
  \<open>env_success n\<close>: the answer says \<open>success\<close>).
\<close>

record env =
  env_uuid :: "nat \<Rightarrow> string"
  env_now :: int
  env_answers :: "string \<Rightarrow> bool"
  env_success :: "string \<Rightarrow> bool"

section \<open>Spawning\<close>

text \<open>\<open>{ ...defaultMailboxConfig, ...(options.mailbox ?? {}) }\<close>\<close>

definition merge_mailbox_config :: "mailbox_config \<Rightarrow> mailbox_config option \<Rightarrow> mailbox_config" where
  "merge_mailbox_config d o' = (case o' of None \<Rightarrow> d | Some c \<Rightarrow>
     \<lparr>cfg_maxSize = (case cfg_maxSize c of None \<Rightarrow> cfg_maxSize d | x \<Rightarrow> x),
      cfg_overflow = (case cfg_overflow c of None \<Rightarrow> cfg_overflow d | x \<Rightarrow> x)\<rparr>)"

definition scheduleProcessMailbox :: "string \<Rightarrow> sys \<Rightarrow> sys" where
  "scheduleProcessMailbox i s =
     (if i \<in> set (mailboxScheduled s) \<or> i \<in> set (pausedMailboxes s) \<or> \<not> alive s i then s
      else s\<lparr>mailboxScheduled := mailboxScheduled s @ [i]\<rparr>)"

definition register_name :: "spawn_options \<Rightarrow> string \<Rightarrow> sys \<Rightarrow> sys" where
  "register_name opts i s =
     (case truthy_name (so_name opts) of None \<Rightarrow> s | Some n \<Rightarrow> emit (RegistryRegister n (sys_id s) i) s)"

text \<open>Putting a new actor into the tables: its instance, its mailbox and its metadata.\<close>

definition add_actor ::
  "int \<Rightarrow> actor_class \<Rightarrow> spawn_options \<Rightarrow> actor_ref \<Rightarrow> actor_ref option \<Rightarrow> sys \<Rightarrow> sys" where
  "add_actor now c opts r parent s =
     s\<lparr>actors := jput (actors s) (ref_id r) (new_actor c r parent now),
       mailboxes := jput (mailboxes s) (ref_id r)
         (new_mailbox (merge_mailbox_config (defaultMailboxConfig s) (so_mailbox opts))),
       actorMetadata := jput (actorMetadata s) (ref_id r)
         \<lparr>md_class = c, md_options = opts, md_parent = parent\<rparr>\<rparr>"

text \<open>\<open>spawn\<close>; \<open>place\<close> is what the placement engine selects.\<close>

definition spawn ::
  "env \<Rightarrow> js_error + string \<Rightarrow> actor_class \<Rightarrow> spawn_options \<Rightarrow> sys \<Rightarrow> js_error + actor_ref \<times> sys" where
  "spawn env place c opts s =
     (if isShuttingDown s \<or> isDraining s then Inl (SystemShuttingDownError ''spawn actors'')
      else case place of
        Inl e \<Rightarrow> Inl e
      | Inr node \<Rightarrow>
          (let i = env_uuid env (uuids s);
               r = \<lparr>ref_node = node, ref_id = i, ref_name = so_name opts, ref_original = True\<rparr>;
               s0 = s\<lparr>uuids := Suc (uuids s)\<rparr>
           in if node = sys_id s
              then Inr (r, scheduleProcessMailbox i (emit (CallInit i)
                     (register_name opts i (add_actor (env_now env) c opts r None s0))))
              else Inr (r, emit (SendTo node (SpawnRpc (ac_name c) r opts)) s0)))"

definition spawnChild ::
  "env \<Rightarrow> actor_ref \<Rightarrow> actor_class \<Rightarrow> spawn_options \<Rightarrow> sys \<Rightarrow> js_error + actor_ref \<times> sys" where
  "spawnChild env parent c opts s =
     (if isShuttingDown s \<or> isDraining s then Inl (SystemShuttingDownError ''spawn child actors'')
      else if \<not> alive s (ref_id parent) then Inl (ActorNotFoundError (ref_id parent) (Some (sys_id s)))
      else
        (let i = env_uuid env (uuids s);
             r = \<lparr>ref_node = sys_id s, ref_id = i, ref_name = so_name opts, ref_original = True\<rparr>;
             s1 = add_actor (env_now env) c opts r (Some parent) (s\<lparr>uuids := Suc (uuids s)\<rparr>);
             s2 = on_actor (ref_id parent)
                    (\<lambda>p. p\<lparr>a_children := sadd (a_children p) r, a_childOrder := a_childOrder p @ [r]\<rparr>) s1
         in Inr (r, scheduleProcessMailbox i (emit (CallInit i) (register_name opts i s2)))))"

text \<open>
  The \<open>spawn\<close> message of another node. The class is looked up by name (\<open>classes\<close>), and the
  reference the sender made is not used.
\<close>

definition handleSpawnRpc ::
  "env \<Rightarrow> js_error + string \<Rightarrow> (string \<Rightarrow> actor_class option) \<Rightarrow> string \<Rightarrow> actor_ref \<Rightarrow> spawn_options \<Rightarrow>
   sys \<Rightarrow> js_error + actor_ref \<times> sys" where
  "handleSpawnRpc env place classes cname r opts s =
     (case classes cname of
        None \<Rightarrow> Inl (ActorClassNotRegisteredError cname)
      | Some c \<Rightarrow> spawn env place c opts s)"

section \<open>Timers\<close>

definition startActorTimer ::
  "string \<Rightarrow> actor_ref \<Rightarrow> string \<Rightarrow> bool \<Rightarrow> sys \<Rightarrow> js_error + timer_ref \<times> sys" where
  "startActorTimer fresh r msg isInterval s =
     (if \<not> alive s (ref_id r) then Inl (ActorNotFoundError (ref_id r) (Some (sys_id s)))
      else
        (let t = \<lparr>tr_id = fresh, tr_actorId = ref_id r, tr_isInterval = isInterval\<rparr>
         in Inr (t, on_actor (ref_id r)
              (\<lambda>a. a\<lparr>a_timers := jput (a_timers a) fresh \<lparr>te_ref = t, te_message = msg\<rparr>\<rparr>) s)))"

definition cancelActorTimer :: "actor_ref \<Rightarrow> timer_ref \<Rightarrow> sys \<Rightarrow> bool \<times> sys" where
  "cancelActorTimer r t s =
     (case getActor s (ref_id r) of
        None \<Rightarrow> (False, s)
      | Some a \<Rightarrow>
          if \<not> jhas (a_timers a) (tr_id t) then (False, s)
          else (True, on_actor (ref_id r) (\<lambda>a. a\<lparr>a_timers := jdel (a_timers a) (tr_id t)\<rparr>) s))"

definition cancelAllActorTimers :: "actor_ref \<Rightarrow> sys \<Rightarrow> sys" where
  "cancelAllActorTimers r s = on_actor (ref_id r) (\<lambda>a. a\<lparr>a_timers := []\<rparr>) s"

definition setActorIdleTimeout :: "int \<Rightarrow> actor_ref \<Rightarrow> int \<Rightarrow> sys \<Rightarrow> js_error + sys" where
  "setActorIdleTimeout now r timeoutMs s =
     (if \<not> alive s (ref_id r) then Inl (ActorNotFoundError (ref_id r) (Some (sys_id s)))
      else Inr (on_actor (ref_id r) (\<lambda>a.
        if timeoutMs > 0
        then a\<lparr>a_idleTimeout := timeoutMs, a_lastActivity := now, a_idleArmed := True\<rparr>
        else a\<lparr>a_idleTimeout := timeoutMs, a_idleArmed := False\<rparr>) s))"

definition resetIdleTimeout :: "int \<Rightarrow> string \<Rightarrow> sys \<Rightarrow> sys" where
  "resetIdleTimeout now i s = on_actor i (\<lambda>a.
     if a_idleTimeout a \<le> 0 then a else a\<lparr>a_lastActivity := now, a_idleArmed := True\<rparr>) s"

definition clearIdleTimeout :: "string \<Rightarrow> sys \<Rightarrow> sys" where
  "clearIdleTimeout i s = on_actor i (\<lambda>a. a\<lparr>a_idleArmed := False\<rparr>) s"

text \<open>\<open>unstashAll\<close> puts deferred messages back in front of the mailbox.\<close>

definition unstashAll :: "string \<Rightarrow> string stashed_message list \<Rightarrow> sys \<Rightarrow> sys" where
  "unstashAll i msgs s =
     (case jget (mailboxes s) i of
        None \<Rightarrow> s
      | Some mb \<Rightarrow>
          if msgs = [] then s
          else scheduleProcessMailbox i (s\<lparr>mailboxes := jput (mailboxes s) i (unshift mb msgs)\<rparr>))"

section \<open>Stopping\<close>

text \<open>
  Taking an actor from its parent: \<open>children\<close> is a set of objects, \<open>childOrder\<close> is searched by
  id.
\<close>

definition remove_child :: "actor_ref \<Rightarrow> actor \<Rightarrow> actor" where
  "remove_child r p = p\<lparr>a_children := sdel (a_children p) r,
     a_childOrder := remove_first (\<lambda>c. ref_id c = ref_id r) (a_childOrder p)\<rparr>"

definition detach :: "actor_ref \<Rightarrow> sys \<Rightarrow> sys" where
  "detach r s =
     (case jget (actorMetadata s) (ref_id r) of
        None \<Rightarrow> s
      | Some m \<Rightarrow> (case md_parent m of None \<Rightarrow> s | Some p \<Rightarrow> on_actor (ref_id p) (remove_child r) s))"

definition unwatch_all :: "string \<Rightarrow> sys \<Rightarrow> sys" where
  "unwatch_all i s =
     (case getActor s i of None \<Rightarrow> s | Some act \<Rightarrow> fold unwatch (jvals (a_watches act)) s)"

definition unlink_all :: "string \<Rightarrow> sys \<Rightarrow> sys" where
  "unlink_all i s =
     (case getActor s i of None \<Rightarrow> s | Some act \<Rightarrow> fold unlink (jvals (a_links act)) s)"

definition unregister_name :: "actor_ref \<Rightarrow> sys \<Rightarrow> sys" where
  "unregister_name r s =
     (case truthy_name (ref_name r) of None \<Rightarrow> s | Some n \<Rightarrow> emit (RegistryUnregister n) s)"

definition delete_actor :: "string \<Rightarrow> sys \<Rightarrow> sys" where
  "delete_actor i s = s\<lparr>actors := jdel (actors s) i, mailboxes := jdel (mailboxes s) i,
     actorMetadata := jdel (actorMetadata s) i, mailboxScheduled := sdel (mailboxScheduled s) i\<rparr>"

text \<open>
  The end of \<open>stop\<close> and of \<open>stopSingle\<close>, with the two awaits in it taken as done: if one of them
  rejects, the code does not get to the tables.
\<close>

definition bury :: "actor_ref \<Rightarrow> sys \<Rightarrow> sys" where
  "bury r s = delete_actor (ref_id r)
     (emit (GroupsLeaveAll (ref_id r)) (emit (CallTerminate (ref_id r)) (unregister_name r s)))"

definition stop_self :: "actor_ref \<Rightarrow> sys \<Rightarrow> sys" where
  "stop_self r s =
     (let i = ref_id r;
          s1 = unwatch_all i (detach r s);
          s2 = clearIdleTimeout i (cancelAllActorTimers r s1);
          s3 = notifyLinkedActors no_crash r NormalExit (notifyWatchers r NormalExit s2)
      in bury r s3)"

definition stopRemoteChild :: "env \<Rightarrow> string \<Rightarrow> sys \<Rightarrow> sys" where
  "stopRemoteChild env i s =
     (case jget (remoteChildren s) i of
        None \<Rightarrow> s
      | Some e \<Rightarrow>
          (let s1 = (emit (RequestTo (rc_node e) (ChildStop i (sys_id s) (ref_id (rc_parent e)))) s)
                      \<lparr>remoteChildren := jdel (remoteChildren s) i\<rparr>
           in if env_answers env (rc_node e)
              then on_actor (ref_id (rc_parent e)) (remove_child (rc_ref e)) s1
              else s1))"

fun stop_fuel :: "nat \<Rightarrow> env \<Rightarrow> actor_ref \<Rightarrow> sys \<Rightarrow> sys" where
  "stop_fuel 0 env r s = s"
| "stop_fuel (Suc n) env r s =
     (case getActor s (ref_id r) of
        None \<Rightarrow> s
      | Some act \<Rightarrow>
          stop_self r (fold (\<lambda>c s. if ref_node c = sys_id s then stop_fuel n env c s
                                   else stopRemoteChild env (ref_id c) s) (a_children act) s))"

definition stop :: "env \<Rightarrow> actor_ref \<Rightarrow> sys \<Rightarrow> sys" where
  "stop env r s = stop_fuel (Suc (length (actors s))) env r s"

definition stopSingle :: "bool \<Rightarrow> actor_ref \<Rightarrow> sys \<Rightarrow> sys" where
  "stopSingle notify r s =
     (if \<not> alive s (ref_id r) then s
      else
        (let i = ref_id r;
             s1 = unlink_all i (unwatch_all i (detach r s));
             s2 = clearIdleTimeout i (cancelAllActorTimers r s1)
         in bury r (if notify then notifyWatchers r NormalExit s2 else s2)))"

section \<open>Restarting\<close>

text \<open>
  \<open>restart\<close>: an exception of \<open>spawn\<close> leaves the actor stopped (the supervisor logs it).
  \<open>place\<close> is what the placement engine selects for the options the actor was spawned with.
\<close>

definition restart :: "env \<Rightarrow> (spawn_options \<Rightarrow> js_error + string) \<Rightarrow> actor_ref \<Rightarrow> sys \<Rightarrow> actor_ref option \<times> sys" where
  "restart env place r s =
     (case jget (actorMetadata s) (ref_id r) of
        None \<Rightarrow> (None, s)
      | Some m \<Rightarrow>
          (let s1 = stopSingle False r s
           in case (case md_parent m of
                      Some p \<Rightarrow> spawnChild env p (md_class m) (md_options m) s1
                    | None \<Rightarrow> spawn env (place (md_options m)) (md_class m) (md_options m) s1) of
                Inl _ \<Rightarrow> (None, s1)
              | Inr (r', s2) \<Rightarrow> (Some r', s2)))"

section \<open>The tree of actors\<close>

text \<open>
  What the children of an actor are, the ids of the live local ones, and the operations that
  leave the tree and the table of actors alone.
\<close>

definition kids :: "sys \<Rightarrow> string \<Rightarrow> actor_ref list option" where
  "kids s a = map_option a_children (getActor s a)"

definition edges :: "sys \<Rightarrow> string \<Rightarrow> string set" where
  "edges s p = {c. \<exists>ks r. kids s p = Some ks \<and> r \<in> set ks \<and> ref_node r = sys_id s \<and> ref_id r = c \<and> alive s c}"

text \<open>The actors whose \<open>terminate\<close> was called, in order.\<close>

definition terms :: "sys \<Rightarrow> string list" where
  "terms s = concat (map (\<lambda>e. case e of CallTerminate i \<Rightarrow> [i] | _ \<Rightarrow> []) (outbox s))"

lemma terms_emit [simp]: "terms (emit e s) = terms s @ (case e of CallTerminate i \<Rightarrow> [i] | _ \<Rightarrow> [])"
  by (simp add: terms_def)

lemma terms_on_actor [simp]: "terms (on_actor a f s) = terms s"
  by (simp add: terms_def)

text \<open>The fields that starting, linking, watching and stopping actors leave alone.\<close>

definition settings :: "sys \<Rightarrow> (bool \<times> bool \<times> supervision_options \<times> mailbox_config \<times> string list \<times> string list) \<times>
    (string, restart_record) jsmap \<times> (string, restart_record) jsmap \<times> (string, remote_parent) jsmap \<times> nat" where
  "settings s = ((isShuttingDown s, isDraining s, supervisorOptions s, defaultMailboxConfig s,
       pausedMailboxes s, processingActors s),
     rootRestarts s, childRestarts s, remoteParents s, uuids s)"

lemma settings_simps [simp]:
  "settings (emit e s) = settings s" "settings (on_actor a f s) = settings s"
  "settings (s\<lparr>watches := w\<rparr>) = settings s" "settings (s\<lparr>watchedBy := wb\<rparr>) = settings s"
  "settings (s\<lparr>remoteWatches := rw\<rparr>) = settings s" "settings (s\<lparr>links := l\<rparr>) = settings s"
  "settings (s\<lparr>linkedWith := lw\<rparr>) = settings s" "settings (s\<lparr>remoteLinks := rl\<rparr>) = settings s"
  "settings (s\<lparr>remoteWatchers := rws\<rparr>) = settings s" "settings (s\<lparr>remoteLinkers := rls\<rparr>) = settings s"
  "settings (s\<lparr>remoteChildren := rc\<rparr>) = settings s"
  by (simp_all add: settings_def)

text \<open>The part of an actor that only spawning and stopping change.\<close>

definition shape :: "actor \<Rightarrow> actor_class \<times> actor_ref \<times> actor_ref list \<times> actor_ref list" where
  [simp]: "shape x = (a_class x, a_self x, a_children x, a_childOrder x)"

definition shapes :: "sys \<Rightarrow> string \<Rightarrow> (actor_class \<times> actor_ref \<times> actor_ref list \<times> actor_ref list) option" where
  "shapes s a = map_option shape (getActor s a)"

definition same_tree :: "sys \<Rightarrow> sys \<Rightarrow> bool" where
  "same_tree s s' \<longleftrightarrow> jkeys (actors s') = jkeys (actors s) \<and> kids s' = kids s \<and> sys_id s' = sys_id s \<and>
     settings s' = settings s \<and> shapes s' = shapes s \<and>
     mailboxes s' = mailboxes s \<and> actorMetadata s' = actorMetadata s \<and> remoteChildren s' = remoteChildren s \<and>
     terms s' = terms s"

lemma same_tree_refl [simp]: "same_tree s s"
  by (simp add: same_tree_def)

lemma same_tree_trans: "same_tree s s' \<Longrightarrow> same_tree s' s'' \<Longrightarrow> same_tree s s''"
  by (simp add: same_tree_def)

lemma same_tree_fold: "(\<And>x s. same_tree s (f x s)) \<Longrightarrow> same_tree s (fold f xs s)"
  by (induction xs arbitrary: s) (auto intro: same_tree_trans)

lemma same_tree_emit [simp]: "(\<forall>i. e \<noteq> CallTerminate i) \<Longrightarrow> same_tree s (emit e s') = same_tree s s'"
  by (cases e) (auto simp: same_tree_def kids_def shapes_def fun_eq_iff)

lemma kids_on_actor: "(\<And>x. a_children (f x) = a_children x) \<Longrightarrow> kids (on_actor a f s) = kids s"
  by (rule ext) (simp add: kids_def option.map_comp comp_def)

lemma shapes_on_actor: "(\<And>x. shape (f x) = shape x) \<Longrightarrow> shapes (on_actor a f s) = shapes s"
  by (rule ext) (simp add: shapes_def option.map_comp comp_def del: shape_def)

lemma same_tree_on_actor [simp]:
  "(\<And>x. shape (f x) = shape x) \<Longrightarrow> same_tree s (on_actor a f s') = same_tree s s'"
  using kids_on_actor [of f a s'] shapes_on_actor [of f a s'] by (simp add: same_tree_def)

lemma same_tree_tables [simp]:
  "same_tree s (s'\<lparr>watches := w\<rparr>) = same_tree s s'" "same_tree s (s'\<lparr>watchedBy := wb\<rparr>) = same_tree s s'"
  "same_tree s (s'\<lparr>remoteWatches := rw\<rparr>) = same_tree s s'" "same_tree s (s'\<lparr>links := l\<rparr>) = same_tree s s'"
  "same_tree s (s'\<lparr>linkedWith := lw\<rparr>) = same_tree s s'" "same_tree s (s'\<lparr>remoteLinks := rl\<rparr>) = same_tree s s'"
  "same_tree s (s'\<lparr>remoteWatchers := rws\<rparr>) = same_tree s s'"
  "same_tree s (s'\<lparr>remoteLinkers := rls\<rparr>) = same_tree s s'"
  by (auto simp: same_tree_def kids_def shapes_def terms_def fun_eq_iff)

lemma same_tree_unwatch: "same_tree s (unwatch w s)"
  by (simp add: unwatch_def unwatchRemote_def Let_def split: option.split)

lemma same_tree_unlink: "same_tree s (unlink l s)"
  by (simp add: unlink_def unlinkRemote_def ctx_unlink_def Let_def split: option.split)

lemma same_tree_sendDown: "same_tree s (sendDownMessage w r x s)"
  by (simp add: sendDownMessage_def)

lemma same_tree_notify_watch: "same_tree s (notify_watch r x i s)"
  by (auto simp: notify_watch_def split: option.split intro: same_tree_trans [OF same_tree_sendDown same_tree_unwatch])

lemma same_tree_notifyWatchers: "same_tree s (notifyWatchers r x s)"
proof -
  have a: "same_tree s (fold (notify_watch r x) ids s)" for ids s
    by (rule same_tree_fold) (rule same_tree_notify_watch)
  have b: "same_tree s (fold (notifyRemoteWatcher i x) rws s)" for i rws s
    by (rule same_tree_fold) (simp add: notifyRemoteWatcher_def)
  show ?thesis
    by (simp add: notifyWatchers_def Let_def a same_tree_trans [OF a b])
qed

lemma same_tree_notify_link: "same_tree s (notify_link no_crash r x i s)"
proof -
  have u: "same_tree s (unlink (le_ref e) s)" for e
    by (rule same_tree_unlink)
  show ?thesis
    by (simp add: notify_link_def Let_def sendExitMessage_def no_crash_def notifyRemoteLinkExit_def u split: option.split)
qed

lemma same_tree_notifyLinked: "same_tree s (notifyLinkedActors no_crash r x s)"
proof -
  have a: "same_tree s (fold (notify_link no_crash r x) ids s)" for ids s
    by (rule same_tree_fold) (rule same_tree_notify_link)
  have b: "same_tree s (fold (notifyRemoteLinker i x) rws s)" for i rws s
    by (rule same_tree_fold) (simp add: notifyRemoteLinker_def)
  show ?thesis
    by (simp add: notifyLinkedActors_def notifyRemoteLinkers_def Let_def a same_tree_trans [OF a b])
qed

lemma same_tree_unwatch_all: "same_tree s (unwatch_all i s)"
  by (auto simp: unwatch_all_def split: option.split intro: same_tree_fold same_tree_unwatch)

lemma same_tree_unlink_all: "same_tree s (unlink_all i s)"
  by (auto simp: unlink_all_def split: option.split intro: same_tree_fold same_tree_unlink)

lemma same_tree_timers: "same_tree s (clearIdleTimeout i (cancelAllActorTimers r s))"
  by (simp add: clearIdleTimeout_def cancelAllActorTimers_def)

lemma same_tree_alive: "same_tree s s' \<Longrightarrow> alive s' a = alive s a"
  unfolding jhas_iff same_tree_def by presburger

lemma same_tree_edges: "same_tree s s' \<Longrightarrow> edges s' = edges s"
  by (rule ext) (simp add: edges_def same_tree_alive, simp add: same_tree_def)

section \<open>What stopping removes\<close>

text \<open>
  \<open>trim ts s s'\<close>: from \<open>s\<close> to \<open>s'\<close> exactly the actors \<open>ts\<close> were terminated, in this order and
  each once, no actor before all its children, and the rest of the tree is as it was.
\<close>

definition post_order :: "sys \<Rightarrow> string list \<Rightarrow> bool" where
  "post_order s ts \<longleftrightarrow> (\<forall>xs p ys. ts = xs @ p # ys \<longrightarrow> edges s p \<subseteq> set xs)"

definition remotes_ok :: "sys \<Rightarrow> bool" where
  "remotes_ok s \<longleftrightarrow> (\<forall>i e. jget (remoteChildren s) i = Some e \<longrightarrow> ref_node (rc_ref e) \<noteq> sys_id s)"

definition trim :: "string list \<Rightarrow> sys \<Rightarrow> sys \<Rightarrow> bool" where
  "trim ts s s' \<longleftrightarrow> sys_id s' = sys_id s \<and>
     jkeys (actors s') = filter (\<lambda>a. a \<notin> set ts) (jkeys (actors s)) \<and>
     jkeys (mailboxes s') = filter (\<lambda>a. a \<notin> set ts) (jkeys (mailboxes s)) \<and>
     jkeys (actorMetadata s') = filter (\<lambda>a. a \<notin> set ts) (jkeys (actorMetadata s)) \<and>
     terms s' = terms s @ ts \<and> distinct ts \<and> set ts \<subseteq> set (jkeys (actors s)) \<and>
     (\<forall>p. p \<notin> set ts \<longrightarrow> edges s' p = edges s p - set ts) \<and> post_order s ts \<and> remotes_ok s'"

lemma trim_alive: "trim ts s s' \<Longrightarrow> alive s' a \<longleftrightarrow> alive s a \<and> a \<notin> set ts"
  by (simp add: trim_def jhas_iff del: set_map)

lemma trim_dead_edges: "trim ts s s' \<Longrightarrow> p \<in> set ts \<Longrightarrow> edges s' p = {}"
  using trim_alive [of ts s s' p] by (simp add: edges_def kids_def jhas_def)

lemma trim_edges_subset: "trim ts s s' \<Longrightarrow> edges s' p \<subseteq> edges s p"
  using trim_dead_edges [of ts s s' p] by (cases "p \<in> set ts") (auto simp: trim_def)

lemma post_order_append:
  assumes "post_order s ts" and "post_order s' us" and "\<And>p. p \<in> set us \<Longrightarrow> edges s p \<subseteq> edges s' p \<union> set ts"
  shows "post_order s (ts @ us)"
  unfolding post_order_def
proof (intro allI impI)
  fix xs p ys
  assume "ts @ us = xs @ p # ys"
  then obtain u where "ts = xs @ u \<and> u @ us = p # ys \<or> xs = ts @ u \<and> us = u @ p # ys"
    unfolding append_eq_append_conv2 by metis
  then consider zs where "ts = xs @ p # zs" | zs where "xs = ts @ zs" "us = zs @ p # ys"
    by (cases u) auto
  then show "edges s p \<subseteq> set xs"
  proof cases
    case 1
    then show ?thesis using assms(1) by (auto simp: post_order_def)
  next
    case 2
    then have "edges s' p \<subseteq> set zs" "p \<in> set us" using assms(2) by (auto simp: post_order_def)
    then show ?thesis using assms(3) [of p] 2(1) by auto
  qed
qed

lemma trim_trans:
  assumes "trim ts s s'" and "trim us s' s''"
  shows "trim (ts @ us) s s''"
proof -
  have us: "set us \<subseteq> set (jkeys (actors s)) - set ts"
    using assms by (auto simp: trim_def)
  have "post_order s (ts @ us)"
    using assms us by (intro post_order_append [of s ts s' us]) (auto simp: trim_def)
  moreover have "edges s'' p = edges s p - set (ts @ us)" if "p \<notin> set (ts @ us)" for p
    using assms that by (auto simp: trim_def)
  moreover have "set ts \<inter> set us = {}" using us by blast
  ultimately show ?thesis
    using assms us by (auto simp: trim_def)
qed

lemma trim_same:
  assumes "same_tree s s'" and "remotes_ok s"
  shows "trim [] s s'"
  using assms same_tree_edges [OF assms(1)]
  by (simp add: trim_def same_tree_def post_order_def remotes_ok_def)

lemma trim_refl: "remotes_ok s \<Longrightarrow> trim [] s s"
  by (simp add: trim_same)

lemma kids_remove_child:
  "kids (on_actor p (remove_child r) s) a =
     (if a = p then map_option (\<lambda>ks. sdel ks r) (kids s a) else kids s a)"
  by (simp add: kids_def remove_child_def option.map_comp comp_def)

lemma trim_stopRemoteChild:
  assumes "remotes_ok s"
  shows "trim [] s (stopRemoteChild env i s)"
proof (cases "jget (remoteChildren s) i")
  case (Some e)
  let ?s = "stopRemoteChild env i s"
  have node: "ref_node (rc_ref e) \<noteq> sys_id s" using assms Some by (simp add: remotes_ok_def)
  have same: "sys_id ?s = sys_id s" "jkeys (actors ?s) = jkeys (actors s)" "mailboxes ?s = mailboxes s"
    "actorMetadata ?s = actorMetadata s" "terms ?s = terms s" "remoteChildren ?s = jdel (remoteChildren s) i"
    using Some by (simp_all add: stopRemoteChild_def Let_def terms_def)
  have alive: "alive ?s a = alive s a" for a unfolding jhas_iff same(2) ..
  have "kids ?s a = (if env_answers env (rc_node e) \<and> a = ref_id (rc_parent e)
      then map_option (\<lambda>ks. sdel ks (rc_ref e)) (kids s a) else kids s a)" for a
  proof -
    have "kids (s\<lparr>outbox := ob, remoteChildren := m\<rparr>) b = kids s b" for ob m b by (simp add: kids_def)
    then show ?thesis using Some by (simp add: stopRemoteChild_def Let_def kids_remove_child emit_def)
  qed
  then have "edges ?s p = edges s p" for p
    using node unfolding edges_def alive same(1) by (auto split: if_splits)
  then show ?thesis
    using same assms by (auto simp: trim_def post_order_def remotes_ok_def)
qed (simp add: stopRemoteChild_def trim_refl assms)

lemma sdel_keys: "filter (\<lambda>a. a \<noteq> x) xs = filter (\<lambda>a. a \<notin> set [x]) xs"
  by simp

text \<open>The last step of \<open>stop\<close> for an actor with no children left.\<close>

lemma kids_detach:
  "kids (detach r s) a = kids s a \<or> kids (detach r s) a = map_option (\<lambda>ks. sdel ks r) (kids s a)"
  by (auto simp: detach_def kids_remove_child split: option.split)

lemma detach_simps [simp]:
  "jkeys (actors (detach r s)) = jkeys (actors s)" "sys_id (detach r s) = sys_id s"
  "mailboxes (detach r s) = mailboxes s" "actorMetadata (detach r s) = actorMetadata s"
  "remoteChildren (detach r s) = remoteChildren s" "terms (detach r s) = terms s"
  by (simp_all add: detach_def split: option.split)

lemma edges_detach:
  "edges s p - {ref_id r} \<subseteq> edges (detach r s) p" "edges (detach r s) p \<subseteq> edges s p"
proof -
  have "alive (detach r s) a = alive s a" for a unfolding jhas_iff detach_simps ..
  then show "edges s p - {ref_id r} \<subseteq> edges (detach r s) p" "edges (detach r s) p \<subseteq> edges s p"
    using kids_detach [of r s p] unfolding edges_def by auto blast
qed

lemma bury_simps:
  "sys_id (bury r s) = sys_id s" "actors (bury r s) = jdel (actors s) (ref_id r)"
  "mailboxes (bury r s) = jdel (mailboxes s) (ref_id r)"
  "actorMetadata (bury r s) = jdel (actorMetadata s) (ref_id r)"
  "remoteChildren (bury r s) = remoteChildren s" "terms (bury r s) = terms s @ [ref_id r]"
  "links (bury r s) = links s" "remoteLinks (bury r s) = remoteLinks s" "linkedWith (bury r s) = linkedWith s"
  by (simp_all add: bury_def delete_actor_def unregister_name_def terms_def split: option.split)

lemma edges_bury: "edges (bury r s) p = (if p = ref_id r then {} else edges s p - {ref_id r})"
  by (auto simp: edges_def kids_def bury_simps)

lemma trim_bury:
  assumes t: "same_tree (detach r s) s'" and rem: "remotes_ok s" and live: "alive s (ref_id r)"
    and leaf: "edges s (ref_id r) = {}"
  shows "trim [ref_id r] s (bury r s')"
proof -
  have "edges (bury r s') p = edges s p - {ref_id r}" if "p \<noteq> ref_id r" for p
    using that edges_detach [where s = s and p = p and r = r] by (auto simp: edges_bury same_tree_edges [OF t])
  moreover have "post_order s [ref_id r]" using leaf by (auto simp: post_order_def Cons_eq_append_conv)
  moreover have "ref_id r \<in> set (jkeys (actors s))" using live by (simp only: jhas_iff)
  ultimately show ?thesis
    using t rem by (auto simp: trim_def bury_simps jkeys_jdel same_tree_def remotes_ok_def)
qed

lemma stop_self_tree:
  "\<exists>s'. same_tree (detach r s) s' \<and> stop_self r s = bury r s'"
proof -
  let ?s1 = "unwatch_all (ref_id r) (detach r s)"
  let ?s2 = "clearIdleTimeout (ref_id r) (cancelAllActorTimers r ?s1)"
  let ?s3 = "notifyLinkedActors no_crash r NormalExit (notifyWatchers r NormalExit ?s2)"
  have "same_tree (detach r s) ?s3"
    by (rule same_tree_trans [OF same_tree_trans [OF same_tree_trans [OF same_tree_unwatch_all same_tree_timers]
      same_tree_notifyWatchers] same_tree_notifyLinked])
  then show ?thesis by (auto simp: stop_self_def Let_def)
qed

lemma trim_stop_self:
  assumes "remotes_ok s" and "alive s (ref_id r)" and "edges s (ref_id r) = {}"
  shows "trim [ref_id r] s (stop_self r s)"
  using stop_self_tree [of r s] trim_bury [OF _ assms] by auto

text \<open>The actors below an actor, itself included.\<close>

definition subtree :: "sys \<Rightarrow> string \<Rightarrow> string set" where
  "subtree s a = {x. (\<lambda>p c. c \<in> edges s p)\<^sup>*\<^sup>* a x}"

lemma subtree_self [simp]: "a \<in> subtree s a"
  by (simp add: subtree_def)

lemma subtree_step: "c \<in> edges s a \<Longrightarrow> x \<in> subtree s c \<Longrightarrow> x \<in> subtree s a"
  unfolding subtree_def using converse_rtranclp_into_rtranclp [of "\<lambda>p c. c \<in> edges s p"] by simp

lemma subtree_mono:
  assumes "\<And>p. edges s' p \<subseteq> edges s p"
  shows "subtree s' a \<subseteq> subtree s a"
proof -
  have "(\<lambda>p c. c \<in> edges s' p)\<^sup>*\<^sup>* \<le> (\<lambda>p c. c \<in> edges s p)\<^sup>*\<^sup>*"
    by (rule rtranclp_mono) (use assms in auto)
  then show ?thesis by (auto simp: subtree_def)
qed

lemma subtree_closed:
  assumes "a \<in> T" and "\<And>p. p \<in> T \<Longrightarrow> edges s p \<subseteq> T"
  shows "subtree s a \<subseteq> T"
proof
  fix x assume "x \<in> subtree s a"
  then have "(\<lambda>p c. c \<in> edges s p)\<^sup>*\<^sup>* a x" by (simp add: subtree_def)
  then show "x \<in> T" by (induction rule: rtranclp_induct) (use assms in auto)
qed

lemma post_order_closed: "post_order s ts \<Longrightarrow> p \<in> set ts \<Longrightarrow> edges s p \<subseteq> set ts"
  using split_list [of p ts] by (fastforce simp: post_order_def)

text \<open>A rank that decreases towards the children bounds the depth of the recursion.\<close>

definition ranked_tree :: "(string \<Rightarrow> nat) \<Rightarrow> sys \<Rightarrow> bool" where
  "ranked_tree rank s \<longleftrightarrow> (\<forall>p c. c \<in> edges s p \<longrightarrow> rank c < rank p)"

lemma ranked_trim: "ranked_tree rank s \<Longrightarrow> trim ts s s' \<Longrightarrow> ranked_tree rank s'"
  using trim_edges_subset [of ts s s'] unfolding ranked_tree_def by blast

lemma stop_children:
  assumes IH: "\<And>c s. ranked_tree rank s \<Longrightarrow> remotes_ok s \<Longrightarrow> alive s (ref_id c) \<Longrightarrow> rank (ref_id c) < n \<Longrightarrow>
      \<exists>ts. trim ts s (stop_fuel n env c s) \<and> ref_id c \<in> set ts \<and> set ts \<subseteq> subtree s (ref_id c)"
    and zero: "\<And>c s. \<not> alive s (ref_id c) \<Longrightarrow> stop_fuel n env c s = s"
    and "ranked_tree rank s" and "remotes_ok s"
    and "\<forall>c\<in>set cs. ref_node c = sys_id s \<longrightarrow> alive s (ref_id c) \<longrightarrow> rank (ref_id c) < n"
  shows "\<exists>ts. trim ts s (fold (\<lambda>c s. if ref_node c = sys_id s then stop_fuel n env c s
                                   else stopRemoteChild env (ref_id c) s) cs s) \<and>
     (\<forall>c\<in>set cs. ref_node c = sys_id s \<longrightarrow> alive s (ref_id c) \<longrightarrow> ref_id c \<in> set ts) \<and>
     set ts \<subseteq> (\<Union>c\<in>{c \<in> set cs. ref_node c = sys_id s \<and> alive s (ref_id c)}. subtree s (ref_id c))"
  using assms(3-5)
proof (induction cs arbitrary: s)
  case Nil
  then show ?case by (auto intro: trim_refl)
next
  case (Cons c cs)
  let ?s = "if ref_node c = sys_id s then stop_fuel n env c s else stopRemoteChild env (ref_id c) s"
  have "\<exists>ts. trim ts s ?s \<and> (ref_node c = sys_id s \<longrightarrow> alive s (ref_id c) \<longrightarrow> ref_id c \<in> set ts) \<and>
      set ts \<subseteq> (if ref_node c = sys_id s \<and> alive s (ref_id c) then subtree s (ref_id c) else {})"
  proof (cases "ref_node c = sys_id s \<and> alive s (ref_id c)")
    case True
    then show ?thesis using IH [OF Cons.prems(1,2), of c] Cons.prems(3) by auto
  next
    case False
    then have "trim [] s ?s"
      using zero [of s c] Cons.prems(2) by (auto intro: trim_refl trim_stopRemoteChild)
    then show ?thesis using False by (intro exI [of _ "[]"]) auto
  qed
  then obtain ts where ts: "trim ts s ?s" "ref_node c = sys_id s \<longrightarrow> alive s (ref_id c) \<longrightarrow> ref_id c \<in> set ts"
      "set ts \<subseteq> (if ref_node c = sys_id s \<and> alive s (ref_id c) then subtree s (ref_id c) else {})" by blast
  have id: "sys_id ?s = sys_id s" and rem: "remotes_ok ?s" using ts(1) by (simp_all add: trim_def)
  have "\<forall>c\<in>set cs. ref_node c = sys_id ?s \<longrightarrow> alive ?s (ref_id c) \<longrightarrow> rank (ref_id c) < n"
    using Cons.prems(3) trim_alive [OF ts(1)] id by simp
  from Cons.IH [OF ranked_trim [OF Cons.prems(1) ts(1)] rem this] obtain us where us:
    "trim us ?s (fold (\<lambda>c s. if ref_node c = sys_id s then stop_fuel n env c s
                                   else stopRemoteChild env (ref_id c) s) cs ?s)"
    "\<forall>c\<in>set cs. ref_node c = sys_id ?s \<longrightarrow> alive ?s (ref_id c) \<longrightarrow> ref_id c \<in> set us"
    "set us \<subseteq> (\<Union>c\<in>{c \<in> set cs. ref_node c = sys_id ?s \<and> alive ?s (ref_id c)}. subtree ?s (ref_id c))" by blast
  have sub: "subtree ?s x \<subseteq> subtree s x" for x
    by (rule subtree_mono) (rule trim_edges_subset [OF ts(1)])
  have "set us \<subseteq> (\<Union>c\<in>{c \<in> set cs. ref_node c = sys_id s \<and> alive s (ref_id c)}. subtree s (ref_id c))"
    using us(3) sub trim_alive [OF ts(1)] unfolding id by blast
  moreover have "trim (ts @ us) s (fold (\<lambda>c s. if ref_node c = sys_id s then stop_fuel n env c s
                                   else stopRemoteChild env (ref_id c) s) cs ?s)"
    by (rule trim_trans [OF ts(1) us(1)])
  ultimately show ?case
    using ts(2,3) us(2) trim_alive [OF ts(1)] id
    by (intro exI [of _ "ts @ us"]) (auto split: if_splits)
qed

lemma kid_edge:
  "getActor s p = Some act \<Longrightarrow> c \<in> set (a_children act) \<Longrightarrow> ref_node c = sys_id s \<Longrightarrow> alive s (ref_id c) \<Longrightarrow>
     ref_id c \<in> edges s p"
  by (auto simp: edges_def kids_def)

lemma stop_fuel_dead: "\<not> alive s (ref_id r) \<Longrightarrow> stop_fuel n env r s = s"
  by (cases n) (simp_all add: jhas_def)

lemma stop_fuel_trims:
  assumes "ranked_tree rank s" and "remotes_ok s" and "alive s (ref_id r)" and "rank (ref_id r) < n"
  shows "\<exists>ts. trim ts s (stop_fuel n env r s) \<and> ref_id r \<in> set ts \<and> set ts \<subseteq> subtree s (ref_id r)"
  using assms
proof (induction n arbitrary: r s)
  case (Suc n)
  obtain act where act: "getActor s (ref_id r) = Some act" using Suc.prems(3) by (auto simp: jhas_def)
  have kid: "ref_id c \<in> edges s (ref_id r)" if "c \<in> set (a_children act)" "ref_node c = sys_id s" "alive s (ref_id c)" for c
    using that act by (auto simp: edges_def kids_def)
  have "rank (ref_id c) < n" if "c \<in> set (a_children act)" "ref_node c = sys_id s" "alive s (ref_id c)" for c
    using Suc.prems(1,4) kid [OF that] unfolding ranked_tree_def by fastforce
  with stop_children [of rank n env s "a_children act", OF Suc.IH stop_fuel_dead Suc.prems(1,2)]
  obtain ts where ts: "trim ts s (fold (\<lambda>c s. if ref_node c = sys_id s then stop_fuel n env c s
                                   else stopRemoteChild env (ref_id c) s) (a_children act) s)" (is "trim ts s ?s")
     "\<forall>c\<in>set (a_children act). ref_node c = sys_id s \<longrightarrow> alive s (ref_id c) \<longrightarrow> ref_id c \<in> set ts"
     "set ts \<subseteq> (\<Union>c\<in>{c \<in> set (a_children act). ref_node c = sys_id s \<and> alive s (ref_id c)}. subtree s (ref_id c))"
    by blast
  have sub: "set ts \<subseteq> (\<Union>c\<in>edges s (ref_id r). subtree s c)" using ts(3) kid by blast
  have low: "rank x \<le> rank c" if "x \<in> subtree s c" for x c
  proof -
    have "edges s p \<subseteq> {x. rank x \<le> rank c}" if "p \<in> {x. rank x \<le> rank c}" for p
      using Suc.prems(1) that unfolding ranked_tree_def by (blast dest: less_imp_le le_trans)
    then have "subtree s c \<subseteq> {x. rank x \<le> rank c}"
      by (intro subtree_closed) simp_all
    then show ?thesis using that by blast
  qed
  have notin: "ref_id r \<notin> set ts"
  proof
    assume "ref_id r \<in> set ts"
    then obtain c where c: "c \<in> edges s (ref_id r)" "ref_id r \<in> subtree s c" using sub by blast
    then show False using low [OF c(2)] Suc.prems(1) unfolding ranked_tree_def by fastforce
  qed
  have "edges s (ref_id r) \<subseteq> set ts" using ts(2) act by (auto simp: edges_def kids_def)
  then have leaf: "edges ?s (ref_id r) = {}" using ts(1) notin by (auto simp: trim_def)
  have "trim [ref_id r] ?s (stop_self r ?s)"
    by (rule trim_stop_self [OF _ _ leaf]) (use ts(1) notin Suc.prems(3) trim_alive [OF ts(1)] in \<open>auto simp: trim_def\<close>)
  from trim_trans [OF ts(1) this] have "trim (ts @ [ref_id r]) s (stop_fuel (Suc n) env r s)"
    using act by simp
  moreover have "set ts \<subseteq> subtree s (ref_id r)" using sub subtree_step by blast
  ultimately show ?case by (intro exI [of _ "ts @ [ref_id r]"]) simp
qed simp

text \<open>
  In the table of actors, which keeps insertion order, children come after their parents
  (an actor exists before it spawns a child), so the number of later entries is a rank.
\<close>

definition later :: "string list \<Rightarrow> string \<Rightarrow> nat" where
  "later xs a = length (dropWhile (\<lambda>x. x \<noteq> a) xs)"

definition tree_ok :: "sys \<Rightarrow> bool" where
  "tree_ok s \<longleftrightarrow> ranked_tree (later (jkeys (actors s))) s \<and> remotes_ok s"

lemma later_bound: "later xs a \<le> length xs"
  by (simp add: later_def length_dropWhile_le)

lemma stop_trims:
  assumes "tree_ok s" and "alive s (ref_id r)"
  shows "\<exists>ts. trim ts s (stop env r s) \<and> set ts = subtree s (ref_id r) \<and> ref_id r \<in> set ts"
proof -
  have "later (jkeys (actors s)) (ref_id r) < Suc (length (actors s))"
    using later_bound [of "jkeys (actors s)" "ref_id r"] by simp
  with stop_fuel_trims [of "later (jkeys (actors s))" s r "Suc (length (actors s))" env] assms
  obtain ts where ts: "trim ts s (stop env r s)" "ref_id r \<in> set ts" "set ts \<subseteq> subtree s (ref_id r)"
    unfolding stop_def tree_ok_def by blast
  have "subtree s (ref_id r) \<subseteq> set ts"
    by (rule subtree_closed [OF ts(2)]) (use ts(1) in \<open>auto simp: trim_def dest: post_order_closed\<close>)
  then show ?thesis using ts by blast
qed

lemma later_filter:
  assumes "P a"
  shows "dropWhile (\<lambda>x. x \<noteq> a) (filter P xs) = filter P (dropWhile (\<lambda>x. x \<noteq> a) xs)"
  using assms by (induction xs) auto

lemma suffix_shorter:
  assumes "later xs b < later xs a" and "P a" and "P b" and "a \<in> set xs"
  shows "later (filter P xs) b < later (filter P xs) a"
  using assms
proof (induction xs)
  case (Cons x xs)
  show ?case
  proof (cases "x = a")
    case True
    have "later (filter P xs) b \<le> length (filter P xs)" by (rule later_bound)
    moreover have "b \<noteq> a" using Cons.prems(1) by auto
    ultimately show ?thesis using True Cons.prems(2) by (simp add: later_def)
  next
    case False
    show ?thesis
    proof (cases "x = b")
      case True
      have "later xs a \<le> length xs" by (rule later_bound)
      then show ?thesis using True False Cons.prems(1) by (simp add: later_def)
    next
      case False
      then show ?thesis using \<open>x \<noteq> a\<close> Cons by (simp add: later_def)
    qed
  qed
qed simp

lemma tree_ok_trim:
  assumes "tree_ok s" and t: "trim ts s s'"
  shows "tree_ok s'"
proof -
  have "later (jkeys (actors s')) c < later (jkeys (actors s')) p" if e: "c \<in> edges s' p" for p c
  proof -
    have keys: "jkeys (actors s') = filter (\<lambda>a. a \<notin> set ts) (jkeys (actors s))" using t by (simp add: trim_def)
    have "alive s' c" "alive s' p" using e by (auto simp: edges_def kids_def jhas_def)
    moreover have "later (jkeys (actors s)) c < later (jkeys (actors s)) p"
      using assms(1) trim_edges_subset [OF t] e unfolding tree_ok_def ranked_tree_def by blast
    ultimately show ?thesis
      unfolding keys by (intro suffix_shorter) (use trim_alive [OF t] in \<open>auto simp: jhas_iff\<close>)
  qed
  then show ?thesis using t by (simp add: tree_ok_def ranked_tree_def trim_def)
qed

section \<open>Properties\<close>

text \<open>
  C3: Stopping an actor stops exactly the actors below it: afterwards the live actors, their
  mailboxes and their metadata are the ones from before without the subtree, in the same
  order; \<open>terminate\<close> was called once for every actor of the subtree, for none before all its
  children and last for the actor itself; the children of every other actor are the ones still
  alive; and the tree is still well formed.
\<close>

theorem stop_removes_subtree:
  assumes ok: "tree_ok s" and live: "alive s (ref_id r)" and s': "s' = stop env r s"
  shows "\<exists>ts. set ts = subtree s (ref_id r) \<and> distinct ts \<and> terms s' = terms s @ ts \<and> last ts = ref_id r
     \<and> (\<forall>p c. p \<in> set ts \<longrightarrow> c \<in> edges s p \<longrightarrow> c \<in> set (takeWhile (\<lambda>x. x \<noteq> p) ts))
     \<and> jkeys (actors s') = filter (\<lambda>a. a \<notin> set ts) (jkeys (actors s))
     \<and> jkeys (mailboxes s') = filter (\<lambda>a. a \<notin> set ts) (jkeys (mailboxes s))
     \<and> jkeys (actorMetadata s') = filter (\<lambda>a. a \<notin> set ts) (jkeys (actorMetadata s))
     \<and> (\<forall>p. p \<notin> set ts \<longrightarrow> edges s' p = edges s p - set ts) \<and> tree_ok s'"
proof -
  obtain ts where t: "trim ts s s'" and sub: "set ts = subtree s (ref_id r)" "ref_id r \<in> set ts"
    using stop_trims [OF ok live] s' by blast
  have pos: "edges s p \<subseteq> set xs" if "ts = xs @ p # ys" for xs p ys
    using t that by (auto simp: trim_def post_order_def)
  have order: "c \<in> set (takeWhile (\<lambda>x. x \<noteq> p) ts)" if "p \<in> set ts" "c \<in> edges s p" for p c
  proof -
    have "ts = takeWhile (\<lambda>x. x \<noteq> p) ts @ dropWhile (\<lambda>x. x \<noteq> p) ts" by simp
    moreover have "\<exists>ys. dropWhile (\<lambda>x. x \<noteq> p) ts = p # ys"
      using that(1) by (induction ts) auto
    ultimately show ?thesis using pos that(2) by (metis subsetD)
  qed
  have "last ts = ref_id r"
  proof (rule ccontr)
    assume ne: "last ts \<noteq> ref_id r"
    let ?z = "last ts"
    have nonempty: "ts \<noteq> []" using sub(2) by (cases ts) simp_all
    have "?z \<in> set ts" using nonempty by simp
    then have "?z \<in> subtree s (ref_id r)" using sub(1) by blast
    then have "(\<lambda>p c. c \<in> edges s p)\<^sup>*\<^sup>* (ref_id r) ?z" by (simp add: subtree_def)
    then obtain q where q: "(\<lambda>p c. c \<in> edges s p)\<^sup>*\<^sup>* (ref_id r) q" "?z \<in> edges s q"
      using ne by (cases rule: rtranclp.cases) auto
    then have "q \<in> subtree s (ref_id r)" by (simp add: subtree_def)
    then have "q \<in> set ts" using sub(1) by blast
    then obtain xs ys where xs: "ts = xs @ q # ys" by (meson split_list)
    then have "?z \<in> set xs" using pos q(2) by blast
    moreover have "?z \<in> set (q # ys)" using xs by simp
    ultimately show False using t xs by (auto simp: trim_def)
  qed
  moreover note tree_ok_trim [OF ok t]
  ultimately show ?thesis
    using t sub(1) order unfolding trim_def by (intro exI [of _ ts] conjI) blast+
qed

section \<open>The fuel is enough\<close>

lemma stop_step_keeps:
  assumes "ranked_tree rank s" and "remotes_ok s"
    and "ref_node c = sys_id s \<Longrightarrow> alive s (ref_id c) \<Longrightarrow> rank (ref_id c) < n"
  shows "\<exists>ts. trim ts s (if ref_node c = sys_id s then stop_fuel n env c s else stopRemoteChild env (ref_id c) s)"
proof (cases "ref_node c = sys_id s \<and> alive s (ref_id c)")
  case True
  then show ?thesis using stop_fuel_trims [OF assms(1,2), of c n env] assms(3) by auto
next
  case False
  then show ?thesis
    using stop_fuel_dead [of s c n env] trim_stopRemoteChild [OF assms(2)] trim_refl [OF assms(2)]
    by (cases "ref_node c = sys_id s") auto
qed

lemma stop_fold_enough:
  assumes IH: "\<And>c s. ranked_tree rank s \<Longrightarrow> remotes_ok s \<Longrightarrow> rank (ref_id c) < n \<Longrightarrow>
      stop_fuel n env c s = stop_fuel m env c s"
    and "ranked_tree rank s" and "remotes_ok s"
    and "\<forall>c\<in>set cs. ref_node c = sys_id s \<longrightarrow> alive s (ref_id c) \<longrightarrow> rank (ref_id c) < n"
  shows "fold (\<lambda>c s. if ref_node c = sys_id s then stop_fuel n env c s else stopRemoteChild env (ref_id c) s) cs s =
     fold (\<lambda>c s. if ref_node c = sys_id s then stop_fuel m env c s else stopRemoteChild env (ref_id c) s) cs s"
  using assms(2-4)
proof (induction cs arbitrary: s)
  case (Cons c cs)
  let ?s = "if ref_node c = sys_id s then stop_fuel n env c s else stopRemoteChild env (ref_id c) s"
  have eq: "?s = (if ref_node c = sys_id s then stop_fuel m env c s else stopRemoteChild env (ref_id c) s)"
    using IH [OF Cons.prems(1,2), of c] Cons.prems(3) stop_fuel_dead [of s c] by (cases "alive s (ref_id c)") auto
  obtain ts where t: "trim ts s ?s"
    using stop_step_keeps [OF Cons.prems(1,2), of c n env] Cons.prems(3) by auto
  have "\<forall>c\<in>set cs. ref_node c = sys_id ?s \<longrightarrow> alive ?s (ref_id c) \<longrightarrow> rank (ref_id c) < n"
    using Cons.prems(3) trim_alive [OF t] t by (simp add: trim_def)
  moreover have "remotes_ok ?s" using t by (simp add: trim_def)
  ultimately have "fold (\<lambda>c s. if ref_node c = sys_id s then stop_fuel n env c s else stopRemoteChild env (ref_id c) s) cs ?s =
     fold (\<lambda>c s. if ref_node c = sys_id s then stop_fuel m env c s else stopRemoteChild env (ref_id c) s) cs ?s"
    using Cons.IH [of ?s] ranked_trim [OF Cons.prems(1) t] by blast
  then show ?case using eq by simp
qed simp

lemma stop_fuel_enough:
  "ranked_tree rank s \<Longrightarrow> remotes_ok s \<Longrightarrow> rank (ref_id r) < n \<Longrightarrow> rank (ref_id r) < m \<Longrightarrow>
     stop_fuel n env r s = stop_fuel m env r s"
proof (induction n arbitrary: m r s)
  case (Suc n)
  from Suc.prems(4) obtain k where m: "m = Suc k" by (cases m) auto
  show ?case
  proof (cases "getActor s (ref_id r)")
    case (Some act)
    have kid: "rank (ref_id c) < rank (ref_id r)"
      if "c \<in> set (a_children act)" "ref_node c = sys_id s" "alive s (ref_id c)" for c
      using Suc.prems(1) kid_edge [OF Some that] unfolding ranked_tree_def by blast
    let ?l = "min n k"
    have a: "stop_fuel n env c s = stop_fuel (min n k) env c s"
      if "ranked_tree rank s" "remotes_ok s" "rank (ref_id c) < min n k" for c s
      using Suc.IH [of s c "min n k"] that by simp
    have b: "stop_fuel k env c s = stop_fuel (min n k) env c s"
      if "ranked_tree rank s" "remotes_ok s" "rank (ref_id c) < min n k" for c s
      using Suc.IH [of s c k] Suc.IH [of s c "min n k"] that by simp
    have low: "\<forall>c\<in>set (a_children act). ref_node c = sys_id s \<longrightarrow> alive s (ref_id c) \<longrightarrow> rank (ref_id c) < min n k"
      using kid Suc.prems(3,4) m by (fastforce simp: less_Suc_eq_le)
    have "fold (\<lambda>c s. if ref_node c = sys_id s then stop_fuel n env c s else stopRemoteChild env (ref_id c) s) (a_children act) s =
       fold (\<lambda>c s. if ref_node c = sys_id s then stop_fuel k env c s else stopRemoteChild env (ref_id c) s) (a_children act) s"
      using stop_fold_enough [of rank "min n k" env n s "a_children act", OF a [symmetric] Suc.prems(1,2) low]
        stop_fold_enough [of rank "min n k" env k s "a_children act", OF b [symmetric] Suc.prems(1,2) low]
      by simp
    then show ?thesis using Some m by simp
  qed (simp add: m)
qed simp

text \<open>
  \<open>stop\<close> as the code has it: the recursive calls are \<open>stop\<close> itself on the state the loop has
  reached.
\<close>

lemma stop_fold_unfold:
  assumes "tree_ok s" and "\<forall>c\<in>set cs. ref_node c = sys_id s \<longrightarrow> alive s (ref_id c) \<longrightarrow> later (jkeys (actors s)) (ref_id c) < n"
  shows "fold (\<lambda>c s. if ref_node c = sys_id s then stop_fuel n env c s else stopRemoteChild env (ref_id c) s) cs s =
     fold (\<lambda>c s. if ref_node c = sys_id s then stop env c s else stopRemoteChild env (ref_id c) s) cs s"
  using assms
proof (induction cs arbitrary: s)
  case (Cons c cs)
  let ?r = "later (jkeys (actors s))"
  let ?s = "if ref_node c = sys_id s then stop_fuel n env c s else stopRemoteChild env (ref_id c) s"
  have ok: "ranked_tree ?r s" "remotes_ok s" using Cons.prems(1) by (simp_all add: tree_ok_def)
  have "stop_fuel n env c s = stop env c s" if "ref_node c = sys_id s"
  proof (cases "alive s (ref_id c)")
    case True
    have "later (jkeys (actors s)) (ref_id c) < Suc (length (actors s))"
      using later_bound [of "jkeys (actors s)" "ref_id c"] by simp
    then show ?thesis
      unfolding stop_def using stop_fuel_enough [OF ok, of c n "Suc (length (actors s))" env] True that Cons.prems(2) by simp
  qed (simp add: stop_def stop_fuel_dead del: stop_fuel.simps)
  then have eq: "?s = (if ref_node c = sys_id s then stop env c s else stopRemoteChild env (ref_id c) s)" by simp
  obtain ts where t: "trim ts s ?s"
    using stop_step_keeps [OF ok, of c n env] Cons.prems(2) by auto
  have drop: "later (jkeys (actors ?s)) a \<le> later (jkeys (actors s)) a" if "alive ?s a" for a
  proof -
    have keys: "jkeys (actors ?s) = filter (\<lambda>a. a \<notin> set ts) (jkeys (actors s))" using t by (simp add: trim_def)
    have "a \<notin> set ts" using trim_alive [OF t] that by simp
    then show ?thesis unfolding keys later_def later_filter [of "\<lambda>a. a \<notin> set ts", OF \<open>a \<notin> set ts\<close>] by simp
  qed
  have "\<forall>c\<in>set cs. ref_node c = sys_id ?s \<longrightarrow> alive ?s (ref_id c) \<longrightarrow> later (jkeys (actors ?s)) (ref_id c) < n"
  proof (intro ballI impI)
    fix c assume c: "c \<in> set cs" "ref_node c = sys_id ?s" "alive ?s (ref_id c)"
    have "sys_id ?s = sys_id s" using t by (simp add: trim_def)
    then have "later (jkeys (actors s)) (ref_id c) < n" using c Cons.prems(2) trim_alive [OF t] by simp
    then show "later (jkeys (actors ?s)) (ref_id c) < n" using drop [OF c(3)] by (rule le_less_trans [rotated])
  qed
  from Cons.IH [OF tree_ok_trim [OF Cons.prems(1) t] this] show ?case using eq by simp
qed simp

lemma stop_unfold:
  assumes "tree_ok s"
  shows "stop env r s = (case getActor s (ref_id r) of
     None \<Rightarrow> s
   | Some act \<Rightarrow> stop_self r (fold (\<lambda>c s. if ref_node c = sys_id s then stop env c s
        else stopRemoteChild env (ref_id c) s) (a_children act) s))"
proof (cases "getActor s (ref_id r)")
  case (Some act)
  have "later (jkeys (actors s)) (ref_id c) < length (actors s)"
    if "c \<in> set (a_children act)" "ref_node c = sys_id s" "alive s (ref_id c)" for c
  proof -
    have "later (jkeys (actors s)) (ref_id c) < later (jkeys (actors s)) (ref_id r)"
      using assms kid_edge [OF Some that] unfolding tree_ok_def ranked_tree_def by blast
    also have "\<dots> \<le> length (actors s)" using later_bound [of "jkeys (actors s)" "ref_id r"] by simp
    finally show ?thesis .
  qed
  then show ?thesis
    using stop_fold_unfold [OF assms, of "a_children act" "length (actors s)" env] Some by (simp add: stop_def)
qed (simp add: stop_def)

section \<open>New actors\<close>

definition fresh_actor :: "sys \<Rightarrow> string \<Rightarrow> bool" where
  "fresh_actor s i \<longleftrightarrow> \<not> alive s i \<and> (\<forall>p ks r. kids s p = Some ks \<longrightarrow> r \<in> set ks \<longrightarrow> ref_id r \<noteq> i)"

lemma register_name_simps [simp]:
  "sys_id (register_name o' i s) = sys_id s" "actors (register_name o' i s) = actors s"
  "mailboxes (register_name o' i s) = mailboxes s" "actorMetadata (register_name o' i s) = actorMetadata s"
  "remoteChildren (register_name o' i s) = remoteChildren s" "links (register_name o' i s) = links s"
  "remoteLinks (register_name o' i s) = remoteLinks s" "linkedWith (register_name o' i s) = linkedWith s"
  "terms (register_name o' i s) = terms s"
  by (simp_all add: register_name_def terms_def split: option.split)

lemma schedule_simps [simp]:
  "sys_id (scheduleProcessMailbox i s) = sys_id s" "actors (scheduleProcessMailbox i s) = actors s"
  "mailboxes (scheduleProcessMailbox i s) = mailboxes s" "actorMetadata (scheduleProcessMailbox i s) = actorMetadata s"
  "remoteChildren (scheduleProcessMailbox i s) = remoteChildren s" "links (scheduleProcessMailbox i s) = links s"
  "remoteLinks (scheduleProcessMailbox i s) = remoteLinks s" "linkedWith (scheduleProcessMailbox i s) = linkedWith s"
  "outbox (scheduleProcessMailbox i s) = outbox s"
  by (simp_all add: scheduleProcessMailbox_def)

lemma add_actor_simps [simp]:
  "sys_id (add_actor t c o' r p s) = sys_id s"
  "actors (add_actor t c o' r p s) = jput (actors s) (ref_id r) (new_actor c r p t)"
  "remoteChildren (add_actor t c o' r p s) = remoteChildren s" "links (add_actor t c o' r p s) = links s"
  "remoteLinks (add_actor t c o' r p s) = remoteLinks s" "linkedWith (add_actor t c o' r p s) = linkedWith s"
  "outbox (add_actor t c o' r p s) = outbox s"
  "jget (actorMetadata (add_actor t c o' r p s)) i =
     (if i = ref_id r then Some \<lparr>md_class = c, md_options = o', md_parent = p\<rparr> else jget (actorMetadata s) i)"
  by (simp_all add: add_actor_def)

lemma spawn_local:
  assumes "spawn env (Inr (sys_id s)) c opts s = Inr (r, s')"
  shows "ref_id r = env_uuid env (uuids s) \<and> actors s' = jput (actors s) (ref_id r) (new_actor c r None (env_now env))
     \<and> sys_id s' = sys_id s \<and> remoteChildren s' = remoteChildren s \<and> links s' = links s
     \<and> remoteLinks s' = remoteLinks s \<and> linkedWith s' = linkedWith s \<and> ref_node r = sys_id s"
  using assms by (auto simp: spawn_def Let_def split: if_splits)

lemma spawnChild_result:
  assumes "spawnChild env p c opts s = Inr (r, s')"
  shows "ref_id r = env_uuid env (uuids s) \<and> alive s (ref_id p) \<and>
     actors s' = jmodify (jput (actors s) (ref_id r) (new_actor c r (Some p) (env_now env))) (ref_id p)
       (\<lambda>p. p\<lparr>a_children := sadd (a_children p) r, a_childOrder := a_childOrder p @ [r]\<rparr>)
     \<and> sys_id s' = sys_id s \<and> remoteChildren s' = remoteChildren s \<and> links s' = links s
     \<and> remoteLinks s' = remoteLinks s \<and> linkedWith s' = linkedWith s \<and> ref_node r = sys_id s"
  using assms by (auto simp: spawnChild_def Let_def split: if_splits)

lemma jkeys_jput_new: "\<not> jhas m k \<Longrightarrow> jkeys (jput m k v) = jkeys m @ [k]"
  by (simp add: jhas_iff update_keys del: set_map)

lemma later_snoc: "a \<in> set xs \<Longrightarrow> later (xs @ [i]) a = later xs a + 1"
  by (simp add: later_def dropWhile_append)

lemma later_new: "i \<notin> set xs \<Longrightarrow> later (xs @ [i]) i = 1"
  by (induction xs) (auto simp: later_def)

lemma later_pos: "a \<in> set xs \<Longrightarrow> 0 < later xs a"
  by (auto simp: later_def dropWhile_eq_Nil_conv)

lemma tree_ok_add:
  assumes ok: "tree_ok s" and fresh: "fresh_actor s i"
    and keys: "jkeys (actors s') = jkeys (actors s) @ [i]" and id: "sys_id s' = sys_id s"
    and rem: "remoteChildren s' = remoteChildren s"
    and e: "\<And>p c. c \<in> edges s' p \<Longrightarrow> c \<in> edges s p \<or> c = i \<and> p \<noteq> i \<and> alive s p"
  shows "tree_ok s'"
proof -
  have "later (jkeys (actors s')) c < later (jkeys (actors s')) p" if "c \<in> edges s' p" for p c
  proof (cases "c \<in> edges s p")
    case True
    then have "alive s c" "alive s p" by (auto simp: edges_def kids_def jhas_def)
    moreover have "later (jkeys (actors s)) c < later (jkeys (actors s)) p"
      using ok True by (simp add: tree_ok_def ranked_tree_def)
    ultimately show ?thesis by (simp add: keys later_snoc jhas_iff del: set_map)
  next
    case False
    then have c: "c = i" "p \<noteq> i" "alive s p" using e [OF that] by auto
    have "i \<notin> set (jkeys (actors s))" using fresh by (simp add: fresh_actor_def jhas_iff del: set_map)
    moreover have "p \<in> set (jkeys (actors s))" using c(3) by (simp add: jhas_iff del: set_map)
    ultimately show ?thesis using later_pos [of p "jkeys (actors s)"]
      by (simp add: keys c(1) later_new later_snoc del: set_map)
  qed
  then show ?thesis using ok id rem by (simp add: tree_ok_def ranked_tree_def remotes_ok_def)
qed

lemma tree_ok_spawn:
  assumes "tree_ok s" and "fresh_actor s (env_uuid env (uuids s))"
    and "spawn env (Inr (sys_id s)) c opts s = Inr (r, s')"
  shows "tree_ok s'"
proof (rule tree_ok_add [OF assms(1,2)])
  note S = spawn_local [OF assms(3)]
  show "jkeys (actors s') = jkeys (actors s) @ [env_uuid env (uuids s)]"
    using S assms(2) by (simp add: jkeys_jput_new fresh_actor_def)
  show "d \<in> edges s p \<or> d = env_uuid env (uuids s) \<and> p \<noteq> env_uuid env (uuids s) \<and> alive s p"
    if "d \<in> edges s' p" for p d
    using that S assms(2) by (auto simp: edges_def kids_def fresh_actor_def new_actor_def split: if_splits)
qed (use spawn_local [OF assms(3)] in auto)

lemma tree_ok_spawnChild:
  assumes "tree_ok s" and "fresh_actor s (env_uuid env (uuids s))"
    and "spawnChild env p c opts s = Inr (r, s')"
  shows "tree_ok s'"
proof (rule tree_ok_add [OF assms(1,2)])
  note S = spawnChild_result [OF assms(3)]
  show "jkeys (actors s') = jkeys (actors s) @ [env_uuid env (uuids s)]"
    using S assms(2) by (simp add: jkeys_jput_new fresh_actor_def)
  show "d \<in> edges s q \<or> d = env_uuid env (uuids s) \<and> q \<noteq> env_uuid env (uuids s) \<and> alive s q"
    if "d \<in> edges s' q" for q d
    using that S assms(2)
    by (auto simp: edges_def kids_def fresh_actor_def new_actor_def jhas_def split: if_splits)
qed (use spawnChild_result [OF assms(3)] in auto)

lemma stopSingle_tree:
  assumes "alive s (ref_id r)"
  shows "\<exists>s1. same_tree (detach r s) s1 \<and> stopSingle notify r s = bury r s1"
proof -
  let ?s1 = "unlink_all (ref_id r) (unwatch_all (ref_id r) (detach r s))"
  let ?s2 = "clearIdleTimeout (ref_id r) (cancelAllActorTimers r ?s1)"
  let ?s3 = "if notify then notifyWatchers r NormalExit ?s2 else ?s2"
  have "same_tree (detach r s) ?s2"
    by (rule same_tree_trans [OF same_tree_trans [OF same_tree_unwatch_all same_tree_unlink_all] same_tree_timers])
  then have "same_tree (detach r s) ?s3"
    using same_tree_trans [OF _ same_tree_notifyWatchers] by (cases notify) simp_all
  then show ?thesis using assms by (intro exI [of _ ?s3]) (simp add: stopSingle_def Let_def)
qed

lemma settings_detach [simp]: "settings (detach r s) = settings s"
  by (simp add: detach_def split: option.split)

lemma settings_bury [simp]: "settings (bury r s) = settings s"
  by (simp add: bury_def unregister_name_def delete_actor_def settings_def split: option.split)

lemma settings_stopSingle [simp]: "settings (stopSingle notify r s) = settings s"
proof (cases "alive s (ref_id r)")
  case True
  from stopSingle_tree [OF this, of notify] show ?thesis by (auto simp: same_tree_def)
qed (simp add: stopSingle_def)

lemma stopSingle_edges:
  assumes "alive s (ref_id r)"
  shows "edges (stopSingle notify r s) p \<subseteq> edges s p" and "edges (stopSingle notify r s) (ref_id r) = {}"
    and "alive (stopSingle notify r s) a \<longleftrightarrow> alive s a \<and> a \<noteq> ref_id r"
    and "sys_id (stopSingle notify r s) = sys_id s"
proof -
  obtain s1 where s1: "same_tree (detach r s) s1" "stopSingle notify r s = bury r s1"
    using stopSingle_tree [OF assms] by blast
  have alive: "alive (detach r s) a = alive s a" for a unfolding jhas_iff detach_simps ..
  show "edges (stopSingle notify r s) p \<subseteq> edges s p" "edges (stopSingle notify r s) (ref_id r) = {}"
    using s1 edges_detach(2) [of r s p] by (auto simp: edges_bury same_tree_edges)
  show "alive (stopSingle notify r s) a \<longleftrightarrow> alive s a \<and> a \<noteq> ref_id r"
    using s1 alive same_tree_alive [OF s1(1)] by (auto simp: bury_simps)
  show "sys_id (stopSingle notify r s) = sys_id s"
    using s1 by (simp add: bury_simps same_tree_def)
qed

lemma spawn_edges:
  assumes "spawn env (Inr (sys_id s)) c opts s = Inr (r, s')" and "d \<in> edges s' p"
  shows "d = ref_id r \<or> d \<in> edges s p"
  using spawn_local [OF assms(1)] assms(2)
  by (auto simp: edges_def kids_def new_actor_def split: if_splits)

lemma spawnChild_edges:
  assumes "spawnChild env q c opts s = Inr (r, s')" and "d \<in> edges s' p"
  shows "d = ref_id r \<or> d \<in> edges s p"
proof -
  note S = spawnChild_result [OF assms(1)]
  obtain ks x where x: "kids s' p = Some ks" "x \<in> set ks" "ref_node x = sys_id s'" "ref_id x = d" "alive s' d"
    using assms(2) by (auto simp: edges_def)
  show ?thesis
  proof (cases "d = ref_id r")
    case False
    have "alive s d" using x(5) S False by simp
    moreover have "\<exists>ks. kids s p = Some ks \<and> x \<in> set ks"
      using x(1,2) S False x(4) by (auto simp: kids_def new_actor_def split: if_splits)
    ultimately show ?thesis using x(3,4) S by (auto simp: edges_def)
  qed simp
qed

text \<open>
  C36: Restarting an actor abandons its children: they stay alive, but no actor has them as
  children any more, not even the new instance, so no later \<open>stop\<close> or supervision of their
  parent reaches them.
\<close>

theorem restart_orphans_children:
  assumes ok: "tree_ok s" and child: "c \<in> edges s (ref_id r)" and only: "\<forall>p. c \<in> edges s p \<longrightarrow> p = ref_id r"
    and fresh: "\<forall>n. \<not> alive s (env_uuid env n)"
    and local: "\<forall>opts. place opts = Inr (sys_id s)" and res: "restart env place r s = (Some r', s')"
  shows "alive s' c \<and> (\<forall>p. c \<notin> edges s' p)"
proof -
  have live: "alive s (ref_id r)" "alive s c" using child by (auto simp: edges_def kids_def jhas_def)
  let ?s1 = "stopSingle False r s"
  note E = stopSingle_edges [OF live(1), of False]
  have ne: "c \<noteq> ref_id r" using ok child unfolding tree_ok_def ranked_tree_def by blast
  have c1: "alive ?s1 c" using E(3) live(2) ne by simp
  have none: "c \<notin> edges ?s1 p" for p using E(1) [of p] E(2) only by blast
  obtain m where m: "jget (actorMetadata s) (ref_id r) = Some m"
    using res by (auto simp: restart_def split: option.splits)
  have new: "c \<noteq> env_uuid env n" for n using fresh live(2) by metis
  show ?thesis
  proof (cases "md_parent m")
    case None
    then have "spawn env (Inr (sys_id ?s1)) (md_class m) (md_options m) ?s1 = Inr (r', s')"
      using res m E(4) local by (auto simp: restart_def Let_def split: sum.splits)
    from spawn_edges [OF this] spawn_local [OF this] show ?thesis using none new c1 by auto
  next
    case (Some q)
    then have "spawnChild env q (md_class m) (md_options m) ?s1 = Inr (r', s')"
      using res m by (auto simp: restart_def Let_def split: sum.splits)
    from spawnChild_edges [OF this] spawnChild_result [OF this] show ?thesis using none new c1 by auto
  qed
qed

text \<open>
  An actor spawned on another node cannot be reached through the reference \<open>spawn\<close>
  returned: the other node gives the instance an id of its own, so the id in the reference
  belongs to no actor there, before and after it handles the request. If its own placement
  selects a third node, it creates nothing and sends the request on.
\<close>

theorem remote_spawn_unreachable:
  assumes sent: "spawn env (Inr node) c opts s = Inr (r, s1)" and remote: "node \<noteq> sys_id s"
    and target: "sys_id t = node" and classes: "classes (ac_name c) = Some c"
    and dead: "\<not> alive t (ref_id r)" and uuids: "\<forall>n. env_uuid env' n \<noteq> ref_id r"
    and handled: "handleSpawnRpc env' place classes (ac_name c) r opts t = Inr (r', t')"
  shows "last (outbox s1) = SendTo node (SpawnRpc (ac_name c) r opts)
     \<and> ref_node r = node \<and> \<not> alive t' (ref_id r)
     \<and> (\<forall>third. place = Inr third \<longrightarrow> third \<noteq> node \<longrightarrow>
           actors t' = actors t \<and> last (outbox t') = SendTo third (SpawnRpc (ac_name c) r' opts))"
proof -
  obtain third where p: "place = Inr third" and sp: "spawn env' (Inr third) c opts t = Inr (r', t')"
    using handled classes by (cases place) (auto simp: handleSpawnRpc_def spawn_def split: if_splits)
  have "\<not> alive t' (ref_id r)"
  proof (cases "third = sys_id t")
    case True
    then have S: "spawn env' (Inr (sys_id t)) c opts t = Inr (r', t')" using sp by simp
    have "ref_id r \<noteq> ref_id r'" using spawn_local [OF S] uuids by metis
    then show ?thesis using spawn_local [OF S] dead by simp
  next
    case False
    then show ?thesis using sp dead by (auto simp: spawn_def Let_def split: if_splits)
  qed
  then show ?thesis
    using sent remote sp p target by (auto simp: spawn_def Let_def split: if_splits)
qed

section \<open>Witnesses\<close>

definition demo_env :: "char \<Rightarrow> env" where
  "demo_env x = \<lparr>env_uuid = (\<lambda>n. replicate (Suc n) x), env_now = 0, env_answers = (\<lambda>_. True),
     env_success = (\<lambda>_. True)\<rparr>"

definition no_options :: spawn_options where
  "no_options = \<lparr>so_name = None, so_args = None, so_strategy = None, so_role = None, so_mailbox = None\<rparr>"

definition demo_id :: "string \<Rightarrow> string \<Rightarrow> actor_ref" where
  "demo_id n a = \<lparr>ref_node = n, ref_id = a, ref_name = None, ref_original = True\<rparr>"

definition demo_parent :: sys where
  "demo_parent = snd (projr (spawn (demo_env CHR ''i'') (Inr ''n'') demo_class no_options (new_system ''n'' None None)))"

definition demo_tree :: sys where
  "demo_tree = snd (projr (spawnChild (demo_env CHR ''i'') (demo_id ''n'' ''i'') demo_class no_options demo_parent))"

lemma demo_parent_eq:
  "spawn (demo_env CHR ''i'') (Inr ''n'') demo_class no_options (new_system ''n'' None None) = Inr (demo_id ''n'' ''i'', demo_parent)"
  by (simp add: demo_parent_def spawn_def new_system_def Let_def demo_env_def demo_id_def no_options_def)

lemma demo_tree_eq:
  "spawnChild (demo_env CHR ''i'') (demo_id ''n'' ''i'') demo_class no_options demo_parent = Inr (demo_id ''n'' ''ii'', demo_tree)"
  by (simp add: demo_tree_def demo_parent_def spawnChild_def spawn_def new_system_def Let_def demo_env_def demo_id_def
      no_options_def scheduleProcessMailbox_def register_name_def truthy_name_def add_actor_def jhas_def)

lemma demo_parent_simps:
  "actors demo_parent = [(''i'', new_actor demo_class (demo_id ''n'' ''i'') None 0)]"
  "sys_id demo_parent = ''n''" "uuids demo_parent = 1"
  by (simp_all add: demo_parent_def spawn_def new_system_def Let_def demo_env_def demo_id_def no_options_def
      scheduleProcessMailbox_def register_name_def truthy_name_def add_actor_def jhas_def)

lemma demo_tree_table:
  "actors demo_tree =
     [(''i'', (new_actor demo_class (demo_id ''n'' ''i'') None 0)
         \<lparr>a_children := [demo_id ''n'' ''ii''], a_childOrder := [demo_id ''n'' ''ii'']\<rparr>),
      (''ii'', new_actor demo_class (demo_id ''n'' ''ii'') (Some (demo_id ''n'' ''i'')) 0)]"
  "sys_id demo_tree = ''n''"
  using spawnChild_result [OF demo_tree_eq]
  by (simp_all add: demo_parent_simps jmodify_def demo_id_def new_actor_def sadd_def demo_env_def)

lemma demo_tree_actors: "jkeys (actors demo_tree) = [''i'', ''ii'']"
  "edges demo_tree ''i'' = {''ii''}" "edges demo_tree ''ii'' = {}" "sys_id demo_tree = ''n''"
  by (auto simp: edges_def kids_def demo_tree_table demo_id_def new_actor_def jhas_def)

lemma demo_tree_ok: "tree_ok demo_tree"
proof -
  have "tree_ok (new_system ''n'' None None)"
    by (simp add: tree_ok_def ranked_tree_def remotes_ok_def new_system_def edges_def kids_def)
  moreover have "fresh_actor (new_system ''n'' None None) i" for i
    by (simp add: fresh_actor_def new_system_def kids_def jhas_def)
  ultimately have "tree_ok demo_parent"
    using tree_ok_spawn [of "new_system ''n'' None None" "demo_env CHR ''i''" demo_class no_options] demo_parent_eq
    by (simp add: new_system_def)
  moreover have "fresh_actor demo_parent (env_uuid (demo_env CHR ''i'') (uuids demo_parent))"
    by (auto simp: fresh_actor_def demo_parent_def spawn_def new_system_def Let_def demo_env_def no_options_def kids_def
        scheduleProcessMailbox_def register_name_def truthy_name_def add_actor_def jhas_def new_actor_def)
  ultimately show ?thesis by (rule tree_ok_spawnChild) (rule demo_tree_eq)
qed

theorem stop_removes_subtree_witness:
  "jkeys (actors (stop (demo_env CHR ''i'') (demo_id ''n'' ''i'') demo_tree)) = []"
proof -
  have "alive demo_tree (ref_id (demo_id ''n'' ''i''))"
    by (simp add: jhas_iff demo_tree_actors demo_id_def del: set_map)
  from stop_removes_subtree [OF demo_tree_ok this refl, of "demo_env CHR ''i''"] obtain ts where
    "set ts = subtree demo_tree ''i''"
    "jkeys (actors (stop (demo_env CHR ''i'') (demo_id ''n'' ''i'') demo_tree)) = filter (\<lambda>a. a \<notin> set ts) [''i'', ''ii'']"
    by (auto simp: demo_tree_actors demo_id_def simp del: map_map)
  moreover have "''ii'' \<in> subtree demo_tree ''i''"
    by (rule subtree_step [of "''ii''"]) (simp_all add: demo_tree_actors)
  ultimately show ?thesis by simp
qed

lemma demo_edges: "edges demo_tree p = (if p = ''i'' then {''ii''} else {})"
  by (auto simp: edges_def kids_def demo_tree_table demo_id_def new_actor_def jhas_def split: if_splits)

lemma demo_tree_metadata:
  "jget (actorMetadata demo_tree) ''i'' = Some \<lparr>md_class = demo_class, md_options = no_options, md_parent = None\<rparr>"
  "isShuttingDown demo_tree = False" "isDraining demo_tree = False"
  by (simp_all add: demo_tree_def demo_parent_def spawnChild_def spawn_def new_system_def Let_def demo_env_def demo_id_def
      no_options_def scheduleProcessMailbox_def register_name_def truthy_name_def add_actor_def jhas_def)

theorem restart_orphans_children_witness:
  "alive (snd (restart (demo_env CHR ''j'') (\<lambda>_. Inr ''n'') (demo_id ''n'' ''i'') demo_tree)) ''ii''
   \<and> (\<forall>p. ''ii'' \<notin> edges (snd (restart (demo_env CHR ''j'') (\<lambda>_. Inr ''n'') (demo_id ''n'' ''i'') demo_tree)) p)"
proof -
  let ?R = "restart (demo_env CHR ''j'') (\<lambda>_. Inr ''n'') (demo_id ''n'' ''i'') demo_tree"
  have s: "isShuttingDown (stopSingle False r demo_tree) = False" "isDraining (stopSingle False r demo_tree) = False"
    for r using settings_stopSingle [of False r demo_tree] by (simp_all add: settings_def demo_tree_metadata)
  obtain r' where R: "?R = (Some r', snd ?R)"
    by (simp add: restart_def demo_tree_metadata demo_id_def spawn_def s Let_def stopSingle_edges(4)
        split: sum.splits)
  show ?thesis
  proof (rule restart_orphans_children [OF demo_tree_ok])
    show "''ii'' \<in> edges demo_tree (ref_id (demo_id ''n'' ''i''))" by (simp add: demo_edges demo_id_def)
    show "\<forall>p. ''ii'' \<in> edges demo_tree p \<longrightarrow> p = ref_id (demo_id ''n'' ''i'')" by (simp add: demo_edges demo_id_def)
    show "\<forall>n. \<not> alive demo_tree (env_uuid (demo_env CHR ''j'') n)"
      by (auto simp: jhas_iff demo_tree_actors demo_env_def simp del: set_map)
    show "\<forall>opts. (\<lambda>_. Inr ''n'') opts = Inr (sys_id demo_tree)" by (simp add: demo_tree_actors)
    show "?R = (Some r', snd ?R)" by (rule R)
  qed
qed

theorem remote_spawn_unreachable_witness:
  "\<not> alive (snd (projr (handleSpawnRpc (demo_env CHR ''j'') (Inr ''m'') (\<lambda>_. Some demo_class) (ac_name demo_class)
      (demo_id ''m'' ''i'') no_options (new_system ''m'' None None)))) ''i''"
proof -
  let ?h = "handleSpawnRpc (demo_env CHR ''j'') (Inr ''m'') (\<lambda>_. Some demo_class) (ac_name demo_class)
      (demo_id ''m'' ''i'') no_options (new_system ''m'' None None)"
  have h: "?h = Inr (fst (projr ?h), snd (projr ?h))"
    by (simp add: handleSpawnRpc_def spawn_def new_system_def Let_def)
  have s: "spawn (demo_env CHR ''i'') (Inr ''m'') demo_class no_options (new_system ''n'' None None)
     = Inr (demo_id ''m'' ''i'', snd (projr (spawn (demo_env CHR ''i'') (Inr ''m'') demo_class no_options
              (new_system ''n'' None None))))"
    by (simp add: spawn_def new_system_def Let_def demo_env_def demo_id_def no_options_def)
  have "\<forall>n. env_uuid (demo_env CHR ''j'') n \<noteq> ref_id (demo_id ''m'' ''i'')"
    by (simp add: demo_env_def demo_id_def)
  then show ?thesis
    using remote_spawn_unreachable [OF s _ _ _ _ _ h]
    by (simp add: new_system_def jhas_def demo_id_def)
qed

text \<open>
  C8: \<open>stop\<close> terminates: on a tree of actors any fuel above the number of actors gives the same
  result, and that result satisfies the recursion of the code, in which nothing counts down.
\<close>

theorem stop_terminates:
  assumes "tree_ok s" and "length (actors s) < n"
  shows "stop_fuel n env r s = stop env r s
     \<and> stop env r s = (case getActor s (ref_id r) of
          None \<Rightarrow> s
        | Some act \<Rightarrow> stop_self r (fold (\<lambda>c s. if ref_node c = sys_id s then stop env c s
             else stopRemoteChild env (ref_id c) s) (a_children act) s))"
proof
  have "later (jkeys (actors s)) (ref_id r) \<le> length (actors s)"
    using later_bound [of "jkeys (actors s)" "ref_id r"] by simp
  then show "stop_fuel n env r s = stop env r s"
    using assms stop_fuel_enough [of "later (jkeys (actors s))" s r n "Suc (length (actors s))" env]
    by (simp add: stop_def tree_ok_def)
qed (rule stop_unfold [OF assms(1)])

theorem stop_terminates_witness:
  "stop_fuel 17 (demo_env CHR ''i'') (demo_id ''n'' ''i'') demo_tree = stop (demo_env CHR ''i'') (demo_id ''n'' ''i'') demo_tree"
proof -
  have "length (actors demo_tree) < 17" by (simp add: demo_tree_table)
  from stop_terminates [OF demo_tree_ok this] show ?thesis by blast
qed

lemma settings_stop_self [simp]: "settings (stop_self r s) = settings s"
proof -
  let ?s2 = "clearIdleTimeout (ref_id r) (cancelAllActorTimers r (unwatch_all (ref_id r) (detach r s)))"
  have a: "settings ?s2 = settings s"
    using same_tree_trans [OF same_tree_unwatch_all same_tree_timers] by (simp add: same_tree_def)
  have "settings (notifyLinkedActors no_crash r NormalExit (notifyWatchers r NormalExit ?s2)) = settings ?s2"
    using same_tree_trans [OF same_tree_notifyWatchers same_tree_notifyLinked] by (simp add: same_tree_def)
  then show ?thesis using a by (simp add: stop_self_def Let_def)
qed

lemma settings_stop [simp]: "settings (stop env r s) = settings s"
proof -
  have "settings (stop_fuel n env r s) = settings s" for n r s
  proof (induction n arbitrary: r s)
    case (Suc n)
    have "settings (fold (\<lambda>c s. if ref_node c = sys_id s then stop_fuel n env c s
        else stopRemoteChild env (ref_id c) s) cs s') = settings s" if "settings s' = settings s" for cs s'
      using that
    proof (induction cs arbitrary: s')
      case (Cons c cs)
      have "settings (stopRemoteChild env (ref_id c) s') = settings s'"
        by (simp add: stopRemoteChild_def Let_def split: option.split)
      then show ?case using Cons Suc.IH [of c s'] by simp
    qed simp
    then show ?case by (simp split: option.split)
  qed simp
  then show ?thesis by (simp add: stop_def del: stop_fuel.simps)
qed

end
