(* ===== verification/Remote_Children.thy ===== *)
theory Remote_Children
  imports Lifecycle
begin

text \<open>
  Children on other nodes, from \<open>src/actor_system.ts\<close>: the requests a node sends for a child it
  supervises elsewhere, and what the child's node does with them. The answer to a request is
  part of the environment (\<open>env_answers\<close>, \<open>env_success\<close>); the handlers of the other side return
  the answer they give, so that the two sides can be put together.
\<close>

section \<open>The node of the child\<close>

text \<open>
  \<open>_handleRemoteChildSpawn\<close>: the instance id was drawn by the parent's node, and the parent is
  kept apart in \<open>remoteParents\<close>. \<open>Inl\<close> is the answer with an error, \<open>Inr\<close> the one with the id of
  the child.
\<close>

definition handleRemoteChildSpawn ::
  "int \<Rightarrow> (string \<Rightarrow> actor_class option) \<Rightarrow> string \<Rightarrow> string \<Rightarrow> spawn_options \<Rightarrow> string \<Rightarrow> string \<Rightarrow> sys \<Rightarrow>
   (string + string) \<times> sys" where
  "handleRemoteChildSpawn now classes i cname opts parentNode parentActor s =
     (case classes cname of
        None \<Rightarrow> (Inl (''Actor class not registered: '' @ cname), s)
      | Some c \<Rightarrow>
          (let r = \<lparr>ref_node = sys_id s, ref_id = i, ref_name = so_name opts, ref_original = True\<rparr>;
               s1 = add_actor now c opts r None s;
               s2 = s1\<lparr>remoteParents := jput (remoteParents s1) i
                         \<lparr>rp_node = parentNode, rp_actor = parentActor\<rparr>\<rparr>
           in (Inr i, scheduleProcessMailbox i (emit (CallInit i) (register_name opts i s2)))))"

text \<open>The reference built from an id and the name in the metadata: not the object of the spawn.\<close>

definition rebuilt_ref :: "string \<Rightarrow> sys \<Rightarrow> actor_ref" where
  "rebuilt_ref i s = \<lparr>ref_node = sys_id s, ref_id = i,
     ref_name = (case jget (actorMetadata s) i of None \<Rightarrow> None | Some m \<Rightarrow> so_name (md_options m)),
     ref_original = False\<rparr>"

definition forget_parent :: "string \<Rightarrow> sys \<Rightarrow> sys" where
  "forget_parent i s = s\<lparr>remoteParents := jdel (remoteParents s) i\<rparr>"

definition handleRemoteChildRestart ::
  "env \<Rightarrow> (string \<Rightarrow> actor_class option) \<Rightarrow> string \<Rightarrow> string \<Rightarrow> string \<Rightarrow> string \<Rightarrow> sys \<Rightarrow>
   (string + string) \<times> sys" where
  "handleRemoteChildRestart env classes old new parentNode parentActor s =
     (case jget (actorMetadata s) old of
        None \<Rightarrow> (Inl (''Child metadata not found: '' @ old), s)
      | Some m \<Rightarrow>
          (let s1 = (if alive s old then stop env (rebuilt_ref old s) s else s)
           in handleRemoteChildSpawn (env_now env) classes new (ac_name (md_class m)) (md_options m)
                parentNode parentActor (forget_parent old s1)))"

definition handleRemoteChildStop :: "env \<Rightarrow> string \<Rightarrow> sys \<Rightarrow> bool \<times> sys" where
  "handleRemoteChildStop env i s =
     (if \<not> alive s i then (True, forget_parent i s)
      else (True, stop env (rebuilt_ref i s) (forget_parent i s)))"

definition hasRemoteParent :: "string \<Rightarrow> sys \<Rightarrow> bool" where
  "hasRemoteParent i s = jhas (remoteParents s) i"

definition notifyRemoteParentOfCrash :: "string \<Rightarrow> termination_reason \<Rightarrow> string option \<Rightarrow> sys \<Rightarrow> sys" where
  "notifyRemoteParentOfCrash i reason msg s =
     (case jget (remoteParents s) i of
        None \<Rightarrow> s
      | Some p \<Rightarrow> emit (SendTo (rp_node p) (ChildCrash i (sys_id s) (rp_actor p) reason msg)) s)"

section \<open>The node of the parent\<close>

definition getRemoteChild :: "string \<Rightarrow> sys \<Rightarrow> remote_child option" where
  "getRemoteChild i s = jget (remoteChildren s) i"

text \<open>
  \<open>spawnChildRemote\<close>: the request first, and on a positive answer the entry, the child in the
  set and at the end of the order.
\<close>

definition add_child :: "actor_ref \<Rightarrow> actor \<Rightarrow> actor" where
  "add_child r p = p\<lparr>a_children := sadd (a_children p) r, a_childOrder := a_childOrder p @ [r]\<rparr>"

definition spawnChildRemote ::
  "env \<Rightarrow> actor_ref \<Rightarrow> actor_class \<Rightarrow> string \<Rightarrow> spawn_options \<Rightarrow> sys \<Rightarrow> js_error + actor_ref option \<times> sys" where
  "spawnChildRemote env parent c node opts s =
     (if isShuttingDown s then Inl (SystemShuttingDownError ''spawn remote child actors'')
      else if \<not> alive s (ref_id parent) then Inl (ActorNotFoundError (ref_id parent) (Some (sys_id s)))
      else
        (let i = env_uuid env (uuids s);
             s1 = emit (RequestTo node (ChildSpawn i (ac_name c) opts (sys_id s) (ref_id parent)))
                    (s\<lparr>uuids := Suc (uuids s)\<rparr>)
         in if \<not> (env_answers env node \<and> env_success env node) then Inr (None, s1)
            else
              (let r = \<lparr>ref_node = node, ref_id = i, ref_name = so_name opts, ref_original = True\<rparr>;
                   e = \<lparr>rc_ref = r, rc_node = node, rc_parent = parent, rc_class = c, rc_options = opts\<rparr>
               in Inr (Some r, on_actor (ref_id parent) (add_child r)
                    (s1\<lparr>remoteChildren := jput (remoteChildren s1) i e\<rparr>)))))"

text \<open>A new child in the place of the old one: the order is searched by id.\<close>

definition replace_child :: "actor_ref \<Rightarrow> actor_ref \<Rightarrow> actor \<Rightarrow> actor" where
  "replace_child old new p =
     p\<lparr>a_children := sadd (sdel (a_children p) old) new,
       a_childOrder :=
         (let before = takeWhile (\<lambda>c. ref_id c \<noteq> ref_id old) (a_childOrder p);
              rest = dropWhile (\<lambda>c. ref_id c \<noteq> ref_id old) (a_childOrder p)
          in if rest = [] then a_childOrder p @ [new] else before @ new # tl rest)\<rparr>"

definition restartRemoteChild :: "env \<Rightarrow> remote_child \<Rightarrow> sys \<Rightarrow> actor_ref option \<times> sys" where
  "restartRemoteChild env e s =
     (let old = ref_id (rc_ref e); new = env_uuid env (uuids s);
          s1 = emit (RequestTo (rc_node e) (ChildRestart old new (sys_id s) (ref_id (rc_parent e))))
                 (s\<lparr>uuids := Suc (uuids s)\<rparr>);
          s2 = s1\<lparr>remoteChildren := jdel (remoteChildren s1) old\<rparr>
      in if \<not> (env_answers env (rc_node e) \<and> env_success env (rc_node e)) then (None, s2)
         else
           (let r = \<lparr>ref_node = rc_node e, ref_id = new, ref_name = so_name (rc_options e), ref_original = True\<rparr>
            in (Some r, on_actor (ref_id (rc_parent e)) (replace_child (rc_ref e) r)
                  (s2\<lparr>remoteChildren := jput (remoteChildren s2) new (e\<lparr>rc_ref := r\<rparr>)\<rparr>))))"

definition removeRemoteChild :: "string \<Rightarrow> actor_ref \<Rightarrow> sys \<Rightarrow> sys" where
  "removeRemoteChild i parent s =
     (case jget (remoteChildren s) i of
        None \<Rightarrow> s
      | Some e \<Rightarrow> on_actor (ref_id parent) (\<lambda>p. p\<lparr>a_children := sdel (a_children p) (rc_ref e),
            a_childOrder := remove_first (\<lambda>c. ref_id c = i) (a_childOrder p)\<rparr>)
          (s\<lparr>remoteChildren := jdel (remoteChildren s) i\<rparr>))"

section \<open>The parent's node has failed\<close>

definition stop_orphan :: "env \<Rightarrow> string \<Rightarrow> sys \<Rightarrow> sys" where
  "stop_orphan env i s =
     (let s1 = forget_parent i s
      in if alive s1 i then stop env (rebuilt_ref i s1) s1 else s1)"

definition handleNodeFailureForOrphanedChildren :: "env \<Rightarrow> string \<Rightarrow> sys \<Rightarrow> sys" where
  "handleNodeFailureForOrphanedChildren env dead s =
     fold (stop_orphan env) (map fst (filter (\<lambda>(i, p). rp_node p = dead) (remoteParents s))) s"

end
