(* ===== verification/Supervision.thy ===== *)
theory Supervision
  imports Remote_Children
begin

text \<open>
  What happens when an actor crashes: \<open>Supervisor\<close> of \<open>src/supervisor.ts\<close> for root actors and
  for children with a remote parent, \<open>ChildSupervisor\<close> of \<open>src/child_supervisor.ts\<close> for the
  others, and the part of node failure that crashes remote children. A crash may crash linked
  actors in turn, so \<open>handleCrash\<close> takes fuel; every crash that spreads over a link removes the
  link first, and \<open>handleCrash_unfold\<close> shows that one more than the number of links is enough.
\<close>

section \<open>Restart limits\<close>

text \<open>
  The record of a key: read, or a new one starting now; reset when its period has passed. A
  record that is already in the table is reset in place, so the reset stays even if the restart
  is refused.
\<close>

definition restart_record_for :: "int \<Rightarrow> int \<Rightarrow> restart_record option \<Rightarrow> restart_record" where
  "restart_record_for now period r0 =
     (let r = (case r0 of None \<Rightarrow> \<lparr>rr_count = 0, rr_timestamp = now\<rparr> | Some r \<Rightarrow> r)
      in if now - rr_timestamp r > period then \<lparr>rr_count = 0, rr_timestamp = now\<rparr> else r)"

definition canRestart_in ::
  "int \<Rightarrow> child_supervision \<Rightarrow> string \<Rightarrow> (string, restart_record) jsmap \<Rightarrow> bool \<times> (string, restart_record) jsmap" where
  "canRestart_in now opts key m =
     (let r = restart_record_for now (cs_periodMs opts) (jget m key);
          kept = (if jhas m key then jput m key r else m)
      in if rr_count r \<ge> cs_maxRestarts opts then (False, kept)
         else (True, jput m key (r\<lparr>rr_count := Suc (rr_count r)\<rparr>)))"

definition canRestart :: "int \<Rightarrow> child_supervision \<Rightarrow> string \<Rightarrow> sys \<Rightarrow> bool \<times> sys" where
  "canRestart now opts key s =
     (let (ok, m) = canRestart_in now opts key (childRestarts s) in (ok, s\<lparr>childRestarts := m\<rparr>))"

definition clearRestartCount :: "string \<Rightarrow> sys \<Rightarrow> sys" where
  "clearRestartCount key s = s\<lparr>childRestarts := jdel (childRestarts s) key\<rparr>"

text \<open>
  \<open>JSON.stringify\<close> of the arguments is the encoding \<open>args_json\<close>; an absent name, an empty one
  and absent arguments fall through to the id.
\<close>

definition restart_key ::
  "(string list \<Rightarrow> string) \<Rightarrow> (string \<Rightarrow> string) \<Rightarrow> string \<Rightarrow> string \<Rightarrow> spawn_options option \<Rightarrow> string" where
  "restart_key args_json id_json childId parentId opts =
     parentId @ '':'' @
       (case (case opts of None \<Rightarrow> None | Some x \<Rightarrow> truthy_name (so_name x)) of
          Some n \<Rightarrow> n
        | None \<Rightarrow>
            (case (case opts of None \<Rightarrow> None | Some x \<Rightarrow> so_args x) of
               Some args \<Rightarrow> args_json args
             | None \<Rightarrow> id_json childId))"

section \<open>Strategies for local crashes\<close>

text \<open>
  What supervision needs from outside: the environment of the lifecycle, the placement of
  actors and the two encodings of \<open>JSON.stringify\<close>.
\<close>

record sup_env =
  se_env :: env
  se_place :: "spawn_options \<Rightarrow> js_error + string"
  se_args :: "string list \<Rightarrow> string"
  se_id :: "string \<Rightarrow> string"

definition getRestartKey :: "sup_env \<Rightarrow> string \<Rightarrow> string \<Rightarrow> sys \<Rightarrow> string" where
  "getRestartKey se childId parentId s =
     restart_key (se_args se) (se_id se) childId parentId (map_option md_options (jget (actorMetadata s) childId))"

definition getRestartKeyForRemote :: "sup_env \<Rightarrow> string \<Rightarrow> string \<Rightarrow> spawn_options \<Rightarrow> string" where
  "getRestartKeyForRemote se childId parentId opts =
     restart_key (se_args se) (se_id se) childId parentId (Some opts)"

definition handleOneForOne :: "sup_env \<Rightarrow> actor_ref \<Rightarrow> sys \<Rightarrow> sys" where
  "handleOneForOne se child s = snd (restart (se_env se) (se_place se) child s)"

text \<open>
  Respawning a list of children from the metadata collected before they were stopped: a child
  without metadata is skipped; an exception ends the loop (the supervisor logs it).
\<close>

fun respawn :: "env \<Rightarrow> actor_ref \<Rightarrow> actor_metadata option list \<Rightarrow> sys \<Rightarrow> sys" where
  "respawn env parent [] s = s"
| "respawn env parent (None # ms) s = respawn env parent ms s"
| "respawn env parent (Some m # ms) s =
     (case spawnChild env parent (md_class m) (md_options m) s of
        Inl _ \<Rightarrow> s
      | Inr (_, s') \<Rightarrow> respawn env parent ms s')"

definition stop_all :: "env \<Rightarrow> actor_ref list \<Rightarrow> sys \<Rightarrow> sys" where
  "stop_all env refs s = fold (stop env) (rev refs) s"

definition metadata_of :: "sys \<Rightarrow> actor_ref list \<Rightarrow> actor_metadata option list" where
  "metadata_of s refs = map (\<lambda>r. jget (actorMetadata s) (ref_id r)) refs"

definition handleOneForAll :: "sup_env \<Rightarrow> actor \<Rightarrow> sys \<Rightarrow> sys" where
  "handleOneForAll se parent s =
     respawn (se_env se) (a_self parent) (metadata_of s (a_childOrder parent))
       (stop_all (se_env se) (a_childOrder parent) s)"

text \<open>The crashed child and those started after it.\<close>

definition rest_from :: "string \<Rightarrow> actor_ref list \<Rightarrow> actor_ref list" where
  "rest_from i order = dropWhile (\<lambda>r. ref_id r \<noteq> i) order"

definition handleRestForOne :: "sup_env \<Rightarrow> actor_ref \<Rightarrow> actor \<Rightarrow> sys \<Rightarrow> sys" where
  "handleRestForOne se crashed parent s =
     (let rest = rest_from (ref_id crashed) (a_childOrder parent)
      in respawn (se_env se) (a_self parent) (metadata_of s rest) (stop_all (se_env se) rest s))"

text \<open>The end of an actor that may not be restarted.\<close>

definition kill :: "(actor_ref \<Rightarrow> string \<Rightarrow> sys \<Rightarrow> sys) \<Rightarrow> env \<Rightarrow> actor_ref \<Rightarrow> termination_reason \<Rightarrow> sys \<Rightarrow> sys" where
  "kill crash env r reason s = stop env r (notifyLinkedActors crash r reason (notifyWatchers r reason s))"

definition handleChildCrash ::
  "(actor_ref \<Rightarrow> string \<Rightarrow> sys \<Rightarrow> sys) \<Rightarrow> sup_env \<Rightarrow> actor_ref \<Rightarrow> sys \<Rightarrow> sys" where
  "handleChildCrash crash se child s =
     (case jget (actorMetadata s) (ref_id child) of
        None \<Rightarrow> s
      | Some m \<Rightarrow>
          (case md_parent m of
             None \<Rightarrow> s
           | Some p \<Rightarrow>
               (case getActor s (ref_id p) of
                  None \<Rightarrow> s
                | Some parent \<Rightarrow>
                    (let opts = ac_supervision (a_class parent);
                         (ok, s1) = canRestart (env_now (se_env se)) opts (getRestartKey se (ref_id child) (ref_id p) s) s
                     in if \<not> ok then kill crash (se_env se) child KilledExit s1
                        else (case cs_strategy opts of
                                OneForOne \<Rightarrow> handleOneForOne se child s1
                              | OneForAll \<Rightarrow> handleOneForAll se parent s1
                              | RestForOne \<Rightarrow> handleRestForOne se child parent s1)))))"

section \<open>The root supervisor\<close>

definition root_record :: "sup_env \<Rightarrow> string \<Rightarrow> sys \<Rightarrow> restart_record" where
  "root_record se i s =
     restart_record_for (env_now (se_env se)) (sup_periodMs (supervisorOptions s)) (jget (rootRestarts s) i)"

definition handleRootCrash ::
  "(actor_ref \<Rightarrow> string \<Rightarrow> sys \<Rightarrow> sys) \<Rightarrow> sup_env \<Rightarrow> actor_ref \<Rightarrow> string \<Rightarrow> sys \<Rightarrow> sys" where
  "handleRootCrash crash se r err s =
     (let opts = supervisorOptions s; i = ref_id r; rec = root_record se i s
      in if rr_count rec \<ge> sup_maxRestarts opts then
           (let s1 = kill crash (se_env se) r KilledExit s
            in s1\<lparr>rootRestarts := jdel (rootRestarts s1) i\<rparr>)
         else
           (let s1 = s\<lparr>rootRestarts := jput (rootRestarts s) i (rec\<lparr>rr_count := Suc (rr_count rec)\<rparr>)\<rparr>
            in case sup_strategy opts of
                 RestartStrategy \<Rightarrow> snd (restart (se_env se) (se_place se) r s1)
               | StopStrategy \<Rightarrow> kill crash (se_env se) r (ErrorExit err) s1))"

definition crash_step ::
  "(actor_ref \<Rightarrow> string \<Rightarrow> sys \<Rightarrow> sys) \<Rightarrow> sup_env \<Rightarrow> actor_ref \<Rightarrow> string \<Rightarrow> sys \<Rightarrow> sys" where
  "crash_step crash se r err s =
     (case (case jget (actorMetadata s) (ref_id r) of None \<Rightarrow> None | Some m \<Rightarrow> md_parent m) of
        Some _ \<Rightarrow> handleChildCrash crash se r s
      | None \<Rightarrow>
          if hasRemoteParent (ref_id r) s
          then notifyRemoteParentOfCrash (ref_id r) (ErrorExit err) (Some err) s
          else handleRootCrash crash se r err s)"

fun crash_fuel :: "nat \<Rightarrow> sup_env \<Rightarrow> actor_ref \<Rightarrow> string \<Rightarrow> sys \<Rightarrow> sys" where
  "crash_fuel 0 se r err s = s"
| "crash_fuel (Suc n) se r err s = crash_step (crash_fuel n se) se r err s"

definition handleCrash :: "sup_env \<Rightarrow> actor_ref \<Rightarrow> string \<Rightarrow> sys \<Rightarrow> sys" where
  "handleCrash se r err s = crash_fuel (Suc (length (links s))) se r err s"

section \<open>Strategies for crashes of remote children\<close>

definition stop_child :: "env \<Rightarrow> actor_ref \<Rightarrow> sys \<Rightarrow> sys" where
  "stop_child env r s = (if ref_node r = sys_id s then stop env r s else stopRemoteChild env (ref_id r) s)"

text \<open>What is collected about a child before it is stopped.\<close>

datatype saved_child = SavedLocal actor_metadata | SavedRemote remote_child | Unknown

definition save_child :: "sys \<Rightarrow> actor_ref \<Rightarrow> saved_child" where
  "save_child s r =
     (if ref_node r = sys_id s
      then (case jget (actorMetadata s) (ref_id r) of Some m \<Rightarrow> SavedLocal m | None \<Rightarrow> Unknown)
      else (case getRemoteChild (ref_id r) s of Some e \<Rightarrow> SavedRemote e | None \<Rightarrow> Unknown))"

fun respawn_saved :: "env \<Rightarrow> actor_ref \<Rightarrow> saved_child list \<Rightarrow> sys \<Rightarrow> sys" where
  "respawn_saved env parent [] s = s"
| "respawn_saved env parent (Unknown # cs) s = respawn_saved env parent cs s"
| "respawn_saved env parent (SavedLocal m # cs) s =
     (case spawnChild env parent (md_class m) (md_options m) s of
        Inl _ \<Rightarrow> s
      | Inr (_, s') \<Rightarrow> respawn_saved env parent cs s')"
| "respawn_saved env parent (SavedRemote e # cs) s =
     (case spawnChildRemote env parent (rc_class e) (rc_node e) (rc_options e) s of
        Inl _ \<Rightarrow> s
      | Inr (_, s') \<Rightarrow> respawn_saved env parent cs s')"

definition handleRemoteOneForOne :: "sup_env \<Rightarrow> remote_child \<Rightarrow> sys \<Rightarrow> sys" where
  "handleRemoteOneForOne se e s = snd (restartRemoteChild (se_env se) e s)"

definition handleRemoteOneForAll :: "sup_env \<Rightarrow> actor \<Rightarrow> sys \<Rightarrow> sys" where
  "handleRemoteOneForAll se parent s =
     (let all' = a_childOrder parent;
          saved = map (save_child s) (filter (\<lambda>r. ref_node r = sys_id s) all')
                @ map (save_child s) (filter (\<lambda>r. ref_node r \<noteq> sys_id s) all')
      in respawn_saved (se_env se) (a_self parent) saved (fold (stop_child (se_env se)) (rev all') s))"

definition handleRemoteRestForOne :: "sup_env \<Rightarrow> remote_child \<Rightarrow> actor \<Rightarrow> sys \<Rightarrow> sys" where
  "handleRemoteRestForOne se e parent s =
     (let rest = rest_from (ref_id (rc_ref e)) (a_childOrder parent)
      in respawn_saved (se_env se) (a_self parent) (map (save_child s) rest)
           (fold (stop_child (se_env se)) (rev rest) s))"

definition supervise_remote_crash :: "sup_env \<Rightarrow> remote_child \<Rightarrow> sys \<Rightarrow> sys" where
  "supervise_remote_crash se e s =
     (case getActor s (ref_id (rc_parent e)) of
        None \<Rightarrow> s
      | Some parent \<Rightarrow>
          (let opts = ac_supervision (a_class parent); i = ref_id (rc_ref e);
               (ok, s1) = canRestart (env_now (se_env se)) opts
                  (getRestartKeyForRemote se i (ref_id (rc_parent e)) (rc_options e)) s
           in if \<not> ok then removeRemoteChild i (rc_parent e) s1
              else (case cs_strategy opts of
                      OneForOne \<Rightarrow> handleRemoteOneForOne se e s1
                    | OneForAll \<Rightarrow> handleRemoteOneForAll se parent s1
                    | RestForOne \<Rightarrow> handleRemoteRestForOne se e parent s1)))"

definition handleRemoteChildCrash :: "sup_env \<Rightarrow> string \<Rightarrow> sys \<Rightarrow> sys" where
  "handleRemoteChildCrash se i s =
     (case getRemoteChild i s of None \<Rightarrow> s | Some e \<Rightarrow> supervise_remote_crash se e s)"

section \<open>Node failure\<close>

definition handleNodeFailureForRemoteChildren :: "sup_env \<Rightarrow> string \<Rightarrow> sys \<Rightarrow> sys" where
  "handleNodeFailureForRemoteChildren se dead s =
     fold (\<lambda>e. handleRemoteChildCrash se (ref_id (rc_ref e)))
       (filter (\<lambda>e. rc_node e = dead) (jvals (remoteChildren s))) s"

definition handleNodeFailure :: "sup_env \<Rightarrow> string \<Rightarrow> sys \<Rightarrow> sys" where
  "handleNodeFailure se dead s =
     handleNodeFailureForOrphanedChildren (se_env se) dead
       (handleNodeFailureForRemoteChildren se dead
         (handleNodeFailureForLinks (handleCrash se) dead
           (handleNodeFailureForWatches dead s)))"

section \<open>Crashes only remove links\<close>

named_theorems fewer \<open>operations that add no link\<close>

lemma fewer_start [fewer]: "fewer_links s s" by simp

lemma fewer_simple [fewer]:
  "fewer_links s s' \<Longrightarrow> fewer_links s (emit e s')"
  "fewer_links s s' \<Longrightarrow> fewer_links s (on_actor a f s')"
  "fewer_links s s' \<Longrightarrow> fewer_links s (s'\<lparr>remoteChildren := rc\<rparr>)"
  "fewer_links s s' \<Longrightarrow> fewer_links s (s'\<lparr>remoteWatchers := rw\<rparr>)"
  "fewer_links s s' \<Longrightarrow> fewer_links s (s'\<lparr>remoteLinkers := rl\<rparr>)"
  "fewer_links s s' \<Longrightarrow> fewer_links s (s'\<lparr>rootRestarts := rr\<rparr>)"
  "fewer_links s s' \<Longrightarrow> fewer_links s (s'\<lparr>childRestarts := cr\<rparr>)"
  "fewer_links s s' \<Longrightarrow> fewer_links s (s'\<lparr>uuids := u\<rparr>)"
  "fewer_links s s' \<Longrightarrow> fewer_links s (delete_actor i s')"
  "fewer_links s s' \<Longrightarrow> fewer_links s (add_actor t c o' r p s')"
  "fewer_links s s' \<Longrightarrow> fewer_links s (scheduleProcessMailbox i s')"
  "fewer_links s s' \<Longrightarrow> fewer_links s (register_name o' i s')"
  by (simp_all add: fewer_links_def delete_actor_def add_actor_def scheduleProcessMailbox_def register_name_def
      split: option.split)

lemma fewer_fold [fewer]:
  assumes "fewer_links s s'" and "\<And>x t. fewer_links t (f x t)"
  shows "fewer_links s (fold f xs s')"
  using assms(1)
proof (induction xs arbitrary: s')
  case (Cons x xs)
  show ?case using Cons.IH [OF fewer_trans [OF Cons.prems assms(2)]] by simp
qed simp

lemma fewer_unlink' [fewer]: "fewer_links s s' \<Longrightarrow> fewer_links s (unlink l s')"
  by (rule fewer_trans [OF _ fewer_unlink])

lemma fewer_unwatch [fewer]: "fewer_links s s' \<Longrightarrow> fewer_links s (unwatch w s')"
  by (auto simp: fewer_links_def unwatch_def unwatchRemote_def Let_def split: option.split)

lemma fewer_notify_watch [fewer]: "fewer_links s s' \<Longrightarrow> fewer_links s (notify_watch r x i s')"
  by (simp add: notify_watch_def sendDownMessage_def fewer split: option.split)

lemma fewer_notifyWatchers [fewer]: "fewer_links s s' \<Longrightarrow> fewer_links s (notifyWatchers r x s')"
proof -
  assume a: "fewer_links s s'"
  have w: "fewer_links s (fold (notify_watch r x) ids s')" for ids
    by (rule fewer_fold [OF a]) (rule fewer_notify_watch, rule fewer_start)
  have "links (fold (notifyRemoteWatcher i x) rws t) = links t \<and>
      remoteLinks (fold (notifyRemoteWatcher i x) rws t) = remoteLinks t" for i rws t
    by (induction rws arbitrary: t) (simp_all add: notifyRemoteWatcher_def)
  with w show ?thesis by (simp add: notifyWatchers_def Let_def fewer_links_def)
qed

lemma fewer_notifyRemoteLinkExit [fewer]:
  "fewer_links s s' \<Longrightarrow> fewer_links s (notifyRemoteLinkExit e a x s')"
  by (auto simp: fewer_links_def notifyRemoteLinkExit_def Let_def ctx_unlink_def)

lemma fewer_notifyRemoteLinkers [fewer]: "fewer_links s s' \<Longrightarrow> fewer_links s (notifyRemoteLinkers a x s')"
  by (simp add: fewer_links_def remoteLinkers_same)

lemma fewer_notify_link [fewer]:
  assumes "fewer_links s s'" and "\<And>r x t. fewer_links t (crash r x t)"
  shows "fewer_links s (notify_link crash r reason i s')"
proof -
  have u: "fewer_links s (unlink l s')" for l by (rule fewer_unlink' [OF assms(1)])
  have "fewer_links s (crash r x (unlink l s'))" for r x l
    by (rule fewer_trans [OF u assms(2)])
  with u assms(1) show ?thesis
    by (simp add: notify_link_def Let_def sendExitMessage_def fewer split: option.split)
qed

lemma fewer_notifyLinked [fewer]:
  assumes "fewer_links s s'" and "\<And>r x t. fewer_links t (crash r x t)"
  shows "fewer_links s (notifyLinkedActors crash r reason s')"
  unfolding notifyLinkedActors_def
  by (intro fewer_notifyRemoteLinkers fewer_fold assms(1)) (rule fewer_notify_link [OF fewer_start assms(2)])

lemma fewer_bury [fewer]: "fewer_links s s' \<Longrightarrow> fewer_links s (bury r s')"
  by (simp add: bury_def unregister_name_def fewer split: option.split)

lemma fewer_detach [fewer]: "fewer_links s s' \<Longrightarrow> fewer_links s (detach r s')"
  by (simp add: detach_def fewer split: option.split)

lemma fewer_unwatch_all [fewer]: "fewer_links s s' \<Longrightarrow> fewer_links s (unwatch_all i s')"
  by (auto simp: unwatch_all_def split: option.split intro: fewer)

lemma fewer_unlink_all [fewer]: "fewer_links s s' \<Longrightarrow> fewer_links s (unlink_all i s')"
  by (auto simp: unlink_all_def split: option.split intro: fewer)

lemma fewer_stop_self [fewer]: "fewer_links s s' \<Longrightarrow> fewer_links s (stop_self r s')"
  by (simp add: stop_self_def Let_def clearIdleTimeout_def cancelAllActorTimers_def no_crash_def fewer)

lemma fewer_stopRemoteChild [fewer]: "fewer_links s s' \<Longrightarrow> fewer_links s (stopRemoteChild env i s')"
  by (simp add: stopRemoteChild_def Let_def fewer split: option.split)

lemma fewer_stop [fewer]: "fewer_links s s' \<Longrightarrow> fewer_links s (stop env r s')"
proof -
  have "fewer_links t (stop_fuel n env r t)" for n r t
  proof (induction n arbitrary: r t)
    case (Suc n)
    have "fewer_links t (fold (\<lambda>c s. if ref_node c = sys_id s then stop_fuel n env c s
        else stopRemoteChild env (ref_id c) s) cs t)" for cs t
      by (rule fewer_fold) (simp_all add: Suc.IH fewer)
    then show ?case by (simp add: fewer split: option.split)
  qed simp
  then show "fewer_links s s' \<Longrightarrow> fewer_links s (stop env r s')"
    unfolding stop_def by (blast intro: fewer_trans)
qed

lemma fewer_stopSingle [fewer]: "fewer_links s s' \<Longrightarrow> fewer_links s (stopSingle b r s')"
  by (simp add: stopSingle_def Let_def clearIdleTimeout_def cancelAllActorTimers_def fewer)

lemma fewer_spawn: "spawn env place c o' s' = Inr (r, t) \<Longrightarrow> fewer_links s s' \<Longrightarrow> fewer_links s t"
  by (auto simp: spawn_def Let_def split: if_splits sum.splits intro!: fewer)

lemma fewer_spawnChild: "spawnChild env p c o' s' = Inr (r, t) \<Longrightarrow> fewer_links s s' \<Longrightarrow> fewer_links s t"
  by (auto simp: spawnChild_def Let_def split: if_splits intro!: fewer)

lemma fewer_restart [fewer]: "fewer_links s s' \<Longrightarrow> fewer_links s (snd (restart env place r s'))"
  by (auto simp: restart_def Let_def split: option.split sum.split intro: fewer fewer_spawn fewer_spawnChild)

lemma fewer_respawn [fewer]: "fewer_links s s' \<Longrightarrow> fewer_links s (respawn env p ms s')"
proof (induction ms arbitrary: s')
  case (Cons m ms)
  then show ?case
    by (cases m) (auto split: sum.split dest: fewer_spawnChild [where s = s])
qed simp

lemma fewer_stop_all [fewer]: "fewer_links s s' \<Longrightarrow> fewer_links s (stop_all env rs s')"
  unfolding stop_all_def by (intro fewer)

lemma fewer_kill [fewer]:
  "fewer_links s s' \<Longrightarrow> (\<And>r x t. fewer_links t (crash r x t)) \<Longrightarrow> fewer_links s (kill crash env r x s')"
  unfolding kill_def by (intro fewer)

lemma fewer_canRestart: "canRestart now opts key s' = (ok, t) \<Longrightarrow> fewer_links s s' \<Longrightarrow> fewer_links s t"
  by (auto simp: canRestart_def Let_def split_beta intro: fewer)

lemma fewer_handleChildCrash [fewer]:
  assumes "\<And>r x t. fewer_links t (crash r x t)"
  shows "fewer_links s (handleChildCrash crash se child s)"
proof -
  have "fewer_links s (snd (canRestart now opts key s))" for now opts key
    by (rule fewer_canRestart [of now opts key s "fst (canRestart now opts key s)"]) simp_all
  then show ?thesis
    by (auto simp: handleChildCrash_def Let_def split_beta handleOneForOne_def handleOneForAll_def handleRestForOne_def
        split: option.split child_strategy.split intro!: fewer assms)
qed

lemma fewer_crash_step:
  assumes "\<And>r x t. fewer_links t (crash r x t)"
  shows "fewer_links s (crash_step crash se r x s)"
  by (auto simp: crash_step_def handleRootCrash_def Let_def notifyRemoteParentOfCrash_def
      split: option.split supervision_strategy.split intro!: fewer assms)

lemma fewer_crash_fuel: "fewer_links s (crash_fuel n se r x s)"
  by (induction n arbitrary: r x s) (auto intro: fewer_crash_step)


section \<open>The fuel is enough\<close>

text \<open>The number of links, and that an entry is filed under its own id.\<close>

definition nlinks :: "sys \<Rightarrow> nat" where
  "nlinks s = card (dom (jget (links s)))"

definition link_keys :: "sys \<Rightarrow> bool" where
  "link_keys s \<longleftrightarrow> (\<forall>i e. jget (links s) i = Some e \<longrightarrow> lr_id (le_ref e) = i \<and> jget (remoteLinks s) i = None)"

lemma nlinks_fewer: "fewer_links s s' \<Longrightarrow> nlinks s' \<le> nlinks s"
  unfolding nlinks_def by (rule card_mono) (auto simp: fewer_links_def finite_dom_map_of)

lemma nlinks_length: "nlinks s \<le> length (links s)"
  unfolding nlinks_def dom_map_of_conv_image_fst by (rule order_trans [OF card_image_le]) (simp_all add: card_length)

lemma link_keys_fewer: "link_keys s \<Longrightarrow> fewer_links s s' \<Longrightarrow> link_keys s'"
  unfolding link_keys_def fewer_links_def by (metis not_None_eq)

lemma link_inv_keys: "link_inv s \<Longrightarrow> link_keys s"
  by (auto simp: link_keys_def link_inv_def link_refs_def)

lemma nlinks_unlink:
  assumes "link_keys s" and "jget (links s) i = Some e"
  shows "nlinks (unlink (le_ref e) s) < nlinks s"
proof -
  have "links (unlink (le_ref e) s) = jdel (links s) i"
    using assms by (simp add: link_keys_def unlink_def ctx_unlink_def)
  then have "dom (jget (links (unlink (le_ref e) s))) = dom (jget (links s)) - {i}" by (auto split: if_splits)
  then show ?thesis
    using assms(2) unfolding nlinks_def by (simp add: card_gt_0_iff finite_dom_map_of) (metis card_Diff1_less domI finite_dom_map_of card_Suc_Diff1 lessI)
qed

text \<open>Two handlers that agree on every state with fewer than \<open>k\<close> links.\<close>

definition agree :: "nat \<Rightarrow> (actor_ref \<Rightarrow> string \<Rightarrow> sys \<Rightarrow> sys) \<Rightarrow> (actor_ref \<Rightarrow> string \<Rightarrow> sys \<Rightarrow> sys) \<Rightarrow> bool" where
  "agree k f g \<longleftrightarrow> (\<forall>r x s. link_keys s \<longrightarrow> nlinks s < k \<longrightarrow> f r x s = g r x s)"

lemma agree_notify_link:
  "agree k f g \<Longrightarrow> link_keys s \<Longrightarrow> nlinks s \<le> k \<Longrightarrow> notify_link f r x i s = notify_link g r x i s"
  using nlinks_unlink [of s i] link_keys_fewer [OF _ fewer_unlink, of s]
  by (auto simp: notify_link_def Let_def agree_def split: option.split dest: order.strict_trans2)

lemma agree_fold:
  assumes few: "\<And>r x t. fewer_links t (f r x t)" and ag: "agree k f g"
  shows "link_keys s \<Longrightarrow> nlinks s \<le> k \<Longrightarrow> fold (notify_link f r x) ids s = fold (notify_link g r x) ids s"
proof (induction ids arbitrary: s)
  case (Cons i ids)
  have "fewer_links s (notify_link f r x i s)" by (rule fewer_notify_link [OF fewer_start few])
  then have "link_keys (notify_link f r x i s)" "nlinks (notify_link f r x i s) \<le> k"
    using Cons.prems nlinks_fewer link_keys_fewer by (blast, fastforce intro: order_trans)
  then show ?case using Cons.IH agree_notify_link [OF ag Cons.prems] by simp
qed simp

lemma agree_kill:
  assumes few: "\<And>r x t. fewer_links t (f r x t)" and ag: "agree k f g"
    and s: "link_keys s" "nlinks s \<le> k" "fewer_links s s'"
  shows "kill f env r x s' = kill g env r x s'"
proof -
  have "fewer_links s (notifyWatchers r x s')" by (rule fewer_notifyWatchers [OF s(3)])
  then have "link_keys (notifyWatchers r x s')" "nlinks (notifyWatchers r x s') \<le> k"
    using s nlinks_fewer link_keys_fewer by (blast, fastforce intro: order_trans)
  then show ?thesis by (simp add: kill_def notifyLinkedActors_def agree_fold [OF few ag])
qed

lemma agree_crash_step:
  assumes few: "\<And>r x t. fewer_links t (f r x t)" and ag: "agree k f g" and s: "link_keys s" "nlinks s \<le> k"
  shows "crash_step f se r x s = crash_step g se r x s"
proof -
  note K = agree_kill [OF few ag s]
  have R: "fewer_links s (s\<lparr>rootRestarts := m\<rparr>)" for m by (intro fewer)
  have C: "fewer_links s (snd (canRestart now opts key s))" for now opts key
    by (rule fewer_canRestart [of now opts key s "fst (canRestart now opts key s)"]) simp_all
  have "handleRootCrash f se r x s = handleRootCrash g se r x s"
    by (simp add: handleRootCrash_def Let_def K [OF fewer_start] K [OF R] split: supervision_strategy.split)
  moreover have "handleChildCrash f se r s = handleChildCrash g se r s"
    by (simp add: handleChildCrash_def Let_def split_beta K [OF C] split: option.split)
  ultimately show ?thesis by (simp add: crash_step_def split: option.split)
qed

lemma agree_crash_fuel: "agree (min n m) (crash_fuel n se) (crash_fuel m se)"
proof (induction n arbitrary: m)
  case (Suc n)
  show ?case
  proof (cases m)
    case (Suc m')
    show ?thesis unfolding agree_def
    proof (intro allI impI)
      fix r x s assume s: "link_keys s" "nlinks s < min (Suc n) m"
      then have "nlinks s \<le> min n m'" using Suc by (simp add: less_Suc_eq_le)
      from agree_crash_step [OF fewer_crash_fuel Suc.IH [of m'] s(1) this]
      show "crash_fuel (Suc n) se r x s = crash_fuel m se r x s" by (simp add: \<open>m = Suc m'\<close>)
    qed
  qed (simp add: agree_def)
qed (simp add: agree_def)

lemma crash_fuel_enough:
  assumes "link_keys s" and "nlinks s < n" and "nlinks s < m"
  shows "crash_fuel n se r x s = crash_fuel m se r x s"
  using agree_crash_fuel [of n m se] assms by (simp add: agree_def)

lemma handleCrash_fuel: "link_keys s \<Longrightarrow> nlinks s < n \<Longrightarrow> handleCrash se r x s = crash_fuel n se r x s"
  unfolding handleCrash_def by (rule crash_fuel_enough) (use nlinks_length [of s] in simp_all)

text \<open>
  C9: Crashes spread to an end: with link tables that agree, however the actors are linked
  (in cycles too), \<open>handleCrash\<close> comes to a result, more fuel than there are links gives the
  same one, and it satisfies the recursion of the code, in which nothing counts down.
\<close>

theorem crash_cascade_ends:
  assumes "link_inv s" and "length (links s) < n"
  shows "crash_fuel n se r x s = handleCrash se r x s
     \<and> handleCrash se r x s = crash_step (handleCrash se) se r x s"
proof
  have k: "link_keys s" by (rule link_inv_keys [OF assms(1)])
  show "crash_fuel n se r x s = handleCrash se r x s"
    using handleCrash_fuel [OF k, of n] nlinks_length [of s] assms(2) by simp
  have "agree (nlinks s) (crash_fuel (length (links s)) se) (handleCrash se)"
    unfolding agree_def using handleCrash_fuel nlinks_length [of s] by (metis order.strict_trans2)
  from agree_crash_step [OF fewer_crash_fuel this k order_refl]
  show "handleCrash se r x s = crash_step (handleCrash se) se r x s"
    unfolding handleCrash_def by simp
qed

lemma canRestart_state: "\<exists>m. snd (canRestart now opts key s) = s\<lparr>childRestarts := m\<rparr>"
  by (simp add: canRestart_def split_beta) metis

section \<open>How often a child is restarted\<close>

text \<open>Crashes of the child behind one key at the given times: those that are restarted.\<close>

fun restarts_at :: "child_supervision \<Rightarrow> string \<Rightarrow> int list \<Rightarrow> (string, restart_record) jsmap \<Rightarrow> int list" where
  "restarts_at opts key [] m = []"
| "restarts_at opts key (t # ts) m =
     (let (ok, m') = canRestart_in t opts key m
      in if ok then t # restarts_at opts key ts m' else restarts_at opts key ts m')"

definition within :: "int \<Rightarrow> int \<Rightarrow> int list \<Rightarrow> nat" where
  "within a p ts = length (filter (\<lambda>t. a \<le> t \<and> t \<le> a + p) ts)"

lemma within_simps [simp]:
  "within a p [] = 0"
  "within a p (t # ts) = (if a \<le> t \<and> t \<le> a + p then 1 else 0) + within a p ts"
  by (simp_all add: within_def)

text \<open>One crash, when the key has a record.\<close>

lemma canRestart_in_Some:
  fixes now :: int and opts :: child_supervision
  assumes "jget m key = Some r"
  defines "r1 \<equiv> (if now - rr_timestamp r > cs_periodMs opts then \<lparr>rr_count = 0, rr_timestamp = now\<rparr> else r)"
  shows "fst (canRestart_in now opts key m) \<longleftrightarrow> rr_count r1 < cs_maxRestarts opts"
    and "jget (snd (canRestart_in now opts key m)) key =
      Some (if rr_count r1 < cs_maxRestarts opts then r1\<lparr>rr_count := Suc (rr_count r1)\<rparr> else r1)"
  using assms(1) unfolding r1_def by (auto simp: canRestart_in_def restart_record_for_def Let_def jhas_def)

lemma canRestart_in_None:
  assumes "jget m key = None" and "0 \<le> cs_periodMs opts"
  shows "fst (canRestart_in now opts key m) \<longleftrightarrow> 0 < cs_maxRestarts opts"
    and "jget (snd (canRestart_in now opts key m)) key =
      (if 0 < cs_maxRestarts opts then Some \<lparr>rr_count = 1, rr_timestamp = now\<rparr> else None)"
  using assms by (auto simp: canRestart_in_def restart_record_for_def Let_def jhas_def)

lemma restarts_at_late:
  assumes "\<forall>t\<in>set ts. a + p < t"
  shows "within a p (restarts_at opts key ts m) = 0"
  using assms by (induction ts arbitrary: m) (simp_all add: Let_def split_beta)

text \<open>
  All crashes from time \<open>a\<close> on: the window that is open at \<open>a\<close> has \<open>max - count\<close> restarts left,
  and at most one more window begins before \<open>a + period\<close>.
\<close>

lemma restarts_from:
  assumes "jget m key = Some r" and "sorted ts" and "\<forall>t\<in>set ts. a \<le> t"
    and "0 \<le> cs_periodMs opts" and "rr_count r \<le> cs_maxRestarts opts"
  shows "within a (cs_periodMs opts) (restarts_at opts key ts m) \<le>
     (cs_maxRestarts opts - rr_count r) + (if a \<le> rr_timestamp r then 0 else cs_maxRestarts opts)"
  using assms(1-3,5)
proof (induction ts arbitrary: m r)
  case (Cons t ts)
  let ?P = "cs_periodMs opts" and ?M = "cs_maxRestarts opts"
  let ?m = "snd (canRestart_in t opts key m)"
  note step = canRestart_in_Some [OF Cons.prems(1), of t opts]
  note IH = Cons.IH [of ?m, OF step(2)]
  have ts: "sorted ts" "\<forall>t\<in>set ts. a \<le> t" "a \<le> t" using Cons.prems by simp_all
  show ?case
  proof (cases "t - rr_timestamp r > ?P")
    case True
    show ?thesis
    proof (cases "a \<le> rr_timestamp r")
      case True
      then have "\<forall>u\<in>set (t # ts). a + ?P < u" using \<open>t - rr_timestamp r > ?P\<close> Cons.prems(2) by auto
      then show ?thesis by (simp add: restarts_at_late del: restarts_at.simps)
    qed (use IH ts step(1) assms(4) Cons.prems(4) \<open>t - rr_timestamp r > ?P\<close> in
        \<open>auto simp: Let_def split_beta split: if_splits\<close>)
  next
    case False
    then show ?thesis
      using IH ts step(1) assms(4) Cons.prems(4) by (auto simp: Let_def split_beta split: if_splits)
  qed
qed simp

lemma restarts_bound:
  assumes "sorted ts" and "0 \<le> cs_periodMs opts"
    and "case jget m key of None \<Rightarrow> True | Some r \<Rightarrow> 0 < rr_count r \<and> rr_count r \<le> cs_maxRestarts opts"
  shows "within a (cs_periodMs opts) (restarts_at opts key ts m) \<le> 2 * cs_maxRestarts opts - 1"
  using assms(1,3)
proof (induction ts arbitrary: m)
  case (Cons t ts)
  let ?P = "cs_periodMs opts" and ?M = "cs_maxRestarts opts"
  let ?m = "snd (canRestart_in t opts key m)"
  have ts: "sorted ts" "\<forall>u\<in>set ts. t \<le> u" using Cons.prems(1) by simp_all
  show ?case
  proof (cases "jget m key")
    case None
    note step = canRestart_in_None [OF None assms(2), of t]
    have IH: "within a ?P (restarts_at opts key ts ?m) \<le> 2 * ?M - 1"
      by (rule Cons.IH [OF ts(1)]) (use step(2) in simp)
    show ?thesis
    proof (cases "a \<le> t \<and> 0 < ?M")
      case True
      then have "within a ?P (restarts_at opts key ts ?m) \<le> ?M - 1"
        using restarts_from [of ?m key "\<lparr>rr_count = 1, rr_timestamp = t\<rparr>" ts a opts] step(2) ts assms(2) by fastforce
      moreover have "Suc (?M - 1) \<le> 2 * ?M - 1" using True by simp
      ultimately show ?thesis using step(1) True by (auto simp: Let_def split_beta)
    qed (use IH step(1) in \<open>auto simp: Let_def split_beta\<close>)
  next
    case (Some r)
    note step = canRestart_in_Some [OF Some, of t opts]
    have r: "0 < rr_count r" "rr_count r \<le> ?M" using Cons.prems(2) Some by simp_all
    show ?thesis
    proof (cases "a \<le> t")
      case True
      have "within a ?P (restarts_at opts key (t # ts) m) \<le> (?M - rr_count r) + (if a \<le> rr_timestamp r then 0 else ?M)"
        by (rule restarts_from [OF Some Cons.prems(1)]) (use True ts assms(2) r in auto)
      also have "\<dots> \<le> (?M - rr_count r) + ?M" by simp
      also have "\<dots> \<le> 2 * ?M - 1" using r by linarith
      finally show ?thesis .
    next
      case False
      have "within a ?P (restarts_at opts key ts ?m) \<le> 2 * ?M - 1"
        by (rule Cons.IH [OF ts(1)]) (use step(2) r in \<open>auto split: if_splits\<close>)
      then show ?thesis using False by (simp add: Let_def split_beta)
    qed
  qed
qed simp

text \<open>
  C11: What the limiter grants: whatever the times at which \<open>canRestart\<close> is asked for one restart
  key, it says yes at most \<open>2 * maxRestarts - 1\<close> times in any stretch of \<open>periodMs\<close> milliseconds. The
  bound is not \<open>maxRestarts\<close>, because the period is counted from the first restart of a window,
  and it is reached: \<open>maxRestarts - 1\<close> crashes at the end of a window and \<open>maxRestarts\<close> just after
  it. This is a bound for a key and not for a child: the key of a child without a name changes with
  every restart (\<open>unnamed_child_unlimited\<close>), and the restarts a child undergoes because a sibling
  crashed are counted under the sibling's key.
\<close>

theorem restart_limit:
  assumes "sorted ts" and "0 \<le> cs_periodMs opts"
  shows "within a (cs_periodMs opts) (restarts_at opts key ts []) \<le> 2 * cs_maxRestarts opts - 1
     \<and> restarts_at \<lparr>cs_strategy = st, cs_maxRestarts = 3, cs_periodMs = 5000\<rparr> key [0, 5000, 5000, 5001, 5001, 5001] []
         = [0, 5000, 5000, 5001, 5001, 5001]
     \<and> within 5000 5000 [0, 5000, 5000, 5001, 5001, 5001] = 2 * 3 - 1"
proof (intro conjI)
  show "within a (cs_periodMs opts) (restarts_at opts key ts []) \<le> 2 * cs_maxRestarts opts - 1"
    by (rule restarts_bound [OF assms]) simp
qed (simp_all add: canRestart_in_def restart_record_for_def Let_def jhas_def)

theorem restart_limit_witness:
  "within 0 5000 (restarts_at DEFAULT_CHILD_SUPERVISION ''p:a'' [0, 1, 2, 3, 4, 5, 6] []) \<le> 5"
  using restart_limit [of "[0, 1, 2, 3, 4, 5, 6]" DEFAULT_CHILD_SUPERVISION 0 "''p:a''"]
  by (simp add: DEFAULT_CHILD_SUPERVISION_def del: restarts_at.simps)

section \<open>The limit of root actors\<close>

lemma settings_new [simp]:
  "settings (register_name o' i s) = settings s" "settings (scheduleProcessMailbox i s) = settings s"
  "settings (add_actor t c o' r p s) = settings s"
  by (simp_all add: register_name_def scheduleProcessMailbox_def add_actor_def settings_def split: option.split)

lemma settings_fields:
  assumes "settings s' = settings s"
  shows "isShuttingDown s' = isShuttingDown s" "isDraining s' = isDraining s"
    "supervisorOptions s' = supervisorOptions s" "rootRestarts s' = rootRestarts s"
    "childRestarts s' = childRestarts s" "remoteParents s' = remoteParents s" "uuids s' = uuids s"
    "defaultMailboxConfig s' = defaultMailboxConfig s" "pausedMailboxes s' = pausedMailboxes s"
    "processingActors s' = processingActors s"
  using assms by (simp_all add: settings_def)

text \<open>The newest actor, which is the last of the table.\<close>

definition newest :: "sys \<Rightarrow> actor_ref" where
  "newest s = a_self (snd (last (actors s)))"

lemma last_jput_new: "\<not> jhas m k \<Longrightarrow> last (jput m k v) = (k, v)"
  by (induction m) (auto simp: jhas_def split: if_splits)

lemma spawn_root:
  assumes "\<not> isShuttingDown s" "\<not> isDraining s" and "\<not> alive s (env_uuid env (uuids s))"
  obtains r s' where "spawn env (Inr (sys_id s)) c opts s = Inr (r, s')"
    and "ref_id r = env_uuid env (uuids s)" and "newest s' = r"
    and "actors s' = jput (actors s) (ref_id r) (new_actor c r None (env_now env))"
    and "jget (actorMetadata s') (ref_id r) = Some \<lparr>md_class = c, md_options = opts, md_parent = None\<rparr>"
    and "settings (s'\<lparr>uuids := uuids s\<rparr>) = settings s" and "uuids s' = Suc (uuids s)" and "sys_id s' = sys_id s"
proof -
  define r where "r = \<lparr>ref_node = sys_id s, ref_id = env_uuid env (uuids s), ref_name = so_name opts, ref_original = True\<rparr>"
  define s1 where "s1 = add_actor (env_now env) c opts r None (s\<lparr>uuids := Suc (uuids s)\<rparr>)"
  define s' where "s' = scheduleProcessMailbox (ref_id r) (emit (CallInit (ref_id r)) (register_name opts (ref_id r) s1))"
  have "settings s' = settings s1" by (simp add: s'_def)
  moreover have "settings (s1\<lparr>uuids := uuids s\<rparr>) = settings s" "uuids s1 = Suc (uuids s)"
    by (simp_all add: s1_def add_actor_def settings_def)
  ultimately have set: "settings (s'\<lparr>uuids := uuids s\<rparr>) = settings s" "uuids s' = Suc (uuids s)"
    by (simp_all add: settings_def)
  have acts: "actors s' = jput (actors s) (ref_id r) (new_actor c r None (env_now env))"
    by (simp add: s'_def s1_def)
  show thesis
  proof (rule that [of r s'])
    show "spawn env (Inr (sys_id s)) c opts s = Inr (r, s')"
      using assms(1,2) by (simp add: spawn_def Let_def s'_def s1_def r_def)
    show "newest s' = r"
      using assms(3) by (simp add: newest_def acts last_jput_new r_def new_actor_def)
  qed (use set acts in \<open>simp_all add: r_def s'_def s1_def\<close>)
qed

text \<open>
  A root actor under the default strategy, with unused ids to come: what the restart of the
  actor needs, and what it establishes again for the new instance.
\<close>

definition root_ready :: "sup_env \<Rightarrow> actor_class \<Rightarrow> sys \<Rightarrow> actor_ref \<Rightarrow> bool" where
  "root_ready se c s r \<longleftrightarrow>
     (\<exists>o'. jget (actorMetadata s) (ref_id r) = Some \<lparr>md_class = c, md_options = o', md_parent = None\<rparr>) \<and>
     alive s (ref_id r) \<and> \<not> isShuttingDown s \<and> \<not> isDraining s \<and> (\<forall>o'. se_place se o' = Inr (sys_id s)) \<and>
     sup_strategy (supervisorOptions s) = RestartStrategy \<and> 0 < sup_maxRestarts (supervisorOptions s) \<and>
     0 \<le> sup_periodMs (supervisorOptions s) \<and>
     jget (rootRestarts s) (ref_id r) = None \<and> \<not> hasRemoteParent (ref_id r) s \<and>
     (\<forall>n\<ge>uuids s. \<not> alive s (env_uuid (se_env se) n) \<and> jget (rootRestarts s) (env_uuid (se_env se) n) = None
        \<and> \<not> hasRemoteParent (env_uuid (se_env se) n) s)"

lemma root_crash:
  assumes ready: "root_ready se c s r" and inj: "inj (env_uuid (se_env se))"
  shows "root_ready se c (handleCrash se r err s) (newest (handleCrash se r err s))
     \<and> ref_id (newest (handleCrash se r err s)) = env_uuid (se_env se) (uuids s)
     \<and> \<not> alive (handleCrash se r err s) (ref_id r)
     \<and> uuids (handleCrash se r err s) = Suc (uuids s)"
proof -
  let ?u = "env_uuid (se_env se)" and ?i = "ref_id r"
  obtain o' where m: "jget (actorMetadata s) ?i = Some \<lparr>md_class = c, md_options = o', md_parent = None\<rparr>"
    using ready unfolding root_ready_def by blast
  have live: "alive s ?i" using ready unfolding root_ready_def by blast
  define s1 where "s1 = s\<lparr>rootRestarts := jput (rootRestarts s) ?i \<lparr>rr_count = 1, rr_timestamp = env_now (se_env se)\<rparr>\<rparr>"
  define s2 where "s2 = stopSingle False r s1"
  have s1: "actors s1 = actors s" "settings (s1\<lparr>rootRestarts := rootRestarts s\<rparr>) = settings s" "sys_id s1 = sys_id s"
    "actorMetadata s1 = actorMetadata s"
    by (simp_all add: s1_def settings_def)
  have H: "handleCrash se r err s = snd (restart (se_env se) (se_place se) r s1)"
    using ready m unfolding root_ready_def handleCrash_def
    by (simp add: crash_step_def handleRootCrash_def root_record_def restart_record_for_def s1_def)
  have alive2: "alive s2 a \<longleftrightarrow> alive s a \<and> a \<noteq> ?i" for a
    using stopSingle_edges(3) [of s1 r False a] live by (simp add: s2_def s1)
  have set2: "settings s2 = settings s1" by (simp add: s2_def)
  have id2: "sys_id s2 = sys_id s"
    using stopSingle_edges(4) [of s1 r False] live by (simp add: s2_def s1)
  note f2 = settings_fields [OF set2]
  have fresh: "\<not> alive s2 (?u (uuids s2))"
    using ready by (simp add: alive2 root_ready_def f2 s1_def)
  have run: "\<not> isShuttingDown s2" "\<not> isDraining s2" using ready by (simp_all add: root_ready_def f2 s1_def)
  from spawn_root [OF run fresh, of c o'] obtain r' s' where
    sp: "spawn (se_env se) (Inr (sys_id s2)) c o' s2 = Inr (r', s')"
    and r': "ref_id r' = ?u (uuids s2)" "newest s' = r'"
    and acts: "actors s' = jput (actors s2) (ref_id r') (new_actor c r' None (env_now (se_env se)))"
    and md: "jget (actorMetadata s') (ref_id r') = Some \<lparr>md_class = c, md_options = o', md_parent = None\<rparr>"
    and set': "settings (s'\<lparr>uuids := uuids s2\<rparr>) = settings s2" "uuids s' = Suc (uuids s2)" "sys_id s' = sys_id s2" .
  have "handleCrash se r err s = s'"
    using ready sp m by (simp add: H restart_def Let_def s1 s2_def [symmetric] root_ready_def id2)
  moreover have f': "isShuttingDown s' = isShuttingDown s" "isDraining s' = isDraining s"
    "supervisorOptions s' = supervisorOptions s" "remoteParents s' = remoteParents s" "uuids s2 = uuids s"
    "rootRestarts s' = jput (rootRestarts s) ?i \<lparr>rr_count = 1, rr_timestamp = env_now (se_env se)\<rparr>"
    using settings_fields [OF set'(1)] f2 by (simp_all add: s1_def)
  moreover have "root_ready se c s' r'"
  proof -
    have ne: "?u n \<noteq> ?i" if "uuids s \<le> n" for n using ready that live unfolding root_ready_def by metis
    have new: "?u n \<noteq> ?u (uuids s)" if "Suc (uuids s) \<le> n" for n using inj that by (auto dest: injD)
    show ?thesis
      using ready md r' acts ne new set' f' id2 alive2 unfolding root_ready_def hasRemoteParent_def
      by (auto dest: Suc_leD)
  qed
  moreover have "\<not> alive s' ?i"
    using acts r' alive2 ready live f' unfolding root_ready_def by (auto dest: spec [of _ "uuids s"])
  ultimately show ?thesis using r' set'(2) by simp
qed

text \<open>The newest instance crashes \<open>n\<close> times, at the same instant.\<close>

fun crash_times :: "nat \<Rightarrow> sup_env \<Rightarrow> actor_ref \<Rightarrow> string \<Rightarrow> sys \<Rightarrow> actor_ref \<times> sys" where
  "crash_times 0 se r err s = (r, s)"
| "crash_times (Suc n) se r err s =
     (let s' = handleCrash se r err s in crash_times n se (newest s') err s')"


text \<open>
  The restart limit of the root supervisor is never reached: the count is kept under the
  instance id, every restart makes a new instance with an id of its own, and so a root actor
  that crashes again and again at the same instant is restarted every time, however small
  \<open>maxRestarts\<close> is (as long as it is not 0). No instance but the last is left.
\<close>

theorem root_restarts_unlimited:
  assumes "root_ready se c s r" and "inj (env_uuid (se_env se))"
  shows "alive (snd (crash_times n se r err s)) (ref_id (fst (crash_times n se r err s)))
     \<and> uuids (snd (crash_times n se r err s)) = uuids s + n
     \<and> jget (rootRestarts (snd (crash_times n se r err s))) (ref_id (fst (crash_times n se r err s))) = None
     \<and> map_option md_class (jget (actorMetadata (snd (crash_times n se r err s))) (ref_id (fst (crash_times n se r err s)))) = Some c
     \<and> (0 < n \<longrightarrow> ref_id (fst (crash_times n se r err s)) = env_uuid (se_env se) (uuids s + n - 1))"
  using assms(1)
proof (induction n arbitrary: r s)
  case 0
  then show ?case by (auto simp: root_ready_def)
next
  case (Suc n)
  let ?s = "handleCrash se r err s"
  note C = root_crash [OF Suc.prems assms(2), of err]
  note IH = Suc.IH [OF conjunct1 [OF C]]
  have "ref_id (fst (crash_times n se (newest ?s) err ?s)) = env_uuid (se_env se) (uuids s + n)"
    using IH C by (cases "n = 0") simp_all
  then show ?case using IH C by (simp add: Let_def)
qed

definition demo_sup :: sup_env where
  "demo_sup = \<lparr>se_env = demo_env CHR ''j'', se_place = (\<lambda>_. Inr ''n''), se_args = concat, se_id = (\<lambda>i. i)\<rparr>"

lemma demo_root_ready: "root_ready demo_sup demo_class demo_parent (demo_id ''n'' ''i'')"
  by (auto simp: root_ready_def demo_sup_def demo_env_def demo_id_def demo_parent_def spawn_def new_system_def Let_def
      no_options_def scheduleProcessMailbox_def register_name_def truthy_name_def add_actor_def jhas_def
      hasRemoteParent_def DEFAULT_SUPERVISION_def)

theorem root_restarts_unlimited_witness:
  "alive (snd (crash_times 9 demo_sup (demo_id ''n'' ''i'') ''boom'' demo_parent))
     (ref_id (fst (crash_times 9 demo_sup (demo_id ''n'' ''i'') ''boom'' demo_parent)))"
proof -
  have "inj (env_uuid (se_env demo_sup))" by (simp add: demo_sup_def demo_env_def inj_def)
  from root_restarts_unlimited [OF demo_root_ready this, of 9 "''boom''"] show ?thesis by blast
qed

theorem crash_cascade_ends_witness:
  "handleCrash demo_sup (demo_ref ''n'' ''a'') ''boom'' demo_linked
     = crash_step (handleCrash demo_sup) demo_sup (demo_ref ''n'' ''a'') ''boom'' demo_linked"
  using crash_cascade_ends [OF demo_linked_inv, of "Suc (length (links demo_linked))" demo_sup "demo_ref ''n'' ''a''" "''boom''"]
  by simp

end
