(* ===== verification/Tree_Operations.thy ===== *)
theory Tree_Operations
  imports Supervision
begin

text \<open>
  What every operation on the tree of actors keeps. Stopping, spawning, restarting, crashing and
  the failure of a node are all made of a few primitive changes of the state; a relation that
  holds across each of those holds across the operations. The locale proves this once, and the
  event loop and the invariants of a whole node interpret it.
\<close>

lemma child_frame [simp]:
  "a_class (remove_child r p) = a_class p" "a_self (remove_child r p) = a_self p"
  "a_class (add_child r p) = a_class p" "a_self (add_child r p) = a_self p"
  "a_class (replace_child r q p) = a_class p" "a_self (replace_child r q p) = a_self p"
  by (simp_all add: remove_child_def add_child_def replace_child_def)

text \<open>First the operations that only stop actors.\<close>

locale stop_relation =
  fixes R :: "sys \<Rightarrow> sys \<Rightarrow> bool"
  assumes refl: "R s s"
    and trans: "R s t \<Longrightarrow> R t u \<Longrightarrow> R s u"
    and same: "same_tree s t \<Longrightarrow> R s t"
    and detach: "R s (detach r s)"
    and bury: "R s (bury r s)"
    and stopRemote: "R s (stopRemoteChild env i s)"
begin

lemma then_same: "R s t \<Longrightarrow> same_tree t u \<Longrightarrow> R s u"
  by (rule trans [OF _ same])

lemma via_fold: "(\<And>x s. R s (f x s)) \<Longrightarrow> R s (fold f xs s)"
  by (induction xs arbitrary: s) (auto intro: refl trans)

lemma keeps_stop_self: "R s (stop_self r s)"
  using stop_self_tree [of r s] trans [OF detach trans [OF same bury]] by metis

lemma keeps_stopSingle: "R s (stopSingle b r s)"
proof (cases "alive s (ref_id r)")
  case True
  then show ?thesis using stopSingle_tree [OF True, of b] trans [OF detach trans [OF same bury]] by metis
qed (simp add: stopSingle_def refl)

lemma keeps_stop: "R s (stop env r s)"
proof -
  have "R s (stop_fuel n env r s)" for n r s
  proof (induction n arbitrary: r s)
    case (Suc n)
    have "R s (fold (\<lambda>c s. if ref_node c = sys_id s then stop_fuel n env c s
        else stopRemoteChild env (ref_id c) s) cs s)" for cs s
      by (rule via_fold) (simp add: Suc.IH stopRemote)
    then show ?case by (simp add: refl split: option.split) (blast intro: trans keeps_stop_self)
  qed (simp add: refl)
  then show ?thesis by (simp only: stop_def)
qed

end

text \<open>Then all of them.\<close>

locale tree_relation =
  fixes R :: "sys \<Rightarrow> sys \<Rightarrow> bool"
  assumes self: "R s s"
    and step: "R s t \<Longrightarrow> R t u \<Longrightarrow> R s u"
    and tree: "same_tree s t \<Longrightarrow> R s t"
    and on_actor: "(\<And>x. a_class (f x) = a_class x) \<Longrightarrow> (\<And>x. a_self (f x) = a_self x) \<Longrightarrow> R s (on_actor a f s)"
    and fields: "R s (s\<lparr>childRestarts := cr\<rparr>)" "R s (s\<lparr>rootRestarts := rr\<rparr>)" "R s (s\<lparr>remoteChildren := rc\<rparr>)"
      "R s (s\<lparr>remoteParents := rp\<rparr>)" "R s (s\<lparr>uuids := n\<rparr>)"
    and gone: "R s (bury r s)"
    and add: "ref_node r = sys_id s \<Longrightarrow> R s (add_actor now c opts r parent s)"
    and schedule: "R s (scheduleProcessMailbox i s)"
begin

sublocale stop_relation R
proof
  show "R s (detach r s)" for r s
    by (auto simp: detach_def intro: self on_actor split: option.split)
  show "R s (stopRemoteChild env i s)" for env i s
  proof -
    have e: "R s (emit (RequestTo n m) s)" for n m by (rule tree) simp
    have r: "R s ((emit (RequestTo n m) s)\<lparr>remoteChildren := x\<rparr>)" for n m x by (rule step [OF e fields(3)])
    have "R s (on_actor a (remove_child c) ((emit (RequestTo n m) s)\<lparr>remoteChildren := x\<rparr>))" for a c n m x
      by (rule step [OF r on_actor]) simp_all
    with r show ?thesis by (simp add: stopRemoteChild_def Let_def self split: option.split)
  qed
qed (fact self step tree gone)+

lemma emits: "\<forall>i. e \<noteq> CallTerminate i \<Longrightarrow> R s (emit e s)"
  by (rule same) simp

text \<open>Building a chain of changes from its end.\<close>

lemma chain:
  "R s t \<Longrightarrow> \<forall>i. e \<noteq> CallTerminate i \<Longrightarrow> R s (emit e t)"
  "R s t \<Longrightarrow> (\<And>x. a_class (f x) = a_class x) \<Longrightarrow> (\<And>x. a_self (f x) = a_self x) \<Longrightarrow> R s (on_actor a f t)"
  "R s t \<Longrightarrow> R s (t\<lparr>childRestarts := cr\<rparr>)"
  "R s t \<Longrightarrow> R s (t\<lparr>rootRestarts := rr\<rparr>)"
  "R s t \<Longrightarrow> R s (t\<lparr>remoteChildren := rc\<rparr>)"
  "R s t \<Longrightarrow> R s (t\<lparr>remoteParents := rp\<rparr>)"
  "R s t \<Longrightarrow> R s (t\<lparr>uuids := n\<rparr>)"
  "R s t \<Longrightarrow> R s (bury r t)"
  "R s t \<Longrightarrow> ref_node r = sys_id t \<Longrightarrow> R s (add_actor now c opts r parent t)"
  "R s t \<Longrightarrow> R s (scheduleProcessMailbox i t)"
  "R s t \<Longrightarrow> R s (register_name opts i t)"
  by (auto intro: trans [OF _ emits] trans [OF _ on_actor] trans [OF _ fields(1)] trans [OF _ fields(2)]
      trans [OF _ fields(3)] trans [OF _ fields(4)] trans [OF _ fields(5)] trans [OF _ bury] trans [OF _ add]
      trans [OF _ schedule] simp: register_name_def split: option.split)

section \<open>Spawning and restarting\<close>

lemma keeps_spawn: "spawn env place c opts s = Inr (r, s') \<Longrightarrow> R s s'"
  by (auto simp: spawn_def Let_def intro!: chain refl split: if_splits sum.splits)

lemma keeps_spawnChild: "spawnChild env p c opts s = Inr (r, s') \<Longrightarrow> R s s'"
  by (auto simp: spawnChild_def Let_def intro!: chain refl split: if_splits)

lemma keeps_spawnChildRemote: "spawnChildRemote env p c node opts s = Inr (r, s') \<Longrightarrow> R s s'"
  by (auto simp: spawnChildRemote_def Let_def intro!: chain refl split: if_splits)

lemma keeps_restart: "R s (snd (restart env place r s))"
  by (auto simp: restart_def Let_def intro: refl keeps_stopSingle trans [OF keeps_stopSingle keeps_spawn] trans [OF keeps_stopSingle keeps_spawnChild]
      split: option.split sum.split)

lemma keeps_restartRemoteChild: "R s (snd (restartRemoteChild env e s))"
  by (auto simp: restartRemoteChild_def Let_def intro!: chain refl)

lemma keeps_removeRemoteChild: "R s (removeRemoteChild i p s)"
  by (auto simp: removeRemoteChild_def intro!: chain refl split: option.split)

lemma keeps_respawn: "R s (respawn env p ms s)"
proof (induction ms arbitrary: s)
  case (Cons m ms)
  then show ?case by (cases m) (auto intro: refl trans [OF keeps_spawnChild] split: sum.split)
qed (simp add: refl)

lemma keeps_respawn_saved: "R s (respawn_saved env p cs s)"
proof (induction cs arbitrary: s)
  case (Cons c cs)
  then show ?case
    by (cases c) (auto intro: refl trans [OF keeps_spawnChild] trans [OF keeps_spawnChildRemote] split: sum.split)
qed (simp add: refl)

lemma keeps_handleRemoteChildSpawn: "R s (snd (handleRemoteChildSpawn now classes i cname opts pn pa s))"
  by (auto simp: handleRemoteChildSpawn_def Let_def intro!: chain refl split: option.split)

lemma keeps_handleRemoteChildRestart: "R s (snd (handleRemoteChildRestart env classes old new pn pa s))"
proof -
  have "R s (forget_parent i t)" if "R s t" for i t
    unfolding forget_parent_def by (rule chain(6) [OF that])
  then show ?thesis
    by (auto simp: handleRemoteChildRestart_def Let_def intro: refl keeps_stop trans [OF _ keeps_handleRemoteChildSpawn] split: option.split)
qed

lemma keeps_handleRemoteChildStop: "R s (snd (handleRemoteChildStop env i s))"
  unfolding handleRemoteChildStop_def forget_parent_def
  by (auto intro: fields trans [OF fields(4) keeps_stop])

section \<open>Crashes\<close>

lemma keeps_notify_link:
  assumes "\<And>r x t. R t (crash r x t)"
  shows "R s (notify_link crash r reason i s)"
proof -
  have u: "R s (unlink l s)" for l by (rule same [OF same_tree_unlink])
  have "R s (sendExitMessage k r b x (unlink l s))" for k b l x
    by (rule then_same [OF u [of l]]) (simp add: sendExitMessage_def)
  moreover have "R s (notifyRemoteLinkExit e a reason s)" for e a
    by (rule same) (simp add: notifyRemoteLinkExit_def Let_def ctx_unlink_def)
  ultimately show ?thesis
    using u trans [OF u assms] by (simp add: notify_link_def Let_def refl split: option.split)
qed

lemma keeps_notifyLinkedActors:
  assumes "\<And>r x t. R t (crash r x t)"
  shows "R s (notifyLinkedActors crash r reason s)"
proof -
  have "same_tree t (fold (notifyRemoteLinker a reason) ls t)" for a ls t
    by (rule same_tree_fold) (simp add: notifyRemoteLinker_def)
  then have n: "R t (notifyRemoteLinkers a reason t)" for a t
    by (intro same) (simp add: notifyRemoteLinkers_def Let_def)
  show ?thesis
    unfolding notifyLinkedActors_def by (rule trans [OF via_fold n]) (rule keeps_notify_link [OF assms])
qed

lemma keeps_kill: "(\<And>r x t. R t (crash r x t)) \<Longrightarrow> R s (kill crash env r reason s)"
  unfolding kill_def
  by (rule trans [OF trans [OF same [OF same_tree_notifyWatchers] keeps_notifyLinkedActors] keeps_stop])

lemma keeps_canRestart: "R s (snd (canRestart now opts key s))"
  using canRestart_state [of now opts key s] fields(1) by metis

lemma keeps_crash_step:
  assumes "\<And>r x t. R t (crash r x t)"
  shows "R s (crash_step crash se r err s)"
proof -
  have k: "R s (kill crash env r x t)" if "R s t" for env r x t by (rule trans [OF that keeps_kill]) (rule assms)
  have "R s (respawn env p ms (stop_all env rs t))" if "R s t" for env p ms rs t
    unfolding stop_all_def by (rule trans [OF that trans [OF via_fold keeps_respawn]]) (rule keeps_stop)
  moreover have "R s (snd (restart env place r t))" if "R s t" for env place r t by (rule trans [OF that keeps_restart])
  ultimately have "R s (handleChildCrash crash se r s)"
    using k [OF keeps_canRestart] keeps_canRestart
    by (simp add: handleChildCrash_def Let_def split_beta handleOneForOne_def handleOneForAll_def
        handleRestForOne_def refl split: option.split child_strategy.split)
  moreover have "R s (snd (restart env place r (s\<lparr>rootRestarts := m\<rparr>)))" for env place m
    by (rule trans [OF fields(2) keeps_restart])
  then have "R s (handleRootCrash crash se r err s)"
    using k [OF fields(2)] chain(4) [OF k [OF refl]]
    by (simp add: handleRootCrash_def Let_def split: supervision_strategy.split)
  moreover have "R s (notifyRemoteParentOfCrash i x m s)" for i x m
    by (rule same) (simp add: notifyRemoteParentOfCrash_def split: option.split)
  ultimately show ?thesis by (simp add: crash_step_def split: option.split)
qed

lemma keeps_handleCrash: "R s (handleCrash se r err s)"
proof -
  have "R s (crash_fuel n se r err s)" for n r err s
    by (induction n arbitrary: r err s) (auto intro: refl keeps_crash_step)
  then show ?thesis by (simp only: handleCrash_def)
qed

section \<open>Messages of other nodes and their failure\<close>

lemma keeps_handleRemoteLinkExit: "R s (handleRemoteLinkExit (handleCrash se) l a w s)"
proof -
  have "R s (ctx_unlink l i (s\<lparr>remoteLinks := x, linkedWith := y\<rparr>))" for i x y
    by (rule same) (simp add: ctx_unlink_def)
  moreover have "R s (s\<lparr>remoteLinks := x, linkedWith := y\<rparr>)" for x y by (rule same) simp
  ultimately show ?thesis
    by (auto simp: handleRemoteLinkExit_def Let_def intro: refl chain(1) trans [OF _ keeps_handleCrash] split: option.split)
qed

lemma keeps_supervise_remote_crash: "R s (supervise_remote_crash se e s)"
proof -
  have "R t (fold (stop_child env) rs t)" for env rs t
    by (rule via_fold) (simp add: stop_child_def keeps_stop stopRemote)
  then have "R t (respawn_saved env p cs (fold (stop_child env) rs t))" for env p cs rs t by (blast intro: trans keeps_respawn_saved)
  then have "R t (handleRemoteOneForAll se p t)" "R t (handleRemoteRestForOne se e p t)"
    "R t (handleRemoteOneForOne se e t)" for p t
    by (simp_all add: handleRemoteOneForAll_def handleRemoteRestForOne_def handleRemoteOneForOne_def Let_def keeps_restartRemoteChild)
  note after = this [THEN trans [OF keeps_canRestart]] keeps_removeRemoteChild [THEN trans [OF keeps_canRestart]]
  show ?thesis
    by (simp add: supervise_remote_crash_def Let_def split_beta refl after split: option.split child_strategy.split)
qed

lemma keeps_handleRemoteChildCrash: "R s (handleRemoteChildCrash se i s)"
  by (simp add: handleRemoteChildCrash_def refl keeps_supervise_remote_crash split: option.split)

lemma keeps_stop_orphan: "R s (stop_orphan env i s)"
  by (simp add: stop_orphan_def Let_def forget_parent_def fields trans [OF fields(4) keeps_stop])

lemma keeps_handleNodeFailure: "R s (handleNodeFailure se dead s)"
proof -
  have f: "same_tree t (fold fail_watch es t)" for es t
    by (rule same_tree_fold) (simp add: fail_watch_def Let_def)
  have watches: "R t (handleNodeFailureForWatches dead t)" for t
    by (rule same) (simp add: handleNodeFailureForWatches_def Let_def f)
  have links: "R t (handleNodeFailureForLinks (handleCrash se) dead t)" for t
  proof -
    let ?t = "fold (\<lambda>e. handleRemoteLinkExit (handleCrash se) (lr_id (rle_ref e)) (rle_actor e) WireKilled)
      (filter (\<lambda>e. rle_node e = dead) (jvals (remoteLinks t))) t"
    have "R t ?t" by (rule via_fold) (rule keeps_handleRemoteLinkExit)
    then show ?thesis unfolding handleNodeFailureForLinks_def Let_def by (rule then_same) simp
  qed
  have children: "R t (handleNodeFailureForRemoteChildren se dead t)" for t
    unfolding handleNodeFailureForRemoteChildren_def by (rule via_fold) (rule keeps_handleRemoteChildCrash)
  have orphans: "R t (handleNodeFailureForOrphanedChildren env dead t)" for env t
    unfolding handleNodeFailureForOrphanedChildren_def by (rule via_fold) (rule keeps_stop_orphan)
  show ?thesis
    unfolding handleNodeFailure_def by (rule trans [OF trans [OF trans [OF watches links] children] orphans])
qed

end

end
