(* ===== verification/Live_Links.thy ===== *)
theory Live_Links
  imports Tree_Operations
begin

text \<open>
  Links and crashes together. Every operation that ends an actor takes its links away first, so
  in every state reached by operations that run to completion a link joins live actors, whatever
  crashes, restarts, exit signals and node failures do (what happens while a stop waits is in
  \<open>Stop_Stages\<close>): the supervisor of \<open>Supervision\<close> satisfies the interface \<open>crash_handler\<close> of
  \<open>Linking\<close>. Ids the \<open>uuid\<close> package will return are not in use.
\<close>

section \<open>Operations that do not touch links\<close>

definition linkless :: "sys \<Rightarrow> sys \<Rightarrow> bool" where
  "linkless s t \<longleftrightarrow> links t = links s \<and> remoteLinks t = remoteLinks s \<and> linkedWith t = linkedWith s \<and>
     uuids t = uuids s \<and> (\<forall>b. map_option a_links (getActor t b) = map_option a_links (getActor s b))"

lemma linkless_refl [simp]: "linkless s s"
  by (simp add: linkless_def)

lemma linkless_trans: "linkless s t \<Longrightarrow> linkless t u \<Longrightarrow> linkless s u"
  by (simp add: linkless_def)

lemma linkless_emit [simp]: "linkless s (emit e t) = linkless s t"
  by (simp add: linkless_def)

lemma linkless_on_actor [simp]: "(\<And>x. a_links (f x) = a_links x) \<Longrightarrow> linkless s (on_actor a f t) = linkless s t"
  by (auto simp: linkless_def option.map_comp comp_def)

lemma linkless_fields [simp]:
  "linkless s (t\<lparr>remoteChildren := rc\<rparr>) = linkless s t" "linkless s (t\<lparr>remoteParents := rp\<rparr>) = linkless s t"
  "linkless s (t\<lparr>childRestarts := cr\<rparr>) = linkless s t" "linkless s (t\<lparr>rootRestarts := rr\<rparr>) = linkless s t"
  "linkless s (t\<lparr>watches := w\<rparr>) = linkless s t" "linkless s (t\<lparr>watchedBy := wb\<rparr>) = linkless s t"
  "linkless s (t\<lparr>remoteWatches := rw\<rparr>) = linkless s t" "linkless s (t\<lparr>remoteWatchers := rws\<rparr>) = linkless s t"
  "linkless s (t\<lparr>remoteLinkers := rls\<rparr>) = linkless s t" "linkless s (t\<lparr>mailboxScheduled := ms\<rparr>) = linkless s t"
  by (simp_all add: linkless_def)

lemma linkless_fold: "(\<And>x s. linkless s (f x s)) \<Longrightarrow> linkless s (fold f xs s)"
  by (induction xs arbitrary: s) (auto intro: linkless_trans)

lemma linkless_unwatch: "linkless s (unwatch w s)"
  by (simp add: unwatch_def unwatchRemote_def Let_def split: option.split)

lemma linkless_notifyWatchers: "linkless s (notifyWatchers r x s)"
proof -
  have n: "linkless t (notify_watch r x i t)" for i t
    by (simp add: notify_watch_def sendDownMessage_def linkless_trans [OF _ linkless_unwatch] linkless_unwatch split: option.split)
  have m: "linkless t (notifyRemoteWatcher a x w t)" for a w t by (simp add: notifyRemoteWatcher_def)
  show ?thesis
    unfolding notifyWatchers_def Let_def
    by (auto intro: linkless_fold n linkless_trans [OF linkless_fold [OF n] linkless_fold [OF m]])
qed

lemma linkless_ends: "linkless s (detach r s)" "linkless s (unwatch_all i s)" "linkless s (stopRemoteChild env i s)"
  "linkless s (clearIdleTimeout i (cancelAllActorTimers r s))" "linkless s (unregister_name r s)"
  by (auto simp: remove_child_def detach_def unwatch_all_def stopRemoteChild_def Let_def clearIdleTimeout_def cancelAllActorTimers_def
      unregister_name_def intro: linkless_fold linkless_unwatch split: option.split)

section \<open>What is known of the links\<close>

text \<open>
  The tables agree, every end of a link is alive, every reference in a context is that of the
  table, and the ids to come are not in use.
\<close>

definition links_ok :: "env \<Rightarrow> sys \<Rightarrow> bool" where
  "links_ok env s \<longleftrightarrow> inj (env_uuid env) \<and> link_inv s \<and> (\<forall>i. \<forall>a\<in>link_ends s i. alive s a) \<and>
     (\<forall>b i l. (i, l) \<in> ctx_links s b \<longrightarrow> lr_id l = i \<and> known_link l s) \<and>
     (\<forall>n\<ge>uuids s. \<not> alive s (env_uuid env n))"

lemma links_ok_inv: "links_ok env s \<Longrightarrow> link_inv s"
  by (simp add: links_ok_def)

lemma known_fewer: "known_link l s \<Longrightarrow> fewer_links s t \<Longrightarrow> known_link l t"
  by (simp add: known_link_def fewer_links_def)

lemma links_ok_shrinks:
  assumes "links_ok env s" and "link_inv t" and "shrinks s t"
  shows "links_ok env t"
proof -
  have few: "fewer_links s t" using assms(3) by (simp add: shrinks_def)
  have "a \<in> link_ends s i" if "a \<in> link_ends t i" for a i
    using fewer_ends [OF few links_ok_inv [OF assms(1)]] that by blast
  moreover have "(i, l) \<in> ctx_links s b" if "(i, l) \<in> ctx_links t b" for b i l
    using assms(3) that by (auto simp: shrinks_def)
  moreover have "alive t = alive s" "uuids t = uuids s" using assms(3) by (auto simp: shrinks_def)
  ultimately show ?thesis
    using assms(1,2) known_fewer [OF _ few] unfolding links_ok_def by (metis (no_types, lifting))
qed

lemma linkless_facts:
  assumes "linkless s t"
  shows "link_inv t = link_inv s" and "link_ends t = link_ends s" and "alive t b = alive s b"
    and "ctx_links t b = ctx_links s b" and "known_link l t = known_link l s"
proof -
  have m: "map_option a_links (getActor t b) = map_option a_links (getActor s b)" for b
    using assms by (simp add: linkless_def)
  show e: "link_ends t = link_ends s" using assms by (simp add: linkless_def link_ends_def fun_eq_iff)
  show "alive t b = alive s b" using m [of b] by (cases "getActor t b"; cases "getActor s b") (simp_all add: jhas_def)
  show "ctx_links t b = ctx_links s b"
    using m [of b] by (cases "getActor t b"; cases "getActor s b") (simp_all add: ctx_links_def)
  have "(\<forall>act. getActor t b = Some act \<longrightarrow> P (a_links act)) = (\<forall>act. getActor s b = Some act \<longrightarrow> P (a_links act))" for b P
    using m [of b] by (cases "getActor t b"; cases "getActor s b") simp_all
  from this [of _ "\<lambda>m. \<exists>l. jget m i = Some l \<and> lr_id l = i" for i]
  have "link_held t = link_held s" unfolding link_held_def e by blast
  then show "link_inv t = link_inv s" using assms e by (simp add: link_inv_def link_refs_def link_index_def linkless_def)
  show "known_link l t = known_link l s" using assms by (simp add: linkless_def known_link_def)
qed

lemma links_ok_linkless: "links_ok env s \<Longrightarrow> linkless s t \<Longrightarrow> links_ok env t"
  using linkless_facts [of s t] by (simp add: links_ok_def) (simp add: linkless_def)

section \<open>The end of an actor\<close>

lemma links_ok_bury:
  assumes "links_ok env s" and "\<And>i. ref_id r \<notin> link_ends s i"
  shows "links_ok env (bury r s)"
proof -
  have b: "links (bury r s) = links s" "remoteLinks (bury r s) = remoteLinks s" "linkedWith (bury r s) = linkedWith s"
    "uuids (bury r s) = uuids s" "actors (bury r s) = jdel (actors s) (ref_id r)"
    by (simp_all add: bury_def delete_actor_def unregister_name_def split: option.split)
  then have e: "link_ends (bury r s) = link_ends s" by (simp add: link_ends_def fun_eq_iff)
  have "link_inv (bury r s)"
    using links_ok_inv [OF assms(1)] b e by (auto simp: link_inv_def link_refs_def link_index_def link_held_def split: if_splits)
  then show ?thesis using assms b e
    by (auto simp: links_ok_def ctx_links_def known_link_def split: if_splits option.splits)
qed

lemma link_ends_unlink: "link_inv s \<Longrightarrow> link_ends (unlink l s) (lr_id l) = {}"
proof -
  assume inv: "link_inv s"
  show ?thesis
  proof (cases "jget (remoteLinks s) (lr_id l)")
    case (Some e)
    then have "jget (links s) (lr_id l) = None"
      using inv by (cases "jget (links s) (lr_id l)") (auto simp: link_inv_def link_refs_def)
    with Some show ?thesis by (simp add: unlink_def unlinkRemote_def Let_def link_ends_def)
  qed (simp add: unlink_def link_ends_def split: option.split)
qed

text \<open>Unlinking everything in a context leaves no link to the actor.\<close>

lemma links_ok_unlinks:
  assumes "links_ok env s" and "\<forall>l\<in>set ls. known_link l s"
  shows "links_ok env (fold unlink ls s) \<and> shrinks s (fold unlink ls s) \<and>
    (\<forall>l\<in>set ls. link_ends (fold unlink ls s) (lr_id l) = {})"
  using assms
proof (induction ls arbitrary: s)
  case (Cons l ls)
  have "known_link l s" using Cons.prems(2) by simp
  then have inv: "link_inv (unlink l s)" by (rule link_inv_unlink [OF links_ok_inv [OF Cons.prems(1)]])
  have ok: "links_ok env (unlink l s)" by (rule links_ok_shrinks [OF Cons.prems(1) inv shrinks_unlink])
  have none: "link_ends (unlink l s) (lr_id l) = {}" by (rule link_ends_unlink [OF links_ok_inv [OF Cons.prems(1)]])
  have "\<forall>k\<in>set ls. known_link k (unlink l s)" using Cons.prems(2) known_fewer [OF _ fewer_unlink] by simp
  from Cons.IH [OF ok this] have IH: "links_ok env (fold unlink ls (unlink l s))" "shrinks (unlink l s) (fold unlink ls (unlink l s))"
    "\<forall>k\<in>set ls. link_ends (fold unlink ls (unlink l s)) (lr_id k) = {}" by blast+
  have few: "fewer_links (unlink l s) (fold unlink ls (unlink l s))" using IH(2) by (simp add: shrinks_def)
  show ?case using IH none fewer_ends [OF few inv, of "lr_id l"] shrinks_trans [OF shrinks_unlink IH(2)] by simp
qed simp

lemma links_ok_unlink_all:
  assumes "links_ok env s" and "alive s i"
  shows "links_ok env (unlink_all i s) \<and> (\<forall>j. i \<notin> link_ends (unlink_all i s) j)"
proof -
  obtain act where act: "getActor s i = Some act" using assms(2) by (cases "getActor s i") (simp_all add: jhas_def)
  let ?ls = "jvals (a_links act)" and ?t = "unlink_all i s"
  have t: "?t = fold unlink ?ls s" by (simp add: unlink_all_def act)
  have "known_link l s" if "(j, l) \<in> ctx_links s i" for j l using assms(1) that by (simp add: links_ok_def)
  then have "\<forall>l\<in>set ?ls. known_link l s" by (auto simp: ctx_links_def act)
  from links_ok_unlinks [OF assms(1) this] have U: "links_ok env ?t" "shrinks s ?t" "\<forall>l\<in>set ?ls. link_ends ?t (lr_id l) = {}"
    unfolding t by blast+
  have "i \<notin> link_ends ?t j" for j
  proof
    assume "i \<in> link_ends ?t j"
    moreover have few: "fewer_links s ?t" using U(2) by (simp add: shrinks_def)
    ultimately have "i \<in> link_ends s j" using fewer_ends [OF few links_ok_inv [OF assms(1)]] by blast
    then obtain l where "jget (a_links act) j = Some l" "lr_id l = j"
      using links_ok_inv [OF assms(1)] act unfolding link_inv_def link_held_def by blast
    then show False using U(3) \<open>i \<in> link_ends ?t j\<close> jget_jvals by fastforce
  qed
  with U(1) show ?thesis by blast
qed

lemma links_ok_stopSingle: "links_ok env s \<Longrightarrow> links_ok env (stopSingle b r s)"
proof -
  assume ok: "links_ok env s"
  show ?thesis
  proof (cases "alive s (ref_id r)")
    case True
    let ?u = "unwatch_all (ref_id r) (detach r s)"
    have l: "linkless s ?u" by (rule linkless_trans) (rule linkless_ends)+
    then have "alive ?u (ref_id r)" using linkless_facts(3) [OF l] True by simp
    note U = links_ok_unlink_all [OF links_ok_linkless [OF ok l] this]
    have bury: "links_ok env (bury r t)" if "linkless (unlink_all (ref_id r) ?u) t" for t
      by (rule links_ok_bury [OF links_ok_linkless [OF _ that]]) (use U linkless_facts(2) [OF that] in auto)
    show ?thesis
      using bury [OF linkless_ends(4)] bury [OF linkless_trans [OF linkless_ends(4) linkless_notifyWatchers]] True
      by (simp add: stopSingle_def Let_def)
  qed (simp add: stopSingle_def ok)
qed

text \<open>\<open>stop\<close> notifies the linked actors with a normal reason, which crashes nobody.\<close>

interpretation normal: crash_handler no_crash "links_ok env" for env
  by unfold_locales (auto simp: no_crash_def intro: links_ok_inv links_ok_shrinks)

lemma links_ok_stop_self: "links_ok env s \<Longrightarrow> links_ok env (stop_self r s)"
proof -
  assume ok: "links_ok env s"
  let ?u = "clearIdleTimeout (ref_id r) (cancelAllActorTimers r (unwatch_all (ref_id r) (detach r s)))"
  let ?t = "notifyWatchers r NormalExit ?u"
  have "linkless s ?u" by (rule linkless_trans [OF linkless_trans [OF linkless_ends(1,2)] linkless_ends(4)])
  then have "linkless s ?t" by (rule linkless_trans [OF _ linkless_notifyWatchers])
  then have "links_ok env ?t" by (rule links_ok_linkless [OF ok])
  then show ?thesis
    unfolding stop_self_def Let_def by (intro links_ok_bury normal.notifyLinked_keeps)
qed

lemma links_ok_fold: "links_ok env s \<Longrightarrow> (\<And>x t. links_ok env t \<Longrightarrow> links_ok env (f x t)) \<Longrightarrow> links_ok env (fold f xs s)"
  by (rule fold_inv)

lemma links_ok_stopRemoteChild: "links_ok env s \<Longrightarrow> links_ok env (stopRemoteChild e i s)"
  by (erule links_ok_linkless) (rule linkless_ends)

lemma links_ok_stop: "links_ok env s \<Longrightarrow> links_ok env (stop e r s)"
proof -
  have "links_ok env (stop_fuel n e r s)" if "links_ok env s" for n r s
    using that
  proof (induction n arbitrary: r s)
    case (Suc n)
    have "links_ok env (fold (\<lambda>c s. if ref_node c = sys_id s then stop_fuel n e c s
        else stopRemoteChild e (ref_id c) s) cs s)" for cs
      by (rule links_ok_fold [OF Suc.prems]) (simp add: Suc.IH links_ok_stopRemoteChild)
    then show ?case using Suc.prems by (simp add: links_ok_stop_self split: option.split)
  qed simp
  then show "links_ok env s \<Longrightarrow> ?thesis" by (simp only: stop_def)
qed

section \<open>New actors\<close>

text \<open>A new actor has no links, and no link can name it before it is there.\<close>

lemma links_ok_add:
  assumes "links_ok env s" and "\<not> alive s (ref_id r)" and "uuids s \<le> n"
    and "\<And>k. n \<le> k \<Longrightarrow> env_uuid env k \<noteq> ref_id r"
  shows "links_ok env (add_actor now c opts r p (s\<lparr>uuids := n\<rparr>))"
proof -
  let ?t = "add_actor now c opts r p (s\<lparr>uuids := n\<rparr>)"
  have t: "links ?t = links s" "remoteLinks ?t = remoteLinks s" "linkedWith ?t = linkedWith s" "uuids ?t = n"
    "getActor ?t b = (if b = ref_id r then Some (new_actor c r p now) else getActor s b)" for b
    by (simp_all add: add_actor_def)
  then have e: "link_ends ?t = link_ends s" by (simp add: link_ends_def fun_eq_iff)
  have none: "ref_id r \<notin> link_ends s i" for i using assms(1,2) by (auto simp: links_ok_def)
  have "alive ?t b = (b = ref_id r \<or> alive s b)" for b by (simp add: add_actor_def)
  moreover have "ctx_links ?t b = (if b = ref_id r then {} else ctx_links s b)" for b
    by (simp add: ctx_links_def t new_actor_def)
  moreover have "link_inv ?t"
    using links_ok_inv [OF assms(1)] none t(1-3)
    by (auto simp: link_inv_def link_refs_def link_index_def link_held_def e t(5) split: if_splits)
  ultimately show ?thesis
    using assms e t(1,4) by (simp add: links_ok_def known_link_def)
qed

lemma links_ok_uuids: "links_ok env s \<Longrightarrow> links_ok env (s\<lparr>uuids := Suc (uuids s)\<rparr>)"
  using linkless_facts(2) [of s s]
  by (auto simp: links_ok_def link_inv_def link_refs_def link_index_def link_held_def link_ends_def ctx_links_def known_link_def)

lemma links_ok_simple:
  "links_ok env s \<Longrightarrow> links_ok env (emit e s)"
  "links_ok env s \<Longrightarrow> links_ok env (register_name opts i s)"
  "links_ok env s \<Longrightarrow> links_ok env (scheduleProcessMailbox i s)"
  "links_ok env s \<Longrightarrow> (\<And>x. a_links (f x) = a_links x) \<Longrightarrow> links_ok env (on_actor a f s)"
  "links_ok env s \<Longrightarrow> links_ok env (s\<lparr>remoteChildren := rc\<rparr>)"
  "links_ok env s \<Longrightarrow> links_ok env (s\<lparr>childRestarts := cr\<rparr>)"
  "links_ok env s \<Longrightarrow> links_ok env (s\<lparr>rootRestarts := rr\<rparr>)"
  "links_ok env s \<Longrightarrow> links_ok env (s\<lparr>remoteParents := rp\<rparr>)"
  by (erule links_ok_linkless; simp add: register_name_def scheduleProcessMailbox_def split: option.split)+

text \<open>The next id of the \<open>uuid\<close> package is new.\<close>

lemma links_ok_new:
  assumes "links_ok env s"
  shows "links_ok env (add_actor now c opts \<lparr>ref_node = m, ref_id = env_uuid env (uuids s), ref_name = n, ref_original = b\<rparr> p
    (s\<lparr>uuids := Suc (uuids s)\<rparr>))"
proof (rule links_ok_add [OF assms])
  show "env_uuid env k \<noteq> ref_id \<lparr>ref_node = m, ref_id = env_uuid env (uuids s), ref_name = n, ref_original = b\<rparr>" if "Suc (uuids s) \<le> k" for k
    using assms that by (auto simp: links_ok_def inj_eq)
qed (use assms in \<open>simp_all add: links_ok_def\<close>)

lemma links_ok_spawn: "links_ok env s \<Longrightarrow> spawn env place c opts s = Inr (r, s') \<Longrightarrow> links_ok env s'"
  by (auto simp: spawn_def Let_def intro!: links_ok_simple links_ok_new links_ok_uuids split: if_splits sum.splits)

lemma links_ok_spawnChild: "links_ok env s \<Longrightarrow> spawnChild env p c opts s = Inr (r, s') \<Longrightarrow> links_ok env s'"
  by (auto simp: spawnChild_def Let_def intro!: links_ok_simple links_ok_new split: if_splits)

lemma links_ok_spawnChildRemote: "links_ok env s \<Longrightarrow> spawnChildRemote env p c node opts s = Inr (r, s') \<Longrightarrow> links_ok env s'"
  by (auto simp: spawnChildRemote_def add_child_def Let_def intro!: links_ok_simple links_ok_uuids split: if_splits)

lemma links_ok_restart: "links_ok env s \<Longrightarrow> links_ok env (snd (restart env place r s))"
proof -
  assume ok: "links_ok env s"
  note ok1 = links_ok_stopSingle [OF ok, of False r]
  show ?thesis
    using links_ok_spawn [OF ok1] links_ok_spawnChild [OF ok1] ok ok1
    by (auto simp: restart_def Let_def split: option.split sum.split)
qed

lemma links_ok_respawn: "links_ok env s \<Longrightarrow> links_ok env (respawn env p ms s)"
proof (induction ms arbitrary: s)
  case (Cons m ms)
  then show ?case by (cases m) (auto intro: links_ok_spawnChild split: sum.split)
qed simp

lemma links_ok_respawn_saved: "links_ok env s \<Longrightarrow> links_ok env (respawn_saved env p cs s)"
proof (induction cs arbitrary: s)
  case (Cons c cs)
  then show ?case by (cases c) (auto intro: links_ok_spawnChild links_ok_spawnChildRemote split: sum.split)
qed simp

section \<open>Crashes\<close>

lemma links_ok_canRestart: "links_ok env s \<Longrightarrow> links_ok env (snd (canRestart now opts key s))"
  using canRestart_state [of now opts key s] links_ok_simple(6) by metis

lemma links_ok_notifyWatchers: "links_ok env s \<Longrightarrow> links_ok env (notifyWatchers r x s)"
  by (erule links_ok_linkless) (rule linkless_notifyWatchers)

lemma links_ok_crash_step:
  assumes "crash_handler crash (links_ok (se_env se))" and "links_ok (se_env se) s"
  shows "links_ok (se_env se) (crash_step crash se r err s)"
proof -
  have kill: "links_ok (se_env se) (kill crash e q reason t)" if "links_ok (se_env se) t" for e q reason t
    unfolding kill_def
    by (rule links_ok_stop, rule crash_handler.notifyLinked_keeps(1) [OF assms(1)], rule links_ok_notifyWatchers [OF that])
  have "links_ok (se_env se) (respawn (se_env se) p ms (stop_all e rs t))" if "links_ok (se_env se) t" for e p ms rs t
    unfolding stop_all_def by (intro links_ok_respawn links_ok_fold links_ok_stop that)
  then have "links_ok (se_env se) (handleChildCrash crash se r s)"
    using links_ok_canRestart [OF assms(2)] assms(2)
    by (simp add: handleChildCrash_def Let_def split_beta handleOneForOne_def handleOneForAll_def handleRestForOne_def
        kill links_ok_restart split: option.split child_strategy.split)
  moreover have "links_ok (se_env se) (handleRootCrash crash se r err s)"
    using kill links_ok_restart links_ok_simple(7) assms(2)
    by (simp add: handleRootCrash_def Let_def split: supervision_strategy.split)
  moreover have "links_ok (se_env se) (notifyRemoteParentOfCrash i x m s)" for i x m
    using assms(2) by (simp add: notifyRemoteParentOfCrash_def links_ok_simple(1) split: option.split)
  ultimately show ?thesis by (simp add: crash_step_def split: option.split)
qed

lemma crash_fuel_handler: "crash_handler (crash_fuel n se) (links_ok (se_env se))"
proof (induction n)
  case 0
  show ?case by unfold_locales (auto intro: links_ok_inv links_ok_shrinks)
next
  case (Suc n)
  show ?case
    by unfold_locales (auto intro: links_ok_inv links_ok_shrinks links_ok_crash_step [OF Suc] fewer_crash_step fewer_crash_fuel)
qed

text \<open>The supervisor satisfies the interface of linking.\<close>

interpretation supervised: crash_handler "handleCrash se" "links_ok (se_env se)" for se
proof
  show "links_ok (se_env se) s \<Longrightarrow> links_ok (se_env se) (handleCrash se r x s)" for s r x
    unfolding handleCrash_def by (rule crash_handler.crash_ok [OF crash_fuel_handler])
  show "fewer_links s (handleCrash se r x s)" for s r x
    unfolding handleCrash_def by (rule fewer_crash_fuel)
qed (auto intro: links_ok_inv links_ok_shrinks)

lemma links_ok_remote_crash: "links_ok (se_env se) s \<Longrightarrow> links_ok (se_env se) (handleRemoteChildCrash se i s)"
proof -
  assume ok: "links_ok (se_env se) s"
  have "links_ok (se_env se) (respawn_saved (se_env se) p cs (fold (stop_child e) rs t))" if "links_ok (se_env se) t" for e p cs rs t
    by (intro links_ok_respawn_saved links_ok_fold that)
      (simp add: stop_child_def links_ok_stop links_ok_stopRemoteChild)
  moreover have "links_ok (se_env se) (snd (restartRemoteChild (se_env se) e t))" if "links_ok (se_env se) t" for e t
    using that by (auto simp: restartRemoteChild_def replace_child_def Let_def intro!: links_ok_simple links_ok_uuids)
  moreover have "links_ok (se_env se) (removeRemoteChild j p t)" if "links_ok (se_env se) t" for j p t
    using that by (auto simp: removeRemoteChild_def intro!: links_ok_simple split: option.split)
  ultimately show ?thesis
    using ok links_ok_canRestart [OF ok]
    by (simp add: handleRemoteChildCrash_def supervise_remote_crash_def Let_def split_beta handleRemoteOneForOne_def
        handleRemoteOneForAll_def handleRemoteRestForOne_def split: option.split child_strategy.split)
qed

lemma links_ok_nodeFailure: "links_ok (se_env se) s \<Longrightarrow> links_ok (se_env se) (handleNodeFailure se n s)"
proof -
  assume ok: "links_ok (se_env se) s"
  have w: "linkless t (handleNodeFailureForWatches n t)" for t
    unfolding handleNodeFailureForWatches_def Let_def linkless_fields by (rule linkless_fold) (simp add: fail_watch_def Let_def)
  have orphan: "links_ok env (stop_orphan e i t)" if "links_ok env t" for env e i t
    using that by (auto simp: stop_orphan_def forget_parent_def Let_def intro: links_ok_stop links_ok_simple)
  have "links_ok (se_env se) (handleNodeFailureForRemoteChildren se n
      (handleNodeFailureForLinks (handleCrash se) n (handleNodeFailureForWatches n s)))"
    unfolding handleNodeFailureForRemoteChildren_def
    by (intro links_ok_fold links_ok_remote_crash supervised.nodeFailureForLinks_keeps links_ok_linkless [OF ok w])
  then show ?thesis
    unfolding handleNodeFailure_def handleNodeFailureForOrphanedChildren_def
    by (rule links_ok_fold) (rule orphan)
qed

section \<open>New links\<close>

text \<open>An id no link uses, as the \<open>uuid\<close> package returns one.\<close>

definition new_link_id :: "string \<Rightarrow> sys \<Rightarrow> bool" where
  "new_link_id i s \<longleftrightarrow> fresh_link i s \<and> (\<forall>b l. (i, l) \<notin> ctx_links s b)"

lemma ctx_links_link: "ctx_links (ctx_link l a s) b \<subseteq> insert (lr_id l, l) (ctx_links s b)"
  by (auto simp: ctx_links_def ctx_link_def split: option.split dest!: subsetD [OF set_jput_subset])

lemma links_ok_link:
  assumes "links_ok env s" and "new_link_id i s" and "link i r1 r2 s = Inr (l, s')"
  shows "links_ok env s'"
proof -
  have inv: "link_inv s'"
    using link_inv_link [OF links_ok_inv [OF assms(1)] _ assms(3)] assms(2) by (simp add: new_link_id_def)
  have l: "lr_id l = i" "lr_actor1Id l = ref_id r1" "lr_actor2Id l = ref_id r2" "alive s (ref_id r1)"
    "alive s' b = alive s b" "uuids s' = uuids s" for b
    using assms(3) by (auto simp: link_def setupRemoteLink_def ctx_link_def jhas_def Let_def split: if_splits option.splits)
  have tab: "(ref_node r2 \<noteq> sys_id s \<and> links s' = links s \<and> (\<exists>e. remoteLinks s' = jput (remoteLinks s) i e \<and> rle_local e = r1)) \<or>
      (alive s (ref_id r2) \<and> remoteLinks s' = remoteLinks s \<and> links s' = jput (links s) i \<lparr>le_ref = l, le_actor1 = r1, le_actor2 = r2\<rparr>)"
    using assms(3) by (auto simp: link_def setupRemoteLink_def jhas_def Let_def split: if_splits option.splits)
  have "(\<exists>m w. s' = ctx_link l (ref_id r2) (ctx_link l (ref_id r1) (s\<lparr>links := m, linkedWith := w\<rparr>))) \<or>
      (\<exists>m w e. s' = emit e (ctx_link l (ref_id r1) (s\<lparr>remoteLinks := m, linkedWith := w\<rparr>)))"
    using assms(3) unfolding link_def setupRemoteLink_def Let_def by (clarsimp split: if_splits option.splits) blast+
  then have ctx: "ctx_links s' b \<subseteq> insert (i, l) (ctx_links s b)" for b
  proof (elim disjE exE)
    fix m w assume "s' = ctx_link l (ref_id r2) (ctx_link l (ref_id r1) (s\<lparr>links := m, linkedWith := w\<rparr>))"
    moreover have "ctx_links (s\<lparr>links := m, linkedWith := w\<rparr>) b = ctx_links s b" by (simp add: ctx_links_def)
    ultimately show ?thesis
      using ctx_links_link [of l "ref_id r1" "s\<lparr>links := m, linkedWith := w\<rparr>" b]
        ctx_links_link [of l "ref_id r2" "ctx_link l (ref_id r1) (s\<lparr>links := m, linkedWith := w\<rparr>)" b] l(1) by auto
  next
    fix m w e assume "s' = emit e (ctx_link l (ref_id r1) (s\<lparr>remoteLinks := m, linkedWith := w\<rparr>))"
    moreover have "ctx_links (s\<lparr>remoteLinks := m, linkedWith := w\<rparr>) b = ctx_links s b" "ctx_links (emit e t) b = ctx_links t b" for t
      by (simp_all add: ctx_links_def)
    ultimately show ?thesis
      using ctx_links_link [of l "ref_id r1" "s\<lparr>remoteLinks := m, linkedWith := w\<rparr>" b] l(1) by auto
  qed
  have fresh: "jget (links s) i = None" "jget (remoteLinks s) i = None" "(i, k) \<notin> ctx_links s b" for k b
    using assms(2) by (auto simp: new_link_id_def fresh_link_def)
  have ends: "\<forall>j. \<forall>a\<in>link_ends s' j. alive s' a"
  proof (intro allI ballI)
    fix j a assume "a \<in> link_ends s' j"
    then have "a \<in> link_ends s j \<or> a = ref_id r1 \<or> a = ref_id r2 \<and> alive s (ref_id r2)"
      using tab fresh by (auto simp: link_ends_def ends_of_def split: if_splits option.splits)
    then show "alive s' a" using assms(1) l(4,5) by (auto simp: links_ok_def)
  qed
  have known: "lr_id k = j \<and> known_link k s'" if "(j, k) \<in> ctx_links s' b" for j k b
  proof (cases "j = i")
    case True
    then have "k = l" using ctx that fresh by auto
    then show ?thesis using True l tab fresh by (auto simp: known_link_def)
  next
    case False
    then have "(j, k) \<in> ctx_links s b" using ctx that by auto
    then have "lr_id k = j" "known_link k s" using assms(1) by (auto simp: links_ok_def)
    then show ?thesis using False tab by (auto simp: known_link_def)
  qed
  have "inj (env_uuid env)" "\<forall>n\<ge>uuids s'. \<not> alive s' (env_uuid env n)"
    using assms(1) l(5,6) by (simp_all add: links_ok_def)
  with inv ends known show ?thesis by (simp add: links_ok_def)
qed

section \<open>Links join live actors\<close>

lemma links_ok_unlink: "links_ok env s \<Longrightarrow> known_link l s \<Longrightarrow> links_ok env (unlink l s)"
  by (rule links_ok_shrinks [OF _ link_inv_unlink [OF links_ok_inv] shrinks_unlink])

lemma links_ok_sendExit: "links_ok (se_env se) s \<Longrightarrow> links_ok (se_env se) (sendExit (handleCrash se) (stop e) q r x s)"
  by (auto simp: sendExit_def sendExitMessage_def intro: links_ok_stop links_ok_simple(1) supervised.crash_ok split: option.split)

lemma links_ok_remoteChildSpawn:
  assumes "links_ok env s" and "\<not> alive s i" and "\<forall>n\<ge>uuids s. env_uuid env n \<noteq> i"
  shows "links_ok env (snd (handleRemoteChildSpawn now classes i cname opts pn pa s))"
proof -
  have "links_ok env (add_actor now c opts \<lparr>ref_node = m, ref_id = i, ref_name = n, ref_original = b\<rparr> None s)" for c m n b
    using links_ok_add [OF assms(1), of "\<lparr>ref_node = m, ref_id = i, ref_name = n, ref_original = b\<rparr>" "uuids s"] assms(2,3) by simp
  then show ?thesis
    using assms(1) by (auto simp: handleRemoteChildSpawn_def Let_def intro!: links_ok_simple split: option.split)
qed

lemma links_ok_forget: "links_ok env s \<Longrightarrow> links_ok env (forget_parent i s)"
  unfolding forget_parent_def by (rule links_ok_simple(8))

lemma links_ok_remoteChildStop: "links_ok env s \<Longrightarrow> links_ok env (snd (handleRemoteChildStop e i s))"
  by (simp add: handleRemoteChildStop_def links_ok_stop links_ok_forget)

lemma linkless_remote: "linkless s (snd (handleRemoteLinkAdd l n p q b s))" "linkless s (handleRemoteLinkRemove l q s)"
  by (simp_all add: handleRemoteLinkAdd_def handleRemoteLinkRemove_def Let_def split: option.split)

text \<open>
  Everything that starts, ends or links actors: the operations of the system, and the messages
  and requests of other nodes about them. The ids other nodes choose are new here.
\<close>

inductive link_step :: "sup_env \<Rightarrow> (string \<Rightarrow> actor_class option) \<Rightarrow> sys \<Rightarrow> sys \<Rightarrow> bool"
  for se :: sup_env and classes :: "string \<Rightarrow> actor_class option" where
  spawned: "spawn (se_env se) place c opts s = Inr (r, s') \<Longrightarrow> link_step se classes s s'"
| child_spawned: "spawnChild (se_env se) p c opts s = Inr (r, s') \<Longrightarrow> link_step se classes s s'"
| child_placed: "spawnChildRemote (se_env se) p c node opts s = Inr (r, s') \<Longrightarrow> link_step se classes s s'"
| child_request: "\<not> alive s i \<Longrightarrow> \<forall>n\<ge>uuids s. env_uuid (se_env se) n \<noteq> i \<Longrightarrow>
    link_step se classes s (snd (handleRemoteChildSpawn now classes i cname opts pn pa s))"
| child_stop: "link_step se classes s (snd (handleRemoteChildStop (se_env se) i s))"
| stopped: "link_step se classes s (stop (se_env se) r s)"
| restarted: "link_step se classes s (snd (restart (se_env se) (se_place se) r s))"
| linked: "new_link_id i s \<Longrightarrow> link i r1 r2 s = Inr (l, s') \<Longrightarrow> link_step se classes s s'"
| unlinked: "known_link l s \<Longrightarrow> link_step se classes s (unlink l s)"
| signalled: "link_step se classes s (sendExit (handleCrash se) (stop (se_env se)) q r x s)"
| crashed: "link_step se classes s (handleCrash se r x s)"
| link_added: "link_step se classes s (snd (handleRemoteLinkAdd i n p q b s))"
| link_removed: "link_step se classes s (handleRemoteLinkRemove i q s)"
| link_exit: "link_step se classes s (handleRemoteLinkExit (handleCrash se) i q w s)"
| link_reply: "link_step se classes s (remoteLinkReply (handleCrash se) l q z s)"
| child_crash: "link_step se classes s (handleRemoteChildCrash se i s)"
| node_failed: "link_step se classes s (handleNodeFailure se n s)"

lemma links_ok_step: "link_step se classes s s' \<Longrightarrow> links_ok (se_env se) s \<Longrightarrow> links_ok (se_env se) s'"
proof (induction rule: link_step.induct)
  case (link_reply s l q z)
  then show ?case
    by (auto simp: remoteLinkReply_def intro: supervised.handleRemoteLinkExit_keeps split: sum.split add_response.split)
qed (auto intro: links_ok_spawn links_ok_spawnChild links_ok_spawnChildRemote links_ok_remoteChildSpawn
    links_ok_remoteChildStop links_ok_stop links_ok_restart links_ok_link links_ok_unlink links_ok_sendExit
    supervised.crash_ok links_ok_linkless [OF _ linkless_remote(1)] links_ok_linkless [OF _ linkless_remote(2)]
    supervised.handleRemoteLinkExit_keeps links_ok_remote_crash links_ok_nodeFailure)

lemma links_ok_reachable:
  "(link_step se classes)\<^sup>*\<^sup>* (new_system n so mc) s \<Longrightarrow> inj (env_uuid (se_env se)) \<Longrightarrow> links_ok (se_env se) s"
proof (induction rule: rtranclp_induct)
  case base
  then show ?case
    by (simp add: links_ok_def new_system_def link_inv_def link_refs_def link_index_def link_held_def link_ends_def
        jset_get_def ctx_links_def jhas_def)
qed (rule links_ok_step)

text \<open>
  Operations that run to completion leave no dangling links. In every state a node reaches by
  starting, stopping, restarting, linking and crashing actors, by exit signals, by what other nodes
  say about links and children, and by their failure, in any order, each as one step: the tables of
  links and the contexts agree, and every actor a link names on this node is alive. The code gives
  this only while no stop waits: a link made while \<open>stop\<close> awaits the registry or \<open>terminate()\<close> of
  one of its actors outlives that actor (\<open>link_during_stop_survives\<close> in \<open>Stop_Stages\<close>). The ids of the
  \<open>uuid\<close> package are distinct.
\<close>

theorem links_join_live_actors:
  assumes "(link_step se classes)\<^sup>*\<^sup>* (new_system n so mc) s" and "inj (env_uuid (se_env se))"
  shows "link_inv s \<and> (\<forall>i a. i \<in> set (jset_get (linkedWith s) a) \<longrightarrow> alive s a \<and> a \<in> link_ends s i)"
proof -
  have ok: "links_ok (se_env se) s" by (rule links_ok_reachable [OF assms])
  then have inv: "link_inv s" by (rule links_ok_inv)
  have "alive s a \<and> a \<in> link_ends s i" if "i \<in> set (jset_get (linkedWith s) a)" for i a
  proof -
    have "a \<in> link_ends s i" using inv that by (simp add: link_inv_def link_index_def)
    then show ?thesis using ok by (auto simp: links_ok_def)
  qed
  with inv show ?thesis by blast
qed

text \<open>Two actors of one node, and a link between them.\<close>

definition demo_two :: sys where
  "demo_two = snd (projr (spawn (se_env demo_sup) (Inr ''n'') demo_class no_options
     (snd (projr (spawn (se_env demo_sup) (Inr ''n'') demo_class no_options (new_system ''n'' None None))))))"

lemma demo_two_facts:
  "spawn (se_env demo_sup) (Inr ''n'') demo_class no_options (new_system ''n'' None None) =
     Inr (demo_id ''n'' ''j'', snd (projr (spawn (se_env demo_sup) (Inr ''n'') demo_class no_options (new_system ''n'' None None))))"
  "spawn (se_env demo_sup) (Inr ''n'') demo_class no_options
     (snd (projr (spawn (se_env demo_sup) (Inr ''n'') demo_class no_options (new_system ''n'' None None)))) =
     Inr (demo_id ''n'' ''jj'', demo_two)"
  "alive demo_two ''j''" "alive demo_two ''jj''" "sys_id demo_two = ''n''" "links demo_two = []" "remoteLinks demo_two = []"
  "linkedWith demo_two = []" "ctx_links demo_two b = {}"
  by (simp_all add: demo_two_def spawn_def new_system_def Let_def demo_sup_def demo_env_def demo_id_def no_options_def
      register_name_def truthy_name_def add_actor_def scheduleProcessMailbox_def jhas_def ctx_links_def new_actor_def)

definition demo_joined :: sys where
  "demo_joined = snd (projr (link ''l'' (demo_id ''n'' ''j'') (demo_id ''n'' ''jj'') demo_two))"

lemma demo_joined_link:
  "link ''l'' (demo_id ''n'' ''j'') (demo_id ''n'' ''jj'') demo_two =
     Inr (\<lparr>lr_id = ''l'', lr_actor1Id = ''j'', lr_actor2Id = ''jj''\<rparr>, demo_joined)"
  "jset_get (linkedWith demo_joined) ''jj'' = [''l'']"
proof -
  obtain x y where a: "getActor demo_two ''j'' = Some x" "getActor demo_two ''jj'' = Some y"
    using demo_two_facts(3,4) by (auto simp: jhas_def)
  then show "link ''l'' (demo_id ''n'' ''j'') (demo_id ''n'' ''jj'') demo_two =
     Inr (\<lparr>lr_id = ''l'', lr_actor1Id = ''j'', lr_actor2Id = ''jj''\<rparr>, demo_joined)"
    "jset_get (linkedWith demo_joined) ''jj'' = [''l'']"
    by (simp_all add: demo_joined_def link_def demo_two_facts demo_id_def Let_def jset_get_def jset_add_def sadd_def)
qed

lemma demo_joined_reach: "(link_step demo_sup (\<lambda>_. None))\<^sup>*\<^sup>* (new_system ''n'' None None) demo_joined"
proof -
  have "new_link_id ''l'' demo_two" by (simp add: new_link_id_def fresh_link_def demo_two_facts)
  then show ?thesis
    using link_step.spawned [OF demo_two_facts(1)] link_step.spawned [OF demo_two_facts(2)] link_step.linked [OF _ demo_joined_link(1)]
    by (meson rtranclp.rtrancl_into_rtrancl rtranclp.rtrancl_refl)
qed

lemma demo_uuid_inj: "inj (env_uuid (se_env demo_sup))"
  by (simp add: inj_def demo_sup_def demo_env_def)

theorem links_join_live_actors_witness: "alive demo_joined ''jj''"
  using links_join_live_actors [OF demo_joined_reach demo_uuid_inj] demo_joined_link(2) by simp

end
