(* ===== verification/Stop_Stages.thy ===== *)
theory Stop_Stages
  imports Live_Links
begin

text \<open>
  \<open>ActorSystem.stop\<close> as the code runs it: in sections between its awaits, with a stack of the
  stops that wait for each other. Undisturbed, and if nothing it awaits fails, it has the effect of
  the operation \<open>stop\<close> of \<open>Lifecycle\<close>. But other events of the node come in while it waits for a
  child, for another node, for the registry or for \<open>terminate()\<close>: an actor linked then keeps a link
  to a dead actor. And \<open>terminate()\<close> can reject: then the actor and all above it stay in the tables,
  though the watchers have been told that it is gone.
\<close>

section \<open>The sections of \<open>stop\<close>\<close>

text \<open>
  Where a stop is: it begins; it goes on with the children that are left; it awaits the stop of a
  child, the answer of another node about a child, \<open>registry.unregister\<close>, or \<open>terminate()\<close>.
\<close>

datatype stop_phase = Entering | Looping "actor_ref list" | ChildAwaited "actor_ref list"
  | RemoteAwaited string remote_child "actor_ref list" | UnregisterAwaited | TerminateAwaited

text \<open>The innermost stop first; an exception of one rejects all the others.\<close>

datatype stop_run = Running "(actor_ref \<times> stop_phase) list" | Failed

text \<open>What \<open>stop\<close> does with an actor when its children are gone, up to the first await.\<close>

definition farewell :: "actor_ref \<Rightarrow> sys \<Rightarrow> sys" where
  "farewell r s = notifyLinkedActors no_crash r NormalExit (notifyWatchers r NormalExit
     (clearIdleTimeout (ref_id r) (cancelAllActorTimers r (unwatch_all (ref_id r) (detach r s)))))"

definition unregister_begin :: "actor_ref \<Rightarrow> sys \<Rightarrow> stop_phase \<times> sys" where
  "unregister_begin r s =
     (case truthy_name (ref_name r) of
        None \<Rightarrow> (TerminateAwaited, emit (CallTerminate (ref_id r)) s)
      | Some n \<Rightarrow> (UnregisterAwaited, emit (RegistryUnregister n) s))"

definition remote_stop_answered :: "env \<Rightarrow> string \<Rightarrow> remote_child \<Rightarrow> sys \<Rightarrow> sys" where
  "remote_stop_answered env i e s =
     (let s1 = s\<lparr>remoteChildren := jdel (remoteChildren s) i\<rparr>
      in if env_answers env (rc_node e) then on_actor (ref_id (rc_parent e)) (remove_child (rc_ref e)) s1 else s1)"

text \<open>One section; \<open>ok\<close> says whether what was awaited of the registry or of the actor succeeded.\<close>

fun stop_section :: "env \<Rightarrow> bool \<Rightarrow> actor_ref \<Rightarrow> stop_phase \<Rightarrow> (actor_ref \<times> stop_phase) list \<Rightarrow> sys \<Rightarrow> stop_run \<times> sys" where
  "stop_section env ok r Entering fs s =
     (case getActor s (ref_id r) of
        None \<Rightarrow> (Running fs, s)
      | Some act \<Rightarrow> (Running ((r, Looping (a_children act)) # fs), s))"
| "stop_section env ok r (Looping []) fs s = (let (ph, s1) = unregister_begin r (farewell r s) in (Running ((r, ph) # fs), s1))"
| "stop_section env ok r (Looping (c # cs)) fs s =
     (if ref_node c = sys_id s then (Running ((c, Entering) # (r, ChildAwaited cs) # fs), s)
      else (case jget (remoteChildren s) (ref_id c) of
              None \<Rightarrow> (Running ((r, ChildAwaited cs) # fs), s)
            | Some e \<Rightarrow> (Running ((r, RemoteAwaited (ref_id c) e cs) # fs),
                emit (RequestTo (rc_node e) (ChildStop (ref_id c) (sys_id s) (ref_id (rc_parent e)))) s)))"
| "stop_section env ok r (ChildAwaited cs) fs s = (Running ((r, Looping cs) # fs), s)"
| "stop_section env ok r (RemoteAwaited i e cs) fs s = (Running ((r, ChildAwaited cs) # fs), remote_stop_answered env i e s)"
| "stop_section env ok r UnregisterAwaited fs s =
     (if ok then (Running ((r, TerminateAwaited) # fs), emit (CallTerminate (ref_id r)) s) else (Failed, s))"
| "stop_section env ok r TerminateAwaited fs s =
     (if ok then (Running fs, delete_actor (ref_id r) (emit (GroupsLeaveAll (ref_id r)) s)) else (Failed, s))"

fun stop_tick :: "env \<Rightarrow> bool \<Rightarrow> stop_run \<times> sys \<Rightarrow> stop_run \<times> sys" where
  "stop_tick env ok (Running ((r, ph) # fs), s) = stop_section env ok r ph fs s"
| "stop_tick env ok (q, s) = (q, s)"

text \<open>Whether the stop waits, so that other events are handled before it goes on.\<close>

fun stop_waits :: "stop_run \<Rightarrow> bool" where
  "stop_waits (Running ((r, Entering) # fs)) = False"
| "stop_waits (Running ((r, Looping cs) # fs)) = False"
| "stop_waits q = True"

text \<open>A node on which a stop runs among everything that starts, ends and links actors.\<close>

inductive stop_world :: "sup_env \<Rightarrow> (string \<Rightarrow> actor_class option) \<Rightarrow> stop_run \<times> sys \<Rightarrow> stop_run \<times> sys \<Rightarrow> bool"
  for se :: sup_env and classes :: "string \<Rightarrow> actor_class option" where
  section_run: "stop_world se classes p (stop_tick (se_env se) ok p)"
| other_event: "stop_waits q \<Longrightarrow> link_step se classes s s' \<Longrightarrow> stop_world se classes (q, s) (q, s')"

section \<open>Undisturbed, the sections are the operation\<close>

definition runs_to :: "env \<Rightarrow> stop_run \<times> sys \<Rightarrow> stop_run \<times> sys \<Rightarrow> bool" where
  "runs_to env p p' \<longleftrightarrow> (\<exists>k. (stop_tick env True ^^ k) p = p')"

lemma runs_to_refl: "runs_to env p p"
  unfolding runs_to_def by (rule exI [of _ 0]) simp

lemma runs_to_step: "runs_to env (stop_tick env True p) p' \<Longrightarrow> runs_to env p p'"
proof -
  assume "runs_to env (stop_tick env True p) p'"
  then obtain k where "(stop_tick env True ^^ k) (stop_tick env True p) = p'" unfolding runs_to_def by blast
  then have "(stop_tick env True ^^ Suc k) p = p'" by (simp only: funpow_Suc_right comp_def)
  then show ?thesis unfolding runs_to_def by (rule exI)
qed

lemma runs_to_trans: "runs_to env p p' \<Longrightarrow> runs_to env p' p'' \<Longrightarrow> runs_to env p p''"
proof -
  assume "runs_to env p p'" "runs_to env p' p''"
  then obtain m n where "(stop_tick env True ^^ m) p = p'" "(stop_tick env True ^^ n) p' = p''" unfolding runs_to_def by blast
  then have "(stop_tick env True ^^ (n + m)) p = p''" by (simp only: funpow_add comp_def)
  then show ?thesis unfolding runs_to_def by (rule exI)
qed

lemma stop_self_sections: "stop_self r s = bury r (farewell r s)"
  by (simp add: stop_self_def farewell_def Let_def)

lemma runs_end: "runs_to env (Running ((r, Looping []) # fs), s) (Running fs, stop_self r s)"
proof (cases "truthy_name (ref_name r)")
  case None
  show ?thesis
    by (rule runs_to_step, rule runs_to_step)
      (simp add: None unregister_begin_def stop_self_sections bury_def unregister_name_def runs_to_refl)
next
  case (Some n)
  show ?thesis
    by (rule runs_to_step, rule runs_to_step, rule runs_to_step)
      (simp add: Some unregister_begin_def stop_self_sections bury_def unregister_name_def runs_to_refl)
qed

lemma remote_stop_sections:
  "jget (remoteChildren s) i = Some e \<Longrightarrow> remote_stop_answered env i e
     (emit (RequestTo (rc_node e) (ChildStop i (sys_id s) (ref_id (rc_parent e)))) s) = stopRemoteChild env i s"
  by (simp add: remote_stop_answered_def stopRemoteChild_def Let_def)

lemma runs_remote:
  assumes "ref_node c \<noteq> sys_id s"
  shows "runs_to env (Running ((r, Looping (c # cs)) # fs), s) (Running ((r, Looping cs) # fs), stopRemoteChild env (ref_id c) s)"
proof (cases "jget (remoteChildren s) (ref_id c)")
  case None
  show ?thesis
    by (rule runs_to_step, rule runs_to_step) (simp add: None assms stopRemoteChild_def runs_to_refl)
next
  case (Some e)
  show ?thesis
    by (rule runs_to_step, rule runs_to_step, rule runs_to_step)
      (simp add: assms Some remote_stop_sections [OF Some] runs_to_refl)
qed

text \<open>A child that was stopped leaves a tree in which no actor has more actors after it.\<close>

lemma child_trims:
  assumes "tree_ok s"
  shows "\<exists>ts. trim ts s (if ref_node c = sys_id s then stop env c s else stopRemoteChild env (ref_id c) s)"
proof -
  have ok: "remotes_ok s" using assms by (simp add: tree_ok_def)
  have "\<exists>ts. trim ts s (stop env c s)"
  proof (cases "alive s (ref_id c)")
    case True
    then show ?thesis using stop_trims [OF assms] by blast
  next
    case False
    have "stop env c s = s" unfolding stop_def by (rule stop_fuel_dead [OF False])
    then show ?thesis using trim_refl [OF ok] by auto
  qed
  then show ?thesis using trim_stopRemoteChild [OF ok] by auto
qed

lemma later_drops:
  assumes t: "trim ts s s'" and "alive s' a"
  shows "later (jkeys (actors s')) a \<le> later (jkeys (actors s)) a"
proof -
  have keys: "jkeys (actors s') = filter (\<lambda>a. a \<notin> set ts) (jkeys (actors s))" using t by (simp add: trim_def)
  have "a \<notin> set ts" using trim_alive [OF t] assms(2) by simp
  then show ?thesis unfolding keys later_def later_filter [of "\<lambda>a. a \<notin> set ts", OF \<open>a \<notin> set ts\<close>] by simp
qed

lemma runs_children:
  assumes IH: "\<And>c s fs. tree_ok s \<Longrightarrow> alive s (ref_id c) \<longrightarrow> later (jkeys (actors s)) (ref_id c) < n \<Longrightarrow>
      runs_to env (Running ((c, Entering) # fs), s) (Running fs, stop env c s)"
    and "tree_ok s" and "\<forall>c\<in>set cs. ref_node c = sys_id s \<longrightarrow> alive s (ref_id c) \<longrightarrow> later (jkeys (actors s)) (ref_id c) < n"
  shows "runs_to env (Running ((r, Looping cs) # fs), s) (Running ((r, Looping []) # fs),
     fold (\<lambda>c s. if ref_node c = sys_id s then stop env c s else stopRemoteChild env (ref_id c) s) cs s)"
  using assms(2,3)
proof (induction cs arbitrary: s)
  case (Cons c cs)
  let ?s = "if ref_node c = sys_id s then stop env c s else stopRemoteChild env (ref_id c) s"
  have first: "runs_to env (Running ((r, Looping (c # cs)) # fs), s) (Running ((r, Looping cs) # fs), ?s)"
  proof (cases "ref_node c = sys_id s")
    case True
    then have "runs_to env (Running ((c, Entering) # (r, ChildAwaited cs) # fs), s) (Running ((r, ChildAwaited cs) # fs), ?s)"
      using IH [OF Cons.prems(1)] Cons.prems(2) by simp
    moreover have "runs_to env (Running ((r, ChildAwaited cs) # fs), ?s) (Running ((r, Looping cs) # fs), ?s)"
      by (rule runs_to_step) (simp add: runs_to_refl)
    ultimately show ?thesis using runs_to_step [OF runs_to_trans] True by simp
  qed (simp add: runs_remote)
  obtain ts where t: "trim ts s ?s" using child_trims [OF Cons.prems(1)] by blast
  have "later (jkeys (actors ?s)) (ref_id d) < n"
    if "d \<in> set cs" "ref_node d = sys_id ?s" "alive ?s (ref_id d)" for d
  proof -
    have "sys_id ?s = sys_id s" using t by (simp add: trim_def)
    then have "later (jkeys (actors s)) (ref_id d) < n" using that Cons.prems(2) trim_alive [OF t] by simp
    then show ?thesis using later_drops [OF t that(3)] by (rule le_less_trans [rotated])
  qed
  then have "runs_to env (Running ((r, Looping cs) # fs), ?s) (Running ((r, Looping []) # fs),
     fold (\<lambda>c s. if ref_node c = sys_id s then stop env c s else stopRemoteChild env (ref_id c) s) cs ?s)"
    using Cons.IH [OF tree_ok_trim [OF Cons.prems(1) t]] by blast
  then show ?case using runs_to_trans [OF first] by simp
qed (simp add: runs_to_refl)

lemma runs_stop:
  "tree_ok s \<Longrightarrow> alive s (ref_id r) \<longrightarrow> later (jkeys (actors s)) (ref_id r) < n \<Longrightarrow>
     runs_to env (Running ((r, Entering) # fs), s) (Running fs, stop env r s)"
proof (induction n arbitrary: r s fs)
  case 0
  from this(2) have "getActor s (ref_id r) = None" by (simp add: jhas_def)
  show ?case by (rule runs_to_step) (simp add: \<open>getActor s (ref_id r) = None\<close> stop_unfold [OF 0(1)] runs_to_refl)
next
  case (Suc n)
  show ?case
  proof (cases "getActor s (ref_id r)")
    case None
    show ?thesis by (rule runs_to_step) (simp add: None stop_unfold [OF Suc.prems(1)] runs_to_refl)
  next
    case (Some act)
    then have low: "later (jkeys (actors s)) (ref_id r) \<le> n" using Suc.prems(2) by (simp add: jhas_def)
    have "later (jkeys (actors s)) (ref_id c) < n"
      if "c \<in> set (a_children act)" "ref_node c = sys_id s" "alive s (ref_id c)" for c
      using kid_edge [OF Some that] Suc.prems(1) low unfolding tree_ok_def ranked_tree_def by fastforce
    then have kids: "\<forall>c\<in>set (a_children act). ref_node c = sys_id s \<longrightarrow> alive s (ref_id c) \<longrightarrow> later (jkeys (actors s)) (ref_id c) < n"
      by blast
    have eq: "stop env r s = stop_self r (fold (\<lambda>c s. if ref_node c = sys_id s then stop env c s
        else stopRemoteChild env (ref_id c) s) (a_children act) s)"
      by (simp only: stop_unfold [OF Suc.prems(1)] Some option.case)
    have "runs_to env (Running ((r, Looping (a_children act)) # fs), s) (Running fs, stop env r s)"
      unfolding eq by (rule runs_to_trans [OF runs_children [OF Suc.IH Suc.prems(1) kids] runs_end])
    then have "runs_to env (stop_tick env True (Running ((r, Entering) # fs), s)) (Running fs, stop env r s)" by (simp add: Some)
    then show ?thesis by (rule runs_to_step)
  qed
qed

text \<open>
  C7: The operation \<open>stop\<close>, with which the other theories work, is what the code does between its
  awaits: from its first section, one section after the other, with every child, every remote child,
  every unregistration and every \<open>terminate()\<close> awaited in turn and none of them failing, the run
  ends, nothing is left on its stack, and the node is in the state \<open>stop\<close> gives. (What other events
  do while it waits, and what happens when \<open>terminate()\<close> fails, is shown below.)
\<close>

theorem stop_sections_refine:
  assumes "tree_ok s"
  shows "\<exists>k. (stop_tick env True ^^ k) (Running [(r, Entering)], s) = (Running [], stop env r s)"
  using runs_stop [OF assms, of r "Suc (later (jkeys (actors s)) (ref_id r))" env "[]"] by (simp add: runs_to_def)

theorem stop_sections_refine_witness:
  "\<exists>k. (stop_tick (demo_env CHR ''i'') True ^^ k) (Running [(demo_id ''n'' ''i'', Entering)], demo_tree) =
     (Running [], stop (demo_env CHR ''i'') (demo_id ''n'' ''i'') demo_tree)"
  by (rule stop_sections_refine [OF demo_tree_ok])

section \<open>Other events while a stop waits\<close>

lemma farewell_keeps: "alive (farewell r s) a = alive s a" "sys_id (farewell r s) = sys_id s"
proof -
  have "same_tree (detach r s) (farewell r s)"
    unfolding farewell_def
    by (rule same_tree_trans [OF same_tree_trans [OF same_tree_trans [OF same_tree_unwatch_all same_tree_timers]
      same_tree_notifyWatchers] same_tree_notifyLinked])
  then have "jkeys (actors (farewell r s)) = jkeys (actors s)" "sys_id (farewell r s) = sys_id s" by (simp_all add: same_tree_def)
  then show "alive (farewell r s) a = alive s a" "sys_id (farewell r s) = sys_id s" by (simp_all only: jhas_iff)
qed

lemma to_terminate:
  assumes "getActor s (ref_id r) = Some act" and "a_children act = []" and "truthy_name (ref_name r) = None"
  shows "stop_tick env ok (stop_tick env ok (Running ((r, Entering) # fs), s)) =
     (Running ((r, TerminateAwaited) # fs), emit (CallTerminate (ref_id r)) (farewell r s))"
  using assms by (simp add: unregister_begin_def)

lemma link_effect:
  assumes "alive t (ref_id a)" and "alive t (ref_id r)" and "ref_node a = sys_id t" and "ref_node r = sys_id t"
  shows "\<exists>s1. link i a r t = Inr (\<lparr>lr_id = i, lr_actor1Id = ref_id a, lr_actor2Id = ref_id r\<rparr>, s1) \<and> outbox s1 = outbox t
     \<and> jget (links s1) i = Some \<lparr>le_ref = \<lparr>lr_id = i, lr_actor1Id = ref_id a, lr_actor2Id = ref_id r\<rparr>, le_actor1 = a, le_actor2 = r\<rparr>
     \<and> i \<in> set (jset_get (linkedWith s1) (ref_id a)) \<and> (\<forall>z. alive s1 z = alive t z)"
proof -
  obtain x y where "getActor t (ref_id a) = Some x" "getActor t (ref_id r) = Some y" using assms(1,2) by (auto simp: jhas_def)
  then show ?thesis using assms(3,4) by (simp add: link_def Let_def ctx_link_def sadd_def)
qed

text \<open>
  A link made while the stop of one of its actors waits for \<open>terminate()\<close> is never taken away: the
  stop has told the linked actors before it waits and does not look at the links again. It ends with
  the link in the tables, between an actor that lives and one that does not, and with the
  notifications it would have made without the link: nobody is told that the linked actor is gone.
\<close>

theorem link_during_stop_survives:
  assumes r: "getActor s (ref_id r) = Some act" "a_children act = []" "truthy_name (ref_name r) = None"
    and a: "alive s (ref_id a)" "ref_id a \<noteq> ref_id r" "ref_node a = sys_id s" "ref_node r = sys_id s"
    and i: "new_link_id i (emit (CallTerminate (ref_id r)) (farewell r s))"
  shows "\<exists>s'. (stop_world se classes)\<^sup>*\<^sup>* (Running [(r, Entering)], s) (Running [], s')
     \<and> alive s' (ref_id a) \<and> \<not> alive s' (ref_id r) \<and> outbox s' = outbox (stop_self r s)
     \<and> jget (links s') i = Some \<lparr>le_ref = \<lparr>lr_id = i, lr_actor1Id = ref_id a, lr_actor2Id = ref_id r\<rparr>, le_actor1 = a, le_actor2 = r\<rparr>
     \<and> i \<in> set (jset_get (linkedWith s') (ref_id a))"
proof -
  let ?step = "stop_world se classes" and ?t = "emit (CallTerminate (ref_id r)) (farewell r s)"
  let ?w = "Running [(r, TerminateAwaited)]"
  have alive: "alive ?t x = alive s x" "sys_id ?t = sys_id s" for x by (simp_all add: farewell_keeps)
  have "alive ?t (ref_id a)" "alive ?t (ref_id r)" unfolding alive(1) using a(1) r(1) by (simp_all add: jhas_def)
  from link_effect [OF this, of i] a(3,4) alive(2) obtain s1 where
    l: "link i a r ?t = Inr (\<lparr>lr_id = i, lr_actor1Id = ref_id a, lr_actor2Id = ref_id r\<rparr>, s1)"
    and t1: "outbox s1 = outbox ?t" "jget (links s1) i = Some
      \<lparr>le_ref = \<lparr>lr_id = i, lr_actor1Id = ref_id a, lr_actor2Id = ref_id r\<rparr>, le_actor1 = a, le_actor2 = r\<rparr>"
      "i \<in> set (jset_get (linkedWith s1) (ref_id a))" "\<forall>z. alive s1 z = alive ?t z" by metis
  have s1: "alive s1 z = alive s z" for z using t1(4) alive(1) by blast
  let ?s = "delete_actor (ref_id r) (emit (GroupsLeaveAll (ref_id r)) s1)"
  have "?step (Running [(r, Entering)], s) (stop_tick (se_env se) True (Running [(r, Entering)], s))"
    by (rule stop_world.section_run)
  moreover have "?step (stop_tick (se_env se) True (Running [(r, Entering)], s)) (?w, ?t)"
    using stop_world.section_run [of se classes "stop_tick (se_env se) True (Running [(r, Entering)], s)" True]
    by (simp only: to_terminate [OF r])
  moreover have "?step (?w, ?t) (?w, s1)"
    by (rule stop_world.other_event) (simp, rule link_step.linked [OF i l])
  moreover have "?step (?w, s1) (Running [], ?s)"
    using stop_world.section_run [of se classes "(?w, s1)" True] by simp
  ultimately have "?step\<^sup>*\<^sup>* (Running [(r, Entering)], s) (Running [], ?s)"
    by (meson converse_rtranclp_into_rtranclp rtranclp.rtrancl_refl)
  moreover have "outbox ?s = outbox (stop_self r s)"
    by (simp add: t1(1) delete_actor_def stop_self_sections bury_def unregister_name_def r(3) emit_def)
  moreover have "alive ?s z \<longleftrightarrow> z \<noteq> ref_id r \<and> alive s z" "links ?s = links s1" "linkedWith ?s = linkedWith s1" for z
    using s1 [of z] by (simp_all add: delete_actor_def)
  ultimately show ?thesis using a(1,2) t1(2,3) by (intro exI [of _ ?s]) simp
qed

lemma new_link_id_unlinked: "fresh_link i s \<Longrightarrow> \<forall>x\<in>set (jvals (actors s)). a_links x = [] \<Longrightarrow> new_link_id i s"
  using jget_jvals [of "actors s"] by (fastforce simp: new_link_id_def ctx_links_def simp del: set_map split: option.splits)

text \<open>The two actors of \<open>demo_two\<close>: \<open>j\<close> links itself to \<open>jj\<close> while that one terminates.\<close>

lemma demo_link_survives:
  "\<exists>s'. (stop_world demo_sup (\<lambda>_. None))\<^sup>*\<^sup>* (Running [(demo_id ''n'' ''jj'', Entering)], demo_two) (Running [], s')
     \<and> alive s' ''j'' \<and> \<not> alive s' ''jj'' \<and> ''l'' \<in> set (jset_get (linkedWith s') ''j'')"
proof -
  have "getActor demo_two ''jj'' = Some (new_actor demo_class (demo_id ''n'' ''jj'') None 0)"
    by (simp add: demo_two_def spawn_def new_system_def Let_def demo_sup_def demo_env_def demo_id_def no_options_def
        register_name_def truthy_name_def add_actor_def scheduleProcessMailbox_def)
  then have r: "getActor demo_two (ref_id (demo_id ''n'' ''jj'')) = Some (new_actor demo_class (demo_id ''n'' ''jj'') None 0)"
    by (simp add: demo_id_def)
  let ?T = "emit (CallTerminate (ref_id (demo_id ''n'' ''jj''))) (farewell (demo_id ''n'' ''jj'') demo_two)"
  have "fresh_link ''l'' ?T" "\<forall>x\<in>set (jvals (actors ?T)). a_links x = []" by code_simp+
  then have i: "new_link_id ''l'' ?T" by (rule new_link_id_unlinked)
  have "alive demo_two (ref_id (demo_id ''n'' ''j''))" using demo_two_facts(3) by (simp add: demo_id_def)
  from link_during_stop_survives [OF r _ _ this _ _ _ i, of demo_sup "\<lambda>_. None"]
  show ?thesis using demo_two_facts(5) by (auto simp: demo_id_def new_actor_def truthy_name_def)
qed

text \<open>
  If \<open>terminate()\<close> fails, the stop and those that wait for it end there: the actor and the actors
  above it stay in the tables and get messages as before. But the watchers and the linked actors
  have been told that it is gone, and the next stop calls \<open>terminate()\<close> again.
\<close>

theorem failed_terminate_leaves_actor:
  assumes r: "getActor s (ref_id r) = Some act" "a_children act = []" "truthy_name (ref_name r) = None"
    and s': "s' = emit (CallTerminate (ref_id r)) (farewell r s)"
  shows "stop_tick env False (stop_tick env True (stop_tick env True (Running ((r, Entering) # fs), s))) = (Failed, s')
     \<and> (\<forall>a. alive s' a = alive s a) \<and> mailboxes s' = mailboxes s"
proof -
  have "same_tree (detach r s) (farewell r s)"
    unfolding farewell_def
    by (rule same_tree_trans [OF same_tree_trans [OF same_tree_trans [OF same_tree_unwatch_all same_tree_timers]
      same_tree_notifyWatchers] same_tree_notifyLinked])
  then have "mailboxes (farewell r s) = mailboxes s" by (simp add: same_tree_def)
  then show ?thesis unfolding to_terminate [OF r] s' by (simp add: farewell_keeps)
qed

end
