(* ===== verification/Scheduler.thy ===== *)
theory Scheduler
  imports Tree_Operations
begin

text \<open>
  The event loop around the mailboxes, from \<open>src/actor_system.ts\<close>: \<open>dispatchCast\<close>,
  \<open>dispatchCall\<close> with its synchronous fast path, \<open>processMailbox\<close>, pausing, draining and
  injecting, and the casts and calls that come from other nodes. \<open>setImmediate\<close> callbacks are
  a queue of actor ids; a handler that returned a promise leaves an activation behind that a
  later event continues. What a user's handler does is the parameter \<open>handler\<close>: its outcome and
  its effect on the state. Messages are compared by value, and a stash lives as long as its
  actor is in the table.
\<close>

section \<open>The state\<close>

text \<open>How a promise was settled: only the first settling counts.\<close>

datatype reply = Resolved string | RejectedBy string | RejectedWith js_error

text \<open>
  \<open>sc_ticks\<close>: the callbacks of \<open>setImmediate\<close>. \<open>sc_runs\<close>: activations of \<open>processMailbox\<close> that
  await a handler, with the rest of the batch. \<open>sc_calls\<close>: synchronous calls that await a
  handler, with the previous current message and the promise. \<open>sc_rpcs\<close>: casts from other nodes
  that await a handler. \<open>sc_started\<close>: the handler invocations, in order.
\<close>

record sched =
  sc_sys :: sys
  sc_ticks :: "string list"
  sc_runs :: "(string \<times> actor_ref \<times> nat \<times> string stashed_message) list"
  sc_calls :: "(string \<times> string stashed_message option \<times> nat \<times> string stashed_message) list"
  sc_rpcs :: "actor_ref list"
  sc_started :: "(string \<times> string stashed_message) list"
  sc_settled :: "(nat, reply) jsmap"

text \<open>A node before anything was spawned.\<close>

definition new_node :: "string \<Rightarrow> supervision_options option \<Rightarrow> mailbox_config option \<Rightarrow> sched" where
  "new_node node sopt mcfg = \<lparr>sc_sys = new_system node sopt mcfg, sc_ticks = [], sc_runs = [], sc_calls = [],
     sc_rpcs = [], sc_started = [], sc_settled = []\<rparr>"

datatype outcome = Returns string | Throws string | Promises

type_synonym handler = "string \<Rightarrow> string stashed_message \<Rightarrow> sched \<Rightarrow> outcome \<times> sched"

text \<open>
  An operation of the system in this state: \<open>scheduleProcessMailbox\<close> is the only one that adds
  to \<open>mailboxScheduled\<close>, always together with a callback, so the new ids get theirs here.
\<close>

definition on_sys :: "(sys \<Rightarrow> sys) \<Rightarrow> sched \<Rightarrow> sched" where
  "on_sys f S = (let s = sc_sys S; s' = f s
     in S\<lparr>sc_sys := s', sc_ticks := sc_ticks S @ filter (\<lambda>i. i \<notin> set (mailboxScheduled s)) (mailboxScheduled s')\<rparr>)"

definition settle :: "nat \<Rightarrow> reply \<Rightarrow> sched \<Rightarrow> sched" where
  "settle n r S = (if jhas (sc_settled S) n then S else S\<lparr>sc_settled := jput (sc_settled S) n r\<rparr>)"

definition settle_opt :: "nat option \<Rightarrow> reply \<Rightarrow> sched \<Rightarrow> sched" where
  "settle_opt n r S = (case n of None \<Rightarrow> S | Some k \<Rightarrow> settle k r S)"

definition pending_count :: "string \<Rightarrow> sys \<Rightarrow> nat" where
  "pending_count i s = (case jget (mailboxes s) i of None \<Rightarrow> 0 | Some mb \<Rightarrow> mb_size mb)"

definition set_current :: "string \<Rightarrow> string stashed_message option \<Rightarrow> sys \<Rightarrow> sys" where
  "set_current i m s = on_actor i (\<lambda>a. a\<lparr>a_current := m\<rparr>) s"

definition set_mailbox :: "string \<Rightarrow> string mailbox \<Rightarrow> sys \<Rightarrow> sys" where
  "set_mailbox i mb s = s\<lparr>mailboxes := jput (mailboxes s) i mb\<rparr>"

definition unschedule :: "string \<Rightarrow> sys \<Rightarrow> sys" where
  "unschedule i s = s\<lparr>mailboxScheduled := sdel (mailboxScheduled s) i\<rparr>"

definition begin_processing :: "string \<Rightarrow> sys \<Rightarrow> sys" where
  "begin_processing i s = s\<lparr>processingActors := sadd (processingActors s) i\<rparr>"

definition end_processing :: "string \<Rightarrow> sys \<Rightarrow> sys" where
  "end_processing i s = s\<lparr>processingActors := sdel (processingActors s) i\<rparr>"

definition run_handler :: "handler \<Rightarrow> string \<Rightarrow> string stashed_message \<Rightarrow> sched \<Rightarrow> outcome \<times> sched" where
  "run_handler h i m S = h i m (S\<lparr>sc_started := sc_started S @ [(i, m)]\<rparr>)"

text \<open>\<open>supervisor.handleCrash(actor.self, err)\<close>, also when the actor is gone by then.\<close>

definition crash_actor :: "sup_env \<Rightarrow> actor_ref \<Rightarrow> string \<Rightarrow> sched \<Rightarrow> sched" where
  "crash_actor se w err S = on_sys (handleCrash se w err) S"

section \<open>Processing a mailbox\<close>

definition MAILBOX_BATCH_SIZE :: nat where
  "MAILBOX_BATCH_SIZE = 64"

text \<open>After the loop: another callback if there is more to do, else the actor is idle.\<close>

definition pm_end :: "string \<Rightarrow> sched \<Rightarrow> sched" where
  "pm_end i S =
     (let s = end_processing i (sc_sys S); S1 = S\<lparr>sc_sys := s\<rparr>
      in if alive s i \<and> jhas (mailboxes s) i \<and> i \<notin> set (pausedMailboxes s) \<and> 0 < pending_count i s
         then S1\<lparr>sc_ticks := sc_ticks S1 @ [i]\<rparr>
         else S1\<lparr>sc_sys := unschedule i s\<rparr>)"

definition stashed :: "string \<Rightarrow> string stashed_message \<Rightarrow> sys \<Rightarrow> bool" where
  "stashed i m s = (case getActor s i of None \<Rightarrow> False | Some act \<Rightarrow> m \<in> set (a_stash act))"

text \<open>
  The handler returned or its promise resolved: a call that was not stashed is answered. It
  failed: a call that was not stashed is answered with the error if somebody waits; a stashed
  one swallows the error; everything else crashes the actor. The boolean tells whether the loop
  goes on.
\<close>

definition pm_success :: "string \<Rightarrow> string stashed_message \<Rightarrow> string \<Rightarrow> sched \<Rightarrow> sched" where
  "pm_success i m v S =
     (let S1 = (if sm_type m = CallMsg \<and> \<not> stashed i m (sc_sys S) then settle_opt (sm_reply m) (Resolved v) S else S)
      in S1\<lparr>sc_sys := set_current i None (sc_sys S1)\<rparr>)"

definition pm_failure :: "sup_env \<Rightarrow> actor_ref \<Rightarrow> string \<Rightarrow> string stashed_message \<Rightarrow> string \<Rightarrow> sched \<Rightarrow> bool \<times> sched" where
  "pm_failure se w i m err S =
     (let done = (\<lambda>S. S\<lparr>sc_sys := set_current i None (sc_sys S)\<rparr>)
      in if sm_type m = CallMsg \<and> stashed i m (sc_sys S) then (True, done S)
         else if sm_type m = CallMsg \<and> sm_reply m \<noteq> None
         then (True, done (settle_opt (sm_reply m) (RejectedBy err) S))
         else (False, done (crash_actor se w err S)))"

definition pm_next :: "string \<Rightarrow> sched \<Rightarrow> bool" where
  "pm_next i S \<longleftrightarrow> 0 < pending_count i (sc_sys S) \<and> alive (sc_sys S) i \<and> i \<notin> set (pausedMailboxes (sc_sys S))"

text \<open>Taking the next message: it becomes the current one and counts as activity.\<close>

definition pm_take :: "int \<Rightarrow> string \<Rightarrow> sched \<Rightarrow> string stashed_message option \<times> sched" where
  "pm_take now i S =
     (case jget (mailboxes (sc_sys S)) i of
        None \<Rightarrow> (None, S)
      | Some mb \<Rightarrow>
          (let (m, mb') = dequeue mb
           in (m, S\<lparr>sc_sys := resetIdleTimeout now i (set_current i m (set_mailbox i mb' (sc_sys S)))\<rparr>)))"

text \<open>The loop, over what is left of the batch.\<close>

fun pm_loop :: "handler \<Rightarrow> sup_env \<Rightarrow> nat \<Rightarrow> actor_ref \<Rightarrow> string \<Rightarrow> sched \<Rightarrow> sched" where
  "pm_loop h se 0 w i S = pm_end i S"
| "pm_loop h se (Suc n) w i S =
     (if \<not> pm_next i S then pm_end i S
      else case pm_take (env_now (se_env se)) i S of
        (None, S1) \<Rightarrow>
          (let S2 = crash_actor se w ''TypeError'' S1
           in pm_end i (S2\<lparr>sc_sys := set_current i None (sc_sys S2)\<rparr>))
      | (Some m, S1) \<Rightarrow>
          (case run_handler h i m S1 of
             (Returns v, S2) \<Rightarrow> pm_loop h se n w i (pm_success i m v S2)
           | (Throws err, S2) \<Rightarrow>
               (case pm_failure se w i m err S2 of
                  (True, S3) \<Rightarrow> pm_loop h se n w i S3
                | (False, S3) \<Rightarrow> pm_end i S3)
           | (Promises, S2) \<Rightarrow> S2\<lparr>sc_runs := sc_runs S2 @ [(i, w, n, m)]\<rparr>))"

definition processMailbox :: "handler \<Rightarrow> sup_env \<Rightarrow> string \<Rightarrow> sched \<Rightarrow> sched" where
  "processMailbox h se i S =
     (case getActor (sc_sys S) i of
        None \<Rightarrow> S\<lparr>sc_sys := unschedule i (sc_sys S)\<rparr>
      | Some act \<Rightarrow>
          if \<not> jhas (mailboxes (sc_sys S)) i \<or> i \<in> set (pausedMailboxes (sc_sys S)) \<or> pending_count i (sc_sys S) = 0
          then S\<lparr>sc_sys := unschedule i (sc_sys S)\<rparr>
          else pm_loop h se MAILBOX_BATCH_SIZE (a_self act) i (S\<lparr>sc_sys := begin_processing i (sc_sys S)\<rparr>))"

text \<open>The promise of the handler an activation awaits is settled.\<close>

definition resume_run :: "handler \<Rightarrow> sup_env \<Rightarrow> string \<times> actor_ref \<times> nat \<times> string stashed_message \<Rightarrow> string + string \<Rightarrow> sched \<Rightarrow> sched" where
  "resume_run h se r result S =
     (case r of (i, w, n, m) \<Rightarrow>
        (let S1 = S\<lparr>sc_runs := remove1 r (sc_runs S)\<rparr>
         in case result of
              Inr v \<Rightarrow> pm_loop h se n w i (pm_success i m v S1)
            | Inl err \<Rightarrow>
                (case pm_failure se w i m err S1 of
                   (True, S2) \<Rightarrow> pm_loop h se n w i S2
                 | (False, S2) \<Rightarrow> pm_end i S2)))"

section \<open>Casts\<close>

definition cast_message :: "string \<Rightarrow> string stashed_message" where
  "cast_message msg = \<lparr>sm_type = CastMsg, sm_message = msg, sm_reply = None\<rparr>"

definition reject_all :: "nat list \<Rightarrow> sched \<Rightarrow> sched" where
  "reject_all ns S = fold (\<lambda>n. settle n (RejectedWith (MailboxFullError None))) ns S"

text \<open>
  Queueing a cast: what \<open>enqueue\<close> returns is ignored, so a message dropped by \<open>drop-newest\<close> is
  lost without a word; the error of the \<open>error\<close> strategy is only counted.
\<close>

definition enqueue_cast :: "string \<Rightarrow> string \<Rightarrow> sched \<Rightarrow> sched" where
  "enqueue_cast i msg S =
     (case jget (mailboxes (sc_sys S)) i of
        None \<Rightarrow> S
      | Some mb \<Rightarrow>
          (case enqueue mb (cast_message msg) of
             (mb', res, rejected) \<Rightarrow>
               (let S1 = S\<lparr>sc_sys := set_mailbox i mb' (sc_sys S)\<rparr>
                in reject_all rejected
                     (case res of Inl _ \<Rightarrow> S1 | Inr _ \<Rightarrow> on_sys (scheduleProcessMailbox i) S1))))"

text \<open>
  The node an actor id leads to: for a named actor what the registry says (\<open>lookup\<close>), else the
  node in the id; an empty node id counts as none.
\<close>

definition target_node :: "(string \<Rightarrow> string option) \<Rightarrow> actor_ref \<Rightarrow> js_error + string" where
  "target_node lookup r =
     (let loc = (case truthy_name (ref_name r) of None \<Rightarrow> None | Some n \<Rightarrow> lookup n);
          node = (case loc of None \<Rightarrow> ref_node r | Some x \<Rightarrow> x)
      in if node = '''' then
           Inl (case truthy_name (ref_name r) of Some n \<Rightarrow> RegistryLookupError n
                | None \<Rightarrow> ActorNotFoundError (ref_id r) (Some (ref_node r)))
         else Inr node)"

definition dispatchCastAsync :: "(string \<Rightarrow> string option) \<Rightarrow> actor_ref \<Rightarrow> string \<Rightarrow> sched \<Rightarrow> js_error + sched" where
  "dispatchCastAsync lookup r msg S =
     (case target_node lookup r of
        Inl e \<Rightarrow> Inl e
      | Inr node \<Rightarrow>
          if node = sys_id (sc_sys S) \<and> alive (sc_sys S) (ref_id r) then Inr (enqueue_cast (ref_id r) msg S)
          else Inr (on_sys (emit (SendTo node (CastRpc r msg))) S))"

definition dispatchCast :: "(string \<Rightarrow> string option) \<Rightarrow> actor_ref \<Rightarrow> string \<Rightarrow> sched \<Rightarrow> sched" where
  "dispatchCast lookup r msg S =
     (if truthy_name (ref_name r) = None \<and> ref_node r = sys_id (sc_sys S) then
        (if alive (sc_sys S) (ref_id r) then enqueue_cast (ref_id r) msg S else S)
      else (case dispatchCastAsync lookup r msg S of Inl _ \<Rightarrow> S | Inr S' \<Rightarrow> S'))"

text \<open>
  \<open>_syncLocalCast\<close> runs the handler at once; when it returns a promise the answer is \<open>False\<close>, and
  the caller falls back to an ordinary cast of the same message.
\<close>

definition syncLocalCast :: "handler \<Rightarrow> sup_env \<Rightarrow> string \<Rightarrow> string \<Rightarrow> sched \<Rightarrow> bool \<times> sched" where
  "syncLocalCast h se i msg S =
     (case getActor (sc_sys S) i of
        None \<Rightarrow> (False, S)
      | Some act \<Rightarrow>
          if i \<in> set (pausedMailboxes (sc_sys S)) \<or> i \<in> set (processingActors (sc_sys S)) then (False, S)
          else
            (let m = cast_message msg;
                 S1 = S\<lparr>sc_sys := begin_processing i
                         (resetIdleTimeout (env_now (se_env se)) i (set_current i (Some m) (sc_sys S)))\<rparr>;
                 restore = (\<lambda>S. S\<lparr>sc_sys := end_processing i (set_current i (a_current act) (sc_sys S))\<rparr>)
             in case run_handler h i m S1 of
                  (Returns _, S2) \<Rightarrow> (True, restore S2)
                | (Promises, S2) \<Rightarrow> (False, restore S2)
                | (Throws err, S2) \<Rightarrow> (True, restore (crash_actor se (a_self act) err S2))))"

section \<open>Calls\<close>

text \<open>
  The end of a synchronous call: a message that was not stashed is answered, a stashed one gets
  the promise, to be answered when it is processed again. In both cases the current message is
  restored, and a callback is set if messages have arrived.
\<close>

definition attach_reply :: "string \<Rightarrow> string stashed_message \<Rightarrow> nat \<Rightarrow> sys \<Rightarrow> sys" where
  "attach_reply i m n s =
     on_actor i (\<lambda>a. a\<lparr>a_stash := map (\<lambda>x. if x = m then x\<lparr>sm_reply := Some n\<rparr> else x) (a_stash a)\<rparr>) s"

definition sync_call_result :: "string \<Rightarrow> nat \<Rightarrow> string stashed_message \<Rightarrow> string + string \<Rightarrow> sched \<Rightarrow> sched" where
  "sync_call_result i n m result S =
     (case result of
        Inl err \<Rightarrow> settle n (RejectedBy err) S
      | Inr v \<Rightarrow>
          if stashed i m (sc_sys S) then S\<lparr>sc_sys := attach_reply i m n (sc_sys S)\<rparr>
          else settle n (Resolved v) S)"

definition sync_call_finish :: "string \<Rightarrow> string stashed_message option \<Rightarrow> sched \<Rightarrow> sched" where
  "sync_call_finish i prev S =
     (let s = end_processing i (set_current i prev (sc_sys S)); S1 = S\<lparr>sc_sys := s\<rparr>
      in if 0 < pending_count i s \<and> alive s i \<and> i \<notin> set (pausedMailboxes s)
         then S1\<lparr>sc_ticks := sc_ticks S1 @ [i]\<rparr>
         else S1\<lparr>sc_sys := unschedule i s\<rparr>)"

definition lock_scheduled :: "string \<Rightarrow> sys \<Rightarrow> sys" where
  "lock_scheduled i s = s\<lparr>mailboxScheduled := sadd (mailboxScheduled s) i\<rparr>"

definition syncLocalCall :: "handler \<Rightarrow> sup_env \<Rightarrow> nat \<Rightarrow> string \<Rightarrow> string \<Rightarrow> sched \<Rightarrow> sched" where
  "syncLocalCall h se n i msg S =
     (case getActor (sc_sys S) i of
        None \<Rightarrow> S
      | Some act \<Rightarrow>
          (let m = \<lparr>sm_type = CallMsg, sm_message = msg, sm_reply = None\<rparr>; prev = a_current act;
               S1 = S\<lparr>sc_sys := lock_scheduled i (begin_processing i
                       (resetIdleTimeout (env_now (se_env se)) i (set_current i (Some m) (sc_sys S))))\<rparr>
           in case run_handler h i m S1 of
                (Returns v, S2) \<Rightarrow> sync_call_finish i prev (sync_call_result i n m (Inr v) S2)
              | (Throws err, S2) \<Rightarrow> sync_call_finish i prev (sync_call_result i n m (Inl err) S2)
              | (Promises, S2) \<Rightarrow> S2\<lparr>sc_calls := sc_calls S2 @ [(i, prev, n, m)]\<rparr>))"

definition resume_call :: "string \<times> string stashed_message option \<times> nat \<times> string stashed_message \<Rightarrow>
    string + string \<Rightarrow> sched \<Rightarrow> sched" where
  "resume_call c result S =
     (case c of (i, prev, n, m) \<Rightarrow>
        sync_call_finish i prev (sync_call_result i n m result (S\<lparr>sc_calls := remove1 c (sc_calls S)\<rparr>)))"

text \<open>Queueing a call; \<open>n\<close> is its promise.\<close>

definition enqueue_call :: "nat \<Rightarrow> string \<Rightarrow> string \<Rightarrow> sched \<Rightarrow> sched" where
  "enqueue_call n i msg S =
     (case jget (mailboxes (sc_sys S)) i of
        None \<Rightarrow> settle n (RejectedWith (ActorNotFoundError i (Some (sys_id (sc_sys S))))) S
      | Some mb \<Rightarrow>
          (case enqueue mb \<lparr>sm_type = CallMsg, sm_message = msg, sm_reply = Some n\<rparr> of
             (mb', res, rejected) \<Rightarrow>
               (let S1 = S\<lparr>sc_sys := set_mailbox i mb' (sc_sys S)\<rparr>
                in reject_all rejected
                     (case res of
                        Inl e \<Rightarrow> settle n (RejectedWith e) S1
                      | Inr ok \<Rightarrow> if ok then on_sys (scheduleProcessMailbox i) S1
                                  else settle n (RejectedWith (MailboxFullError None)) S1))))"

definition dispatchCall ::
  "handler \<Rightarrow> sup_env \<Rightarrow> (string \<Rightarrow> string option) \<Rightarrow> nat \<Rightarrow> actor_ref \<Rightarrow> string \<Rightarrow> sched \<Rightarrow> sched" where
  "dispatchCall h se lookup n r msg S =
     (if isShuttingDown (sc_sys S) then settle n (RejectedWith (SystemShuttingDownError ''make calls'')) S
      else case target_node lookup r of
        Inl e \<Rightarrow> settle n (RejectedWith e) S
      | Inr node \<Rightarrow>
          (let i = ref_id r; s = sc_sys S
           in if node = sys_id s \<and> alive s i then
                (if jhas (mailboxes s) i \<and> i \<notin> set (processingActors s) \<and> i \<notin> set (pausedMailboxes s)
                    \<and> pending_count i s = 0
                 then syncLocalCall h se n i msg S else enqueue_call n i msg S)
              else on_sys (emit (RequestTo node (CallRpc r msg))) S))"

text \<open>The timer of a queued call.\<close>

definition call_timeout :: "nat \<Rightarrow> int \<Rightarrow> sched \<Rightarrow> sched" where
  "call_timeout n ms S = settle n (RejectedWith (TimeoutError ''actor call'' ms)) S"

section \<open>Messages from other nodes\<close>

text \<open>
  A cast or call of another node goes to the handler at once, past the mailbox; the error of a
  cast crashes the actor through a reference built from the id of the message.
\<close>

definition rpc_ref :: "actor_ref \<Rightarrow> actor_ref" where
  "rpc_ref r = r\<lparr>ref_original := False\<rparr>"

definition handleRpcCast :: "handler \<Rightarrow> sup_env \<Rightarrow> actor_ref \<Rightarrow> string \<Rightarrow> sched \<Rightarrow> sched" where
  "handleRpcCast h se r msg S =
     (if \<not> alive (sc_sys S) (ref_id r) then S
      else case run_handler h (ref_id r) (cast_message msg) S of
        (Returns _, S1) \<Rightarrow> S1
      | (Throws err, S1) \<Rightarrow> on_sys (handleCrash se (rpc_ref r) err) S1
      | (Promises, S1) \<Rightarrow> S1\<lparr>sc_rpcs := sc_rpcs S1 @ [r]\<rparr>)"

definition resume_rpc :: "sup_env \<Rightarrow> actor_ref \<Rightarrow> string + string \<Rightarrow> sched \<Rightarrow> sched" where
  "resume_rpc se r result S =
     (let S1 = S\<lparr>sc_rpcs := remove1 r (sc_rpcs S)\<rparr>
      in case result of Inr _ \<Rightarrow> S1 | Inl err \<Rightarrow> on_sys (handleCrash se (rpc_ref r) err) S1)"

definition handleRpcCall :: "handler \<Rightarrow> actor_ref \<Rightarrow> string \<Rightarrow> sched \<Rightarrow> (js_error + outcome) \<times> sched" where
  "handleRpcCall h r msg S =
     (if \<not> alive (sc_sys S) (ref_id r)
      then (Inl (ActorNotFoundError (ref_id r) (Some (sys_id (sc_sys S)))), S)
      else (let (res, S1) = run_handler h (ref_id r) \<lparr>sm_type = CallMsg, sm_message = msg, sm_reply = None\<rparr> S
            in (Inr res, S1)))"

section \<open>Pausing, draining, injecting\<close>

definition pauseMailbox :: "string \<Rightarrow> sys \<Rightarrow> bool \<times> sys" where
  "pauseMailbox i s =
     (if \<not> alive s i then (False, s) else (True, s\<lparr>pausedMailboxes := sadd (pausedMailboxes s) i\<rparr>))"

definition resumeMailbox :: "string \<Rightarrow> sched \<Rightarrow> bool \<times> sched" where
  "resumeMailbox i S =
     (let s = sc_sys S
      in if \<not> alive s i \<or> i \<notin> set (pausedMailboxes s) then (False, S)
         else (True, on_sys (scheduleProcessMailbox i) (S\<lparr>sc_sys := s\<lparr>pausedMailboxes := sdel (pausedMailboxes s) i\<rparr>\<rparr>)))"

definition isMailboxPaused :: "string \<Rightarrow> sys \<Rightarrow> bool" where
  "isMailboxPaused i s \<longleftrightarrow> i \<in> set (pausedMailboxes s)"

text \<open>
  \<open>drainMailbox\<close> pauses, waits until the actor is not processing or the timeout is over, and
  takes what is left: the two moments are two operations.
\<close>

definition drain_start :: "string \<Rightarrow> sys \<Rightarrow> sys" where
  "drain_start i s = (if alive s i \<and> jhas (mailboxes s) i then snd (pauseMailbox i s) else s)"

definition drain_finish :: "string \<Rightarrow> sys \<Rightarrow> string stashed_message option list \<times> sys" where
  "drain_finish i s =
     (case jget (mailboxes s) i of
        None \<Rightarrow> ([], s)
      | Some mb \<Rightarrow> (let (ms, mb') = drain mb in (ms, set_mailbox i mb' s)))"

definition injectMessages :: "string \<Rightarrow> string stashed_message list \<Rightarrow> sched \<Rightarrow> bool \<times> sched" where
  "injectMessages i ms S =
     (case jget (mailboxes (sc_sys S)) i of
        None \<Rightarrow> (False, S)
      | Some mb \<Rightarrow> (True, on_sys (scheduleProcessMailbox i) (S\<lparr>sc_sys := set_mailbox i (unshift mb ms) (sc_sys S)\<rparr>)))"

definition getPendingMessages :: "string \<Rightarrow> sys \<Rightarrow> string stashed_message option list" where
  "getPendingMessages i s = (case jget (mailboxes s) i of None \<Rightarrow> [] | Some mb \<Rightarrow> toArray mb)"

section \<open>The event loop\<close>

text \<open>One event: a callback of \<open>setImmediate\<close>, a settled promise, a timer, or a request.\<close>

inductive sched_step :: "handler \<Rightarrow> sup_env \<Rightarrow> (string \<Rightarrow> string option) \<Rightarrow> sched \<Rightarrow> sched \<Rightarrow> bool"
  for h :: handler and se :: sup_env and lookup :: "string \<Rightarrow> string option" where
  tick: "sc_ticks S = i # is \<Longrightarrow> sched_step h se lookup S (processMailbox h se i (S\<lparr>sc_ticks := is\<rparr>))"
| run_done: "r \<in> set (sc_runs S) \<Longrightarrow> sched_step h se lookup S (resume_run h se r result S)"
| call_done: "c \<in> set (sc_calls S) \<Longrightarrow> sched_step h se lookup S (resume_call c result S)"
| rpc_done: "r \<in> set (sc_rpcs S) \<Longrightarrow> sched_step h se lookup S (resume_rpc se r result S)"
| timeout: "sched_step h se lookup S (call_timeout n ms S)"
| cast: "sched_step h se lookup S (dispatchCast lookup r msg S)"
| call: "sched_step h se lookup S (dispatchCall h se lookup n r msg S)"
| sync_cast: "sched_step h se lookup S (snd (syncLocalCast h se i msg S))"
| rpc_cast: "sched_step h se lookup S (handleRpcCast h se r msg S)"
| rpc_call: "sched_step h se lookup S (snd (handleRpcCall h r msg S))"
| pause: "sched_step h se lookup S (S\<lparr>sc_sys := snd (pauseMailbox i (sc_sys S))\<rparr>)"
| resume: "sched_step h se lookup S (snd (resumeMailbox i S))"
| drain_start: "sched_step h se lookup S (S\<lparr>sc_sys := drain_start i (sc_sys S)\<rparr>)"
| drain_finish: "sched_step h se lookup S (S\<lparr>sc_sys := snd (drain_finish i (sc_sys S))\<rparr>)"
| inject: "sched_step h se lookup S (snd (injectMessages i ms S))"
| spawn: "spawn (se_env se) place c opts (sc_sys S) = Inr (r, s') \<Longrightarrow>
    sched_step h se lookup S (on_sys (\<lambda>_. s') S)"
| stop: "sched_step h se lookup S (on_sys (stop (se_env se) r) S)"

section \<open>No wakeup is lost\<close>

text \<open>
  An actor needs the loop when it has messages and is not paused; it has a token when a
  callback, an activation or a synchronous call will come back to it.
\<close>

definition needs :: "string \<Rightarrow> sys \<Rightarrow> bool" where
  "needs i s \<longleftrightarrow> 0 < pending_count i s \<and> alive s i \<and> i \<notin> set (pausedMailboxes s)"

definition token :: "string \<Rightarrow> sched \<Rightarrow> bool" where
  "token i S \<longleftrightarrow> i \<in> set (sc_ticks S) \<or> i \<in> fst ` set (sc_runs S) \<or> i \<in> fst ` set (sc_calls S)"

text \<open>The invariant, with exceptions for the actors whose code is running right now.\<close>

definition awake :: "string set \<Rightarrow> sched \<Rightarrow> bool" where
  "awake X S \<longleftrightarrow> (\<forall>i. i \<notin> X \<longrightarrow> needs i (sc_sys S) \<or> i \<in> set (mailboxScheduled (sc_sys S)) \<longrightarrow> token i S)"

text \<open>Operations that give no idle actor a message.\<close>

definition quiet :: "sys \<Rightarrow> sys \<Rightarrow> bool" where
  "quiet s s' \<longleftrightarrow> pausedMailboxes s' = pausedMailboxes s \<and>
     (\<forall>i. alive s' i \<longrightarrow> 0 < pending_count i s' \<longrightarrow> alive s i \<and> 0 < pending_count i s)"

lemma pending_new [simp]: "mb_size (new_mailbox c) = 0"
  by (simp add: new_mailbox_def)

lemma quiet_needs: "quiet s s' \<Longrightarrow> needs i s' \<Longrightarrow> needs i s"
  by (auto simp: quiet_def needs_def)

interpretation quiet: tree_relation quiet
proof
  show "quiet s s" for s by (simp add: quiet_def)
  show "quiet s t \<Longrightarrow> quiet t u \<Longrightarrow> quiet s u" for s t u by (auto simp: quiet_def)
  show "quiet s t" if "same_tree s t" for s t
  proof -
    have "settings t = settings s" "mailboxes t = mailboxes s" using that by (simp_all add: same_tree_def)
    then show ?thesis
      using settings_fields [of t s] same_tree_alive [OF that] by (simp add: quiet_def pending_count_def)
  qed
  show "quiet s (bury r s)" for r s
    using settings_fields [OF settings_bury [of r s]] by (auto simp: quiet_def pending_count_def bury_simps split: if_splits)
  show "quiet s (add_actor now c opts r parent s)" for now c opts r parent s
    by (simp add: quiet_def pending_count_def add_actor_def)
qed (simp_all add: quiet_def pending_count_def scheduleProcessMailbox_def)

lemma awake_sys:
  assumes "awake X S" and "\<And>j. j \<notin> X \<Longrightarrow> needs j s' \<Longrightarrow> needs j (sc_sys S)"
    and "\<And>j. j \<notin> X \<Longrightarrow> j \<in> set (mailboxScheduled s') \<Longrightarrow> j \<in> set (mailboxScheduled (sc_sys S))"
  shows "awake X (S\<lparr>sc_sys := s'\<rparr>)"
  using assms unfolding awake_def token_def by simp

lemma awake_weaken: "awake X S \<Longrightarrow> X \<subseteq> Y \<Longrightarrow> awake Y S"
  by (auto simp: awake_def)

lemma awake_log [simp]:
  "awake X (S\<lparr>sc_settled := x\<rparr>) = awake X S" "awake X (S\<lparr>sc_started := y\<rparr>) = awake X S"
  "awake X (S\<lparr>sc_rpcs := z\<rparr>) = awake X S"
  by (simp_all add: awake_def token_def)

lemma awake_settle [simp]: "awake X (settle n r S) = awake X S" "awake X (settle_opt k r S) = awake X S"
  by (simp_all add: settle_def settle_opt_def split: option.split)

lemma awake_reject [simp]: "awake X (reject_all ns S) = awake X S"
  by (induction ns arbitrary: S) (simp_all add: reject_all_def)

lemma settle_frame [simp]:
  "sc_sys (settle n r S) = sc_sys S" "sc_sys (settle_opt k r S) = sc_sys S" "sc_sys (reject_all ns S) = sc_sys S"
proof -
  show s: "sc_sys (settle n r S) = sc_sys S" for n r S by (simp add: settle_def)
  show "sc_sys (settle_opt k r S) = sc_sys S" by (simp add: settle_opt_def s split: option.split)
  show "sc_sys (reject_all ns S) = sc_sys S" by (induction ns arbitrary: S) (simp_all add: reject_all_def s)
qed

lemma awake_on_sys: "awake X S \<Longrightarrow> quiet (sc_sys S) (f (sc_sys S)) \<Longrightarrow> awake X (on_sys f S)"
  unfolding awake_def token_def on_sys_def Let_def using quiet_needs by auto

lemma sc_sys_on_sys [simp]: "sc_sys (on_sys f S) = f (sc_sys S)"
  by (simp add: on_sys_def Let_def)

lemma needs_frame [simp]:
  "needs i (on_actor a f s) = needs i s" "needs i (set_current a m s) = needs i s"
  "needs i (resetIdleTimeout now a s) = needs i s" "needs i (begin_processing a s) = needs i s"
  "needs i (end_processing a s) = needs i s" "needs i (unschedule a s) = needs i s"
  "needs i (lock_scheduled a s) = needs i s" "needs i (attach_reply a m' n s) = needs i s"
  "mailboxScheduled (set_current a m s) = mailboxScheduled s"
  "mailboxScheduled (resetIdleTimeout now a s) = mailboxScheduled s"
  "mailboxScheduled (begin_processing a s) = mailboxScheduled s"
  "mailboxScheduled (end_processing a s) = mailboxScheduled s"
  "mailboxScheduled (attach_reply a m' n s) = mailboxScheduled s"
  "mailboxScheduled (set_mailbox a mb s) = mailboxScheduled s"
  "mailboxScheduled (unschedule a s) = sdel (mailboxScheduled s) a"
  "mailboxScheduled (lock_scheduled a s) = sadd (mailboxScheduled s) a"
  by (simp_all add: needs_def pending_count_def set_current_def resetIdleTimeout_def begin_processing_def
      end_processing_def unschedule_def lock_scheduled_def attach_reply_def set_mailbox_def)

lemma needs_set_mailbox [simp]:
  "needs j (set_mailbox i mb s) \<longleftrightarrow> (if j = i then 0 < mb_size mb \<and> alive s i \<and> i \<notin> set (pausedMailboxes s) else needs j s)"
  by (simp add: needs_def pending_count_def set_mailbox_def)

lemma awake_mailbox: "awake X S \<Longrightarrow> awake (insert i X) (S\<lparr>sc_sys := set_mailbox i mb (sc_sys S)\<rparr>)"
  by (rule awake_sys) (auto intro: awake_weaken)

lemma scheduled_schedule:
  "set (mailboxScheduled (scheduleProcessMailbox i s)) =
     (if i \<in> set (pausedMailboxes s) \<or> \<not> alive s i then set (mailboxScheduled s) else insert i (set (mailboxScheduled s)))"
  by (auto simp: scheduleProcessMailbox_def)

lemma needs_schedule [simp]: "needs j (scheduleProcessMailbox i s) = needs j s"
  by (simp add: needs_def pending_count_def scheduleProcessMailbox_def)

text \<open>Changing a mailbox and scheduling its actor.\<close>

lemma awake_schedule:
  assumes "awake X S" and "\<And>j. j \<noteq> i \<Longrightarrow> needs j s' \<Longrightarrow> needs j (sc_sys S)"
    and "mailboxScheduled s' = mailboxScheduled (sc_sys S)"
  shows "awake X (on_sys (scheduleProcessMailbox i) (S\<lparr>sc_sys := s'\<rparr>))"
  unfolding awake_def
proof (intro allI impI)
  let ?S = "on_sys (scheduleProcessMailbox i) (S\<lparr>sc_sys := s'\<rparr>)"
  fix j assume j: "j \<notin> X" "needs j (sc_sys ?S) \<or> j \<in> set (mailboxScheduled (sc_sys ?S))"
  have old: "token j ?S" if "token j S"
    using that by (auto simp: token_def on_sys_def Let_def)
  have new: "token j ?S" if "j \<in> set (mailboxScheduled (sc_sys ?S))" "j \<notin> set (mailboxScheduled (sc_sys S))"
    using that assms(3) by (simp add: token_def on_sys_def Let_def)
  have "i \<in> set (mailboxScheduled (sc_sys ?S))" if "needs i s'"
    using that by (simp add: scheduled_schedule needs_def)
  then show "token j ?S"
    using j old new assms by (cases "j = i") (auto simp: awake_def)
qed

lemma enqueue_error_size: "enqueue mb m = (mb', Inl e, rs) \<Longrightarrow> mb_size mb' = mb_size mb"
  by (auto simp: enqueue_def Let_def split: if_splits overflow_strategy.splits prod.splits)

lemma awake_enqueue:
  assumes "awake X S" and "jget (mailboxes (sc_sys S)) i = Some mb" and "enqueue mb m = (mb', res, rej)"
  shows "awake X (on_sys (scheduleProcessMailbox i) (S\<lparr>sc_sys := set_mailbox i mb' (sc_sys S)\<rparr>))"
    and "mb_size mb' = mb_size mb \<Longrightarrow> awake X (S\<lparr>sc_sys := set_mailbox i mb' (sc_sys S)\<rparr>)"
proof -
  show "awake X (on_sys (scheduleProcessMailbox i) (S\<lparr>sc_sys := set_mailbox i mb' (sc_sys S)\<rparr>))"
    by (rule awake_schedule [OF assms(1)]) simp_all
  show "awake X (S\<lparr>sc_sys := set_mailbox i mb' (sc_sys S)\<rparr>)" if "mb_size mb' = mb_size mb"
  proof (rule awake_sys [OF assms(1)])
    have "needs i (sc_sys S) \<longleftrightarrow> 0 < mb_size mb \<and> alive (sc_sys S) i \<and> i \<notin> set (pausedMailboxes (sc_sys S))"
      by (simp add: needs_def pending_count_def assms(2))
    then show "needs j (set_mailbox i mb' (sc_sys S)) \<Longrightarrow> needs j (sc_sys S)" for j
      by (simp add: that split: if_splits)
  qed simp
qed

lemma enqueue_refused_size:
  "enqueue mb m = (mb', Inl e, rs) \<Longrightarrow> mb_size mb' = mb_size mb"
  "enqueue mb m = (mb', Inr False, rs) \<Longrightarrow> mb_size mb' = mb_size mb"
  by (auto simp: enqueue_def Let_def split: if_splits overflow_strategy.splits)

lemma awake_enqueue_cast: "awake X S \<Longrightarrow> awake X (enqueue_cast i msg S)"
proof -
  assume a: "awake X S"
  show ?thesis
  proof (cases "jget (mailboxes (sc_sys S)) i")
    case (Some mb)
    obtain mb' res rej where e: "enqueue mb (cast_message msg) = (mb', res, rej)" by (cases "enqueue mb (cast_message msg)")
    show ?thesis
      using awake_enqueue [OF a Some e] enqueue_refused_size(1) [of mb "cast_message msg" mb' _ rej] e
      by (cases res) (simp_all add: enqueue_cast_def Let_def Some)
  qed (simp add: enqueue_cast_def a)
qed

lemma awake_dispatchCast: "awake X S \<Longrightarrow> awake X (dispatchCast lookup r msg S)"
proof -
  assume a: "awake X S"
  have "awake X (on_sys (emit e) S)" for e
    by (rule awake_on_sys [OF a]) (simp add: quiet_def pending_count_def)
  with awake_enqueue_cast [OF a] show ?thesis
    using a by (auto simp: dispatchCast_def dispatchCastAsync_def split: sum.split)
qed

lemma awake_enqueue_call: "awake X S \<Longrightarrow> awake X (enqueue_call n i msg S)"
proof -
  assume a: "awake X S"
  let ?m = "\<lparr>sm_type = CallMsg, sm_message = msg, sm_reply = Some n\<rparr>"
  show ?thesis
  proof (cases "jget (mailboxes (sc_sys S)) i")
    case (Some mb)
    obtain mb' res rej where e: "enqueue mb ?m = (mb', res, rej)" by (cases "enqueue mb ?m")
    show ?thesis
    proof (cases res)
      case (Inr ok)
      then show ?thesis
        using awake_enqueue [OF a Some e] enqueue_refused_size(2) [of mb ?m mb' rej] e
        by (cases ok) (simp_all add: enqueue_call_def Let_def Some)
    qed (use awake_enqueue [OF a Some e] enqueue_refused_size(1) [of mb ?m mb' _ rej] e in
        \<open>simp add: enqueue_call_def Let_def Some\<close>)
  qed (simp add: enqueue_call_def a)
qed

lemma awake_crash_actor: "awake X S \<Longrightarrow> awake X (crash_actor se w err S)"
  by (simp add: crash_actor_def awake_on_sys quiet.keeps_handleCrash)

lemma awake_set_current: "awake X S \<Longrightarrow> awake X (S\<lparr>sc_sys := set_current i m (sc_sys S)\<rparr>)"
  by (rule awake_sys) simp_all

lemma awake_pm_end:
  assumes "awake (insert i X) S"
  shows "awake X (pm_end i S)"
  unfolding awake_def
proof (intro allI impI)
  fix j assume j: "j \<notin> X" "needs j (sc_sys (pm_end i S)) \<or> j \<in> set (mailboxScheduled (sc_sys (pm_end i S)))"
  let ?s = "end_processing i (sc_sys S)"
  let ?c = "alive ?s i \<and> jhas (mailboxes ?s) i \<and> i \<notin> set (pausedMailboxes ?s) \<and> 0 < pending_count i ?s"
  have c: "?c \<longleftrightarrow> needs i (sc_sys S)"
    by (auto simp: needs_def pending_count_def end_processing_def jhas_def split: option.splits)
  show "token j (pm_end i S)"
  proof (cases "j = i")
    case True
    then show ?thesis using j(2) c by (auto simp: pm_end_def Let_def token_def split: if_splits)
  next
    case False
    have "needs j (sc_sys S) \<or> j \<in> set (mailboxScheduled (sc_sys S))"
      using j(2) False by (auto simp: pm_end_def Let_def split: if_splits)
    then have "token j S" using assms j(1) False by (auto simp: awake_def)
    then show ?thesis by (auto simp: pm_end_def Let_def token_def)
  qed
qed

lemma awake_pm_success: "awake X S \<Longrightarrow> awake X (pm_success i m v S)"
  by (auto simp: pm_success_def Let_def intro!: awake_sys)

lemma awake_pm_failure: "awake X S \<Longrightarrow> awake X (snd (pm_failure se w i m err S))"
  by (auto simp: pm_failure_def Let_def awake_crash_actor intro!: awake_sys)

lemma awake_pm_take: "awake (insert i X) S \<Longrightarrow> awake (insert i X) (snd (pm_take now i S))"
  by (auto simp: pm_take_def Let_def split_beta split: option.split if_splits intro!: awake_sys)

lemma awake_pause: "awake X S \<Longrightarrow> awake X (S\<lparr>sc_sys := snd (pauseMailbox i (sc_sys S))\<rparr>)"
  by (cases "alive (sc_sys S) i") (auto simp: pauseMailbox_def needs_def pending_count_def intro!: awake_sys)

lemma awake_drain_start: "awake X S \<Longrightarrow> awake X (S\<lparr>sc_sys := drain_start i (sc_sys S)\<rparr>)"
  using awake_pause [of X S i] by (simp add: drain_start_def awake_sys)

lemma awake_drain_finish: "awake X S \<Longrightarrow> awake X (S\<lparr>sc_sys := snd (drain_finish i (sc_sys S))\<rparr>)"
  by (rule awake_sys) (auto simp: drain_finish_def drain_def clear_def Let_def split: option.splits if_splits)

lemma awake_resumeMailbox: "awake X S \<Longrightarrow> awake X (snd (resumeMailbox i S))"
  by (auto simp: resumeMailbox_def Let_def needs_def pending_count_def intro!: awake_schedule)

lemma awake_inject: "awake X S \<Longrightarrow> awake X (snd (injectMessages i ms S))"
  by (auto simp: injectMessages_def split: option.split intro!: awake_schedule)

text \<open>
  User code that only acts through the interface keeps the invariant, whichever actors are
  excepted: the contract of a handler.
\<close>

locale api_handler =
  fixes h :: handler
  assumes handler_awake: "awake X S \<Longrightarrow> awake X (snd (h i m S))"
begin

lemma awake_run: "awake X S \<Longrightarrow> awake X (snd (run_handler h i m S))"
  unfolding run_handler_def by (rule handler_awake) simp

lemma awake_pm_loop: "awake (insert i X) S \<Longrightarrow> awake X (pm_loop h se n w i S)"
proof (induction n arbitrary: S)
  case (Suc n)
  obtain mo S1 where t: "pm_take (env_now (se_env se)) i S = (mo, S1)" by fastforce
  have S1: "awake (insert i X) S1" using awake_pm_take [OF Suc.prems, of "env_now (se_env se)"] t by simp
  show ?case
  proof (cases mo)
    case None
    then show ?thesis
      using t S1 Suc.prems by (simp add: Let_def awake_pm_end awake_set_current awake_crash_actor)
  next
    case (Some m)
    obtain out S2 where r: "run_handler h i m S1 = (out, S2)" by fastforce
    have S2: "awake (insert i X) S2" using awake_run [OF S1, of i m] r by simp
    show ?thesis
    proof (cases out)
      case (Returns v)
      then show ?thesis
        using t Some r Suc.IH [OF awake_pm_success [OF S2]] Suc.prems by (simp add: awake_pm_end)
    next
      case (Throws err)
      obtain b S3 where f: "pm_failure se w i m err S2 = (b, S3)" by fastforce
      have "awake (insert i X) S3" using awake_pm_failure [OF S2, of se w i m err] f by simp
      then show ?thesis
        using t Some r f Throws Suc.IH Suc.prems by (cases b) (simp_all add: awake_pm_end)
    next
      case Promises
      have "awake X (S2\<lparr>sc_runs := sc_runs S2 @ [(i, w, n, m)]\<rparr>)"
        using S2 by (auto simp: awake_def token_def)
      then show ?thesis using t Some r Promises Suc.prems by (simp add: awake_pm_end)
    qed
  qed
qed (simp add: awake_pm_end)

lemma awake_processMailbox:
  assumes "awake (insert i X) S" and "i \<notin> X"
  shows "awake X (processMailbox h se i S)"
proof (cases "\<not> jhas (mailboxes (sc_sys S)) i \<or> \<not> alive (sc_sys S) i \<or> i \<in> set (pausedMailboxes (sc_sys S))
    \<or> pending_count i (sc_sys S) = 0")
  case True
  then have "\<not> needs i (sc_sys S)" by (auto simp: needs_def pending_count_def jhas_def)
  then have "awake X (S\<lparr>sc_sys := unschedule i (sc_sys S)\<rparr>)"
    using assms(1) by (auto simp: awake_def token_def)
  then show ?thesis using True by (auto simp: processMailbox_def jhas_def split: option.split)
next
  case False
  have "awake (insert i X) (S\<lparr>sc_sys := begin_processing i (sc_sys S)\<rparr>)"
    by (rule awake_sys [OF assms(1)]) simp_all
  then show ?thesis
    using False by (auto simp: processMailbox_def jhas_def intro: awake_pm_loop split: option.split)
qed

lemma awake_resume_run:
  assumes "awake {} S"
  shows "awake {} (resume_run h se r result S)"
proof -
  obtain i w n m where r: "r = (i, w, n, m)" by (cases r)
  let ?S = "S\<lparr>sc_runs := remove1 r (sc_runs S)\<rparr>"
  have S: "awake {i} ?S"
    unfolding awake_def
  proof (intro allI impI)
    fix j assume j: "j \<notin> {i}" "needs j (sc_sys ?S) \<or> j \<in> set (mailboxScheduled (sc_sys ?S))"
    then have "token j S" using assms by (auto simp: awake_def)
    moreover have "x \<in> set (remove1 r (sc_runs S))" if "x \<in> set (sc_runs S)" "fst x = j" for x
    proof -
      have "x \<noteq> r" using that(2) j(1) r by auto
      then show ?thesis using that(1) by simp
    qed
    ultimately show "token j ?S" unfolding token_def by (auto simp: image_iff)
  qed
  show ?thesis
  proof (cases result)
    case (Inr v)
    then show ?thesis using awake_pm_loop [OF awake_pm_success [OF S]] by (simp add: resume_run_def r)
  next
    case (Inl err)
    obtain b S2 where f: "pm_failure se w i m err ?S = (b, S2)" by fastforce
    have "awake {i} S2" using awake_pm_failure [OF S, of se w i m err] f by simp
    then show ?thesis
      using Inl f awake_pm_loop awake_pm_end by (cases b) (simp_all add: resume_run_def r)
  qed
qed

lemma awake_sync_finish:
  assumes "awake (insert i X) S"
  shows "awake X (sync_call_finish i prev S)"
  unfolding awake_def
proof (intro allI impI)
  let ?S = "sync_call_finish i prev S"
  fix j assume j: "j \<notin> X" "needs j (sc_sys ?S) \<or> j \<in> set (mailboxScheduled (sc_sys ?S))"
  have c: "0 < pending_count i s \<and> alive s i \<and> i \<notin> set (pausedMailboxes s) \<longleftrightarrow> needs i s" for s
    by (auto simp: needs_def)
  show "token j ?S"
  proof (cases "j = i")
    case True
    then show ?thesis using j(2) by (auto simp: sync_call_finish_def Let_def token_def c split: if_splits)
  next
    case False
    have "needs j (sc_sys S) \<or> j \<in> set (mailboxScheduled (sc_sys S))"
      using j(2) False by (auto simp: sync_call_finish_def Let_def split: if_splits)
    then have "token j S" using assms j(1) False by (auto simp: awake_def)
    then show ?thesis by (auto simp: sync_call_finish_def Let_def token_def)
  qed
qed

lemma awake_sync_result: "awake X S \<Longrightarrow> awake X (sync_call_result i n m result S)"
  by (auto simp: sync_call_result_def split: sum.split intro!: awake_sys)

lemma awake_syncLocalCall:
  assumes "awake X S"
  shows "awake X (syncLocalCall h se n i msg S)"
proof (cases "getActor (sc_sys S) i")
  case (Some act)
  let ?m = "\<lparr>sm_type = CallMsg, sm_message = msg, sm_reply = None\<rparr>"
  let ?S = "S\<lparr>sc_sys := lock_scheduled i (begin_processing i
     (resetIdleTimeout (env_now (se_env se)) i (set_current i (Some ?m) (sc_sys S))))\<rparr>"
  have S: "awake (insert i X) ?S"
    by (rule awake_sys [OF awake_weaken [OF assms]]) auto
  obtain out S2 where r: "run_handler h i ?m ?S = (out, S2)" by fastforce
  have S2: "awake (insert i X) S2" using awake_run [OF S, of i ?m] r by simp
  have P: "awake X (S2\<lparr>sc_calls := sc_calls S2 @ [(i, a_current act, n, ?m)]\<rparr>)"
    using S2 by (auto simp: awake_def token_def)
  show ?thesis
    using Some r P by (cases out) (simp_all add: syncLocalCall_def Let_def awake_sync_finish awake_sync_result S2)
qed (simp add: syncLocalCall_def assms)

lemma awake_resume_call:
  assumes "awake {} S"
  shows "awake {} (resume_call c result S)"
proof -
  obtain i prev n m where c: "c = (i, prev, n, m)" by (cases c)
  let ?S = "S\<lparr>sc_calls := remove1 c (sc_calls S)\<rparr>"
  have "awake {i} ?S"
    unfolding awake_def
  proof (intro allI impI)
    fix j assume j: "j \<notin> {i}" "needs j (sc_sys ?S) \<or> j \<in> set (mailboxScheduled (sc_sys ?S))"
    then have "token j S" using assms by (auto simp: awake_def)
    moreover have "x \<in> set (remove1 c (sc_calls S))" if "x \<in> set (sc_calls S)" "fst x = j" for x
    proof -
      have "x \<noteq> c" using that(2) j(1) c by auto
      then show ?thesis using that(1) by simp
    qed
    ultimately show "token j ?S" unfolding token_def by (auto simp: image_iff)
  qed
  then show ?thesis using awake_sync_finish awake_sync_result by (simp add: resume_call_def c)
qed

lemma awake_dispatchCall: "awake X S \<Longrightarrow> awake X (dispatchCall h se lookup n r msg S)"
proof -
  assume a: "awake X S"
  have "awake X (on_sys (emit e) S)" for e
    by (rule awake_on_sys [OF a]) (simp add: quiet_def pending_count_def)
  then show ?thesis
    using a by (auto simp: dispatchCall_def Let_def awake_syncLocalCall awake_enqueue_call split: sum.split)
qed

lemma awake_syncLocalCast: "awake X S \<Longrightarrow> awake X (snd (syncLocalCast h se i msg S))"
proof (cases "getActor (sc_sys S) i")
  case (Some act)
  assume a: "awake X S"
  let ?S = "S\<lparr>sc_sys := begin_processing i
     (resetIdleTimeout (env_now (se_env se)) i (set_current i (Some (cast_message msg)) (sc_sys S)))\<rparr>"
  have S: "awake X ?S" by (rule awake_sys [OF a]) simp_all
  obtain out S2 where r: "run_handler h i (cast_message msg) ?S = (out, S2)" by fastforce
  have S2: "awake X S2" using awake_run [OF S, of i "cast_message msg"] r by simp
  have E: "awake X (T\<lparr>sc_sys := end_processing i (set_current i p (sc_sys T))\<rparr>)" if "awake X T" for T p
    by (rule awake_sys [OF that]) simp_all
  show ?thesis
    using Some r a by (cases out) (simp_all add: syncLocalCast_def Let_def E S2 awake_crash_actor)
qed (simp add: syncLocalCast_def)

lemma awake_handleRpcCast: "awake X S \<Longrightarrow> awake X (handleRpcCast h se r msg S)"
  using awake_run [of X S "ref_id r" "cast_message msg"]
  by (auto simp: handleRpcCast_def split: prod.split outcome.split intro!: awake_on_sys quiet.keeps_handleCrash)

lemma awake_handleRpcCall: "awake X S \<Longrightarrow> awake X (snd (handleRpcCall h r msg S))"
  using awake_run [of X S "ref_id r"] by (auto simp: handleRpcCall_def split_beta Let_def)

lemma awake_resume_rpc: "awake X S \<Longrightarrow> awake X (resume_rpc se r result S)"
  by (auto simp: resume_rpc_def Let_def split: sum.split intro!: awake_on_sys quiet.keeps_handleCrash)

lemma awake_step: "sched_step h se lookup S S' \<Longrightarrow> awake {} S \<Longrightarrow> awake {} S'"
proof (induction rule: sched_step.induct)
  case (tick S i "is")
  have "awake {i} (S\<lparr>sc_ticks := is\<rparr>)" using tick by (auto simp: awake_def token_def)
  then show ?case by (intro awake_processMailbox) simp_all
next
  case (spawn place c opts S r s')
  then show ?case by (intro awake_on_sys) (simp_all add: quiet.keeps_spawn)
qed (simp_all add: awake_resume_run awake_resume_call awake_resume_rpc call_timeout_def awake_dispatchCast
    awake_dispatchCall awake_syncLocalCast awake_handleRpcCast awake_handleRpcCall awake_pause awake_resumeMailbox
    awake_drain_start awake_drain_finish awake_inject awake_on_sys quiet.keeps_stop)

lemma awake_reachable: "(sched_step h se lookup)\<^sup>*\<^sup>* S S' \<Longrightarrow> awake {} S \<Longrightarrow> awake {} S'"
  by (induction rule: rtranclp_induct) (auto intro: awake_step)

end

end
