(* ===== verification/Actor_Api.thy ===== *)
theory Actor_Api
  imports Scheduler
begin

text \<open>
  The class \<open>Actor\<close> of \<open>src/actor.ts\<close>: what user code can do through \<open>this\<close>. Every method
  is a call of the system with the actor's own reference \<open>self\<close>, or a change of its context
  (the stash, \<open>trapExit\<close>). Ids the \<open>uuid\<close> package returns are arguments. A handler that
  performs a list of these operations, and stops at the first exception, keeps every wakeup.
\<close>

section \<open>Watches, links and signals\<close>

definition actor_watch :: "string \<Rightarrow> actor_ref \<Rightarrow> actor_ref \<Rightarrow> sched \<Rightarrow> sched" where
  "actor_watch fresh self r S = on_sys (\<lambda>s. snd (watch fresh self r s)) S"

definition actor_unwatch :: "watch_ref \<Rightarrow> sched \<Rightarrow> sched" where
  "actor_unwatch w S = on_sys (unwatch w) S"

definition actor_link :: "string \<Rightarrow> actor_ref \<Rightarrow> actor_ref \<Rightarrow> sched \<Rightarrow> js_error + sched" where
  "actor_link fresh self r S =
     (case link fresh self r (sc_sys S) of Inl e \<Rightarrow> Inl e | Inr (l, s') \<Rightarrow> Inr (on_sys (\<lambda>_. s') S))"

definition actor_unlink :: "link_ref \<Rightarrow> sched \<Rightarrow> sched" where
  "actor_unlink l S = on_sys (unlink l) S"

definition setTrapExit :: "actor_ref \<Rightarrow> bool \<Rightarrow> sched \<Rightarrow> sched" where
  "setTrapExit self trap S = on_sys (on_actor (ref_id self) (\<lambda>a. a\<lparr>a_trapExit := trap\<rparr>)) S"

definition isTrapExit :: "actor_ref \<Rightarrow> sched \<Rightarrow> bool option" where
  "isTrapExit self S = map_option a_trapExit (getActor (sc_sys S) (ref_id self))"

definition actor_exit :: "sup_env \<Rightarrow> actor_ref \<Rightarrow> actor_ref \<Rightarrow> string \<Rightarrow> sched \<Rightarrow> sched" where
  "actor_exit se self target reason S = on_sys (sendExit (handleCrash se) (stop (se_env se)) self target reason) S"

section \<open>Timers\<close>

definition setIdleTimeout :: "int \<Rightarrow> actor_ref \<Rightarrow> int \<Rightarrow> sched \<Rightarrow> js_error + sched" where
  "setIdleTimeout now self ms S =
     (case setActorIdleTimeout now self ms (sc_sys S) of Inl e \<Rightarrow> Inl e | Inr s' \<Rightarrow> Inr (on_sys (\<lambda>_. s') S))"

definition getIdleTimeout :: "actor_ref \<Rightarrow> sched \<Rightarrow> int option" where
  "getIdleTimeout self S = map_option a_idleTimeout (getActor (sc_sys S) (ref_id self))"

definition sendAfter :: "string \<Rightarrow> actor_ref \<Rightarrow> string \<Rightarrow> sched \<Rightarrow> js_error + sched" where
  "sendAfter fresh self msg S =
     (case startActorTimer fresh self msg False (sc_sys S) of Inl e \<Rightarrow> Inl e | Inr (t, s') \<Rightarrow> Inr (on_sys (\<lambda>_. s') S))"

definition sendInterval :: "string \<Rightarrow> actor_ref \<Rightarrow> string \<Rightarrow> sched \<Rightarrow> js_error + sched" where
  "sendInterval fresh self msg S =
     (case startActorTimer fresh self msg True (sc_sys S) of Inl e \<Rightarrow> Inl e | Inr (t, s') \<Rightarrow> Inr (on_sys (\<lambda>_. s') S))"

definition cancelTimer :: "actor_ref \<Rightarrow> timer_ref \<Rightarrow> sched \<Rightarrow> bool \<times> sched" where
  "cancelTimer self t S = (fst (cancelActorTimer self t (sc_sys S)), on_sys (\<lambda>s. snd (cancelActorTimer self t s)) S)"

definition cancelAllTimers :: "actor_ref \<Rightarrow> sched \<Rightarrow> sched" where
  "cancelAllTimers self S = on_sys (cancelAllActorTimers self) S"

text \<open>
  The callback of a timer: an actor that is gone gets nothing; a one-shot timer is forgotten
  after its message was cast.
\<close>

definition actor_timer_fires :: "(string \<Rightarrow> string option) \<Rightarrow> actor_ref \<Rightarrow> timer_entry \<Rightarrow> sched \<Rightarrow> sched" where
  "actor_timer_fires lookup r t S =
     (if \<not> alive (sc_sys S) (ref_id r) then S
      else (let S1 = dispatchCast lookup r (te_message t) S
            in if tr_isInterval (te_ref t) then S1
               else on_sys (on_actor (ref_id r) (\<lambda>a. a\<lparr>a_timers := jdel (a_timers a) (tr_id (te_ref t))\<rparr>)) S1))"

text \<open>
  The callback of the idle timer: a timeout message if the actor has been idle for long enough,
  and the timer again; else only the timer again, for what remains.
\<close>

definition idle_timer_fires :: "int \<Rightarrow> string \<Rightarrow> sys \<Rightarrow> sys" where
  "idle_timer_fires now i s =
     (case getActor s i of
        None \<Rightarrow> s
      | Some a \<Rightarrow>
          (let idle = now - a_lastActivity a
           in if a_idleTimeout a \<le> idle
              then on_actor i (\<lambda>a. a\<lparr>a_lastActivity := now, a_idleArmed := a_idleTimeout a > 0 \<or> a_idleArmed a\<rparr>)
                     (emit (HandleInfo i (TimeoutMessage idle)) s)
              else on_actor i (\<lambda>a. a\<lparr>a_idleArmed := True\<rparr>) s))"

section \<open>The stash\<close>

definition set_stash :: "string \<Rightarrow> string stashed_message list \<Rightarrow> sys \<Rightarrow> sys" where
  "set_stash i ms s = on_actor i (\<lambda>a. a\<lparr>a_stash := ms\<rparr>) s"

definition stash :: "actor_ref \<Rightarrow> sched \<Rightarrow> sched" where
  "stash self S =
     (case getActor (sc_sys S) (ref_id self) of
        None \<Rightarrow> S
      | Some a \<Rightarrow>
          (case a_current a of None \<Rightarrow> S | Some m \<Rightarrow> on_sys (set_stash (ref_id self) (a_stash a @ [m])) S))"

definition actor_unstashAll :: "actor_ref \<Rightarrow> sched \<Rightarrow> sched" where
  "actor_unstashAll self S =
     (case getActor (sc_sys S) (ref_id self) of
        None \<Rightarrow> S
      | Some a \<Rightarrow>
          if a_stash a = [] then S
          else on_sys (set_stash (ref_id self) []) (on_sys (unstashAll (ref_id self) (a_stash a)) S))"

definition unstash :: "actor_ref \<Rightarrow> sched \<Rightarrow> sched" where
  "unstash self S =
     (case getActor (sc_sys S) (ref_id self) of
        None \<Rightarrow> S
      | Some a \<Rightarrow>
          (case a_stash a of
             [] \<Rightarrow> S
           | m # ms \<Rightarrow> on_sys (unstashAll (ref_id self) [m]) (on_sys (set_stash (ref_id self) ms) S)))"

definition clearStash :: "actor_ref \<Rightarrow> sched \<Rightarrow> sched" where
  "clearStash self S =
     (case getActor (sc_sys S) (ref_id self) of
        None \<Rightarrow> S
      | Some a \<Rightarrow>
          on_sys (set_stash (ref_id self) [])
            (fold (\<lambda>m. if sm_type m = CallMsg then settle_opt (sm_reply m) (RejectedBy ''Stashed message discarded'') else id)
               (a_stash a) S))"

section \<open>Children\<close>

definition actor_spawn :: "sup_env \<Rightarrow> actor_ref \<Rightarrow> actor_class \<Rightarrow> spawn_options \<Rightarrow> sched \<Rightarrow> js_error + sched" where
  "actor_spawn se self c opts S =
     (case spawnChild (se_env se) self c opts (sc_sys S) of Inl e \<Rightarrow> Inl e | Inr (r, s') \<Rightarrow> Inr (on_sys (\<lambda>_. s') S))"

definition stopChild :: "sup_env \<Rightarrow> actor_ref \<Rightarrow> sched \<Rightarrow> sched" where
  "stopChild se r S = on_sys (stop (se_env se) r) S"

definition getChildren :: "actor_ref \<Rightarrow> sched \<Rightarrow> actor_ref list option" where
  "getChildren self S = map_option a_children (getActor (sc_sys S) (ref_id self))"

definition countChildren :: "actor_ref \<Rightarrow> sched \<Rightarrow> nat option" where
  "countChildren self S = map_option (\<lambda>a. length (a_children a)) (getActor (sc_sys S) (ref_id self))"

section \<open>Handlers that use the interface\<close>

datatype actor_op =
    Watch string actor_ref | Unwatch watch_ref | Link string actor_ref | Unlink link_ref
  | TrapExit bool | Exit actor_ref string
  | IdleTimeout int | After string string | Interval string string | CancelTimer timer_ref | CancelTimers
  | Stash | UnstashAll | Unstash | ClearStash
  | SpawnChild actor_class spawn_options | StopChild actor_ref | SpawnActor actor_class spawn_options
  | Cast actor_ref string | Pause string | Resume string

text \<open>One operation of the actor \<open>self\<close>: the exception it throws, or the state after it.\<close>

fun perform :: "sup_env \<Rightarrow> (string \<Rightarrow> string option) \<Rightarrow> actor_ref \<Rightarrow> actor_op \<Rightarrow> sched \<Rightarrow> js_error + sched" where
  "perform se lookup self (Watch fresh r) S = Inr (actor_watch fresh self r S)"
| "perform se lookup self (Unwatch w) S = Inr (actor_unwatch w S)"
| "perform se lookup self (Link fresh r) S = actor_link fresh self r S"
| "perform se lookup self (Unlink l) S = Inr (actor_unlink l S)"
| "perform se lookup self (TrapExit b) S = Inr (setTrapExit self b S)"
| "perform se lookup self (Exit r reason) S = Inr (actor_exit se self r reason S)"
| "perform se lookup self (IdleTimeout ms) S = setIdleTimeout (env_now (se_env se)) self ms S"
| "perform se lookup self (After fresh m) S = sendAfter fresh self m S"
| "perform se lookup self (Interval fresh m) S = sendInterval fresh self m S"
| "perform se lookup self (CancelTimer t) S = Inr (snd (cancelTimer self t S))"
| "perform se lookup self CancelTimers S = Inr (cancelAllTimers self S)"
| "perform se lookup self Stash S = Inr (stash self S)"
| "perform se lookup self UnstashAll S = Inr (actor_unstashAll self S)"
| "perform se lookup self Unstash S = Inr (unstash self S)"
| "perform se lookup self ClearStash S = Inr (clearStash self S)"
| "perform se lookup self (SpawnChild c opts) S = actor_spawn se self c opts S"
| "perform se lookup self (StopChild r) S = Inr (stopChild se r S)"
| "perform se lookup self (SpawnActor c opts) S =
     (case spawn (se_env se) (se_place se opts) c opts (sc_sys S) of Inl e \<Rightarrow> Inl e | Inr (r, s') \<Rightarrow> Inr (on_sys (\<lambda>_. s') S))"
| "perform se lookup self (Cast r msg) S = Inr (dispatchCast lookup r msg S)"
| "perform se lookup self (Pause i) S = Inr (S\<lparr>sc_sys := snd (pauseMailbox i (sc_sys S))\<rparr>)"
| "perform se lookup self (Resume i) S = Inr (snd (resumeMailbox i S))"

fun perform_all :: "sup_env \<Rightarrow> (string \<Rightarrow> string option) \<Rightarrow> actor_ref \<Rightarrow> actor_op list \<Rightarrow> sched \<Rightarrow> js_error option \<times> sched" where
  "perform_all se lookup self [] S = (None, S)"
| "perform_all se lookup self (op # ops) S =
     (case perform se lookup self op S of
        Inl e \<Rightarrow> (Some e, S)
      | Inr S' \<Rightarrow> perform_all se lookup self ops S')"

text \<open>
  A handler with an outcome for each message, and the operations it performs before that. An
  exception replaces the outcome, except in an \<open>async\<close> handler, whose promise is returned anyway.
\<close>

definition scripted ::
  "sup_env \<Rightarrow> (string \<Rightarrow> string option) \<Rightarrow> (string \<Rightarrow> string stashed_message \<Rightarrow> outcome \<times> actor_op list) \<Rightarrow> handler" where
  "scripted se lookup script i m S =
     (case getActor (sc_sys S) i of
        None \<Rightarrow> (fst (script i m), S)
      | Some act \<Rightarrow>
          (case perform_all se lookup (a_self act) (snd (script i m)) S of
             (None, S') \<Rightarrow> (fst (script i m), S')
           | (Some e, S') \<Rightarrow> (if fst (script i m) = Promises then Promises else Throws (error_message e), S')))"

section \<open>The interface keeps every wakeup\<close>

lemma same_tree_watch: "same_tree s (snd (watch fresh a b s))"
  by (simp add: watch_def setupRemoteWatch_def sendDownMessage_def Let_def)

lemma same_tree_link: "link fresh a b s = Inr (l, s') \<Longrightarrow> same_tree s s'"
proof -
  assume l: "link fresh a b s = Inr (l, s')"
  have "same_tree s (setupRemoteLink k a b act s)" for k act
    by (simp add: setupRemoteLink_def ctx_link_def Let_def)
  with l show ?thesis by (auto simp: link_def Let_def ctx_link_def split: if_splits option.splits)
qed

lemma same_tree_timer: "startActorTimer fresh r m b s = Inr (t, s') \<Longrightarrow> same_tree s s'"
  by (auto simp: startActorTimer_def Let_def split: if_splits)

lemma same_tree_idle: "setActorIdleTimeout now r ms s = Inr s' \<Longrightarrow> same_tree s s'"
  by (auto simp: setActorIdleTimeout_def split: if_splits)

lemma same_tree_cancel: "same_tree s (snd (cancelActorTimer r t s))"
  by (simp add: cancelActorTimer_def split: option.split)

lemma same_tree_idle_fires: "same_tree s (idle_timer_fires now i s)"
  by (simp add: idle_timer_fires_def Let_def split: option.split)

lemma same_tree_set_stash: "same_tree s (set_stash i ms s)"
  by (simp add: set_stash_def)

lemmas same_tree_ops = same_tree_watch same_tree_unwatch same_tree_link same_tree_unlink same_tree_timer same_tree_idle
  same_tree_cancel same_tree_set_stash

context tree_relation
begin

lemma actor_ops:
  "R s (snd (watch fresh a b s))" "R s (unwatch w s)" "R s (unlink k s)" "R s (snd (cancelActorTimer r tr s))"
  "R s (cancelAllActorTimers r s)" "R s (set_stash i ms s)"
  "link fresh a b s = Inr (l, s') \<Longrightarrow> R s s'" "startActorTimer fresh r m c s = Inr (t, s') \<Longrightarrow> R s s'"
  "setActorIdleTimeout now r ms' s = Inr s' \<Longrightarrow> R s s'" "R s (on_actor i (\<lambda>a. a\<lparr>a_trapExit := c\<rparr>) s)"
  by (auto intro!: same intro: same_tree_ops simp: cancelAllActorTimers_def)

lemma keeps_sendExit: "R s (sendExit (handleCrash se) (stop env) a b reason s)"
proof -
  have "R s (sendExitMessage k a i x s)" for k i x
    by (rule same) (simp add: sendExitMessage_def)
  then show ?thesis by (simp add: sendExit_def refl keeps_stop keeps_handleCrash split: option.split)
qed

end

lemma awake_same_tree: "awake X S \<Longrightarrow> same_tree (sc_sys S) (f (sc_sys S)) \<Longrightarrow> awake X (on_sys f S)"
  by (rule awake_on_sys) (simp_all add: quiet.same)

lemma awake_unstashAll:
  assumes "awake X S"
  shows "awake X (on_sys (unstashAll i ms) S)"
proof -
  have "awake X (on_sys (\<lambda>s. s) S)" using assms by (rule awake_on_sys) (rule quiet.refl)
  moreover have "awake X (on_sys (\<lambda>s. scheduleProcessMailbox i (s\<lparr>mailboxes := jput (mailboxes s) i mb\<rparr>)) S)" for mb
  proof -
    have "awake X (on_sys (scheduleProcessMailbox i) (S\<lparr>sc_sys := set_mailbox i mb (sc_sys S)\<rparr>))"
      by (rule awake_schedule [OF assms]) simp_all
    moreover have "on_sys (\<lambda>s. scheduleProcessMailbox i (s\<lparr>mailboxes := jput (mailboxes s) i mb\<rparr>)) S =
        on_sys (scheduleProcessMailbox i) (S\<lparr>sc_sys := set_mailbox i mb (sc_sys S)\<rparr>)"
      by (simp add: on_sys_def Let_def set_mailbox_def)
    ultimately show ?thesis by simp
  qed
  ultimately show ?thesis
    by (cases "jget (mailboxes (sc_sys S)) i"; cases "ms = []") (simp_all add: on_sys_def unstashAll_def Let_def)
qed

lemma awake_clearStash: "awake X S \<Longrightarrow> awake X (clearStash self S)"
proof -
  assume a: "awake X S"
  have f: "awake X (fold (\<lambda>m. if sm_type m = CallMsg then settle_opt (sm_reply m) r else id) ms S)" for ms r
    using a by (induction ms arbitrary: S) simp_all
  show ?thesis
    by (simp add: clearStash_def a awake_same_tree [OF f] same_tree_set_stash split: option.split)
qed

lemma awake_timer_fires: "awake X S \<Longrightarrow> awake X (actor_timer_fires lookup r t S)"
  by (simp add: actor_timer_fires_def Let_def awake_dispatchCast awake_same_tree)

lemma awake_stashing:
  assumes "awake X S"
  shows "awake X (stash self S)" "awake X (actor_unstashAll self S)" "awake X (unstash self S)"
proof -
  have s: "awake X (on_sys (set_stash i ms) T)" if "awake X T" for i ms T
    by (rule awake_same_tree [OF that]) (rule same_tree_set_stash)
  show "awake X (stash self S)" "awake X (actor_unstashAll self S)" "awake X (unstash self S)"
    using assms by (auto simp: stash_def actor_unstashAll_def unstash_def intro: s awake_unstashAll split: option.split list.split)
qed

lemma awake_perform:
  assumes a: "awake X S" and p: "perform se lookup self op S = Inr S'"
  shows "awake X S'"
proof -
  note defs = actor_watch_def actor_unwatch_def actor_link_def actor_unlink_def setTrapExit_def actor_exit_def
    setIdleTimeout_def sendAfter_def sendInterval_def cancelTimer_def cancelAllTimers_def actor_spawn_def stopChild_def
  show ?thesis
    using p
    by (cases op) (auto simp: defs awake_stashing [OF a] awake_clearStash [OF a] awake_dispatchCast [OF a] awake_pause [OF a]
        awake_resumeMailbox [OF a] intro!: awake_on_sys [OF a]
        intro: quiet.actor_ops quiet.keeps_sendExit quiet.keeps_stop quiet.keeps_spawn quiet.keeps_spawnChild split: sum.splits)
qed

lemma awake_perform_all: "awake X S \<Longrightarrow> awake X (snd (perform_all se lookup self ops S))"
  by (induction ops arbitrary: S) (auto split: sum.split dest: awake_perform)

interpretation scripted: api_handler "scripted se lookup script" for se lookup script
proof
  fix X S i m assume "awake X S"
  then show "awake X (snd (scripted se lookup script i m S))"
    using awake_perform_all [of X S se lookup _ "snd (script i m)"]
    by (auto simp: scripted_def split_beta split: option.split)
qed

end
