(* ===== verification/Moved.thy ===== *)
theory Moved
  imports Lifecycle
begin

text \<open>
  What a migration tells the watchers of the actor and the actors linked with it, from
  \<open>src/actor_system.ts\<close>: \<open>notifyWatchersOfMigration\<close>, \<open>notifyLinkedActorsOfMigration\<close>, and the
  handlers of the messages they send to other nodes.
\<close>

section \<open>Watchers\<close>

text \<open>Where an actor has moved: its new reference and the old and new node.\<close>

record moved =
  mv_ref :: actor_ref
  mv_old :: string

definition moved_to :: "string \<Rightarrow> string option \<Rightarrow> string \<Rightarrow> string \<Rightarrow> moved" where
  "moved_to oldNode name newNode newId =
     \<lparr>mv_ref = \<lparr>ref_node = newNode, ref_id = newId, ref_name = name, ref_original = False\<rparr>, mv_old = oldNode\<rparr>"

definition moved_message :: "moved \<Rightarrow> watch_ref option \<Rightarrow> link_ref option \<Rightarrow> info_message" where
  "moved_message mv w l = MovedMessage w l (mv_ref mv) (mv_old mv) (ref_node (mv_ref mv)) (ref_id (mv_ref mv))"

definition sendMovedMessageToWatcher :: "moved \<Rightarrow> watch_ref \<Rightarrow> sys \<Rightarrow> sys" where
  "sendMovedMessageToWatcher mv w s =
     (if alive s (wr_watcherId w)
      then emit (HandleInfo (wr_watcherId w) (moved_message mv (Some w) None)) s else s)"

definition notifyRemoteWatcherOfMigration :: "moved \<Rightarrow> remote_watcher \<Rightarrow> sys \<Rightarrow> sys" where
  "notifyRemoteWatcherOfMigration mv rw s =
     emit (SendTo (rw_node rw) (WatchMoved (rw_refId rw) (ref_name (mv_ref mv)) (mv_old mv)
       (ref_node (mv_ref mv)) (ref_id (mv_ref mv)))) s"

definition notifyWatchersOfMigration :: "string \<Rightarrow> moved \<Rightarrow> sys \<Rightarrow> sys" where
  "notifyWatchersOfMigration a mv s =
     (let s1 = fold (notice_watch (sendMovedMessageToWatcher mv)) (jset_get (watchedBy s) a) s;
          rws = jset_get (remoteWatchers s1) a
      in if rws = [] then s1
         else (fold (notifyRemoteWatcherOfMigration mv) rws s1)
                \<lparr>remoteWatchers := jdel (remoteWatchers s1) a\<rparr>)"

definition handleRemoteWatcherMoved :: "string \<Rightarrow> string option \<Rightarrow> string \<Rightarrow> string \<Rightarrow> string \<Rightarrow> sys \<Rightarrow> sys" where
  "handleRemoteWatcherMoved refId name oldNode newNode newId s =
     (case jget (remoteWatches s) refId of
        None \<Rightarrow> s
      | Some e \<Rightarrow>
          (let s1 = s\<lparr>remoteWatches := jdel (remoteWatches s) refId\<rparr>; watcher = ref_id (rwe_watcher e)
           in if \<not> alive s1 watcher then s1
              else emit (HandleInfo watcher (moved_message (moved_to oldNode name newNode newId) (Some (rwe_ref e)) None))
                     (on_actor watcher (\<lambda>a. a\<lparr>a_watches := jdel (a_watches a) refId\<rparr>) s1)))"

section \<open>Links\<close>

text \<open>
  One link of the migrated actor. A local one: the other actor is told, the link is removed. One
  to an actor of another node that this actor set up: only the tables of this node forget it.
\<close>

definition notifyRemoteLinkExitForMigration :: "remote_link \<Rightarrow> string \<Rightarrow> sys \<Rightarrow> sys" where
  "notifyRemoteLinkExitForMigration e a s =
     s\<lparr>remoteLinks := jdel (remoteLinks s) (lr_id (rle_ref e)),
       linkedWith := jset_del (linkedWith s) a (lr_id (rle_ref e))\<rparr>"

definition notify_link_moved :: "string \<Rightarrow> moved \<Rightarrow> string \<Rightarrow> sys \<Rightarrow> sys" where
  "notify_link_moved a mv i s =
     (case jget (links s) i of
        Some e \<Rightarrow>
          (let other = ref_id (other_end a e)
           in unlink (le_ref e)
                (if alive s other then emit (HandleInfo other (moved_message mv None (Some (le_ref e)))) s else s))
      | None \<Rightarrow>
          (case jget (remoteLinks s) i of
             None \<Rightarrow> s
           | Some e \<Rightarrow> notifyRemoteLinkExitForMigration e a s))"

definition notifyLocalLinkedActorsOfMigration :: "string \<Rightarrow> moved \<Rightarrow> sys \<Rightarrow> sys" where
  "notifyLocalLinkedActorsOfMigration a mv s = fold (notify_link_moved a mv) (jset_get (linkedWith s) a) s"

definition notifyRemoteLinkersOfMigration :: "string \<Rightarrow> moved \<Rightarrow> sys \<Rightarrow> sys" where
  "notifyRemoteLinkersOfMigration a mv s =
     (let ls = jset_get (remoteLinkers s) a
      in if ls = [] then s
         else (fold (\<lambda>l. emit (SendTo (rl_node l) (LinkMoved (rl_refId l) (ref_name (mv_ref mv)) (mv_old mv)
                 (ref_node (mv_ref mv)) (ref_id (mv_ref mv))))) ls s)
               \<lparr>remoteLinkers := jdel (remoteLinkers s) a\<rparr>)"

definition notifyLinkedActorsOfMigration :: "string \<Rightarrow> moved \<Rightarrow> sys \<Rightarrow> sys" where
  "notifyLinkedActorsOfMigration a mv s = notifyRemoteLinkersOfMigration a mv (notifyLocalLinkedActorsOfMigration a mv s)"

definition handleRemoteLinkMoved :: "string \<Rightarrow> string option \<Rightarrow> string \<Rightarrow> string \<Rightarrow> string \<Rightarrow> sys \<Rightarrow> sys" where
  "handleRemoteLinkMoved refId name oldNode newNode newId s =
     (case jget (remoteLinks s) refId of
        None \<Rightarrow> s
      | Some e \<Rightarrow>
          (let a = ref_id (rle_local e);
               s1 = s\<lparr>remoteLinks := jdel (remoteLinks s) refId, linkedWith := jset_del (linkedWith s) a refId\<rparr>
           in if \<not> alive s1 a then s1
              else emit (HandleInfo a (moved_message (moved_to oldNode name newNode newId) None
                       (Some \<lparr>lr_id = refId, lr_actor1Id = a, lr_actor2Id = newId\<rparr>)))
                     (ctx_unlink refId a s1)))"

section \<open>Lemmas\<close>

interpretation mvd: watch_notice "sendMovedMessageToWatcher mv" "\<lambda>w. moved_message mv (Some w) None"
  by unfold_locales (simp add: sendMovedMessageToWatcher_def)

definition moved_rpc :: "moved \<Rightarrow> remote_watcher \<Rightarrow> out_effect" where
  "moved_rpc mv w = SendTo (rw_node w) (WatchMoved (rw_refId w) (ref_name (mv_ref mv)) (mv_old mv)
       (ref_node (mv_ref mv)) (ref_id (mv_ref mv)))"

lemma fold_remote_moved [simp]:
  "watches (fold (notifyRemoteWatcherOfMigration mv) rws s) = watches s"
  "watchedBy (fold (notifyRemoteWatcherOfMigration mv) rws s) = watchedBy s"
  "remoteWatchers (fold (notifyRemoteWatcherOfMigration mv) rws s) = remoteWatchers s"
  "outbox (fold (notifyRemoteWatcherOfMigration mv) rws s) = outbox s @ map (moved_rpc mv) rws"
  "watch_inv (fold (notifyRemoteWatcherOfMigration mv) rws s) = watch_inv s"
  by (induction rws arbitrary: s) (simp_all add: notifyRemoteWatcherOfMigration_def moved_rpc_def)

text \<open>
  When an actor migrates, every local watch on it gets exactly one MOVED message with the new
  reference, in the order the watches were set up, every watcher on another node gets one
  message, and no watch on the old actor is left: the watchers do not watch the moved actor.
\<close>

theorem moved_watchers_exactly_once:
  assumes inv: "watch_inv s" and s': "s' = notifyWatchersOfMigration a mv s"
  shows "outbox s' = outbox s @
           concat (map (notice_effect (\<lambda>w. moved_message mv (Some w) None) s) (jset_get (watchedBy s) a)) @
           map (moved_rpc mv) (jset_get (remoteWatchers s) a)
       \<and> (\<forall>i e. jget (watches s') i = Some e \<longrightarrow> wr_watchedId (we_ref e) \<noteq> a)
       \<and> jset_get (remoteWatchers s') a = [] \<and> watch_inv s'"
proof -
  define ids where "ids = jset_get (watchedBy s) a"
  define s1 where "s1 = fold (notice_watch (sendMovedMessageToWatcher mv)) ids s"
  note F = mvd.fold_notice [OF inv watchedBy_ids [OF inv], where mv = mv and a1 = a, folded ids_def, folded s1_def]
  have "wr_watchedId (we_ref e) \<noteq> a" if "jget (watches s1) i = Some e" for i e
  proof
    assume "wr_watchedId (we_ref e) = a"
    moreover have "jget (watches s) i = Some e" "i \<notin> set ids" using F that by (auto split: if_splits)
    ultimately show False using inv by (auto simp: ids_def watch_inv_def watch_index_def)
  qed
  moreover have "watches s' = watches s1" "jset_get (remoteWatchers s') a = []" "watch_inv s'"
    "outbox s' = outbox s1 @ map (moved_rpc mv) (jset_get (remoteWatchers s1) a)"
    using F by (simp_all add: s' notifyWatchersOfMigration_def Let_def ids_def [symmetric] s1_def [symmetric])
  ultimately show ?thesis using F by (simp add: ids_def)
qed

theorem moved_watchers_exactly_once_witness:
  "outbox (notifyWatchersOfMigration ''b'' (moved_to ''n'' None ''m'' ''b2'') demo_watched) =
     [HandleInfo ''a'' (MovedMessage (Some \<lparr>wr_id = ''w1'', wr_watcherId = ''a'', wr_watchedId = ''b''\<rparr>) None
        \<lparr>ref_node = ''m'', ref_id = ''b2'', ref_name = None, ref_original = False\<rparr> ''n'' ''m'' ''b2'')]"
  by (subst moved_watchers_exactly_once [OF demo_watched_inv refl, THEN conjunct1])
    (simp add: demo_watched_def watch_def Let_def jset_add_def jset_get_def sadd_def notice_effect_def
      moved_message_def moved_to_def)

section \<open>Links of a migrated actor\<close>

definition link_moved_effect :: "sys \<Rightarrow> string \<Rightarrow> moved \<Rightarrow> string \<Rightarrow> out_effect list" where
  "link_moved_effect s a mv i = (case jget (links s) i of None \<Rightarrow> []
     | Some e \<Rightarrow> if alive s (ref_id (other_end a e))
         then [HandleInfo (ref_id (other_end a e)) (moved_message mv None (Some (le_ref e)))] else [])"

lemma alive_ctx_unlink [simp]: "alive (ctx_unlink i b s) = alive s"
  by (rule ext) (simp add: ctx_unlink_def jhas_def)

lemma notify_link_moved_step:
  assumes inv: "link_inv s" and own: "\<And>e. jget (remoteLinks s) i = Some e \<Longrightarrow> ref_id (rle_local e) = a"
  shows "links (notify_link_moved a mv i s) = jdel (links s) i"
    and "remoteLinks (notify_link_moved a mv i s) = jdel (remoteLinks s) i"
    and "remoteLinkers (notify_link_moved a mv i s) = remoteLinkers s"
    and "alive (notify_link_moved a mv i s) = alive s"
    and "outbox (notify_link_moved a mv i s) = outbox s @ link_moved_effect s a mv i"
    and "link_inv (notify_link_moved a mv i s)"
proof -
  have "links (notify_link_moved a mv i s) = jdel (links s) i
    \<and> remoteLinks (notify_link_moved a mv i s) = jdel (remoteLinks s) i
    \<and> remoteLinkers (notify_link_moved a mv i s) = remoteLinkers s
    \<and> alive (notify_link_moved a mv i s) = alive s
    \<and> outbox (notify_link_moved a mv i s) = outbox s @ link_moved_effect s a mv i
    \<and> link_inv (notify_link_moved a mv i s)"
  proof (cases "jget (links s) i")
    case (Some e)
    let ?s = "if alive s (ref_id (other_end a e))
      then emit (HandleInfo (ref_id (other_end a e)) (moved_message mv None (Some (le_ref e)))) s else s"
    have k: "known_link (le_ref e) ?s" "lr_id (le_ref e) = i" "jget (remoteLinks s) i = None"
      using inv Some by (auto simp: known_link_def link_inv_def link_refs_def)
    then have "link_inv (unlink (le_ref e) ?s)" using inv by (intro link_inv_unlink) simp_all
    then show ?thesis
      using k Some by (simp add: notify_link_moved_def Let_def link_moved_effect_def, simp add: unlink_def jdel_absent)
  next
    case None
    then have "notify_link_moved a mv i s = drop_link i s"
      using inv own by (auto simp: notify_link_moved_def drop_link_def notifyRemoteLinkExitForMigration_def jdel_absent
          link_inv_def link_refs_def split: option.split)
    then show ?thesis
      using inv None by (simp add: link_inv_drop link_moved_effect_def, simp add: drop_link_def)
  qed
  then show "links (notify_link_moved a mv i s) = jdel (links s) i"
    and "remoteLinks (notify_link_moved a mv i s) = jdel (remoteLinks s) i"
    and "remoteLinkers (notify_link_moved a mv i s) = remoteLinkers s"
    and "alive (notify_link_moved a mv i s) = alive s"
    and "outbox (notify_link_moved a mv i s) = outbox s @ link_moved_effect s a mv i"
    and "link_inv (notify_link_moved a mv i s)"
    by blast+
qed


lemma fold_link_moved:
  assumes "link_inv s" and "distinct ids" and "\<forall>i\<in>set ids. \<forall>e. jget (remoteLinks s) i = Some e \<longrightarrow> ref_id (rle_local e) = a"
  shows "outbox (fold (notify_link_moved a mv) ids s) = outbox s @ concat (map (link_moved_effect s a mv) ids) \<and>
    remoteLinkers (fold (notify_link_moved a mv) ids s) = remoteLinkers s \<and>
    (\<forall>i. jget (links (fold (notify_link_moved a mv) ids s)) i = (if i \<in> set ids then None else jget (links s) i)) \<and>
    (\<forall>i. jget (remoteLinks (fold (notify_link_moved a mv) ids s)) i = (if i \<in> set ids then None else jget (remoteLinks s) i)) \<and>
    link_inv (fold (notify_link_moved a mv) ids s)"
  using assms
proof (induction ids arbitrary: s)
  case (Cons i ids)
  have own: "ref_id (rle_local e) = a" if "jget (remoteLinks s) i = Some e" for e using Cons.prems(3) that by simp
  note step = notify_link_moved_step [where mv = mv and a = a, OF Cons.prems(1) own, simplified]
  have same: "map (link_moved_effect (notify_link_moved a mv i s) a mv) ids = map (link_moved_effect s a mv) ids"
    using Cons.prems(2) by (intro map_cong) (auto simp: link_moved_effect_def step split: option.split)
  have "\<forall>j\<in>set ids. \<forall>e. jget (remoteLinks (notify_link_moved a mv i s)) j = Some e \<longrightarrow> ref_id (rle_local e) = a"
    using Cons.prems(3) by (auto simp: step)
  then show ?case
    using Cons.IH [of "notify_link_moved a mv i s"] Cons.prems(2) by (auto simp: step same)
qed simp

lemma remoteLinkers_moved:
  "outbox (notifyRemoteLinkersOfMigration a mv s) = outbox s @
     map (\<lambda>l. SendTo (rl_node l) (LinkMoved (rl_refId l) (ref_name (mv_ref mv)) (mv_old mv) (ref_node (mv_ref mv)) (ref_id (mv_ref mv))))
       (jset_get (remoteLinkers s) a)"
  "jset_get (remoteLinkers (notifyRemoteLinkersOfMigration a mv s)) a = []"
  "linkedWith (notifyRemoteLinkersOfMigration a mv s) = linkedWith s"
  "links (notifyRemoteLinkersOfMigration a mv s) = links s"
  "remoteLinks (notifyRemoteLinkersOfMigration a mv s) = remoteLinks s"
  "actors (notifyRemoteLinkersOfMigration a mv s) = actors s"
proof -
  have f: "fold (\<lambda>l. emit (f l)) ls s = s\<lparr>outbox := outbox s @ map f ls\<rparr>" for f :: "remote_linker \<Rightarrow> out_effect" and ls
    by (induction ls arbitrary: s) (simp_all add: emit_def)
  show "outbox (notifyRemoteLinkersOfMigration a mv s) = outbox s @
     map (\<lambda>l. SendTo (rl_node l) (LinkMoved (rl_refId l) (ref_name (mv_ref mv)) (mv_old mv) (ref_node (mv_ref mv)) (ref_id (mv_ref mv))))
       (jset_get (remoteLinkers s) a)"
    "jset_get (remoteLinkers (notifyRemoteLinkersOfMigration a mv s)) a = []"
    "linkedWith (notifyRemoteLinkersOfMigration a mv s) = linkedWith s"
    "links (notifyRemoteLinkersOfMigration a mv s) = links s"
    "remoteLinks (notifyRemoteLinkersOfMigration a mv s) = remoteLinks s"
    "actors (notifyRemoteLinkersOfMigration a mv s) = actors s"
    by (simp_all add: notifyRemoteLinkersOfMigration_def Let_def f)
qed

text \<open>
  When an actor migrates, each local actor linked with it gets one MOVED message and each actor of
  another node that linked itself to it gets one message, and no link of the old actor is left. An
  actor of another node that the migrating actor had linked itself to is not told: its end of the
  link stays in the tables of its node.
\<close>

theorem moved_links:
  assumes inv: "link_inv s" and s': "s' = notifyLinkedActorsOfMigration a mv s"
  shows "outbox s' = outbox s @ concat (map (link_moved_effect s a mv) (jset_get (linkedWith s) a)) @
           map (\<lambda>l. SendTo (rl_node l) (LinkMoved (rl_refId l) (ref_name (mv_ref mv)) (mv_old mv)
               (ref_node (mv_ref mv)) (ref_id (mv_ref mv)))) (jset_get (remoteLinkers s) a)
     \<and> jset_get (linkedWith s') a = [] \<and> jset_get (remoteLinkers s') a = [] \<and> (\<forall>i. a \<notin> link_ends s' i)"
proof -
  let ?ids = "jset_get (linkedWith s) a"
  let ?f = "fold (notify_link_moved a mv) ?ids s"
  have own: "\<forall>i\<in>set ?ids. \<forall>e. jget (remoteLinks s) i = Some e \<longrightarrow> ref_id (rle_local e) = a"
    using remote_ends [OF inv] by blast
  have "distinct ?ids" using inv by (simp add: link_inv_def link_index_def)
  note F = fold_link_moved [where mv = mv and a = a, OF inv this own]
  have ends: "a \<notin> link_ends s' i" for i
  proof
    assume m: "a \<in> link_ends s' i"
    then have "i \<notin> set ?ids" using F by (auto simp: link_ends_def s' notifyLinkedActorsOfMigration_def
          notifyLocalLinkedActorsOfMigration_def remoteLinkers_moved split: if_splits)
    moreover from this have "link_ends s' i = link_ends s i"
      using F by (simp add: link_ends_def s' notifyLinkedActorsOfMigration_def notifyLocalLinkedActorsOfMigration_def remoteLinkers_moved)
    ultimately show False using m inv by (simp add: link_inv_def link_index_def)
  qed
  moreover have "linkedWith s' = linkedWith ?f" "link_ends s' = link_ends ?f"
    by (simp_all add: s' notifyLinkedActorsOfMigration_def notifyLocalLinkedActorsOfMigration_def remoteLinkers_moved
        link_ends_def fun_eq_iff)
  then have "i \<notin> set (jset_get (linkedWith s') a)" for i
    using ends [of i] F by (simp add: link_inv_def link_index_def)
  then have "jset_get (linkedWith s') a = []" by (cases "jset_get (linkedWith s') a") auto
  ultimately show ?thesis
    using F by (simp add: s' notifyLinkedActorsOfMigration_def notifyLocalLinkedActorsOfMigration_def remoteLinkers_moved)
qed


theorem moved_links_witness:
  "outbox (notifyLinkedActorsOfMigration ''a'' (moved_to ''n'' None ''m'' ''a2'') demo_linked) =
     [HandleInfo ''b'' (MovedMessage None (Some \<lparr>lr_id = ''l1'', lr_actor1Id = ''a'', lr_actor2Id = ''b''\<rparr>)
        \<lparr>ref_node = ''m'', ref_id = ''a2'', ref_name = None, ref_original = False\<rparr> ''n'' ''m'' ''a2'')]"
  by (subst moved_links [OF demo_linked_inv refl, THEN conjunct1])
    (simp add: demo_linked_def link_def Let_def ctx_link_def jset_add_def jset_get_def sadd_def link_moved_effect_def
      other_end_def moved_message_def moved_to_def new_actor_def jhas_def jmodify_def)

text \<open>
  The other direction. Actor \<open>a\<close> linked itself to \<open>b\<close> on node \<open>m\<close>: node \<open>m\<close> remembers \<open>a\<close> as a
  linker of \<open>b\<close>. After \<open>a\<close> has moved nothing is sent to \<open>m\<close>, and when \<open>b\<close> fails later, its node
  sends the exit to the old node, which ignores it: the link has silently gone.
\<close>

theorem outgoing_link_lost:
  assumes "jget (remoteLinks s) i = Some e" and "jget (links s) i = None" and "lr_id (rle_ref e) = i"
    and "jset_get (linkedWith s) a = [i]" and "jset_get (remoteLinkers s) a = []"
  shows "outbox (notifyLinkedActorsOfMigration a mv s) = outbox s
     \<and> handleRemoteLinkExit crash i b wire (notifyLinkedActorsOfMigration a mv s) = notifyLinkedActorsOfMigration a mv s"
  using assms
  by (simp add: notifyLinkedActorsOfMigration_def notifyLocalLinkedActorsOfMigration_def notifyRemoteLinkersOfMigration_def
      notify_link_moved_def notifyRemoteLinkExitForMigration_def handleRemoteLinkExit_def)

definition demo_outgoing :: sys where
  "demo_outgoing = (case link ''l1'' (demo_ref ''n'' ''a'') (demo_ref ''m'' ''b'') (demo_sys ''n'' [''a''])
    of Inr (_, s) \<Rightarrow> s | Inl _ \<Rightarrow> demo_sys ''n'' [])"

theorem outgoing_link_lost_witness:
  "outbox (notifyLinkedActorsOfMigration ''a'' (moved_to ''n'' None ''k'' ''a2'') demo_outgoing) = outbox demo_outgoing"
proof -
  obtain e where "jget (remoteLinks demo_outgoing) ''l1'' = Some e" "jget (links demo_outgoing) ''l1'' = None"
    "lr_id (rle_ref e) = ''l1''" "jset_get (linkedWith demo_outgoing) ''a'' = [''l1'']"
    "jset_get (remoteLinkers demo_outgoing) ''a'' = []"
    by (simp add: demo_outgoing_def link_def setupRemoteLink_def Let_def ctx_link_def jset_add_def jset_get_def sadd_def new_actor_def)
  from outgoing_link_lost [OF this] show ?thesis by blast
qed

end
