(* ===== verification/Node.thy ===== *)
theory Node
  imports Actor_Api Moved
begin

text \<open>
  A whole node: the event loop of \<open>Scheduler\<close>, the operations of actors outside a handler, the
  messages and requests of other nodes (\<open>_handleRpcCast\<close>, \<open>_handleRpcCall\<close>), the answers to its
  own, timers and node failure, as one step relation. Every reachable state is well formed:
  the tables hold the same actors, every actor is what its metadata says, and every mailbox is
  a well-formed ring.
\<close>

section \<open>Messages and requests\<close>

text \<open>\<open>_handleRpcCast\<close>: an exception of the \<open>spawn\<close> message goes to the transport.\<close>

fun receive :: "handler \<Rightarrow> sup_env \<Rightarrow> (string \<Rightarrow> actor_class option) \<Rightarrow> rpc \<Rightarrow> sched \<Rightarrow> js_error + sched" where
  "receive h se classes (WatchRemove l a) S = Inr (on_sys (handleRemoteWatchRemove l a) S)"
| "receive h se classes (WatchDown l a reason) S = Inr (on_sys (handleRemoteDown l a reason) S)"
| "receive h se classes (LinkRemove l a) S = Inr (on_sys (handleRemoteLinkRemove l a) S)"
| "receive h se classes (LinkExit l a reason) S = Inr (on_sys (handleRemoteLinkExit (handleCrash se) l a reason) S)"
| "receive h se classes (WatchMoved l name old new i) S = Inr (on_sys (handleRemoteWatcherMoved l name old new i) S)"
| "receive h se classes (LinkMoved l name old new i) S = Inr (on_sys (handleRemoteLinkMoved l name old new i) S)"
| "receive h se classes (ChildCrash i node p reason msg) S = Inr (on_sys (handleRemoteChildCrash se i) S)"
| "receive h se classes (SpawnRpc cname r opts) S =
     (case handleSpawnRpc (se_env se) (se_place se opts) classes cname r opts (sc_sys S) of
        Inl e \<Rightarrow> Inl e
      | Inr (r', s') \<Rightarrow> Inr (on_sys (\<lambda>_. s') S))"
| "receive h se classes (CastRpc r msg) S = Inr (handleRpcCast h se r msg S)"
| "receive h se classes _ S = Inr S"

text \<open>The answers \<open>_handleRpcCall\<close> gives to the requests between actor systems.\<close>

datatype rpc_reply =
    WatchReply add_response | LinkReply add_response
  | ChildSpawnReply "string + string" | ChildRestartReply "string + string" | ChildStopReply bool
  | CallReply "js_error + outcome"

definition reply_sys :: "('a \<Rightarrow> rpc_reply) \<Rightarrow> (sys \<Rightarrow> 'a \<times> sys) \<Rightarrow> sched \<Rightarrow> rpc_reply option \<times> sched" where
  "reply_sys mk f S = (Some (mk (fst (f (sc_sys S)))), on_sys (\<lambda>s. snd (f s)) S)"

fun answer :: "handler \<Rightarrow> sup_env \<Rightarrow> (string \<Rightarrow> actor_class option) \<Rightarrow> rpc \<Rightarrow> sched \<Rightarrow> rpc_reply option \<times> sched" where
  "answer h se classes (WatchAdd l node a b) = reply_sys WatchReply (handleRemoteWatchAdd l node a b)"
| "answer h se classes (LinkAdd l node a b trap) = reply_sys LinkReply (handleRemoteLinkAdd l node a b trap)"
| "answer h se classes (ChildSpawn i cname opts node p) =
     reply_sys ChildSpawnReply (handleRemoteChildSpawn (env_now (se_env se)) classes i cname opts node p)"
| "answer h se classes (ChildRestart old new node p) =
     reply_sys ChildRestartReply (handleRemoteChildRestart (se_env se) classes old new node p)"
| "answer h se classes (ChildStop i node p) = reply_sys ChildStopReply (handleRemoteChildStop (se_env se) i)"
| "answer h se classes (CallRpc r msg) = (\<lambda>S. case handleRpcCall h r msg S of (x, S') \<Rightarrow> (Some (CallReply x), S'))"
| "answer h se classes _ = (\<lambda>S. (None, S))"

section \<open>The steps of a node\<close>

inductive node_step ::
  "handler \<Rightarrow> sup_env \<Rightarrow> (string \<Rightarrow> string option) \<Rightarrow> (string \<Rightarrow> actor_class option) \<Rightarrow> sched \<Rightarrow> sched \<Rightarrow> bool"
  for h :: handler and se :: sup_env and lookup :: "string \<Rightarrow> string option" and classes :: "string \<Rightarrow> actor_class option" where
  event: "sched_step h se lookup S S' \<Longrightarrow> node_step h se lookup classes S S'"
| act: "perform se lookup self op S = Inr S' \<Longrightarrow> node_step h se lookup classes S S'"
| message: "receive h se classes m S = Inr S' \<Longrightarrow> node_step h se lookup classes S S'"
| request: "node_step h se lookup classes S (snd (answer h se classes m S))"
| watch_reply: "node_step h se lookup classes S (on_sys (remoteWatchReply w a reply) S)"
| link_reply: "node_step h se lookup classes S (on_sys (remoteLinkReply (handleCrash se) l a reply) S)"
| node_failure: "node_step h se lookup classes S (on_sys (handleNodeFailure se dead) S)"
| timer: "node_step h se lookup classes S (actor_timer_fires lookup r t S)"
| idle: "node_step h se lookup classes S (on_sys (idle_timer_fires now i) S)"

section \<open>What every step keeps\<close>

lemma same_tree_messages:
  "same_tree s (handleRemoteWatchRemove l a s)" "same_tree s (handleRemoteDown l a reason s)"
  "same_tree s (handleRemoteLinkRemove l a s)" "same_tree s (handleRemoteWatcherMoved l name old new i s)"
  "same_tree s (handleRemoteLinkMoved l name old new i s)"
  "same_tree s (snd (handleRemoteWatchAdd l node a b s))" "same_tree s (snd (handleRemoteLinkAdd l node a b trap s))"
  "same_tree s (remoteWatchReply w a reply s)"
proof -
  show down: "same_tree s (handleRemoteDown l a reason s)" for l reason
    by (simp add: handleRemoteDown_def Let_def split: option.split)
  show "same_tree s (remoteWatchReply w a reply s)"
    by (auto simp: remoteWatchReply_def down split: sum.split add_response.split)
qed (simp_all add: handleRemoteWatchRemove_def handleRemoteLinkRemove_def handleRemoteWatcherMoved_def handleRemoteLinkMoved_def
    handleRemoteWatchAdd_def handleRemoteLinkAdd_def Let_def ctx_unlink_def split: option.split)

context tree_relation
begin

lemma keeps_remoteLinkReply: "R s (remoteLinkReply (handleCrash se) l a reply s)"
  by (auto simp: remoteLinkReply_def refl keeps_handleRemoteLinkExit split: sum.split add_response.split)

lemma keeps_handleSpawnRpc: "handleSpawnRpc env place classes cname r opts s = Inr (r', s') \<Longrightarrow> R s s'"
  by (auto simp: handleSpawnRpc_def keeps_spawn split: option.splits)

lemmas messages = same_tree_messages [THEN same] same_tree_idle_fires [THEN same] keeps_handleRemoteLinkExit keeps_handleRemoteChildCrash
  keeps_handleSpawnRpc keeps_handleRemoteChildSpawn keeps_handleRemoteChildRestart keeps_handleRemoteChildStop keeps_remoteLinkReply keeps_handleNodeFailure

end

context api_handler
begin

lemma awake_receive: "receive h se classes m S = Inr S' \<Longrightarrow> awake X S \<Longrightarrow> awake X S'"
  by (cases m) (auto intro!: awake_on_sys awake_handleRpcCast intro: quiet.messages split: sum.splits)

lemma awake_answer: "awake X S \<Longrightarrow> awake X (snd (answer h se classes m S))"
  using awake_handleRpcCall [of X S]
  by (cases m) (auto simp: reply_sys_def split_beta intro!: awake_on_sys intro: quiet.messages)

lemma awake_node_step: "node_step h se lookup classes S S' \<Longrightarrow> awake {} S \<Longrightarrow> awake {} S'"
proof (induction rule: node_step.induct)
  case (event S S')
  then show ?case by (simp add: awake_step)
qed (auto intro: awake_perform awake_receive awake_answer awake_timer_fires awake_on_sys quiet.messages)

lemma awake_node_reachable: "(node_step h se lookup classes)\<^sup>*\<^sup>* S S' \<Longrightarrow> awake {} S \<Longrightarrow> awake {} S'"
  by (induction rule: rtranclp_induct) (auto intro: awake_node_step)

end

section \<open>Well-formed nodes\<close>

definition node_ok :: "sys \<Rightarrow> bool" where
  "node_ok s \<longleftrightarrow> jwf (actors s) \<and> jwf (mailboxes s) \<and> jwf (actorMetadata s) \<and>
     (\<forall>i. jhas (mailboxes s) i = alive s i) \<and>
     (\<forall>i. jhas (actorMetadata s) i = alive s i) \<and>
     (\<forall>i act. getActor s i = Some act \<longrightarrow> ref_id (a_self act) = i \<and> ref_node (a_self act) = sys_id s \<and>
        (\<exists>m. jget (actorMetadata s) i = Some m \<and> md_class m = a_class act)) \<and>
     (\<forall>i mb. jget (mailboxes s) i = Some mb \<longrightarrow> (\<exists>xs. mb_rep mb xs))"

text \<open>What \<open>node_ok\<close> reads of an actor.\<close>

definition faces :: "sys \<Rightarrow> string \<Rightarrow> (actor_class \<times> actor_ref) option" where
  "faces s i = map_option (\<lambda>a. (a_class a, a_self a)) (getActor s i)"

lemma absent_faces: "(jget m i = None \<longleftrightarrow> faces s i = None) = (jhas m i = alive s i)"
  by (auto simp: faces_def jhas_def)

lemma node_ok_faces: "node_ok s \<longleftrightarrow> jwf (actors s) \<and> jwf (mailboxes s) \<and> jwf (actorMetadata s) \<and>
     (\<forall>i. jget (mailboxes s) i = None \<longleftrightarrow> faces s i = None) \<and>
     (\<forall>i. jget (actorMetadata s) i = None \<longleftrightarrow> faces s i = None) \<and>
     (\<forall>i c r. faces s i = Some (c, r) \<longrightarrow> ref_id r = i \<and> ref_node r = sys_id s \<and>
        (\<exists>m. jget (actorMetadata s) i = Some m \<and> md_class m = c)) \<and>
     (\<forall>i mb. jget (mailboxes s) i = Some mb \<longrightarrow> (\<exists>xs. mb_rep mb xs))"
proof -
  have "(\<forall>c r. faces s i = Some (c, r) \<longrightarrow> Q c r) = (\<forall>act. getActor s i = Some act \<longrightarrow> Q (a_class act) (a_self act))" for Q i
    by (auto simp: faces_def)
  then show ?thesis by (simp only: node_ok_def absent_faces)
qed

lemma node_ok_cong:
  assumes "faces t = faces s" and "jkeys (actors t) = jkeys (actors s)" and "mailboxes t = mailboxes s"
    and "actorMetadata t = actorMetadata s" and "sys_id t = sys_id s"
  shows "node_ok t = node_ok s"
  unfolding node_ok_faces by (simp only: assms)

lemma node_ok_on_actor:
  "(\<And>x. a_class (f x) = a_class x) \<Longrightarrow> (\<And>x. a_self (f x) = a_self x) \<Longrightarrow> node_ok (on_actor a f s) = node_ok s"
  by (rule node_ok_cong) (simp_all add: faces_def fun_eq_iff option.map_comp comp_def)

lemma node_ok_update [simp]:
  "node_ok (s\<lparr>childRestarts := a1\<rparr>) = node_ok s" "node_ok (s\<lparr>rootRestarts := a2\<rparr>) = node_ok s"
  "node_ok (s\<lparr>remoteChildren := a3\<rparr>) = node_ok s" "node_ok (s\<lparr>remoteParents := a4\<rparr>) = node_ok s"
  "node_ok (s\<lparr>uuids := a5\<rparr>) = node_ok s" "node_ok (s\<lparr>mailboxScheduled := a6\<rparr>) = node_ok s"
  "node_ok (s\<lparr>pausedMailboxes := a7\<rparr>) = node_ok s" "node_ok (s\<lparr>processingActors := a8\<rparr>) = node_ok s"
  "node_ok (emit e s) = node_ok s"
  by (rule node_ok_cong; simp add: faces_def fun_eq_iff)+

lemma node_ok_schedule [simp]: "node_ok (scheduleProcessMailbox i s) = node_ok s"
  by (simp add: scheduleProcessMailbox_def)

lemma node_ok_add:
  assumes "node_ok s" and "ref_node r = sys_id s"
  shows "node_ok (add_actor now c opts r parent s)"
  using assms by (auto simp: node_ok_def add_actor_def new_actor_def intro: exI [of _ "[]"] split: if_splits)

lemma node_ok_bury: "node_ok s \<Longrightarrow> node_ok (bury r s)"
  by (auto simp: bury_def unregister_name_def delete_actor_def node_ok_def split: option.splits if_splits)

lemma node_ok_same_tree: "same_tree s t \<Longrightarrow> node_ok t = node_ok s"
proof -
  assume t: "same_tree s t"
  have "faces u i = map_option (\<lambda>(c, r, _). (c, r)) (shapes u i)" for u i
    by (simp add: faces_def shapes_def option.map_comp comp_def)
  with t have "faces t = faces s" by (simp add: same_tree_def fun_eq_iff)
  then show ?thesis using t by (intro node_ok_cong) (simp_all add: same_tree_def)
qed

interpretation typed: tree_relation "\<lambda>s t. node_ok s \<longrightarrow> node_ok t"
  by unfold_locales (auto simp: node_ok_same_tree node_ok_on_actor intro: node_ok_bury node_ok_add)

lemma node_ok_set_mailbox:
  "node_ok s \<Longrightarrow> jhas (mailboxes s) i \<Longrightarrow> mb_rep mb xs \<Longrightarrow> node_ok (set_mailbox i mb s)"
  by (auto simp: node_ok_def set_mailbox_def jhas_def split: if_splits)

lemma node_ok_frame [simp]:
  "node_ok (set_current i m s) = node_ok s" "node_ok (resetIdleTimeout now i s) = node_ok s"
  "node_ok (begin_processing i s) = node_ok s" "node_ok (end_processing i s) = node_ok s"
  "node_ok (unschedule i s) = node_ok s" "node_ok (lock_scheduled i s) = node_ok s"
  "node_ok (attach_reply i m' n s) = node_ok s" "node_ok (set_stash i ms s) = node_ok s"
  by (simp_all add: set_current_def resetIdleTimeout_def begin_processing_def end_processing_def unschedule_def
      lock_scheduled_def attach_reply_def set_stash_def node_ok_on_actor)

section \<open>Every step keeps a node well formed\<close>

abbreviation sc_ok :: "sched \<Rightarrow> bool" where
  "sc_ok S \<equiv> node_ok (sc_sys S)"

lemma sc_ok_log [simp]: "sc_ok (S\<lparr>sc_started := a\<rparr>) = sc_ok S" "sc_ok (S\<lparr>sc_ticks := b\<rparr>) = sc_ok S"
  "sc_ok (S\<lparr>sc_runs := c\<rparr>) = sc_ok S" "sc_ok (S\<lparr>sc_calls := d\<rparr>) = sc_ok S" "sc_ok (S\<lparr>sc_rpcs := e\<rparr>) = sc_ok S"
  by simp_all

lemma sc_ok_on_sys: "sc_ok S \<Longrightarrow> (node_ok (sc_sys S) \<longrightarrow> node_ok (f (sc_sys S))) \<Longrightarrow> sc_ok (on_sys f S)"
  by simp

lemma mailbox_rep: "node_ok s \<Longrightarrow> jget (mailboxes s) i = Some mb \<Longrightarrow> \<exists>xs. mb_rep mb xs"
  by (simp add: node_ok_def)

lemma sc_ok_set_mailbox:
  "sc_ok S \<Longrightarrow> jget (mailboxes (sc_sys S)) i = Some mb \<Longrightarrow> \<exists>xs. mb_rep mb' xs \<Longrightarrow>
     node_ok (set_mailbox i mb' (sc_sys S))"
  by (auto simp: jhas_def intro: node_ok_set_mailbox)

lemma node_ok_enqueue:
  assumes "node_ok s" and "jget (mailboxes s) i = Some mb" and "enqueue mb m = (mb', x)"
  shows "node_ok (set_mailbox i mb' s)"
proof -
  obtain xs where "mb_rep mb xs" using mailbox_rep [OF assms(1,2)] by blast
  then obtain ys where "mb_rep mb' ys" using enqueue_keeps_rep [of mb xs m] assms(3) by auto
  then show ?thesis using assms(1,2) by (intro node_ok_set_mailbox) (simp_all add: jhas_def)
qed

lemma sc_ok_enqueue_cast: "sc_ok S \<Longrightarrow> sc_ok (enqueue_cast i msg S)"
  by (auto simp: enqueue_cast_def Let_def intro: node_ok_enqueue split: option.split prod.split sum.split)

lemma sc_ok_enqueue_call: "sc_ok S \<Longrightarrow> sc_ok (enqueue_call n i msg S)"
  by (auto simp: enqueue_call_def Let_def intro: node_ok_enqueue split: option.split prod.split sum.split)

lemma sc_ok_dispatchCast: "sc_ok S \<Longrightarrow> sc_ok (dispatchCast lookup r msg S)"
  by (auto simp: dispatchCast_def dispatchCastAsync_def sc_ok_enqueue_cast split: sum.split)

lemma sc_ok_crash: "sc_ok S \<Longrightarrow> sc_ok (crash_actor se w err S)"
  by (simp add: crash_actor_def typed.keeps_handleCrash [rule_format])

text \<open>A message is taken only when there is one, so it is never undefined.\<close>

lemma pm_take_ok: "sc_ok S \<Longrightarrow> sc_ok (snd (pm_take now i S)) \<and> (pm_next i S \<longrightarrow> fst (pm_take now i S) \<noteq> None)"
proof (cases "jget (mailboxes (sc_sys S)) i")
  case (Some mb)
  assume ok: "sc_ok S"
  then obtain xs where rep: "mb_rep mb xs" using mailbox_rep Some by blast
  have "(\<exists>ys. mb_rep (snd (dequeue mb)) ys) \<and> (xs \<noteq> [] \<longrightarrow> fst (dequeue mb) \<noteq> None)"
  proof (cases xs)
    case (Cons x ys)
    then show ?thesis using dequeue_Cons [of mb x ys] rep by blast
  qed (use rep dequeue_empty [of mb] in auto)
  moreover have "pm_next i S \<Longrightarrow> xs \<noteq> []" using mb_rep_size [OF rep] Some by (auto simp: pm_next_def pending_count_def)
  ultimately show ?thesis using ok Some by (auto simp: pm_take_def split_beta sc_ok_set_mailbox)
qed (simp add: pm_take_def pm_next_def pending_count_def)

lemma sc_ok_pm:
  "sc_ok S \<Longrightarrow> sc_ok (pm_end i S)" "sc_ok S \<Longrightarrow> sc_ok (pm_success i m v S)"
  "sc_ok S \<Longrightarrow> sc_ok (snd (pm_failure se w i m err S))" "sc_ok S \<Longrightarrow> sc_ok (sync_call_finish i prev S)"
  "sc_ok S \<Longrightarrow> sc_ok (sync_call_result i n m result S)" "sc_ok S \<Longrightarrow> sc_ok (resume_rpc se r result S)"
  by (auto simp: pm_end_def pm_success_def pm_failure_def sync_call_finish_def sync_call_result_def resume_rpc_def Let_def
      sc_ok_crash typed.keeps_handleCrash [rule_format] split: sum.split)

lemma sc_ok_mailboxes:
  "sc_ok S \<Longrightarrow> node_ok (snd (pauseMailbox i (sc_sys S)))" "sc_ok S \<Longrightarrow> sc_ok (snd (resumeMailbox i S))"
  "sc_ok S \<Longrightarrow> node_ok (drain_start i (sc_sys S))"
  "sc_ok S \<Longrightarrow> node_ok (snd (drain_finish i (sc_sys S)))" "sc_ok S \<Longrightarrow> sc_ok (snd (injectMessages i ms S))"
proof -
  show "sc_ok S \<Longrightarrow> node_ok (snd (pauseMailbox i (sc_sys S)))" "sc_ok S \<Longrightarrow> sc_ok (snd (resumeMailbox i S))"
    "sc_ok S \<Longrightarrow> node_ok (drain_start i (sc_sys S))"
    by (simp_all add: pauseMailbox_def resumeMailbox_def drain_start_def Let_def)
  assume ok: "sc_ok S"
  have r: "\<exists>xs. mb_rep (clear mb) xs" "\<exists>xs. mb_rep (unshift mb ms) xs" if "jget (mailboxes (sc_sys S)) i = Some mb" for mb
    using mailbox_rep [OF ok that] mb_rep_clear mb_rep_unshift by blast+
  show "node_ok (snd (drain_finish i (sc_sys S)))" "sc_ok (snd (injectMessages i ms S))"
    using ok r by (auto simp: drain_finish_def drain_def injectMessages_def Let_def sc_ok_set_mailbox split: option.split)
qed

lemma sc_ok_perform:
  assumes "sc_ok S" and "perform se lookup self op S = Inr S'"
  shows "sc_ok S'"
proof -
  have k: "R \<longrightarrow> T \<Longrightarrow> R \<Longrightarrow> T" for R T by simp
  have u: "node_ok (unstashAll i ms s)" if "node_ok s" for i ms s
  proof -
    have "node_ok (set_mailbox i (unshift mb ms) s)" if "jget (mailboxes s) i = Some mb" for mb
      using mailbox_rep [OF \<open>node_ok s\<close> that] \<open>node_ok s\<close> that by (auto simp: jhas_def intro: node_ok_set_mailbox mb_rep_unshift)
    then show ?thesis using that by (simp add: unstashAll_def set_mailbox_def split: option.split)
  qed
  have f: "sc_sys (fold (\<lambda>m. if sm_type m = CallMsg then settle_opt (sm_reply m) r else id) ms T) = sc_sys T" for ms r T
    by (induction ms arbitrary: T) simp_all
  show ?thesis
    using assms
    by (cases op) (auto simp: actor_watch_def actor_unwatch_def actor_link_def actor_unlink_def setTrapExit_def actor_exit_def
        setIdleTimeout_def sendAfter_def sendInterval_def cancelTimer_def cancelAllTimers_def actor_spawn_def stopChild_def
        stash_def actor_unstashAll_def unstash_def clearStash_def f u sc_ok_dispatchCast sc_ok_mailboxes
        intro: typed.actor_ops [THEN k] typed.keeps_sendExit [THEN k] typed.keeps_stop [THEN k] typed.keeps_spawn [THEN k] typed.keeps_spawnChild [THEN k]
        split: sum.splits option.split list.split)
qed

lemma sc_ok_perform_all: "sc_ok S \<Longrightarrow> sc_ok (snd (perform_all se lookup self ops S))"
  by (induction ops arbitrary: S) (auto split: sum.split dest: sc_ok_perform)

text \<open>The contract of a handler: user code that keeps the node well formed.\<close>

locale typed_handler =
  fixes h :: handler
  assumes handler_ok: "sc_ok S \<Longrightarrow> sc_ok (snd (h i m S))"
begin

lemma run_ok: "sc_ok S \<Longrightarrow> run_handler h i m S = (out, S') \<Longrightarrow> sc_ok S'"
  using handler_ok [of "S\<lparr>sc_started := sc_started S @ [(i, m)]\<rparr>" i m] by (simp add: run_handler_def)

lemma pm_loop_ok: "sc_ok S \<Longrightarrow> sc_ok (pm_loop h se n w i S)"
proof (induction n arbitrary: S)
  case (Suc n)
  obtain mo S1 where t: "pm_take (env_now (se_env se)) i S = (mo, S1)" by fastforce
  have S1: "sc_ok S1" using pm_take_ok [OF Suc.prems, of "env_now (se_env se)" i] t by simp
  show ?case
  proof (cases mo)
    case None
    then show ?thesis using t S1 Suc.prems by (simp add: Let_def sc_ok_pm sc_ok_crash)
  next
    case (Some m)
    obtain out S2 where r: "run_handler h i m S1 = (out, S2)" by fastforce
    note S2 = run_ok [OF S1 r]
    obtain b S3 where f: "\<And>err. out = Throws err \<Longrightarrow> pm_failure se w i m err S2 = (b, S3)" by (cases out) fastforce+
    have "out = Throws err \<Longrightarrow> sc_ok S3" for err using sc_ok_pm(3) [OF S2, of se w i m err] f by simp
    then show ?thesis
      using t Some r f Suc S2 by (cases out) (auto simp: sc_ok_pm split: bool.split)
  qed
qed (simp add: sc_ok_pm)

lemma processMailbox_ok: "sc_ok S \<Longrightarrow> sc_ok (processMailbox h se i S)"
  by (auto simp: processMailbox_def intro: pm_loop_ok split: option.split)

lemma resume_run_ok: "sc_ok S \<Longrightarrow> sc_ok (resume_run h se r result S)"
proof -
  assume ok: "sc_ok S"
  obtain i w n m where r: "r = (i, w, n, m)" by (cases r)
  have "sc_ok (case pm_failure se w i m err S of (True, T) \<Rightarrow> pm_loop h se n w i T | (False, T) \<Rightarrow> pm_end i T)" if "sc_ok S" for err S
    using sc_ok_pm(3) [OF that, of se w i m err]
    by (cases "pm_failure se w i m err S") (auto intro: pm_loop_ok sc_ok_pm split: bool.split)
  then show ?thesis using ok by (simp add: resume_run_def r Let_def pm_loop_ok sc_ok_pm split: sum.split)
qed

lemma syncLocalCall_ok: "sc_ok S \<Longrightarrow> sc_ok (syncLocalCall h se n i msg S)"
proof (cases "getActor (sc_sys S) i")
  case (Some act)
  assume ok: "sc_ok S"
  let ?m = "\<lparr>sm_type = CallMsg, sm_message = msg, sm_reply = None\<rparr>"
  let ?S = "S\<lparr>sc_sys := lock_scheduled i (begin_processing i
     (resetIdleTimeout (env_now (se_env se)) i (set_current i (Some ?m) (sc_sys S))))\<rparr>"
  obtain out S2 where r: "run_handler h i ?m ?S = (out, S2)" by fastforce
  have "sc_ok ?S" using ok by simp
  note S2 = run_ok [OF this r]
  show ?thesis using Some r S2 by (cases out) (simp_all add: syncLocalCall_def Let_def sc_ok_pm)
qed (simp add: syncLocalCall_def)

lemma syncLocalCast_ok: "sc_ok S \<Longrightarrow> sc_ok (snd (syncLocalCast h se i msg S))"
proof (cases "getActor (sc_sys S) i")
  case (Some act)
  assume ok: "sc_ok S"
  let ?S = "S\<lparr>sc_sys := begin_processing i
     (resetIdleTimeout (env_now (se_env se)) i (set_current i (Some (cast_message msg)) (sc_sys S)))\<rparr>"
  obtain out S2 where r: "run_handler h i (cast_message msg) ?S = (out, S2)" by fastforce
  have "sc_ok ?S" using ok by simp
  note S2 = run_ok [OF this r]
  show ?thesis using Some r S2 ok by (cases out) (simp_all add: syncLocalCast_def Let_def sc_ok_crash)
qed (simp add: syncLocalCast_def)

lemma handleRpcCast_ok: "sc_ok S \<Longrightarrow> sc_ok (handleRpcCast h se r msg S)"
  using run_ok [of S "ref_id r" "cast_message msg"]
  by (auto simp: handleRpcCast_def typed.keeps_handleCrash [rule_format] split: prod.split outcome.split)

lemma handleRpcCall_ok: "sc_ok S \<Longrightarrow> sc_ok (snd (handleRpcCall h r msg S))"
  using run_ok [of S "ref_id r"] by (auto simp: handleRpcCall_def split: prod.split)

lemma resume_call_ok: "sc_ok S \<Longrightarrow> sc_ok (resume_call c result S)"
  by (cases c) (simp add: resume_call_def sc_ok_pm)

lemma dispatchCall_ok: "sc_ok S \<Longrightarrow> sc_ok (dispatchCall h se lookup n r msg S)"
  by (simp add: dispatchCall_def Let_def syncLocalCall_ok sc_ok_enqueue_call split: sum.split)

lemma sched_step_ok: "sched_step h se lookup S S' \<Longrightarrow> sc_ok S \<Longrightarrow> sc_ok S'"
proof (induction rule: sched_step.induct)
  case (spawn place c opts S r s')
  then show ?case using typed.keeps_spawn by auto
qed (auto simp: processMailbox_ok resume_run_ok resume_call_ok sc_ok_pm call_timeout_def sc_ok_dispatchCast dispatchCall_ok
    syncLocalCast_ok handleRpcCast_ok handleRpcCall_ok sc_ok_mailboxes typed.keeps_stop [rule_format])

lemma receive_ok: "receive h se classes m S = Inr S' \<Longrightarrow> sc_ok S \<Longrightarrow> sc_ok S'"
  by (cases m) (auto simp: handleRpcCast_ok intro: typed.messages [THEN mp] split: sum.splits)

lemma answer_ok: "sc_ok S \<Longrightarrow> sc_ok (snd (answer h se classes m S))"
  using handleRpcCall_ok [of S] by (cases m) (auto simp: reply_sys_def split_beta intro: typed.messages [THEN mp])

lemma node_step_ok: "node_step h se lookup classes S S' \<Longrightarrow> sc_ok S \<Longrightarrow> sc_ok S'"
proof (induction rule: node_step.induct)
  case (timer S r t)
  then show ?case by (simp add: actor_timer_fires_def Let_def sc_ok_dispatchCast node_ok_on_actor)
qed (auto intro: sched_step_ok sc_ok_perform receive_ok answer_ok typed.messages [THEN mp])

lemma reachable_ok: "(node_step h se lookup classes)\<^sup>*\<^sup>* S S' \<Longrightarrow> sc_ok S \<Longrightarrow> sc_ok S'"
  by (induction rule: rtranclp_induct) (auto intro: node_step_ok)

end

interpretation scripted: typed_handler "scripted se lookup script" for se lookup script
proof
  fix S i m assume "sc_ok S"
  then show "sc_ok (snd (scripted se lookup script i m S))"
    using sc_ok_perform_all [of S se lookup _ "snd (script i m)"] by (auto simp: scripted_def split_beta split: option.split)
qed

section \<open>A first actor\<close>

definition demo_first :: sys where
  "demo_first = snd (projr (spawn (demo_env CHR ''j'') (Inr ''n'') demo_class no_options (new_system ''n'' None None)))"

lemma demo_first_eq: "spawn (se_env demo_sup) (Inr ''n'') demo_class no_options (new_system ''n'' None None)
    = Inr (demo_id ''n'' ''j'', demo_first)"
  by (simp add: demo_first_def demo_sup_def spawn_def new_system_def Let_def demo_env_def demo_id_def no_options_def)

lemma demo_first_reach:
  "sched_step h demo_sup lookup (new_node ''n'' None None) (on_sys (\<lambda>_. demo_first) (new_node ''n'' None None))"
  using sched_step.spawn [of demo_sup "Inr ''n''" demo_class no_options "new_node ''n'' None None"] demo_first_eq
  by (simp add: new_node_def)

lemmas demo_run = run_handler_def on_sys_def Let_def new_node_def demo_first_def spawn_def
  new_system_def demo_env_def demo_id_def no_options_def demo_sup_def add_actor_def scheduleProcessMailbox_def
  register_name_def target_node_def truthy_name_def emit_def new_actor_def jhas_def set_current_def resetIdleTimeout_def begin_processing_def

section \<open>The invariant\<close>

text \<open>
  C5: In every state a node can reach, through any interleaving of casts, calls, crashes, restarts,
  messages of other nodes (migration apart), node failures, timers and operations of actors, the
  node is well formed: the table of actors, the table of mailboxes and the metadata hold the
  same ids, once each; the actor under an id carries that id, this node and the class of its
  metadata; and every mailbox is a well-formed ring, so that an actor that is to take a message
  gets one: no handler ever sees an undefined message.
\<close>

theorem node_well_formed:
  assumes "(node_step (scripted se lookup script) se lookup classes)\<^sup>*\<^sup>* (new_node node sopt mcfg) S"
  shows "node_ok (sc_sys S) \<and> (pm_next i S \<longrightarrow> fst (pm_take now i S) \<noteq> None)"
proof -
  have "sc_ok (new_node node sopt mcfg)" by (simp add: new_node_def new_system_def node_ok_def jhas_def)
  from scripted.reachable_ok [OF assms this] show ?thesis using pm_take_ok by blast
qed

theorem node_well_formed_witness:
  "node_ok demo_first"
proof -
  let ?h = "scripted demo_sup (\<lambda>_. None) (\<lambda>_ _. (Promises, []))"
  have "(node_step ?h demo_sup (\<lambda>_. None) (\<lambda>_. None))\<^sup>*\<^sup>* (new_node ''n'' None None)
      (on_sys (\<lambda>_. demo_first) (new_node ''n'' None None))"
    by (rule r_into_rtranclp, rule node_step.event, rule demo_first_reach)
  from node_well_formed [OF this] show ?thesis by simp
qed

end
