(* ===== verification/Event_Loop.thy ===== *)
theory Event_Loop
  imports Node
begin

text \<open>
  What the event loop of \<open>Scheduler\<close> guarantees, for handlers that act through \<open>Actor_Api\<close>: no
  wakeup is lost, a batch takes at most 64 messages in the order they were queued, and a queue
  is worked off. And what it does not: handlers of one actor can overlap, and a message of the
  synchronous cast can be handled twice.
\<close>

section \<open>Wakeups\<close>

text \<open>
  C2: No wakeup is lost: in every state a node can reach, through any interleaving of casts,
  calls, synchronous casts, operations of actors (the stash, links, spawning, stopping and the
  rest of \<open>Actor_Api\<close>), messages and requests of other nodes, settled promises, crashes, timers,
  node failures, pauses and drains, an actor that is not paused and has a message waiting has a
  callback, an activation or a synchronous call on the way that will look at its mailbox again.
  So has every actor marked as scheduled, which is what keeps others from scheduling it.
\<close>

theorem no_lost_wakeup:
  assumes "(node_step (scripted se lookup script) se lookup classes)\<^sup>*\<^sup>* (new_node node sopt mcfg) S"
    and "needs i (sc_sys S) \<or> i \<in> set (mailboxScheduled (sc_sys S))"
  shows "token i S"
proof -
  have "awake {} (new_node node sopt mcfg)"
    by (simp add: awake_def new_node_def new_system_def needs_def pending_count_def)
  from scripted.awake_node_reachable [OF assms(1) this] assms(2) show ?thesis by (auto simp: awake_def)
qed

section \<open>Batches\<close>

text \<open>
  A handler that ends at once and acts on nothing else: what it does depends on the messages
  the node has handled so far, so an actor may keep a state. It is calm on a list of messages if
  it returns on each of them.
\<close>

type_synonym log = "(string \<times> string stashed_message) list"

definition immediate :: "(string \<Rightarrow> string stashed_message \<Rightarrow> log \<Rightarrow> outcome) \<Rightarrow> handler" where
  "immediate f i m S = (f i m (sc_started S), S)"

fun calm :: "(string \<Rightarrow> string stashed_message \<Rightarrow> log \<Rightarrow> outcome) \<Rightarrow> string \<Rightarrow> log \<Rightarrow> string stashed_message list \<Rightarrow> bool" where
  "calm f i l [] \<longleftrightarrow> True"
| "calm f i l (m # ms) \<longleftrightarrow> (case f i m (l @ [(i, m)]) of Returns _ \<Rightarrow> calm f i (l @ [(i, m)]) ms | _ \<Rightarrow> False)"

text \<open>The promises its returned values settle, and the table of promises after that.\<close>

fun answers :: "(string \<Rightarrow> string stashed_message \<Rightarrow> log \<Rightarrow> outcome) \<Rightarrow> string \<Rightarrow> log \<Rightarrow> string stashed_message list \<Rightarrow>
    (nat \<times> reply) list" where
  "answers f i l [] = []"
| "answers f i l (m # ms) =
     (case (sm_type m, sm_reply m, f i m (l @ [(i, m)])) of (CallMsg, Some n, Returns v) \<Rightarrow> [(n, Resolved v)] | _ \<Rightarrow> [])
     @ answers f i (l @ [(i, m)]) ms"

definition settle_list :: "(nat \<times> reply) list \<Rightarrow> (nat, reply) jsmap \<Rightarrow> (nat, reply) jsmap" where
  "settle_list rs t = fold (\<lambda>(n, r) t. if jhas t n then t else jput t n r) rs t"

definition unstashed :: "string \<Rightarrow> sched \<Rightarrow> bool" where
  "unstashed i S \<longleftrightarrow> (case getActor (sc_sys S) i of None \<Rightarrow> True | Some a \<Rightarrow> a_stash a = [])"

lemma calm_append: "calm f i l (xs @ ys) \<longleftrightarrow> calm f i l xs \<and> calm f i (l @ map (Pair i) xs) ys"
  by (induction xs arbitrary: l) (auto split: outcome.split)

lemma answers_append: "answers f i l (xs @ ys) = answers f i l xs @ answers f i (l @ map (Pair i) xs) ys"
  by (induction xs arbitrary: l) auto

lemma settle_list_append: "settle_list (xs @ ys) t = settle_list ys (settle_list xs t)"
  by (simp add: settle_list_def)

lemma settle_list_simps [simp]:
  "settle_list [] t = t" "settle_list ((n, r) # rs) t = settle_list rs (if jhas t n then t else jput t n r)"
  by (simp_all add: settle_list_def)

text \<open>The mailbox of a live actor that is not paused, as a list.\<close>

definition queue_of :: "string \<Rightarrow> sched \<Rightarrow> string stashed_message list \<Rightarrow> bool" where
  "queue_of i S xs \<longleftrightarrow> (\<exists>mb. jget (mailboxes (sc_sys S)) i = Some mb \<and> mb_rep mb xs) \<and> alive (sc_sys S) i \<and>
     i \<notin> set (pausedMailboxes (sc_sys S))"

lemma queue_next: "queue_of i S xs \<Longrightarrow> pm_next i S \<longleftrightarrow> xs \<noteq> []"
  by (auto simp: queue_of_def pm_next_def pending_count_def mb_rep_size)

lemma queue_take:
  assumes "queue_of i S (x # xs)"
  shows "\<exists>S'. pm_take now i S = (Some x, S') \<and> queue_of i S' xs \<and> sc_ticks S' = sc_ticks S \<and>
     sc_started S' = sc_started S \<and> sc_runs S' = sc_runs S \<and> sc_settled S' = sc_settled S \<and> unstashed i S' = unstashed i S"
proof -
  obtain mb where mb: "jget (mailboxes (sc_sys S)) i = Some mb" "mb_rep mb (x # xs)"
    using assms by (auto simp: queue_of_def)
  from dequeue_Cons [OF mb(2)] have d: "fst (dequeue mb) = Some x" "mb_rep (snd (dequeue mb)) xs" by auto
  show ?thesis
    using assms mb d
    by (auto simp: pm_take_def split_beta queue_of_def set_current_def resetIdleTimeout_def set_mailbox_def unstashed_def
        split: option.split)
qed

lemma queue_success:
  assumes "queue_of i S xs"
  shows "queue_of i (pm_success i m v S) xs \<and> sc_ticks (pm_success i m v S) = sc_ticks S \<and>
     sc_started (pm_success i m v S) = sc_started S \<and> sc_runs (pm_success i m v S) = sc_runs S"
    and "unstashed i S \<Longrightarrow> unstashed i (pm_success i m v S) \<and> sc_settled (pm_success i m v S) =
      settle_list (case (sm_type m, sm_reply m) of (CallMsg, Some n) \<Rightarrow> [(n, Resolved v)] | _ \<Rightarrow> []) (sc_settled S)"
proof -
  have so: "sc_ticks (settle_opt k r T) = sc_ticks T" "sc_started (settle_opt k r T) = sc_started T"
    "sc_runs (settle_opt k r T) = sc_runs T" "sc_sys (settle_opt k r T) = sc_sys T" for k r T
    by (simp_all add: settle_opt_def settle_def split: option.split)
  then show "queue_of i (pm_success i m v S) xs \<and> sc_ticks (pm_success i m v S) = sc_ticks S \<and>
     sc_started (pm_success i m v S) = sc_started S \<and> sc_runs (pm_success i m v S) = sc_runs S"
    using assms by (auto simp: pm_success_def Let_def queue_of_def set_current_def)
  assume u: "unstashed i S"
  then have "\<not> stashed i m (sc_sys S)" by (auto simp: unstashed_def stashed_def split: option.split)
  then show "unstashed i (pm_success i m v S) \<and> sc_settled (pm_success i m v S) =
      settle_list (case (sm_type m, sm_reply m) of (CallMsg, Some n) \<Rightarrow> [(n, Resolved v)] | _ \<Rightarrow> []) (sc_settled S)"
    using u by (cases "sm_type m"; cases "sm_reply m")
      (auto simp: pm_success_def Let_def unstashed_def set_current_def settle_opt_def settle_def split: option.split)
qed

lemma queue_end:
  assumes "queue_of i S xs"
  shows "queue_of i (pm_end i S) xs \<and> sc_ticks (pm_end i S) = sc_ticks S @ (if xs = [] then [] else [i]) \<and>
     sc_started (pm_end i S) = sc_started S \<and> sc_runs (pm_end i S) = sc_runs S \<and> sc_settled (pm_end i S) = sc_settled S \<and>
     unstashed i (pm_end i S) = unstashed i S \<and>
     (xs = [] \<longrightarrow> i \<notin> set (mailboxScheduled (sc_sys (pm_end i S))))"
proof -
  obtain mb where mb: "jget (mailboxes (sc_sys S)) i = Some mb" "mb_rep mb xs" using assms by (auto simp: queue_of_def)
  then show ?thesis
    using assms mb_rep_size [OF mb(2)]
    by (auto simp: queue_of_def pm_end_def Let_def end_processing_def pending_count_def unschedule_def jhas_def unstashed_def)
qed

text \<open>What a callback leaves of the queue \<open>xs\<close> after a batch of \<open>n\<close>.\<close>

definition batch_done ::
  "(string \<Rightarrow> string stashed_message \<Rightarrow> log \<Rightarrow> outcome) \<Rightarrow> nat \<Rightarrow> string \<Rightarrow> string stashed_message list \<Rightarrow> sched \<Rightarrow> sched \<Rightarrow> bool" where
  "batch_done f n i xs S S' \<longleftrightarrow> queue_of i S' (drop n xs) \<and>
     sc_started S' = sc_started S @ map (Pair i) (take n xs) \<and> sc_runs S' = sc_runs S \<and>
     sc_ticks S' = sc_ticks S @ (if n < length xs then [i] else []) \<and>
     (length xs \<le> n \<longrightarrow> i \<notin> set (mailboxScheduled (sc_sys S'))) \<and>
     (unstashed i S \<longrightarrow> unstashed i S' \<and>
        sc_settled S' = settle_list (answers f i (sc_started S) (take n xs)) (sc_settled S))"

lemma batch_loop: "queue_of i S xs \<Longrightarrow> calm f i (sc_started S) xs \<Longrightarrow> batch_done f n i xs S (pm_loop (immediate f) se n w i S)"
proof (induction n arbitrary: S xs)
  case 0
  then show ?case using queue_end [OF 0(1)] by (auto simp: batch_done_def)
next
  case (Suc n)
  show ?case
  proof (cases xs)
    case Nil
    then show ?thesis using queue_end [OF Suc.prems(1)] queue_next [OF Suc.prems(1)] by (simp add: batch_done_def)
  next
    case (Cons x ys)
    obtain S1 where t: "pm_take (env_now (se_env se)) i S = (Some x, S1)" "queue_of i S1 ys"
      "sc_ticks S1 = sc_ticks S" "sc_started S1 = sc_started S" "sc_runs S1 = sc_runs S"
      "sc_settled S1 = sc_settled S" "unstashed i S1 = unstashed i S"
      using queue_take [of i S x ys] Suc.prems(1) Cons by blast
    obtain v where v: "f i x (sc_started S @ [(i, x)]) = Returns v" and c: "calm f i (sc_started S @ [(i, x)]) ys"
      using Suc.prems(2) Cons by (auto split: outcome.splits)
    let ?S2 = "S1\<lparr>sc_started := sc_started S1 @ [(i, x)]\<rparr>"
    have q: "queue_of i ?S2 ys" "unstashed i ?S2 = unstashed i S" using t(2,7) by (simp_all add: queue_of_def unstashed_def)
    note s = queue_success [OF q(1), of x v]
    have "calm f i (sc_started (pm_success i x v ?S2)) ys" using s(1) t(4) c by simp
    note IH = Suc.IH [OF conjunct1 [OF s(1)] this]
    have loop: "pm_loop (immediate f) se (Suc n) w i S = pm_loop (immediate f) se n w i (pm_success i x v ?S2)"
      using t v queue_next [OF Suc.prems(1)] Cons by (simp add: run_handler_def immediate_def)
    show ?thesis
      using IH s t q v Cons unfolding loop batch_done_def
      by (simp add: settle_list_append split: message_type.split option.split)
  qed
qed

lemma batch_bounded_core:
  assumes "queue_of i S xs" and "calm f i (sc_started S) xs"
  shows "batch_done f 64 i xs S (processMailbox (immediate f) se i S)"
proof (cases xs)
  case Nil
  then show ?thesis
    using assms(1) by (auto simp: batch_done_def processMailbox_def queue_of_def pending_count_def mb_rep_size unschedule_def
        unstashed_def split: option.split)
next
  case (Cons x ys)
  let ?S = "S\<lparr>sc_sys := begin_processing i (sc_sys S)\<rparr>"
  have q: "queue_of i ?S xs" "unstashed i ?S = unstashed i S"
    using assms(1) by (simp_all add: queue_of_def begin_processing_def unstashed_def)
  obtain act where "getActor (sc_sys S) i = Some act" using assms(1) by (auto simp: queue_of_def jhas_def)
  then have p: "processMailbox (immediate f) se i S = pm_loop (immediate f) se 64 (a_self act) i ?S"
    using assms(1) Cons
    by (auto simp: processMailbox_def MAILBOX_BATCH_SIZE_def queue_of_def pending_count_def mb_rep_size jhas_def)
  have "batch_done f 64 i xs ?S (pm_loop (immediate f) se 64 (a_self act) i ?S)"
    by (rule batch_loop [OF q(1)]) (simp add: assms(2))
  then show ?thesis using q(2) unfolding p by (simp add: batch_done_def)
qed

text \<open>
  C13: Batches, for handlers that return at once. Let an actor that is not paused have the messages
  \<open>xs\<close> waiting, let its handlers do nothing to the node, and let each of them return a value for its
  message (\<open>calm\<close>: none throws, none returns a promise). Then a callback handles at most 64 messages
  (\<open>MAILBOX_BATCH_SIZE\<close>), the first ones in the order they were queued, each once; the rest stays
  queued, and the actor gets a new callback exactly when something is left. If it stashed nothing,
  every call among them is answered with what its handler returned. (A handler that awaits ends the
  batch; one that throws starts the supervisor; one that stops or pauses the actor ends the
  callbacks. \<open>no_lost_wakeup\<close> covers those.)
\<close>

theorem batch_bounded:
  assumes "queue_of i S xs" and "calm f i (sc_started S) xs" and "S' = processMailbox (immediate f) se i S"
  shows "queue_of i S' (drop 64 xs) \<and> sc_started S' = sc_started S @ map (Pair i) (take 64 xs) \<and>
     sc_ticks S' = sc_ticks S @ (if 64 < length xs then [i] else []) \<and>
     (length xs \<le> 64 \<longrightarrow> i \<notin> set (mailboxScheduled (sc_sys S'))) \<and>
     (unstashed i S \<longrightarrow> sc_settled S' = settle_list (answers f i (sc_started S) (take 64 xs)) (sc_settled S))"
  using batch_bounded_core [OF assms(1,2), of se] by (simp add: batch_done_def assms(3))

text \<open>The callbacks one after the other.\<close>

fun run_ticks :: "handler \<Rightarrow> sup_env \<Rightarrow> nat \<Rightarrow> sched \<Rightarrow> sched" where
  "run_ticks h se 0 S = S"
| "run_ticks h se (Suc n) S =
     (case sc_ticks S of [] \<Rightarrow> S
      | i # is \<Rightarrow> run_ticks h se n (processMailbox h se i (S\<lparr>sc_ticks := is\<rparr>)))"

lemma run_ticks_idle: "sc_ticks S = [] \<Longrightarrow> run_ticks h se n S = S"
  by (cases n) simp_all

lemma queue_worked_off_core:
  assumes "queue_of i S xs" and "calm f i (sc_started S) xs" and "sc_ticks S = [i]" and "length xs \<le> 64 * n" and "0 < n"
  shows "batch_done f (length xs) i xs (S\<lparr>sc_ticks := []\<rparr>) (run_ticks (immediate f) se n S)"
  using assms
proof (induction n arbitrary: S xs)
  case (Suc n)
  let ?T = "S\<lparr>sc_ticks := []\<rparr>"
  let ?S = "processMailbox (immediate f) se i ?T"
  have q: "queue_of i ?T xs" "calm f i (sc_started ?T) xs" using Suc.prems(1,2) by (simp_all add: queue_of_def)
  note B = batch_bounded_core [OF q, of se, unfolded batch_done_def]
  have run: "run_ticks (immediate f) se (Suc n) S = run_ticks (immediate f) se n ?S" by (simp add: Suc.prems(3))
  show ?case
  proof (cases "64 < length xs")
    case True
    then have len: "length (drop 64 xs) \<le> 64 * n" "0 < n" using Suc.prems(4) by (cases n; simp)+
    have split: "xs = take 64 xs @ drop 64 xs" by simp
    have "calm f i (sc_started S @ map (Pair i) (take 64 xs)) (drop 64 xs)"
      using Suc.prems(2) calm_append [of f i "sc_started S" "take 64 xs" "drop 64 xs"] by simp
    then have c: "calm f i (sc_started ?S) (drop 64 xs)" using B by simp
    have t: "sc_ticks ?S = [i]" using B True by simp
    note IH = Suc.IH [OF conjunct1 [OF B] c t len]
    have "map (Pair i) (take 64 xs) @ map (Pair i) (drop 64 xs) = map (Pair i) xs"
      by (metis split map_append)
    moreover have "answers f i (sc_started S) xs = answers f i (sc_started S) (take 64 xs) @
        answers f i (sc_started S @ map (Pair i) (take 64 xs)) (drop 64 xs)"
      by (metis split answers_append)
    moreover have "unstashed i (?S\<lparr>sc_ticks := []\<rparr>) = unstashed i ?S" by (simp add: unstashed_def)
    ultimately show ?thesis using B IH unfolding run by (simp add: batch_done_def settle_list_append)
  next
    case False
    then have "run_ticks (immediate f) se n ?S = ?S" using B by (intro run_ticks_idle) simp
    then show ?thesis using B False unfolding run by (simp add: batch_done_def)
  qed
qed simp

text \<open>
  C14: A queue is worked off, for handlers that return at once. Under the conditions of the batch (the
  actor is not paused, its handlers do nothing to the node, and each returns a value for its message)
  and with its callback the only one pending on the node: \<open>n\<close> callbacks are enough for \<open>64 * n\<close> messages.
  Every queued message is then handled, in order, each once, no callback is left and the actor is
  idle. Nothing is said of handlers that await, throw, or stop or pause actors.
\<close>

theorem queue_worked_off:
  assumes "queue_of i S xs" and "calm f i (sc_started S) xs" and "sc_ticks S = [i]" and "length xs \<le> 64 * n" and "0 < n"
  shows "queue_of i (run_ticks (immediate f) se n S) []
     \<and> sc_started (run_ticks (immediate f) se n S) = sc_started S @ map (Pair i) xs
     \<and> sc_ticks (run_ticks (immediate f) se n S) = []
     \<and> i \<notin> set (mailboxScheduled (sc_sys (run_ticks (immediate f) se n S)))"
  using queue_worked_off_core [OF assms, of se] by (simp add: batch_done_def)

section \<open>What the event loop does not guarantee\<close>

text \<open>Handlers that return a promise, and the first run of a node: spawn, call, cast, callback.\<close>

definition promises :: handler where
  "promises i m S = (Promises, S)"

definition overlap_called :: sched where
  "overlap_called = dispatchCall promises demo_sup (\<lambda>_. None) 0 (demo_id ''n'' ''j'') ''a''
     (on_sys (\<lambda>_. demo_first) (new_node ''n'' None None))"

definition overlap_cast :: sched where
  "overlap_cast = dispatchCast (\<lambda>_. None) (demo_id ''n'' ''j'') ''b'' overlap_called"

lemma overlap_called_fields:
  "sc_calls overlap_called = [(''j'', None, 0, \<lparr>sm_type = CallMsg, sm_message = ''a'', sm_reply = None\<rparr>)]"
  "sc_ticks overlap_called = [''j'']" "sc_runs overlap_called = []"
  "sc_started overlap_called = [(''j'', \<lparr>sm_type = CallMsg, sm_message = ''a'', sm_reply = None\<rparr>)]"
  "queue_of ''j'' overlap_called []" "sys_id (sc_sys overlap_called) = ''n''"
  by (simp_all add: overlap_called_def dispatchCall_def syncLocalCall_def promises_def demo_run lock_scheduled_def
      pending_count_def queue_of_def)


lemma queue_cast:
  assumes q: "queue_of i S xs" and room: "\<And>mb. jget (mailboxes (sc_sys S)) i = Some mb \<Longrightarrow> \<not> isFull mb"
    and r: "ref_id r = i" "ref_node r = sys_id (sc_sys S)" "ref_name r = None"
  shows "queue_of i (dispatchCast lookup r msg S) (xs @ [cast_message msg])"
    "sc_started (dispatchCast lookup r msg S) = sc_started S" "sc_calls (dispatchCast lookup r msg S) = sc_calls S"
    "sc_ticks (dispatchCast lookup r msg S) = sc_ticks S @ (if i \<in> set (mailboxScheduled (sc_sys S)) then [] else [i])"
proof -
  obtain mb where mb: "jget (mailboxes (sc_sys S)) i = Some mb" "mb_rep mb xs" using q by (auto simp: queue_of_def)
  note e = enqueue_room [OF mb(2) room [OF mb(1)], of "cast_message msg"]
  obtain mb' where mb': "enqueue mb (cast_message msg) = (mb', Inr True, [])" "mb_rep mb' (xs @ [cast_message msg])"
    using e by (metis prod.collapse)
  have d: "dispatchCast lookup r msg S = on_sys (scheduleProcessMailbox i) (S\<lparr>sc_sys := set_mailbox i mb' (sc_sys S)\<rparr>)"
    using q r by (simp add: dispatchCast_def truthy_name_def enqueue_cast_def mb(1) mb'(1) reject_all_def queue_of_def)
  show "queue_of i (dispatchCast lookup r msg S) (xs @ [cast_message msg])"
    using q mb'(2) by (auto simp: d on_sys_def Let_def queue_of_def scheduleProcessMailbox_def set_mailbox_def)
  show "sc_started (dispatchCast lookup r msg S) = sc_started S" "sc_calls (dispatchCast lookup r msg S) = sc_calls S"
    by (simp_all add: d on_sys_def Let_def)
  show "sc_ticks (dispatchCast lookup r msg S) = sc_ticks S @ (if i \<in> set (mailboxScheduled (sc_sys S)) then [] else [i])"
    using q by (auto simp: d on_sys_def Let_def scheduleProcessMailbox_def set_mailbox_def queue_of_def sadd_def filter_empty_conv)
qed

lemma overlap_called_room: "jget (mailboxes (sc_sys overlap_called)) ''j'' = Some mb \<Longrightarrow> \<not> isFull mb"
  by (auto simp: overlap_called_def dispatchCall_def syncLocalCall_def promises_def demo_run lock_scheduled_def
      pending_count_def isFull_def new_mailbox_def merge_mailbox_config_def DEFAULT_MAILBOX_CONFIG_def)

lemma overlap_called_sched: "''j'' \<in> set (mailboxScheduled (sc_sys overlap_called))"
  by (simp add: overlap_called_def dispatchCall_def syncLocalCall_def promises_def demo_run lock_scheduled_def pending_count_def)

lemma promises_batch:
  assumes "queue_of i S (x # xs)"
  shows "\<exists>T w. processMailbox promises se i S = T \<and> sc_started T = sc_started S @ [(i, x)] \<and>
     sc_runs T = sc_runs S @ [(i, w, 63, x)] \<and> sc_calls T = sc_calls S"
proof -
  let ?S = "S\<lparr>sc_sys := begin_processing i (sc_sys S)\<rparr>"
  have q: "queue_of i ?S (x # xs)" using assms by (simp add: queue_of_def begin_processing_def)
  obtain S1 where t: "pm_take (env_now (se_env se)) i ?S = (Some x, S1)" "sc_started S1 = sc_started ?S" "sc_runs S1 = sc_runs ?S"
    using queue_take [OF q] by blast
  have c: "sc_calls S1 = sc_calls ?S" using t(1) by (auto simp: pm_take_def split_beta split: option.splits)
  obtain act where "getActor (sc_sys S) i = Some act" using assms by (auto simp: queue_of_def jhas_def)
  then have e: "processMailbox promises se i S = pm_loop promises se (Suc 63) (a_self act) i ?S"
    using assms
    by (auto simp: processMailbox_def MAILBOX_BATCH_SIZE_def queue_of_def pending_count_def mb_rep_size jhas_def)
  show ?thesis
    unfolding e pm_loop.simps(2)
    using t c queue_next [OF q] by (simp add: run_handler_def promises_def)
qed

text \<open>
  C37: Handlers of one actor can overlap. After a spawn its callback is pending; a call to the idle
  actor takes the synchronous path and starts the handler at once. While that handler waits for
  a promise, a cast is queued, and the callback of the spawn, which does not look at
  \<open>processingActors\<close>, starts a second handler of the same actor. Both wait at the same time.
\<close>

theorem handlers_overlap:
  "\<exists>S i w call cast.
     (sched_step promises demo_sup (\<lambda>_. None))\<^sup>*\<^sup>* (new_node ''n'' None None) S
     \<and> sc_started S = [(i, call), (i, cast)]
     \<and> (i, None, 0, call) \<in> set (sc_calls S) \<and> (i, w, 63, cast) \<in> set (sc_runs S)"
proof -
  let ?step = "sched_step promises demo_sup (\<lambda>_. None)"
  let ?m = "\<lparr>sm_type = CallMsg, sm_message = ''a'', sm_reply = None\<rparr>"
  let ?T = "processMailbox promises demo_sup ''j'' (overlap_cast\<lparr>sc_ticks := []\<rparr>)"
  note C = queue_cast [OF overlap_called_fields(5) overlap_called_room, of "demo_id ''n'' ''j''" "\<lambda>_. None" "''b''",
      folded overlap_cast_def, simplified overlap_called_fields overlap_called_sched if_True append_Nil append_Nil2]
  have ref: "ref_id (demo_id ''n'' ''j'') = ''j''" "ref_node (demo_id ''n'' ''j'') = ''n''" "ref_name (demo_id ''n'' ''j'') = None"
    by (simp_all add: demo_id_def)
  have "queue_of ''j'' (overlap_cast\<lparr>sc_ticks := []\<rparr>) [cast_message ''b'']"
    using C(1) ref by (simp add: queue_of_def)
  from promises_batch [OF this, of demo_sup] obtain w where
    T: "sc_started ?T = sc_started overlap_cast @ [(''j'', cast_message ''b'')]"
    "sc_runs ?T = sc_runs overlap_cast @ [(''j'', w, 63, cast_message ''b'')]" "sc_calls ?T = sc_calls overlap_cast"
    by auto
  have "?step\<^sup>*\<^sup>* (new_node ''n'' None None) overlap_called"
    unfolding overlap_called_def
    by (rule rtranclp.rtrancl_into_rtrancl, rule r_into_rtranclp, rule demo_first_reach, rule sched_step.call)
  then have "?step\<^sup>*\<^sup>* (new_node ''n'' None None) overlap_cast"
    unfolding overlap_cast_def by (rule rtranclp.rtrancl_into_rtrancl) (rule sched_step.cast)
  then have "?step\<^sup>*\<^sup>* (new_node ''n'' None None) ?T"
    using sched_step.tick [of overlap_cast "''j''" "[]" promises demo_sup "\<lambda>_. None"] C(4) ref
    by (simp add: rtranclp.rtrancl_into_rtrancl)
  moreover have "sc_started ?T = [(''j'', ?m), (''j'', cast_message ''b'')]"
    using T(1) C(2) ref by simp
  moreover have "(''j'', None, 0, ?m) \<in> set (sc_calls ?T)" using T(3) C(3) ref by simp
  ultimately show ?thesis using T(2) by (intro exI conjI) auto
qed

text \<open>
  The synchronous cast starts the handler before it knows whether it returns a promise. When it
  does, \<open>_syncLocalCast\<close> answers \<open>false\<close>, and the cast its callers then make queues the same
  message again: it is handled twice.
\<close>

theorem sync_cast_handled_twice:
  assumes q: "queue_of i S xs" and idle: "i \<notin> set (processingActors (sc_sys S))"
    and room: "\<forall>mb. jget (mailboxes (sc_sys S)) i = Some mb \<longrightarrow> \<not> isFull mb"
    and r: "ref_id r = i" "ref_node r = sys_id (sc_sys S)" "ref_name r = None"
  shows "fst (syncLocalCast promises se i msg S) = False
     \<and> sc_started (snd (syncLocalCast promises se i msg S)) = sc_started S @ [(i, cast_message msg)]
     \<and> queue_of i (dispatchCast lookup r msg (snd (syncLocalCast promises se i msg S))) (xs @ [cast_message msg])"
proof -
  let ?S = "snd (syncLocalCast promises se i msg S)"
  obtain act where act: "getActor (sc_sys S) i = Some act" using q by (auto simp: queue_of_def jhas_def)
  have s: "fst (syncLocalCast promises se i msg S) = False" "sc_started ?S = sc_started S @ [(i, cast_message msg)]"
    "mailboxes (sc_sys ?S) = mailboxes (sc_sys S)" "pausedMailboxes (sc_sys ?S) = pausedMailboxes (sc_sys S)"
    "sys_id (sc_sys ?S) = sys_id (sc_sys S)" "\<And>j. alive (sc_sys ?S) j = alive (sc_sys S) j"
    using act idle q
    by (simp_all add: syncLocalCast_def run_handler_def promises_def Let_def queue_of_def
        end_processing_def begin_processing_def set_current_def resetIdleTimeout_def)
  have "queue_of i ?S xs" using q by (simp add: queue_of_def s)
  from queue_cast(1) [OF this, of r lookup msg] room r s show ?thesis by simp
qed


section \<open>Witnesses\<close>

definition demo_idle :: sched where
  "demo_idle = on_sys (\<lambda>_. demo_first) (new_node ''n'' None None)"

definition demo_queued :: sched where
  "demo_queued = dispatchCast (\<lambda>_. None) (demo_id ''n'' ''j'') ''b'' demo_idle"

lemma demo_idle_fields:
  "queue_of ''j'' demo_idle []" "sc_ticks demo_idle = [''j'']" "sc_started demo_idle = []"
  "sys_id (sc_sys demo_idle) = ''n''" "''j'' \<in> set (mailboxScheduled (sc_sys demo_idle))"
  "processingActors (sc_sys demo_idle) = []"
  by (simp_all add: demo_idle_def promises_def demo_run queue_of_def)

lemma demo_idle_room: "jget (mailboxes (sc_sys demo_idle)) ''j'' = Some mb \<Longrightarrow> \<not> isFull mb"
  by (auto simp: demo_idle_def promises_def demo_run isFull_def new_mailbox_def merge_mailbox_config_def DEFAULT_MAILBOX_CONFIG_def)

lemma demo_queued_fields:
  "queue_of ''j'' demo_queued [cast_message ''b'']" "sc_ticks demo_queued = [''j'']" "sc_started demo_queued = []"
  using queue_cast [OF demo_idle_fields(1) demo_idle_room, of "demo_id ''n'' ''j''" "\<lambda>_. None" "''b''"]
  by (simp_all add: demo_queued_def demo_idle_fields demo_id_def)

theorem no_lost_wakeup_witness: "token ''j'' demo_queued"
proof -
  let ?h = "scripted demo_sup (\<lambda>_. None) (\<lambda>_ _. (Promises, []))"
  have "(node_step ?h demo_sup (\<lambda>_. None) (\<lambda>_. None))\<^sup>*\<^sup>* (new_node ''n'' None None) demo_queued"
    unfolding demo_queued_def demo_idle_def
    by (rule rtranclp.rtrancl_into_rtrancl, rule r_into_rtranclp, rule node_step.event, rule demo_first_reach,
        rule node_step.event, rule sched_step.cast)
  moreover have "needs ''j'' (sc_sys demo_queued)"
    using queue_next [OF demo_queued_fields(1)] by (simp add: needs_def pm_next_def)
  ultimately show ?thesis by (intro no_lost_wakeup) auto
qed

theorem batch_bounded_witness:
  "sc_started (processMailbox (immediate (\<lambda>_ m _. Returns (sm_message m))) demo_sup ''j'' demo_queued) = [(''j'', cast_message ''b'')]"
  using batch_bounded [OF demo_queued_fields(1) _ refl, of "\<lambda>_ m _. Returns (sm_message m)" demo_sup] by (simp add: demo_queued_fields)

theorem queue_worked_off_witness:
  "queue_of ''j'' (run_ticks (immediate (\<lambda>_ m _. Returns (sm_message m))) demo_sup 1 demo_queued) []"
  using queue_worked_off [OF demo_queued_fields(1) _ demo_queued_fields(2), of "\<lambda>_ m _. Returns (sm_message m)" 1 demo_sup] by simp

theorem sync_cast_handled_twice_witness:
  "queue_of ''j'' (dispatchCast (\<lambda>_. None) (demo_id ''n'' ''j'') ''b''
      (snd (syncLocalCast promises demo_sup ''j'' ''b'' demo_idle))) [cast_message ''b'']"
  using sync_cast_handled_twice [OF demo_idle_fields(1), of "demo_id ''n'' ''j''" demo_sup "''b''" "\<lambda>_. None"]
    demo_idle_room by (simp add: demo_idle_fields demo_id_def)

end
