(* ===== verification/Health.thy ===== *)
theory Health
  imports Actor_State
begin

text \<open>
  \<open>src/health.ts\<close> and \<open>getHealth\<close> of \<open>src/actor_system.ts\<close>. The statuses are ordered by how bad
  they are, so the worst of a list is a maximum of the library. A component is a function
  that reports its health or throws, and the clock is an argument. The free-form \<open>details\<close> of a
  report are kept only where this code fills them.
\<close>

section \<open>The statuses\<close>

datatype health_status = Healthy | Degraded | Unhealthy

instantiation health_status :: linorder
begin

fun badness :: "health_status \<Rightarrow> nat" where
  "badness Healthy = 0" | "badness Degraded = 1" | "badness Unhealthy = 2"

definition less_eq_health_status :: "health_status \<Rightarrow> health_status \<Rightarrow> bool" where
  "a \<le> b \<longleftrightarrow> badness a \<le> badness b"

definition less_health_status :: "health_status \<Rightarrow> health_status \<Rightarrow> bool" where
  "a < b \<longleftrightarrow> badness a < badness b"

instance
proof
  fix a b :: health_status
  show "a \<le> b \<Longrightarrow> b \<le> a \<Longrightarrow> a = b"
    by (cases a; cases b) (simp_all add: less_eq_health_status_def)
qed (auto simp: less_eq_health_status_def less_health_status_def)

end

definition combineHealthStatus :: "health_status list \<Rightarrow> health_status" where
  "combineHealthStatus statuses =
     (if Unhealthy \<in> set statuses then Unhealthy
      else if Degraded \<in> set statuses then Degraded else Healthy)"

section \<open>Reports\<close>

record health_details =
  hd_actorCount :: nat
  hd_mailboxes :: nat
  hd_classes :: "nat option"

record component_health =
  ch_name :: string
  ch_status :: health_status
  ch_message :: "string option"
  ch_details :: "health_details option"

record health_report =
  hr_status :: health_status
  hr_timestamp :: int
  hr_node :: string
  hr_components :: "component_health list"
  hr_uptime :: "int option"

text \<open>A component: what its \<open>getHealth\<close> returns, or the text of what it throws or rejects with.\<close>

type_synonym checkable = "string + component_health"

record aggregator =
  ha_node :: string
  ha_start :: int
  ha_components :: "(string, checkable) jsmap"

definition new_aggregator :: "int \<Rightarrow> string \<Rightarrow> aggregator" where
  "new_aggregator now node = \<lparr>ha_node = node, ha_start = now, ha_components = []\<rparr>"

definition ha_register :: "string \<Rightarrow> checkable \<Rightarrow> aggregator \<Rightarrow> aggregator" where
  "ha_register name c h = h\<lparr>ha_components := jput (ha_components h) name c\<rparr>"

definition ha_unregister :: "string \<Rightarrow> aggregator \<Rightarrow> aggregator" where
  "ha_unregister name h = h\<lparr>ha_components := jdel (ha_components h) name\<rparr>"

definition check_component :: "string \<times> checkable \<Rightarrow> component_health" where
  "check_component c =
     (case c of
        (_, Inr health) \<Rightarrow> health
      | (name, Inl err) \<Rightarrow> \<lparr>ch_name = name, ch_status = Unhealthy,
           ch_message = Some (''Health check failed: '' @ err), ch_details = None\<rparr>)"

definition ha_getHealth :: "int \<Rightarrow> aggregator \<Rightarrow> health_report" where
  "ha_getHealth now h =
     (let healths = map check_component (ha_components h)
      in \<lparr>hr_status = combineHealthStatus (map ch_status healths), hr_timestamp = now, hr_node = ha_node h,
          hr_components = healths, hr_uptime = Some (now - ha_start h)\<rparr>)"

definition isAlive :: "aggregator \<Rightarrow> bool" where
  "isAlive h \<longleftrightarrow> True"

definition isReady :: "int \<Rightarrow> aggregator \<Rightarrow> bool" where
  "isReady now h \<longleftrightarrow> hr_status (ha_getHealth now h) \<noteq> Unhealthy"

section \<open>The health of an actor system\<close>

definition totalMailboxSize :: "sys \<Rightarrow> nat" where
  "totalMailboxSize s = sum_list (map mb_size (jvals (mailboxes s)))"

definition system_health :: "nat \<Rightarrow> sys \<Rightarrow> component_health" where
  "system_health registeredClasses s =
     (let report = (\<lambda>st msg cl. \<lparr>ch_name = ''ActorSystem'', ch_status = st, ch_message = Some msg,
            ch_details = Some \<lparr>hd_actorCount = length (actors s), hd_mailboxes = totalMailboxSize s, hd_classes = cl\<rparr>\<rparr>)
      in if \<not> isRunning s then report Unhealthy ''System is not running'' None
         else if isDraining s then report Degraded ''System is draining'' None
         else if isShuttingDown s then report Degraded ''System is shutting down'' None
         else if totalMailboxSize s > 1000 then report Degraded ''High mailbox backlog'' (Some registeredClasses)
         else report Healthy ''System is healthy'' (Some registeredClasses))"

section \<open>Properties\<close>

lemma status_cases: "(s::health_status) \<le> Unhealthy" "Healthy \<le> (s::health_status)"
  by (cases s; simp add: less_eq_health_status_def)+

lemma max_status [simp]:
  "max Healthy b = b" "max b Healthy = b" "max Unhealthy b = Unhealthy" "max b Unhealthy = Unhealthy"
  by (cases b; simp add: max_def less_eq_health_status_def)+

lemma combine_max: "combineHealthStatus xs = fold max xs Healthy"
proof -
  have "fold max xs s = (if s = Unhealthy \<or> Unhealthy \<in> set xs then Unhealthy
     else if s = Degraded \<or> Degraded \<in> set xs then Degraded else Healthy)" for s
  proof (induction xs arbitrary: s)
    case Nil
    then show ?case by (cases s) simp_all
  next
    case (Cons a xs)
    show ?case by (cases a; cases s) (simp_all add: Cons)
  qed
  then show ?thesis by (simp add: combineHealthStatus_def)
qed

text \<open>
  The overall status of a report is the worst of the components' statuses in the order healthy,
  degraded, unhealthy (healthy when there are none), a component whose check throws counts as
  unhealthy, every registered component is in the report once, in the order of registration,
  and the readiness probe fails exactly when some component is unhealthy or throws.
\<close>

theorem health_report_worst:
  shows "hr_status (ha_getHealth now h) = Max (insert Healthy ((\<lambda>c. ch_status (check_component c)) ` set (ha_components h)))
     \<and> length (hr_components (ha_getHealth now h)) = length (ha_components h)
     \<and> (isReady now h \<longleftrightarrow> (\<forall>c \<in> set (ha_components h). \<exists>x. snd c = Inr x \<and> ch_status x \<noteq> Unhealthy))"
proof -
  have m: "fold max xs (a::health_status) = Max (insert a (set xs))" for xs a
    by (metis Max.set_eq_fold list.simps(15))
  have s: "hr_status (ha_getHealth now h) = Max (insert Healthy (set (map (\<lambda>c. ch_status (check_component c)) (ha_components h))))"
    by (simp add: ha_getHealth_def Let_def combine_max m comp_def image_image)
  have c: "ch_status (check_component c) \<noteq> Unhealthy \<longleftrightarrow> (\<exists>x. snd c = Inr x \<and> ch_status x \<noteq> Unhealthy)" for c
    by (cases c; cases "snd c") (auto simp: check_component_def)
  have "isReady now h \<longleftrightarrow> (\<forall>c \<in> set (ha_components h). ch_status (check_component c) \<noteq> Unhealthy)"
  proof -
    have "Unhealthy \<in> ch_status ` check_component ` A \<longleftrightarrow> (\<exists>c \<in> A. ch_status (check_component c) = Unhealthy)" for A
      by (metis (no_types, lifting) image_eqI image_iff)
    then show ?thesis by (simp add: isReady_def ha_getHealth_def Let_def combineHealthStatus_def)
  qed
  then have "isReady now h \<longleftrightarrow> (\<forall>c \<in> set (ha_components h). \<exists>x. snd c = Inr x \<and> ch_status x \<noteq> Unhealthy)"
    by (simp only: c)
  with s show ?thesis by (simp add: ha_getHealth_def Let_def image_image)
qed

theorem health_report_worst_witness:
  "\<not> isReady 9 (ha_register ''db'' (Inl ''down'') (ha_register ''n''
     (Inr \<lparr>ch_name = ''n'', ch_status = Degraded, ch_message = None, ch_details = None\<rparr>) (new_aggregator 0 ''n'')))"
proof -
  let ?h = "ha_register ''db'' (Inl ''down'') (ha_register ''n''
     (Inr \<lparr>ch_name = ''n'', ch_status = Degraded, ch_message = None, ch_details = None\<rparr>) (new_aggregator 0 ''n''))"
  have "(''db'', Inl ''down'') \<in> set (ha_components ?h)"
    by (simp add: ha_register_def new_aggregator_def)
  then have "\<not> (\<forall>c \<in> set (ha_components ?h). \<exists>x. snd c = Inr x \<and> ch_status x \<noteq> Unhealthy)" by (auto intro!: bexI)
  then show ?thesis using health_report_worst [of 9 ?h] by simp
qed

end
