(* ===== verification/Heartbeat.thy ===== *)
theory Heartbeat
  imports Prelude
begin

text \<open>
  \<open>src/heartbeat.ts\<close>: failure detection by ping and pong. The state of a peer is an object that
  the map of peers, a staggered timer and a ping in flight can all refer to, so the objects are in
  a heap and the map holds addresses. The cluster is what \<open>getLivePeers\<close> or \<open>getMembers\<close> returned
  and the events it emits; timers and answers of the transport are events. Telemetry and logging
  are left out.
\<close>

section \<open>State\<close>

record heartbeat_config =
  hc_enabled :: bool
  hc_intervalMs :: int
  hc_timeoutMs :: int
  hc_maxMissed :: nat
  hc_stagger :: bool

definition DEFAULT_HEARTBEAT_CONFIG :: heartbeat_config where
  "DEFAULT_HEARTBEAT_CONFIG = \<lparr>hc_enabled = True, hc_intervalMs = 1000, hc_timeoutMs = 2000, hc_maxMissed = 3, hc_stagger = True\<rparr>"

record heartbeat_ping =
  ping_timestamp :: int
  ping_sender :: string

record heartbeat_pong =
  pong_timestamp :: int
  pong_responder :: string

record peer_heartbeat =
  ph_node :: string
  ph_missed :: nat
  ph_lastPong :: int
  ph_pending :: bool
  ph_leaving :: bool

text \<open>
  \<open>hb_timers\<close>: the staggered timers that are set, with the object they ping. \<open>hb_stagger\<close>: the
  handles of \<open>staggerTimers\<close>. \<open>hb_cleanups\<close>: the timers that will forget the handles.
  \<open>hb_failed\<close>: the \<open>node_failed\<close> events, \<open>hb_pings\<close>: the nodes pinged, in order.
\<close>

record heartbeat =
  hb_node :: string
  hb_config :: heartbeat_config
  hb_heap :: "nat \<Rightarrow> peer_heartbeat option"
  hb_next :: nat
  hb_peers :: "(string, nat) jsmap"
  hb_timers :: "(nat \<times> nat) list"
  hb_nextTimer :: nat
  hb_stagger :: "nat list"
  hb_cleanups :: nat
  hb_interval :: bool
  hb_listening :: bool
  hb_running :: bool
  hb_failed :: "string list"
  hb_pings :: "(string \<times> heartbeat_ping) list"

definition new_heartbeat :: "string \<Rightarrow> heartbeat_config \<Rightarrow> heartbeat" where
  "new_heartbeat node c =
     \<lparr>hb_node = node, hb_config = c, hb_heap = (\<lambda>_. None), hb_next = 0, hb_peers = [], hb_timers = [], hb_nextTimer = 0,
      hb_stagger = [], hb_cleanups = 0, hb_interval = False, hb_listening = False, hb_running = False, hb_failed = [], hb_pings = []\<rparr>"

section \<open>Peers\<close>

definition addPeer :: "int \<Rightarrow> string \<Rightarrow> heartbeat \<Rightarrow> heartbeat" where
  "addPeer now node s =
     (if jhas (hb_peers s) node then s
      else s\<lparr>hb_heap := (hb_heap s)(hb_next s \<mapsto> \<lparr>ph_node = node, ph_missed = 0, ph_lastPong = now, ph_pending = False, ph_leaving = False\<rparr>),
             hb_next := Suc (hb_next s), hb_peers := jput (hb_peers s) node (hb_next s)\<rparr>)"

definition removePeer :: "string \<Rightarrow> heartbeat \<Rightarrow> heartbeat" where
  "removePeer node s = s\<lparr>hb_peers := jdel (hb_peers s) node\<rparr>"

definition upd_peer :: "nat \<Rightarrow> (peer_heartbeat \<Rightarrow> peer_heartbeat) \<Rightarrow> heartbeat \<Rightarrow> heartbeat" where
  "upd_peer a f s = s\<lparr>hb_heap := (hb_heap s)(a := map_option f (hb_heap s a))\<rparr>"

definition initializePeerStates :: "int \<Rightarrow> string list \<Rightarrow> heartbeat \<Rightarrow> heartbeat" where
  "initializePeerStates now nodes s = fold (\<lambda>n s. if n \<noteq> hb_node s then addPeer now n s else s) nodes s"

definition handleMemberJoin :: "int \<Rightarrow> string \<Rightarrow> heartbeat \<Rightarrow> heartbeat" where
  "handleMemberJoin now node s = (if node \<noteq> hb_node s then addPeer now node s else s)"

text \<open>The event carries a node id, or an object with a status.\<close>

definition handleMemberLeave :: "string \<Rightarrow> string option \<Rightarrow> heartbeat \<Rightarrow> heartbeat" where
  "handleMemberLeave node status s =
     (case jget (hb_peers s) node of
        None \<Rightarrow> s
      | Some a \<Rightarrow>
          if status = Some ''leaving'' then removePeer node (upd_peer a (\<lambda>p. p\<lparr>ph_leaving := True\<rparr>) s)
          else removePeer node s)"

section \<open>Pings\<close>

definition handlePing :: "heartbeat_ping \<Rightarrow> heartbeat \<Rightarrow> heartbeat_pong" where
  "handlePing p s = \<lparr>pong_timestamp = ping_timestamp p, pong_responder = hb_node s\<rparr>"

text \<open>\<open>pingPeer\<close> on the object at an address, up to the request.\<close>

definition send_ping :: "int \<Rightarrow> nat \<Rightarrow> peer_heartbeat \<Rightarrow> heartbeat \<Rightarrow> heartbeat" where
  "send_ping now a p s =
     (upd_peer a (\<lambda>p. p\<lparr>ph_pending := True\<rparr>) s)
       \<lparr>hb_pings := hb_pings s @ [(ph_node p, \<lparr>ping_timestamp = now, ping_sender = hb_node s\<rparr>)]\<rparr>"

definition pingPeer :: "int \<Rightarrow> nat \<Rightarrow> heartbeat \<Rightarrow> heartbeat" where
  "pingPeer now a s =
     (case hb_heap s a of
        None \<Rightarrow> s
      | Some p \<Rightarrow>
          if \<not> hb_running s \<or> ph_leaving p then s
          else if ph_pending p then
            (let s1 = upd_peer a (\<lambda>p. p\<lparr>ph_missed := Suc (ph_missed p)\<rparr>) s
             in if hc_maxMissed (hb_config s) \<le> Suc (ph_missed p)
                then (removePeer (ph_node p) s1)\<lparr>hb_failed := hb_failed s @ [ph_node p]\<rparr>
                else send_ping now a p s1)
          else send_ping now a p s)"

text \<open>The answer of a node: it clears whatever object the map holds for the node by now.\<close>

definition receivePong :: "int \<Rightarrow> string \<Rightarrow> heartbeat \<Rightarrow> heartbeat" where
  "receivePong now node s =
     (case jget (hb_peers s) node of
        None \<Rightarrow> s
      | Some a \<Rightarrow> upd_peer a (\<lambda>p. p\<lparr>ph_pending := False, ph_missed := 0, ph_lastPong := now\<rparr>) s)"

text \<open>One round: the peers are pinged at once, or by timers spread over the interval.\<close>

definition active_peers :: "heartbeat \<Rightarrow> nat list" where
  "active_peers s = filter (\<lambda>a. case hb_heap s a of Some p \<Rightarrow> \<not> ph_leaving p | None \<Rightarrow> False) (jvals (hb_peers s))"

definition heartbeatLoop :: "int \<Rightarrow> heartbeat \<Rightarrow> heartbeat" where
  "heartbeatLoop now s =
     (let peers = active_peers s
      in if \<not> hb_running s \<or> peers = [] then s
         else if hc_stagger (hb_config s) \<and> length peers > 1 then
           (let ids = [hb_nextTimer s..<hb_nextTimer s + length peers]
            in s\<lparr>hb_timers := hb_timers s @ zip ids peers, hb_nextTimer := hb_nextTimer s + length peers,
                 hb_stagger := hb_stagger s @ ids, hb_cleanups := Suc (hb_cleanups s)\<rparr>)
         else fold (pingPeer now) peers s)"

definition timer_fires :: "int \<Rightarrow> nat \<Rightarrow> heartbeat \<Rightarrow> heartbeat" where
  "timer_fires now t s =
     (case jget (hb_timers s) t of None \<Rightarrow> s | Some a \<Rightarrow> pingPeer now a (s\<lparr>hb_timers := jdel (hb_timers s) t\<rparr>))"

definition cleanup_timers :: "heartbeat \<Rightarrow> heartbeat" where
  "cleanup_timers s = s\<lparr>hb_stagger := [], hb_cleanups := hb_cleanups s - 1\<rparr>"

section \<open>Starting and stopping\<close>

definition hb_start :: "int \<Rightarrow> string list \<Rightarrow> heartbeat \<Rightarrow> heartbeat" where
  "hb_start now members s =
     (if \<not> hc_enabled (hb_config s) \<or> hb_running s then s
      else heartbeatLoop now ((initializePeerStates now members (s\<lparr>hb_running := True\<rparr>))\<lparr>hb_listening := True, hb_interval := True\<rparr>))"

text \<open>Only the timers whose handles are still known are cleared.\<close>

definition hb_stop :: "heartbeat \<Rightarrow> heartbeat" where
  "hb_stop s =
     (if \<not> hb_running s then s
      else s\<lparr>hb_running := False, hb_interval := False, hb_timers := filter (\<lambda>(t, a). t \<notin> set (hb_stagger s)) (hb_timers s),
             hb_stagger := [], hb_listening := False, hb_peers := []\<rparr>)"

definition getTrackedPeers :: "heartbeat \<Rightarrow> string list" where
  "getTrackedPeers s = jkeys (hb_peers s)"

definition getPeerState :: "heartbeat \<Rightarrow> string \<Rightarrow> peer_heartbeat option" where
  "getPeerState s node = (case jget (hb_peers s) node of None \<Rightarrow> None | Some a \<Rightarrow> hb_heap s a)"

section \<open>The manager as a machine\<close>

inductive hb_step :: "heartbeat \<Rightarrow> heartbeat \<Rightarrow> bool" where
  start: "hb_step s (hb_start now members s)"
| stop: "hb_step s (hb_stop s)"
| tick: "hb_interval s \<Longrightarrow> hb_step s (heartbeatLoop now s)"
| timer: "hb_step s (timer_fires now t s)"
| cleanup: "0 < hb_cleanups s \<Longrightarrow> hb_step s (cleanup_timers s)"
| member_join: "hb_listening s \<Longrightarrow> hb_step s (handleMemberJoin now node s)"
| member_leave: "hb_listening s \<Longrightarrow> hb_step s (handleMemberLeave node status s)"
| pong: "hb_step s (receivePong now node s)"

text \<open>
  Every tracked peer has an object of its own that bears its name, is not leaving, and has missed
  less than the limit; the node does not track itself; nothing is tracked while it is stopped.
\<close>

definition hb_ok :: "heartbeat \<Rightarrow> bool" where
  "hb_ok s \<longleftrightarrow> jwf (hb_peers s) \<and> (\<not> hb_running s \<longrightarrow> hb_peers s = [] \<and> \<not> hb_listening s \<and> \<not> hb_interval s) \<and>
     (\<forall>a\<ge>hb_next s. hb_heap s a = None) \<and>
     (\<forall>n a. jget (hb_peers s) n = Some a \<longrightarrow> n \<noteq> hb_node s \<and> (\<exists>p. hb_heap s a = Some p \<and> ph_node p = n \<and> \<not> ph_leaving p \<and>
        (ph_missed p = 0 \<or> ph_missed p < hc_maxMissed (hb_config s))))"

lemma upd_peer_simps [simp]:
  "hb_peers (upd_peer a f s) = hb_peers s" "hb_node (upd_peer a f s) = hb_node s" "hb_config (upd_peer a f s) = hb_config s"
  "hb_running (upd_peer a f s) = hb_running s" "hb_failed (upd_peer a f s) = hb_failed s" "hb_next (upd_peer a f s) = hb_next s"
  "hb_listening (upd_peer a f s) = hb_listening s" "hb_interval (upd_peer a f s) = hb_interval s"
  "hb_heap (upd_peer a f s) = (hb_heap s)(a := map_option f (hb_heap s a))"
  by (simp_all add: upd_peer_def)

lemma hb_ok_addPeer: "hb_ok s \<Longrightarrow> hb_running s \<Longrightarrow> node \<noteq> hb_node s \<Longrightarrow> hb_ok (addPeer now node s)"
  by (auto simp: hb_ok_def addPeer_def jhas_def) (metis option.distinct(1) order_refl)+

lemma hb_ok_pingPeer: "hb_ok s \<Longrightarrow> hb_ok (pingPeer now a s)"
proof (cases "hb_heap s a")
  case (Some p)
  assume ok: "hb_ok s"
  have own: "ph_node p = n \<and> (ph_missed p = 0 \<or> ph_missed p < hc_maxMissed (hb_config s))" if "jget (hb_peers s) n = Some a" for n
    using ok that Some by (fastforce simp: hb_ok_def)
  show ?thesis
    using ok Some
    by (auto simp: hb_ok_def pingPeer_def send_ping_def removePeer_def Let_def dest: own)
qed (simp add: pingPeer_def)


lemma hb_ok_upd:
  assumes "hb_ok s" and "\<And>p. ph_node (f p) = ph_node p \<and> ph_leaving (f p) = ph_leaving p \<and> ph_missed (f p) = 0"
  shows "hb_ok (upd_peer a f s)"
proof -
  have "\<exists>p. hb_heap (upd_peer a f s) b = Some p \<and> ph_node p = n \<and> \<not> ph_leaving p \<and>
      (ph_missed p = 0 \<or> ph_missed p < hc_maxMissed (hb_config s))" if b: "jget (hb_peers s) n = Some b" for n b
  proof -
    have "\<exists>p. hb_heap s b = Some p \<and> ph_node p = n \<and> \<not> ph_leaving p \<and> (ph_missed p = 0 \<or> ph_missed p < hc_maxMissed (hb_config s))"
      using assms(1) b unfolding hb_ok_def by blast
    then show ?thesis using assms(2) by auto
  qed
  moreover have "n \<noteq> hb_node s" if "jget (hb_peers s) n = Some b" for n b
    using assms(1) that unfolding hb_ok_def by blast
  ultimately show ?thesis using assms(1) by (simp add: hb_ok_def)
qed

lemma pingPeer_fields [simp]:
  "hb_running (pingPeer now a s) = hb_running s" "hb_node (pingPeer now a s) = hb_node s"
  "hb_config (pingPeer now a s) = hb_config s" "hb_listening (pingPeer now a s) = hb_listening s"
  "hb_interval (pingPeer now a s) = hb_interval s"
  by (simp_all add: pingPeer_def send_ping_def removePeer_def Let_def split: option.split)

lemma hb_ok_loop: "hb_ok s \<Longrightarrow> hb_ok (heartbeatLoop now s)"
proof -
  assume ok: "hb_ok s"
  have f: "hb_ok (fold (pingPeer now) as s)" for as
    using ok by (induction as arbitrary: s) (simp_all add: hb_ok_pingPeer)
  have "hb_ok (s\<lparr>hb_timers := x, hb_nextTimer := y, hb_stagger := z, hb_cleanups := w\<rparr>)" for x y z w
    using ok by (simp add: hb_ok_def)
  then show ?thesis using ok f by (simp add: heartbeatLoop_def Let_def)
qed

lemma hb_ok_initialize:
  "hb_ok s \<Longrightarrow> hb_running s \<Longrightarrow>
     hb_ok (initializePeerStates now ns s) \<and> hb_running (initializePeerStates now ns s)"
proof -
  have "hb_ok (fold (\<lambda>n s. if n \<noteq> hb_node s then addPeer now n s else s) ns s) \<and>
      hb_running (fold (\<lambda>n s. if n \<noteq> hb_node s then addPeer now n s else s) ns s)" if "hb_ok s" "hb_running s"
    using that
  proof (induction ns arbitrary: s)
    case (Cons n ns)
    have "hb_running (addPeer now n s)" using Cons.prems by (simp add: addPeer_def)
    then show ?case using Cons hb_ok_addPeer by simp
  qed simp
  then show "hb_ok s \<Longrightarrow> hb_running s \<Longrightarrow> ?thesis" by (simp add: initializePeerStates_def)
qed

lemma hb_ok_step: "hb_step s s' \<Longrightarrow> hb_ok s \<Longrightarrow> hb_ok s'"
proof (induction rule: hb_step.induct)
  case (start s now members)
  show ?case
  proof (cases "\<not> hc_enabled (hb_config s) \<or> hb_running s")
    case False
    then have "hb_ok (s\<lparr>hb_running := True\<rparr>)" using start by (simp add: hb_ok_def)
    from hb_ok_initialize [OF this, of now members]
    have "hb_ok ((initializePeerStates now members (s\<lparr>hb_running := True\<rparr>))\<lparr>hb_listening := True, hb_interval := True\<rparr>)"
      by (simp add: hb_ok_def)
    then show ?thesis using False by (simp add: hb_start_def hb_ok_loop)
  qed (use start in \<open>auto simp: hb_start_def\<close>)
next
  case (timer s now t)
  have "hb_ok (s\<lparr>hb_timers := x\<rparr>)" for x using timer by (simp add: hb_ok_def)
  then show ?case using timer by (simp add: timer_fires_def hb_ok_pingPeer split: option.split)
next
  case (member_join s now node)
  then have "hb_running s" by (auto simp: hb_ok_def)
  then show ?case using member_join hb_ok_addPeer by (simp add: handleMemberJoin_def)
next
  case (member_leave s node status)
  have "n = node" if "jget (hb_peers s) node = Some a" "jget (hb_peers s) n = Some a" for a n
  proof -
    have "\<exists>p. hb_heap s a = Some p \<and> ph_node p = n" "\<exists>p. hb_heap s a = Some p \<and> ph_node p = node"
      using member_leave(2) that unfolding hb_ok_def by blast+
    then show ?thesis by auto
  qed
  then show ?case using member_leave
    by (auto simp: handleMemberLeave_def hb_ok_def removePeer_def split: option.split)
next
  case (pong s now node)
  then show ?case by (auto simp: receivePong_def split: option.split intro!: hb_ok_upd)
qed (auto simp: hb_stop_def hb_ok_loop cleanup_timers_def, auto simp: hb_ok_def)

text \<open>
  In every state the manager reaches, through any interleaving of rounds, staggered timers,
  answers, membership events, stops and restarts: every tracked peer has an object of its own,
  has missed less than the limit and is not leaving, the node does not track itself, and a stopped
  manager tracks nobody and neither listens nor has its interval set.
\<close>

theorem heartbeat_invariant:
  assumes "hb_step\<^sup>*\<^sup>* (new_heartbeat node c) s"
  shows "hb_ok s"
  using assms
proof (induction rule: rtranclp_induct)
  case base
  then show ?case by (simp add: hb_ok_def new_heartbeat_def)
qed (rule hb_ok_step)

section \<open>Which peers fail\<close>

text \<open>What happens to one tracked peer: it is pinged, or it answers.\<close>

datatype peer_event = Ping | Pong

definition peer_step :: "int \<Rightarrow> nat \<Rightarrow> string \<Rightarrow> peer_event \<Rightarrow> heartbeat \<Rightarrow> heartbeat" where
  "peer_step now a node e s = (case e of Ping \<Rightarrow> pingPeer now a s | Pong \<Rightarrow> receivePong now node s)"


definition peer_run :: "nat \<Rightarrow> string \<Rightarrow> (int \<times> peer_event) list \<Rightarrow> heartbeat \<Rightarrow> heartbeat" where
  "peer_run a node evs s = fold (\<lambda>(now, e). peer_step now a node e) evs s"

text \<open>The pings since the last answer.\<close>

definition unanswered :: "(int \<times> peer_event) list \<Rightarrow> nat" where
  "unanswered evs = length (takeWhile (\<lambda>(t, e). e = Ping) (rev evs))"

text \<open>The peer is tracked at \<open>a\<close> and has \<open>n\<close> pings unanswered.\<close>

definition tracked_peer :: "nat \<Rightarrow> string \<Rightarrow> nat \<Rightarrow> heartbeat \<Rightarrow> bool" where
  "tracked_peer a node n s \<longleftrightarrow> hb_running s \<and> jget (hb_peers s) node = Some a \<and>
     (\<exists>p. hb_heap s a = Some p \<and> ph_node p = node \<and> \<not> ph_leaving p \<and> (ph_pending p \<longleftrightarrow> 0 < n) \<and> ph_missed p = n - 1)"

lemma tracked_pong: "tracked_peer a node n s \<Longrightarrow>
    tracked_peer a node 0 (receivePong now node s) \<and> hb_failed (receivePong now node s) = hb_failed s \<and>
    hb_config (receivePong now node s) = hb_config s"
  by (auto simp: tracked_peer_def receivePong_def)

lemma tracked_ping:
  assumes "tracked_peer a node n s" and "1 \<le> hc_maxMissed (hb_config s)"
  shows "if n < hc_maxMissed (hb_config s)
    then tracked_peer a node (Suc n) (pingPeer now a s) \<and> hb_failed (pingPeer now a s) = hb_failed s
    else jget (hb_peers (pingPeer now a s)) node = None \<and> hb_failed (pingPeer now a s) = hb_failed s @ [node]"
  using assms by (cases n) (auto simp: tracked_peer_def pingPeer_def send_ping_def removePeer_def Let_def)

lemma unanswered_snoc [simp]: "unanswered (evs @ [(t, e)]) = (case e of Ping \<Rightarrow> Suc (unanswered evs) | Pong \<Rightarrow> 0)"
  by (simp add: unanswered_def split: peer_event.split)

text \<open>
  C32: A tracked peer is declared failed exactly when one more ping than \<open>maxMissedHeartbeats\<close> stays
  without an answer: as long as no stretch of pings is longer, nothing is emitted and the peer
  stays tracked; the ping that makes the stretch longer removes the peer and emits
  \<open>node_failed\<close> once.
\<close>

theorem heartbeat_detection_exact:
  assumes "tracked_peer a node 0 s" and "1 \<le> hc_maxMissed (hb_config s)"
    and "\<forall>pre x post. evs = pre @ x # post \<longrightarrow> unanswered pre \<le> hc_maxMissed (hb_config s)"
  shows "if unanswered evs \<le> hc_maxMissed (hb_config s)
    then jget (hb_peers (peer_run a node evs s)) node = Some a \<and> hb_failed (peer_run a node evs s) = hb_failed s
    else jget (hb_peers (peer_run a node evs s)) node = None \<and> hb_failed (peer_run a node evs s) = hb_failed s @ [node]"
proof -
  let ?m = "hc_maxMissed (hb_config s)"
  have run: "tracked_peer a node (unanswered evs) (peer_run a node evs s) \<and> hb_failed (peer_run a node evs s) = hb_failed s \<and>
      hb_config (peer_run a node evs s) = hb_config s"
    if "\<forall>pre post. evs = pre @ post \<longrightarrow> unanswered pre \<le> ?m" for evs
    using that
  proof (induction evs rule: rev_induct)
    case Nil
    then show ?case using assms(1) by (simp add: peer_run_def unanswered_def)
  next
    case (snoc x evs)
    obtain t e where x: "x = (t, e)" by (cases x)
    have IH: "tracked_peer a node (unanswered evs) (peer_run a node evs s)" "hb_failed (peer_run a node evs s) = hb_failed s"
      "hb_config (peer_run a node evs s) = hb_config s" using snoc by auto
    have "unanswered (evs @ [x]) \<le> ?m" using snoc.prems by (metis append_Nil2)
    then show ?case
      using IH tracked_pong [OF IH(1), of t] tracked_ping [OF IH(1), of t] assms(2)
      by (cases e) (auto simp: x peer_run_def peer_step_def)
  qed
  show ?thesis
  proof (cases evs rule: rev_cases)
    case Nil
    then show ?thesis using assms(1) by (simp add: peer_run_def unanswered_def tracked_peer_def)
  next
    case (snoc pre x)
    obtain t e where x: "x = (t, e)" by (cases x)
    have "unanswered p \<le> ?m" if "pre = p @ q" for p q
      using assms(3) snoc that by (cases q) (metis append_Nil2, simp)
    then have "\<forall>p q. pre = p @ q \<longrightarrow> unanswered p \<le> ?m" by blast
    note R = run [OF this]
    have T: "tracked_peer a node (unanswered pre) (peer_run a node pre s)" using R by blast
    show ?thesis
      using R tracked_pong [OF T, of t] tracked_ping [OF T, of t] assms(2) snoc x
      by (cases e) (auto simp: peer_run_def peer_step_def tracked_peer_def split: if_splits)
  qed
qed


definition hb_demo :: "nat \<Rightarrow> heartbeat" where
  "hb_demo m = addPeer 0 ''p'' ((new_heartbeat ''n'' (DEFAULT_HEARTBEAT_CONFIG\<lparr>hc_maxMissed := m\<rparr>))\<lparr>hb_running := True\<rparr>)"

theorem heartbeat_detection_exact_witness:
  "hb_failed (peer_run 0 ''p'' [(1, Ping), (2, Pong), (3, Ping), (4, Ping), (5, Ping)] (hb_demo 2)) = [''p'']"
proof -
  let ?evs = "[(1, Ping), (2, Pong), (3, Ping), (4, Ping), (5, Ping)] :: (int \<times> peer_event) list"
  have t: "tracked_peer 0 ''p'' 0 (hb_demo 2)" and c: "hc_maxMissed (hb_config (hb_demo 2)) = 2" and f: "hb_failed (hb_demo 2) = []"
    by (simp_all add: hb_demo_def addPeer_def new_heartbeat_def jhas_def DEFAULT_HEARTBEAT_CONFIG_def tracked_peer_def)
  have "unanswered pre \<le> 2" if "?evs = pre @ x # post" for pre x post
  proof -
    have "pre \<in> set [[], [(1, Ping)], [(1, Ping), (2, Pong)], [(1, Ping), (2, Pong), (3, Ping)], [(1, Ping), (2, Pong), (3, Ping), (4, Ping)]]"
      using that by (auto simp: Cons_eq_append_conv)
    then show ?thesis by (auto simp: unanswered_def)
  qed
  then have "\<forall>pre x post. ?evs = pre @ x # post \<longrightarrow> unanswered pre \<le> hc_maxMissed (hb_config (hb_demo 2))" unfolding c by blast
  moreover have "unanswered ?evs = 3" by (simp add: unanswered_def)
  ultimately show ?thesis using heartbeat_detection_exact [OF t, of ?evs] c f by (simp split: if_splits)
qed

theorem heartbeat_invariant_witness:
  "hb_ok (hb_start 5 [''n'', ''p'', ''q''] (new_heartbeat ''n'' DEFAULT_HEARTBEAT_CONFIG))"
  by (rule heartbeat_invariant) (rule r_into_rtranclp, rule hb_step.start)

section \<open>A stale object\<close>

text \<open>
  A staggered timer keeps the object a peer had when the round began. When the peer leaves and
  joins again before the timer fires, it has a new object, but the timer counts the miss on the old
  one, and removes and announces the node by name: a peer that has just joined, and has missed
  nothing, is declared failed.
\<close>

theorem stale_timer_fails_rejoined:
  assumes "hb_running s" and "jget (hb_peers s) node = Some b" and "hb_heap s a = Some p" and "a \<noteq> b"
    and "ph_node p = node" and "\<not> ph_leaving p" and "ph_pending p" and "hc_maxMissed (hb_config s) \<le> Suc (ph_missed p)"
    and "jget (hb_timers s) t = Some a"
  shows "hb_failed (timer_fires now t s) = hb_failed s @ [node] \<and> jget (hb_peers (timer_fires now t s)) node = None"
  using assms by (simp add: timer_fires_def pingPeer_def Let_def removePeer_def upd_peer_def)

text \<open>
  Such a state is reached by the code: with \<open>maxMissedHeartbeats = 1\<close>, two peers, two rounds, and
  \<open>p\<close> leaving and joining again after the second round has set its timers.
\<close>

definition hb_stale :: heartbeat where
  "hb_stale =
     (let s0 = hb_start 0 [''p'', ''q''] (new_heartbeat ''n'' (DEFAULT_HEARTBEAT_CONFIG\<lparr>hc_maxMissed := 1\<rparr>));
          s1 = timer_fires 1 0 s0;
          s2 = heartbeatLoop 1000 s1
      in handleMemberJoin 1001 ''p'' (handleMemberLeave ''p'' None s2))"

lemma hb_stale_reachable: "hb_step\<^sup>*\<^sup>* (new_heartbeat ''n'' (DEFAULT_HEARTBEAT_CONFIG\<lparr>hc_maxMissed := 1\<rparr>)) hb_stale"
proof -
  let ?n = "new_heartbeat ''n'' (DEFAULT_HEARTBEAT_CONFIG\<lparr>hc_maxMissed := 1\<rparr>)"
  have start: "hb_interval (hb_start 0 [''p'', ''q''] ?n)" "hb_listening (hb_start 0 [''p'', ''q''] ?n)"
    by (simp_all add: hb_start_def heartbeatLoop_def new_heartbeat_def DEFAULT_HEARTBEAT_CONFIG_def Let_def initializePeerStates_def
        addPeer_def jhas_def active_peers_def)
  have t: "hb_interval (timer_fires now k s) = hb_interval s" "hb_listening (timer_fires now k s) = hb_listening s" for now k s
    by (simp_all add: timer_fires_def split: option.split)
  have f: "hb_listening (fold (pingPeer now) as s) = hb_listening s" for now as s
    by (induction as arbitrary: s) simp_all
  have l: "hb_listening (heartbeatLoop now s) = hb_listening s" for now s
    by (simp add: heartbeatLoop_def Let_def f)
  have v: "hb_listening (handleMemberLeave n x s) = hb_listening s" for n x s
    by (simp add: handleMemberLeave_def removePeer_def split: option.split)
  let ?s0 = "hb_start 0 [''p'', ''q''] ?n"
  let ?s1 = "timer_fires 1 0 ?s0"
  let ?s2 = "heartbeatLoop 1000 ?s1"
  have "hb_step\<^sup>*\<^sup>* ?n ?s0"
    by (rule r_into_rtranclp) (rule hb_step.start)
  moreover have "hb_step ?s0 ?s1"
    by (rule hb_step.timer)
  moreover have "hb_step ?s1 ?s2"
    by (rule hb_step.tick) (simp only: t start)
  moreover have "hb_step ?s2 (handleMemberLeave ''p'' None ?s2)"
    by (rule hb_step.member_leave) (simp only: l t start)
  moreover have "hb_step (handleMemberLeave ''p'' None ?s2) (handleMemberJoin 1001 ''p'' (handleMemberLeave ''p'' None ?s2))"
    by (rule hb_step.member_join) (simp only: v l t start)
  ultimately show ?thesis
    unfolding hb_stale_def Let_def by (meson rtranclp.rtrancl_into_rtrancl)
qed

theorem stale_timer_fails_rejoined_witness:
  "hb_failed (timer_fires 1002 2 hb_stale) = [''p'']"
proof -
  have s: "hb_running hb_stale" "jget (hb_peers hb_stale) ''p'' = Some 2"
    "hb_heap hb_stale 0 = Some \<lparr>ph_node = ''p'', ph_missed = 0, ph_lastPong = 0, ph_pending = True, ph_leaving = False\<rparr>"
    "hc_maxMissed (hb_config hb_stale) = 1" "jget (hb_timers hb_stale) 2 = Some 0" "hb_failed hb_stale = []"
    by (code_simp)+
  then show ?thesis
    using stale_timer_fails_rejoined [OF s(1,2,3) _ _ _ _ _ s(5), of 1002] by simp
qed

end
