(* ===== verification/Vector_Clock.thy ===== *)
theory Vector_Clock
  imports Prelude
begin

text \<open>
  \<open>src/vector_clock.ts\<close>: a counter per node, \<open>0\<close> for a node the map does not hold. What the
  registry needs of the comparison is the locale \<open>causality\<close>; \<open>compare\<close> provides it.
\<close>

section \<open>The clock\<close>

type_synonym vclock = "(string, nat) jsmap"

datatype causal_order = Before | After | Concurrent

definition vc_get :: "vclock \<Rightarrow> string \<Rightarrow> nat" where
  "vc_get c n = (case jget c n of None \<Rightarrow> 0 | Some t \<Rightarrow> t)"

definition vc_increment :: "string \<Rightarrow> vclock \<Rightarrow> vclock" where
  "vc_increment n c = jput c n (vc_get c n + 1)"

definition vc_merge :: "vclock \<Rightarrow> vclock \<Rightarrow> vclock" where
  "vc_merge c other = fold (\<lambda>(n, t) c. jput c n (max (vc_get c n) t)) other c"

text \<open>
  \<open>compare\<close>: the loop over the node ids of both clocks raises one flag when a counter is
  greater and one when a counter is less.
\<close>

definition vc_flags :: "vclock \<Rightarrow> vclock \<Rightarrow> string list \<Rightarrow> bool \<times> bool" where
  "vc_flags a b nodes =
     fold (\<lambda>n (greater, less). (greater \<or> vc_get a n > vc_get b n, less \<or> vc_get a n < vc_get b n))
       nodes (False, False)"

definition vc_compare :: "vclock \<Rightarrow> vclock \<Rightarrow> causal_order" where
  "vc_compare a b =
     (let (greater, less) = vc_flags a b (fold (\<lambda>n s. sadd s n) (jkeys a @ jkeys b) [])
      in if greater \<and> \<not> less then After else if less \<and> \<not> greater then Before else Concurrent)"

definition isLessThan :: "vclock \<Rightarrow> vclock \<Rightarrow> bool" where
  "isLessThan a b \<longleftrightarrow> vc_compare a b = Before"

definition isGreaterThan :: "vclock \<Rightarrow> vclock \<Rightarrow> bool" where
  "isGreaterThan a b \<longleftrightarrow> vc_compare a b = After"

definition isConcurrent :: "vclock \<Rightarrow> vclock \<Rightarrow> bool" where
  "isConcurrent a b \<longleftrightarrow> vc_compare a b = Concurrent"

definition vc_isEmpty :: "vclock \<Rightarrow> bool" where
  "vc_isEmpty c \<longleftrightarrow> length c = 0 \<or> list_all (\<lambda>v. v = 0) (jvals c)"

section \<open>Reading a clock as a function\<close>

text \<open>The pointwise order: the meaning of a clock is the counter it gives each node.\<close>

definition vc_le :: "vclock \<Rightarrow> vclock \<Rightarrow> bool" where
  "vc_le a b \<longleftrightarrow> (\<forall>n. vc_get a n \<le> vc_get b n)"

lemma vc_get_increment [simp]:
  "vc_get (vc_increment n c) m = (if m = n then vc_get c n + 1 else vc_get c m)"
  by (simp add: vc_get_def vc_increment_def)

lemma vc_get_jput: "vc_get (jput c n t) m = (if m = n then t else vc_get c m)"
  by (simp add: vc_get_def)

lemma vc_get_fold_merge:
  "jwf other \<Longrightarrow> vc_get (fold (\<lambda>(n, t) c. jput c n (max (vc_get c n) t)) other c) m =
     (case jget other m of None \<Rightarrow> vc_get c m | Some t \<Rightarrow> max (vc_get c m) t)"
proof (induction other arbitrary: c)
  case (Cons p other)
  obtain n t where p: "p = (n, t)" by (cases p)
  have "jget other n = None" using Cons.prems p by (simp add: map_of_eq_None_iff)
  then show ?case
    using Cons.IH [of "jput c n (max (vc_get c n) t)"] Cons.prems p
    by (auto simp: vc_get_jput split: option.split)
qed simp

lemma vc_get_merge: "jwf b \<Longrightarrow> vc_get (vc_merge a b) m = max (vc_get a m) (vc_get b m)"
  by (simp add: vc_merge_def vc_get_fold_merge) (simp add: vc_get_def split: option.split)

lemma jwf_increment [simp]: "jwf c \<Longrightarrow> jwf (vc_increment n c)"
  by (simp add: vc_increment_def)

lemma jwf_merge [simp]: "jwf a \<Longrightarrow> jwf (vc_merge a b)"
  unfolding vc_merge_def by (rule fold_inv) (auto split: prod.split)

lemma set_fold_sadd: "set (fold (\<lambda>n s. sadd s n) ns s) = set s \<union> set ns"
  by (induction ns arbitrary: s) auto

lemma vc_flags_fold:
  "fold (\<lambda>n (greater, less). (greater \<or> vc_get a n > vc_get b n, less \<or> vc_get a n < vc_get b n)) ns (g, l) =
     (g \<or> (\<exists>n\<in>set ns. vc_get a n > vc_get b n), l \<or> (\<exists>n\<in>set ns. vc_get a n < vc_get b n))"
  by (induction ns arbitrary: g l) auto

lemma vc_get_absent: "n \<notin> set (jkeys a) \<Longrightarrow> vc_get a n = 0"
  by (simp add: vc_get_def map_of_eq_None_iff [THEN iffD2])

lemma vc_compare_le:
  "vc_compare a b = (if vc_le b a \<and> \<not> vc_le a b then After
                     else if vc_le a b \<and> \<not> vc_le b a then Before else Concurrent)"
proof -
  have off: "vc_get a n = 0 \<and> vc_get b n = 0" if "n \<notin> set (jkeys a @ jkeys b)" for n
    using that vc_get_absent [of n a] vc_get_absent [of n b] by auto
  have "(\<exists>n\<in>set (jkeys a @ jkeys b). vc_get a n > vc_get b n) \<longleftrightarrow> \<not> vc_le a b"
    and "(\<exists>n\<in>set (jkeys a @ jkeys b). vc_get a n < vc_get b n) \<longleftrightarrow> \<not> vc_le b a"
    unfolding vc_le_def not_all not_le using off less_nat_zero_code by metis+
  then show ?thesis
    by (simp add: vc_compare_def vc_flags_def vc_flags_fold set_fold_sadd)
qed

lemma vc_le_refl [simp]: "vc_le a a"
  by (simp add: vc_le_def)

lemma vc_le_trans: "vc_le a b \<Longrightarrow> vc_le b c \<Longrightarrow> vc_le a c"
  unfolding vc_le_def by (meson le_trans)

lemma vc_le_increment: "vc_le a b \<Longrightarrow> vc_le a (vc_increment n b)"
  by (auto simp: vc_le_def intro: le_SucI)

lemma vc_le_merge:
  assumes "jwf b"
  shows "vc_le a (vc_merge a b)" and "vc_le b (vc_merge a b)"
    and "vc_le a c \<Longrightarrow> vc_le b c \<Longrightarrow> vc_le (vc_merge a b) c"
  by (simp_all add: vc_le_def vc_get_merge [OF assms])

lemma vc_after_increment: "vc_le a b \<Longrightarrow> vc_compare (vc_increment n b) a = After"
proof -
  assume le: "vc_le a b"
  then have "vc_get a n < vc_get (vc_increment n b) n" by (simp add: vc_le_def le_imp_less_Suc)
  then have "\<not> vc_le (vc_increment n b) a" unfolding vc_le_def not_all not_le by blast
  then show ?thesis using vc_le_increment [OF le] by (simp add: vc_compare_le)
qed

section \<open>The interface\<close>

text \<open>
  What a client of the comparison may rely on: \<open>Before\<close> is a strict partial order and \<open>After\<close>
  its converse. The interface has no constant for "equal": a version compared with itself is
  \<open>Concurrent\<close>.
\<close>

locale causality =
  fixes cmp :: "'c \<Rightarrow> 'c \<Rightarrow> causal_order"
  assumes cmp_converse: "cmp a b = After \<longleftrightarrow> cmp b a = Before"
    and cmp_trans: "cmp a b = Before \<Longrightarrow> cmp b c = Before \<Longrightarrow> cmp a c = Before"
    and cmp_self: "cmp a a = Concurrent"
begin

lemma cmp_asym: "cmp a b = Before \<Longrightarrow> cmp b a = After"
  using cmp_converse by blast

lemma cmp_concurrent_sym: "cmp a b = Concurrent \<longleftrightarrow> cmp b a = Concurrent"
  using cmp_converse [of a b] cmp_converse [of b a] by (cases "cmp a b"; cases "cmp b a") simp_all

lemma cmp_after_trans: "cmp a b = After \<Longrightarrow> cmp b c = After \<Longrightarrow> cmp a c = After"
  using cmp_converse cmp_trans by blast

end

lemma vc_before: "vc_compare a b = Before \<longleftrightarrow> vc_le a b \<and> \<not> vc_le b a"
  by (simp add: vc_compare_le)

interpretation vc: causality vc_compare
proof
  show "vc_compare a b = After \<longleftrightarrow> vc_compare b a = Before" for a b
    by (simp add: vc_compare_le)
  show "vc_compare a c = Before" if "vc_compare a b = Before" "vc_compare b c = Before" for a b c
    using that vc_le_trans [of a b c] vc_le_trans [of c a b] vc_before [of a b] vc_before [of b c]
      vc_before [of a c] by blast
  show "vc_compare a a = Concurrent" for a
    by (simp add: vc_compare_le)
qed

section \<open>Properties\<close>

text \<open>
  C25: \<open>compare\<close> decides the pointwise order of the counters (a missing node counts as 0):
  \<open>After\<close> and \<open>Before\<close> are the two strict directions and everything else, two equal clocks
  included, is \<open>Concurrent\<close>; \<open>merge\<close> is the least upper bound and \<open>increment\<close> moves strictly
  forward.
\<close>

theorem vector_clock_order:
  assumes wf: "jwf b"
  shows "(vc_compare a b = After \<longleftrightarrow> vc_le b a \<and> \<not> vc_le a b)
     \<and> (vc_compare a b = Before \<longleftrightarrow> vc_le a b \<and> \<not> vc_le b a)
     \<and> (vc_compare a b = Concurrent \<longleftrightarrow> (vc_le a b \<longleftrightarrow> vc_le b a))
     \<and> vc_le a (vc_merge a b) \<and> vc_le b (vc_merge a b)
     \<and> (vc_le a c \<and> vc_le b c \<longrightarrow> vc_le (vc_merge a b) c)
     \<and> vc_compare (vc_increment n a) a = After
     \<and> (vc_isEmpty b \<longleftrightarrow> (\<forall>m. vc_get b m = 0))"
proof -
  have "vc_isEmpty b \<longleftrightarrow> (\<forall>m. vc_get b m = 0)"
  proof
    assume "vc_isEmpty b"
    then have "\<forall>v\<in>set (jvals b). v = 0" by (auto simp: vc_isEmpty_def list_all_iff)
    then show "\<forall>m. vc_get b m = 0" by (auto simp: vc_get_def split: option.split dest: jget_jvals)
  next
    assume zero: "\<forall>m. vc_get b m = 0"
    have "t = 0" if "(m, t) \<in> set b" for m t
      using zero [rule_format, of m] jget_in_set [OF wf, of m t] that by (simp add: vc_get_def)
    then show "vc_isEmpty b" by (auto simp: vc_isEmpty_def list_all_iff)
  qed
  moreover have "vc_compare a b = Concurrent \<longleftrightarrow> (vc_le a b \<longleftrightarrow> vc_le b a)"
    by (auto simp: vc_compare_le)
  ultimately show ?thesis
    using vc_le_merge [OF wf] vc_after_increment [OF vc_le_refl, of n a] vc_compare_le [of a b]
    by simp
qed

theorem vector_clock_order_witness:
  "vc_compare [(''a'', 1)] [(''a'', 1), (''b'', 2)] = Before \<and>
   vc_le [(''a'', 1), (''b'', 2)] (vc_merge [(''a'', 3)] [(''a'', 1), (''b'', 2)])"
proof -
  have "vc_le [(''a'', 1)] [(''a'', 1), (''b'', 2)]" "\<not> vc_le [(''a'', 1), (''b'', 2)] [(''a'', 1)]"
    by (auto simp: vc_le_def vc_get_def)
  then show ?thesis
    using vector_clock_order [of "[(''a'', 1), (''b'', 2)]" "[(''a'', 1)]"]
      vector_clock_order [of "[(''a'', 1), (''b'', 2)]" "[(''a'', 3)]"] by simp
qed

end
