(* ===== verification/Registry.thy ===== *)
theory Registry
  imports Prelude
begin

text \<open>
  \<open>src/registry.ts\<close> and \<open>src/local_registry.ts\<close>: names and where their actors live, and the
  reservations that let a migration claim a name before it registers it. The locale
  \<open>name_registry\<close> is the interface \<open>Registry\<close>; the local registry and (in
  \<open>Registry_Sync\<close>) the distributed one provide it.
\<close>

section \<open>Data\<close>

record actor_location =
  loc_node :: string
  loc_actor :: string

record name_reservation =
  res_name :: string
  res_node :: string
  res_expiresAt :: int

record local_registry =
  lreg :: "(string, actor_location) jsmap"
  lres :: "(string, name_reservation) jsmap"

definition DEFAULT_RESERVATION_TTL_MS :: int where
  "DEFAULT_RESERVATION_TTL_MS = 30000"

section \<open>The interface\<close>

locale name_registry =
  fixes reg_lookup :: "'s \<Rightarrow> string \<Rightarrow> actor_location option"
    and reg_register :: "string \<Rightarrow> string \<Rightarrow> string \<Rightarrow> 's \<Rightarrow> 's"
    and reg_unregister :: "string \<Rightarrow> 's \<Rightarrow> 's"
    and reg_nodeActors :: "string \<Rightarrow> 's \<Rightarrow> string list"
    and reg_ok :: "'s \<Rightarrow> bool"
  assumes lookup_register: "reg_lookup (reg_register n node a s) m =
      (if m = n then Some \<lparr>loc_node = node, loc_actor = a\<rparr> else reg_lookup s m)"
    and lookup_unregister: "reg_lookup (reg_unregister n s) m = (if m = n then None else reg_lookup s m)"
    and nodeActors: "reg_ok s \<Longrightarrow>
      m \<in> set (reg_nodeActors node s) \<longleftrightarrow> (\<exists>l. reg_lookup s m = Some l \<and> loc_node l = node)"
    and nodeActors_distinct: "reg_ok s \<Longrightarrow> distinct (reg_nodeActors node s)"
    and ok_register: "reg_ok s \<Longrightarrow> reg_ok (reg_register n node a s)"
    and ok_unregister: "reg_ok s \<Longrightarrow> reg_ok (reg_unregister n s)"
begin

text \<open>Registering a name at a second node moves it there.\<close>

lemma register_moves:
  assumes "reg_ok s" and "node \<noteq> node'"
  shows "n \<in> set (reg_nodeActors node' (reg_register n node' a' (reg_register n node a s))) \<and>
     n \<notin> set (reg_nodeActors node (reg_register n node' a' (reg_register n node a s)))"
  using assms by (simp add: nodeActors ok_register lookup_register)

lemma unregister_gone:
  assumes "reg_ok s"
  shows "n \<notin> set (reg_nodeActors node (reg_unregister n s))"
  using assms by (simp add: nodeActors ok_unregister lookup_unregister)

lemma register_other:
  assumes "reg_ok s" and "m \<noteq> n"
  shows "m \<in> set (reg_nodeActors x (reg_register n node a s)) \<longleftrightarrow> m \<in> set (reg_nodeActors x s)"
  using assms by (simp add: nodeActors ok_register lookup_register)

end

section \<open>Reservations\<close>

definition cleanupExpiredReservations ::
  "int \<Rightarrow> (string, name_reservation) jsmap \<Rightarrow> (string, name_reservation) jsmap" where
  "cleanupExpiredReservations now rs =
     fold (\<lambda>(i, r) m. if now > res_expiresAt r then jdel m i else m) rs rs"

text \<open>
  \<open>reserveName\<close> on the reservations, given where the name is registered. The fresh id is the
  one the \<open>uuid\<close> package returns, \<open>now\<close> the clock.
\<close>

definition reserve_in ::
  "string \<Rightarrow> int \<Rightarrow> actor_location option \<Rightarrow> string \<Rightarrow> string \<Rightarrow> int \<Rightarrow>
   (string, name_reservation) jsmap \<Rightarrow> string option \<times> (string, name_reservation) jsmap" where
  "reserve_in fresh now existing name node ttl rs =
     (let rs = cleanupExpiredReservations now rs
      in case existing of
           Some l \<Rightarrow>
             (if loc_node l \<noteq> node then (None, rs)
              else if list_ex (\<lambda>r. res_name r = name \<and> res_node r \<noteq> node) (jvals rs) then (None, rs)
              else (Some fresh, jput rs fresh \<lparr>res_name = name, res_node = node, res_expiresAt = now + ttl\<rparr>))
         | None \<Rightarrow>
             (if list_ex (\<lambda>r. res_name r = name \<and> res_node r \<noteq> node) (jvals rs) then (None, rs)
              else (Some fresh, jput rs fresh \<lparr>res_name = name, res_node = node, res_expiresAt = now + ttl\<rparr>)))"

section \<open>The local registry\<close>

definition lr_register :: "string \<Rightarrow> string \<Rightarrow> string \<Rightarrow> local_registry \<Rightarrow> local_registry" where
  "lr_register name node a s = s\<lparr>lreg := jput (lreg s) name \<lparr>loc_node = node, loc_actor = a\<rparr>\<rparr>"

definition lr_unregister :: "string \<Rightarrow> local_registry \<Rightarrow> local_registry" where
  "lr_unregister name s = s\<lparr>lreg := jdel (lreg s) name\<rparr>"

definition lr_lookup :: "local_registry \<Rightarrow> string \<Rightarrow> actor_location option" where
  "lr_lookup s name = jget (lreg s) name"

definition lr_getNodeActors :: "string \<Rightarrow> local_registry \<Rightarrow> string list" where
  "lr_getNodeActors node s = map fst (filter (\<lambda>(_, l). loc_node l = node) (lreg s))"

definition lr_disconnect :: "local_registry \<Rightarrow> local_registry" where
  "lr_disconnect s = s\<lparr>lreg := [], lres := []\<rparr>"

definition lr_reserveName ::
  "string \<Rightarrow> int \<Rightarrow> string \<Rightarrow> string \<Rightarrow> int \<Rightarrow> local_registry \<Rightarrow> string option \<times> local_registry" where
  "lr_reserveName fresh now name node ttl s =
     (let (r, rs) = reserve_in fresh now (lr_lookup s name) name node ttl (lres s)
      in (r, s\<lparr>lres := rs\<rparr>))"

definition lr_confirmReservation :: "int \<Rightarrow> string \<Rightarrow> string \<Rightarrow> local_registry \<Rightarrow> bool \<times> local_registry" where
  "lr_confirmReservation now i a s =
     (case jget (lres s) i of
        None \<Rightarrow> (False, s)
      | Some r \<Rightarrow>
          if now > res_expiresAt r then (False, s\<lparr>lres := jdel (lres s) i\<rparr>)
          else (True, (lr_register (res_name r) (res_node r) a s)\<lparr>lres := jdel (lres s) i\<rparr>))"

definition lr_releaseReservation :: "string \<Rightarrow> local_registry \<Rightarrow> local_registry" where
  "lr_releaseReservation i s = s\<lparr>lres := jdel (lres s) i\<rparr>"

section \<open>The local registry is a registry\<close>

lemma filter_keys_iff:
  "jwf m \<Longrightarrow> x \<in> set (map fst (filter (\<lambda>(_, v). P v) m)) \<longleftrightarrow> (\<exists>v. jget m x = Some v \<and> P v)"
  by (induction m) (auto simp: map_of_eq_None_iff dest: map_of_SomeD intro: rev_image_eqI)

interpretation lr: name_registry lr_lookup lr_register lr_unregister lr_getNodeActors
  "\<lambda>s. jwf (lreg s)"
  by unfold_locales
    (simp_all add: lr_lookup_def lr_register_def lr_unregister_def lr_getNodeActors_def filter_keys_iff
      distinct_map_filter del: set_map)

section \<open>Reservations exclude each other\<close>

text \<open>No name is reserved by two nodes at once.\<close>

definition owned :: "(string \<Rightarrow> string) \<Rightarrow> (string, name_reservation) jsmap \<Rightarrow> bool" where
  "owned owner rs \<longleftrightarrow> (\<forall>i r. jget rs i = Some r \<longrightarrow> res_node r = owner (res_name r))"

definition exclusive :: "(string, name_reservation) jsmap \<Rightarrow> bool" where
  "exclusive rs \<longleftrightarrow> jwf rs \<and> (\<exists>owner. owned owner rs)"

lemma fold_cleanup:
  "jget (fold (\<lambda>(i, r) m. if now > res_expiresAt r then jdel m i else m) xs m) k =
     (if \<exists>r. (k, r) \<in> set xs \<and> now > res_expiresAt r then None else jget m k)"
  by (induction xs arbitrary: m) auto

lemma jwf_fold_cleanup:
  "jwf m \<Longrightarrow> jwf (fold (\<lambda>(i, r) m. if now > res_expiresAt r then jdel m i else m) xs m)"
  by (rule fold_inv) (auto split: prod.split)

lemma jget_cleanup:
  assumes "jwf rs"
  shows "jget (cleanupExpiredReservations now rs) k =
     (case jget rs k of None \<Rightarrow> None | Some r \<Rightarrow> if now > res_expiresAt r then None else Some r)"
  unfolding cleanupExpiredReservations_def fold_cleanup jget_in_set [OF assms]
  by (auto split: option.split)

lemma jwf_cleanup [simp]: "jwf rs \<Longrightarrow> jwf (cleanupExpiredReservations now rs)"
  by (simp add: cleanupExpiredReservations_def jwf_fold_cleanup)

lemma exclusive_cleanup: "exclusive rs \<Longrightarrow> exclusive (cleanupExpiredReservations now rs)"
  unfolding exclusive_def owned_def by (force simp: jget_cleanup split: option.splits if_splits)

lemma exclusive_del: "exclusive rs \<Longrightarrow> exclusive (jdel rs i)"
  unfolding exclusive_def owned_def by (metis distinct_delete jget_jdel option.distinct(1))

lemma exclusive_put:
  assumes "exclusive rs" and "\<not> list_ex (\<lambda>r. res_name r = name \<and> res_node r \<noteq> node) (jvals rs)"
  shows "exclusive (jput rs i \<lparr>res_name = name, res_node = node, res_expiresAt = e\<rparr>)"
proof -
  obtain owner where o: "owned owner rs" using assms(1) by (auto simp: exclusive_def)
  have "res_node r = node" if "jget rs j = Some r" "res_name r = name" for j r
    using assms(2) jget_jvals [OF that(1)] that(2) by (auto simp: list_ex_iff)
  then have "owned (owner(name := node)) (jput rs i \<lparr>res_name = name, res_node = node, res_expiresAt = e\<rparr>)"
    using o by (simp add: owned_def)
  then show ?thesis using assms(1) unfolding exclusive_def by auto
qed

lemma exclusive_reserve_in: "exclusive rs \<Longrightarrow> exclusive (snd (reserve_in i now l name node ttl rs))"
  by (simp add: reserve_in_def Let_def exclusive_cleanup exclusive_put split: option.split)

text \<open>The operations on a local registry, each at some time of the clock.\<close>

datatype reg_op =
    RegRegister string string string
  | RegUnregister string
  | RegReserve string int string string int
  | RegConfirm int string string
  | RegRelease string

fun reg_step :: "reg_op \<Rightarrow> local_registry \<Rightarrow> local_registry" where
  "reg_step (RegRegister n node a) s = lr_register n node a s"
| "reg_step (RegUnregister n) s = lr_unregister n s"
| "reg_step (RegReserve i now n node ttl) s = snd (lr_reserveName i now n node ttl s)"
| "reg_step (RegConfirm now i a) s = snd (lr_confirmReservation now i a s)"
| "reg_step (RegRelease i) s = lr_releaseReservation i s"

definition reg_run :: "reg_op list \<Rightarrow> local_registry" where
  "reg_run ops = fold reg_step ops \<lparr>lreg = [], lres = []\<rparr>"

lemma exclusive_step: "exclusive (lres s) \<Longrightarrow> exclusive (lres (reg_step x s))"
  by (cases x) (simp_all add: lr_register_def lr_unregister_def lr_reserveName_def split_beta Let_def
    lr_confirmReservation_def lr_releaseReservation_def exclusive_reserve_in exclusive_del
    split: option.split)

lemma exclusive_run: "exclusive (lres (reg_run ops))"
  unfolding reg_run_def
  by (rule fold_inv [where P = "\<lambda>s. exclusive (lres s)"])
    (simp add: exclusive_def owned_def, simp add: exclusive_step)

text \<open>The cleaned reservations block a node exactly when another node's has not expired.\<close>

lemma blocked_iff:
  assumes "jwf rs"
  shows "list_ex (\<lambda>r. res_name r = name \<and> res_node r \<noteq> node) (jvals (cleanupExpiredReservations now rs)) \<longleftrightarrow>
     (\<exists>i r. jget rs i = Some r \<and> res_name r = name \<and> res_node r \<noteq> node \<and> now \<le> res_expiresAt r)"
proof -
  have "r \<in> set (jvals (cleanupExpiredReservations now rs)) \<longleftrightarrow>
      (\<exists>i. jget rs i = Some r \<and> now \<le> res_expiresAt r)" for r
  proof -
    have "r \<in> set (jvals (cleanupExpiredReservations now rs)) \<longleftrightarrow>
        (\<exists>i. jget (cleanupExpiredReservations now rs) i = Some r)"
      by (rule jvals_iff [OF jwf_cleanup [OF assms]])
    also have "\<dots> \<longleftrightarrow> (\<exists>i. jget rs i = Some r \<and> now \<le> res_expiresAt r)"
      by (rule ex_cong1) (auto simp: jget_cleanup [OF assms] split: option.splits)
    finally show ?thesis .
  qed
  then show ?thesis unfolding list_ex_iff by blast
qed

lemma reserve_in_some:
  assumes "jwf rs"
  shows "fst (reserve_in i now l name node ttl rs) \<noteq> None \<longleftrightarrow>
     (\<forall>x. l = Some x \<longrightarrow> loc_node x = node) \<and>
     (\<forall>j r. jget rs j = Some r \<longrightarrow> res_name r = name \<longrightarrow> now \<le> res_expiresAt r \<longrightarrow> res_node r = node)"
  by (simp add: reserve_in_def Let_def blocked_iff [OF assms] split: option.split) blast

text \<open>
  C24: In every state the operations of a local registry can reach, a node gets a reservation
  exactly when the name is not registered at another node and no other node holds a
  reservation of it that has not expired; then no other node can reserve the name before this
  reservation expires, and confirming it in time registers the name at the node that
  reserved it. All reservations of a name belong to one node at any time.
\<close>

theorem reservation_exclusive:
  assumes s: "s = reg_run ops" and r: "(res, s') = lr_reserveName i now name node ttl s"
  shows "(res \<noteq> None \<longleftrightarrow> (\<forall>l. lr_lookup s name = Some l \<longrightarrow> loc_node l = node) \<and>
            (\<forall>j q. jget (lres s) j = Some q \<longrightarrow> res_name q = name \<longrightarrow> now \<le> res_expiresAt q \<longrightarrow> res_node q = node))
     \<and> (res \<noteq> None \<longrightarrow> node' \<noteq> node \<longrightarrow> t \<le> now + ttl \<longrightarrow>
            fst (lr_reserveName k t name node' ttl' s') = None)
     \<and> (res \<noteq> None \<longrightarrow> t \<le> now + ttl \<longrightarrow>
            fst (lr_confirmReservation t i a s') \<and>
            lr_lookup (snd (lr_confirmReservation t i a s')) name = Some \<lparr>loc_node = node, loc_actor = a\<rparr>)
     \<and> exclusive (lres s')"
proof -
  have wf: "jwf (lres s)" and ex: "exclusive (lres s)"
    using exclusive_run [of ops] by (simp_all add: s exclusive_def)
  have S': "s' = s\<lparr>lres := snd (reserve_in i now (lr_lookup s name) name node ttl (lres s))\<rparr>"
    and R: "res = fst (reserve_in i now (lr_lookup s name) name node ttl (lres s))"
    using r by (simp_all add: lr_reserveName_def split_beta Let_def)
  have ex': "exclusive (lres s')" by (simp add: S' exclusive_reserve_in ex)
  have held: "jget (lres s') i = Some \<lparr>res_name = name, res_node = node, res_expiresAt = now + ttl\<rparr>"
    if "res \<noteq> None"
    using that by (auto simp: R S' reserve_in_def Let_def split: option.splits if_splits)
  have wf': "jwf (lres s')" using ex' by (simp add: exclusive_def)
  have "fst (lr_reserveName k t name node' ttl' s') = None"
    if "res \<noteq> None" "node' \<noteq> node" "t \<le> now + ttl"
    using reserve_in_some [OF wf', of k t "lr_lookup s' name" name node' ttl'] held [OF that(1)] that(2,3)
    by (fastforce simp: lr_reserveName_def split_beta Let_def)
  moreover have "fst (lr_confirmReservation t i a s') \<and>
            lr_lookup (snd (lr_confirmReservation t i a s')) name = Some \<lparr>loc_node = node, loc_actor = a\<rparr>"
    if "res \<noteq> None" "t \<le> now + ttl"
    using held [OF that(1)] that(2) by (simp add: lr_confirmReservation_def lr_register_def lr_lookup_def)
  ultimately show ?thesis using ex' reserve_in_some [OF wf] by (simp add: R)
qed

theorem reservation_exclusive_witness:
  "fst (lr_reserveName ''r2'' 5 ''svc'' ''n2'' 10 (snd (lr_reserveName ''r1'' 0 ''svc'' ''n1'' 10 (reg_run [])))) = None"
  using reservation_exclusive [of _ "[]" "Some ''r1''" _ "''r1''" 0 "''svc''" "''n1''" 10 "''n2''" 5 "''r2''" 10, OF refl,
      where s' = "snd (lr_reserveName ''r1'' 0 ''svc'' ''n1'' 10 (reg_run []))"]
  by (simp add: lr_reserveName_def reserve_in_def reg_run_def lr_lookup_def cleanupExpiredReservations_def)

end
