(* ===== verification/Registry_Sync.thy ===== *)
theory Registry_Sync
  imports Vector_Clock Registry
begin

text \<open>
  \<open>src/registry_sync.ts\<close> and \<open>src/distributed_registry.ts\<close>: the registry that every node keeps
  a copy of. A node publishes its registrations; a copy that receives one keeps the newer of
  the two by vector clock, then by generation, then by node id. Node ids are compared as
  strings (the order of \<open>List_Lexorder\<close>).
\<close>

section \<open>Data\<close>

record registration =
  ar_name :: string
  ar_node :: string
  ar_actor :: string
  ar_generation :: int
  ar_clock :: vclock

datatype registry_update = RegisterUpdate registration | UnregisterUpdate registration

datatype registry_event =
    ActorRegistered registration | ActorUnregistered string | ActorUpdated registration

record registry_sync =
  rs_node :: string
  rs_clock :: vclock
  rs_regs :: "(string, registration) jsmap"
  rs_published :: "registry_update list"
  rs_events :: "registry_event list"

definition new_registry_sync :: "string \<Rightarrow> registry_sync" where
  "new_registry_sync node =
     \<lparr>rs_node = node, rs_clock = [], rs_regs = [], rs_published = [], rs_events = []\<rparr>"

section \<open>Local operations\<close>

text \<open>\<open>register\<close>; \<open>now\<close> is what \<open>Date.now()\<close> returns.\<close>

definition rs_register :: "int \<Rightarrow> string \<Rightarrow> string \<Rightarrow> string \<Rightarrow> registry_sync \<Rightarrow> registry_sync" where
  "rs_register now name node a s =
     (let clock = vc_increment (rs_node s) (rs_clock s);
          r = \<lparr>ar_name = name, ar_node = node, ar_actor = a, ar_generation = now, ar_clock = clock\<rparr>
      in s\<lparr>rs_clock := clock, rs_regs := jput (rs_regs s) name r,
           rs_published := rs_published s @ [RegisterUpdate r],
           rs_events := rs_events s @ [ActorRegistered r]\<rparr>)"

definition republishAll :: "registry_sync \<Rightarrow> registry_sync" where
  "republishAll s = s\<lparr>rs_published := rs_published s @ map RegisterUpdate (jvals (rs_regs s))\<rparr>"

definition rs_unregister :: "string \<Rightarrow> registry_sync \<Rightarrow> registry_sync" where
  "rs_unregister name s =
     (case jget (rs_regs s) name of
        None \<Rightarrow> s
      | Some existing \<Rightarrow>
          (let clock = vc_increment (rs_node s) (rs_clock s)
           in s\<lparr>rs_clock := clock, rs_regs := jdel (rs_regs s) name,
                rs_published := rs_published s @ [UnregisterUpdate (existing\<lparr>ar_clock := clock\<rparr>)],
                rs_events := rs_events s @ [ActorUnregistered name]\<rparr>))"

definition rs_lookup :: "registry_sync \<Rightarrow> string \<Rightarrow> actor_location option" where
  "rs_lookup s name =
     map_option (\<lambda>r. \<lparr>loc_node = ar_node r, loc_actor = ar_actor r\<rparr>) (jget (rs_regs s) name)"

definition rs_getNodeActors :: "string \<Rightarrow> registry_sync \<Rightarrow> string list" where
  "rs_getNodeActors node s = map fst (filter (\<lambda>(_, r). ar_node r = node) (rs_regs s))"

definition rs_disconnect :: "registry_sync \<Rightarrow> registry_sync" where
  "rs_disconnect s = s\<lparr>rs_regs := []\<rparr>"

section \<open>Updates from other nodes\<close>

text \<open>The entry is taken over: stored, its clock merged, and the event emitted.\<close>

definition accept :: "registration \<Rightarrow> registry_event \<Rightarrow> registry_sync \<Rightarrow> registry_sync" where
  "accept r e s = s\<lparr>rs_regs := jput (rs_regs s) (ar_name r) r,
     rs_clock := vc_merge (rs_clock s) (ar_clock r), rs_events := rs_events s @ [e]\<rparr>"

fun handleRegistryUpdate :: "registry_update \<Rightarrow> registry_sync \<Rightarrow> registry_sync" where
  "handleRegistryUpdate (UnregisterUpdate r) s =
     (case jget (rs_regs s) (ar_name r) of
        None \<Rightarrow> s
      | Some existing \<Rightarrow>
          (let cmp = vc_compare (ar_clock r) (ar_clock existing)
           in if cmp = After \<or> cmp = Concurrent
              then s\<lparr>rs_regs := jdel (rs_regs s) (ar_name r),
                     rs_clock := vc_merge (rs_clock s) (ar_clock r),
                     rs_events := rs_events s @ [ActorUnregistered (ar_name r)]\<rparr>
              else s))"
| "handleRegistryUpdate (RegisterUpdate r) s =
     (case jget (rs_regs s) (ar_name r) of
        None \<Rightarrow> accept r (ActorRegistered r) s
      | Some existing \<Rightarrow>
          (case vc_compare (ar_clock r) (ar_clock existing) of
             After \<Rightarrow> accept r (ActorUpdated r) s
           | Concurrent \<Rightarrow>
               if ar_generation r > ar_generation existing then accept r (ActorUpdated r) s
               else if ar_generation r = ar_generation existing \<and> ar_node r > ar_node existing
                    then accept r (ActorUpdated r) s
               else s
           | Before \<Rightarrow> s))"

text \<open>A node left: its registrations go, with the order of the loop.\<close>

definition handlePeerLeave :: "string \<Rightarrow> registry_sync \<Rightarrow> registry_sync" where
  "handlePeerLeave node s =
     fold (\<lambda>name s. s\<lparr>rs_regs := jdel (rs_regs s) name, rs_events := rs_events s @ [ActorUnregistered name]\<rparr>)
       (rs_getNodeActors node s) s"

definition handlePeerJoin :: "registry_sync \<Rightarrow> registry_sync" where
  "handlePeerJoin s = republishAll (republishAll (republishAll s))"

section \<open>The distributed registry\<close>

text \<open>
  A reservation of the distributed registry is kept by the node that made it; only the
  confirmed name is published.
\<close>

record distributed_registry =
  dr_gossip :: registry_sync
  dr_reservations :: "(string, name_reservation) jsmap"

definition dr_reserveName ::
  "string \<Rightarrow> int \<Rightarrow> string \<Rightarrow> string \<Rightarrow> int \<Rightarrow> distributed_registry \<Rightarrow> string option \<times> distributed_registry" where
  "dr_reserveName fresh now name node ttl s =
     (let (r, rs) = reserve_in fresh now (rs_lookup (dr_gossip s) name) name node ttl (dr_reservations s)
      in (r, s\<lparr>dr_reservations := rs\<rparr>))"

definition dr_confirmReservation ::
  "int \<Rightarrow> string \<Rightarrow> string \<Rightarrow> distributed_registry \<Rightarrow> bool \<times> distributed_registry" where
  "dr_confirmReservation now i a s =
     (case jget (dr_reservations s) i of
        None \<Rightarrow> (False, s)
      | Some r \<Rightarrow>
          if now > res_expiresAt r then (False, s\<lparr>dr_reservations := jdel (dr_reservations s) i\<rparr>)
          else (True, s\<lparr>dr_gossip := rs_register now (res_name r) (res_node r) a (dr_gossip s),
                        dr_reservations := jdel (dr_reservations s) i\<rparr>))"

definition dr_releaseReservation :: "string \<Rightarrow> distributed_registry \<Rightarrow> distributed_registry" where
  "dr_releaseReservation i s = s\<lparr>dr_reservations := jdel (dr_reservations s) i\<rparr>"

definition dr_disconnect :: "distributed_registry \<Rightarrow> distributed_registry" where
  "dr_disconnect s = s\<lparr>dr_reservations := [], dr_gossip := rs_disconnect (dr_gossip s)\<rparr>"

lemma rs_nodeActors_iff:
  "jwf (rs_regs s) \<Longrightarrow> m \<in> set (rs_getNodeActors node s) \<longleftrightarrow>
     (\<exists>l. rs_lookup s m = Some l \<and> loc_node l = node)"
  unfolding rs_getNodeActors_def rs_lookup_def
  by (subst filter_keys_iff) (cases "jget (rs_regs s) m"; simp)+

interpretation rs: name_registry rs_lookup "rs_register now" rs_unregister rs_getNodeActors
  "\<lambda>s. jwf (rs_regs s)"
  by unfold_locales
    (simp_all add: rs_nodeActors_iff, simp_all add: rs_lookup_def rs_register_def rs_unregister_def
      rs_getNodeActors_def distinct_map_filter Let_def split: option.split)

section \<open>The clock of a node covers what it holds\<close>

definition clock_covers :: "registry_sync \<Rightarrow> bool" where
  "clock_covers s \<longleftrightarrow> jwf (rs_clock s) \<and>
     (\<forall>n r. jget (rs_regs s) n = Some r \<longrightarrow> vc_le (ar_clock r) (rs_clock s) \<and> jwf (ar_clock r))"

lemma clock_covers_new: "clock_covers (new_registry_sync n)"
  by (simp add: clock_covers_def new_registry_sync_def)

lemma clock_covers_register: "clock_covers s \<Longrightarrow> clock_covers (rs_register now m n a s)"
  by (simp add: clock_covers_def rs_register_def Let_def vc_le_increment)

lemma clock_covers_unregister: "clock_covers s \<Longrightarrow> clock_covers (rs_unregister n s)"
  by (auto simp: clock_covers_def rs_unregister_def Let_def vc_le_increment split: option.split)

lemma vc_le_merge_left: "jwf b \<Longrightarrow> vc_le x a \<Longrightarrow> vc_le x (vc_merge a b)"
  using vc_le_merge(1) vc_le_trans by blast

lemma clock_covers_accept:
  "clock_covers s \<Longrightarrow> jwf (ar_clock r) \<Longrightarrow> clock_covers (accept r e s)"
  by (simp add: clock_covers_def accept_def vc_le_merge_left vc_le_merge(2))

lemma clock_covers_update:
  assumes "clock_covers s" and "case u of RegisterUpdate r \<Rightarrow> jwf (ar_clock r) | UnregisterUpdate r \<Rightarrow> jwf (ar_clock r)"
  shows "clock_covers (handleRegistryUpdate u s)"
proof (cases u)
  case (RegisterUpdate r)
  then show ?thesis
    using assms by (simp add: clock_covers_accept split: option.split causal_order.split)
next
  case (UnregisterUpdate r)
  then show ?thesis
    using assms by (simp add: clock_covers_def Let_def vc_le_merge_left split: option.split)
qed

lemma handlePeerLeave_regs:
  "rs_regs (fold (\<lambda>name s. s\<lparr>rs_regs := jdel (rs_regs s) name, rs_events := rs_events s @ [ActorUnregistered name]\<rparr>)
       ns s) = fold (\<lambda>n m. jdel m n) ns (rs_regs s)"
  by (induction ns arbitrary: s) simp_all

lemma jget_fold_jdel: "jget (fold (\<lambda>n m. jdel m n) ns m) k = (if k \<in> set ns then None else jget m k)"
  by (induction ns arbitrary: m) auto

section \<open>States of one copy\<close>

text \<open>
  What can happen to one copy of the registry: the node's own calls, updates of other nodes
  (whose clocks are maps), and a node leaving.
\<close>

inductive sync_reachable :: "registry_sync \<Rightarrow> bool" where
  sync_new: "sync_reachable (new_registry_sync n)"
| sync_register: "sync_reachable s \<Longrightarrow> sync_reachable (rs_register now m n a s)"
| sync_unregister: "sync_reachable s \<Longrightarrow> sync_reachable (rs_unregister m s)"
| sync_update: "sync_reachable s \<Longrightarrow> u = RegisterUpdate r \<or> u = UnregisterUpdate r \<Longrightarrow>
     jwf (ar_clock r) \<Longrightarrow> sync_reachable (handleRegistryUpdate u s)"
| sync_leave: "sync_reachable s \<Longrightarrow> sync_reachable (handlePeerLeave n s)"
| sync_join: "sync_reachable s \<Longrightarrow> sync_reachable (handlePeerJoin s)"

lemma handlePeerLeave_clock [simp]: "rs_clock (handlePeerLeave n s) = rs_clock s"
proof -
  have "rs_clock (fold (\<lambda>name s. s\<lparr>rs_regs := jdel (rs_regs s) name,
      rs_events := rs_events s @ [ActorUnregistered name]\<rparr>) ns s) = rs_clock s" for ns
    by (induction ns arbitrary: s) simp_all
  then show ?thesis by (simp add: handlePeerLeave_def)
qed

lemma handlePeerLeave_get:
  "jget (rs_regs (handlePeerLeave n s)) m =
     (if m \<in> set (rs_getNodeActors n s) then None else jget (rs_regs s) m)"
  by (simp add: handlePeerLeave_def handlePeerLeave_regs jget_fold_jdel)

lemma reachable_covers: "sync_reachable s \<Longrightarrow> clock_covers s"
proof (induction rule: sync_reachable.induct)
  case (sync_update s u r)
  then show ?case using clock_covers_update [of s u] by auto
next
  case (sync_leave s n)
  then show ?case by (simp add: clock_covers_def handlePeerLeave_get)
next
  case (sync_join s)
  then show ?case by (simp add: clock_covers_def handlePeerJoin_def republishAll_def)
qed (simp_all add: clock_covers_new clock_covers_register clock_covers_unregister)

section \<open>Properties\<close>

text \<open>
  A change a node makes itself supersedes everything it has seen: whatever its copy held
  for the name, the registration (or removal) it publishes next replaces (removes) that entry
  on every copy that still holds it, whoever registered it.
\<close>

theorem own_change_supersedes:
  assumes s: "sync_reachable s" and held: "jget (rs_regs s) name = Some old"
    and t: "jget (rs_regs t) name = Some old" and named: "ar_name old = name"
  shows "(\<exists>r. last (rs_published (rs_register now name node a s)) = RegisterUpdate r \<and>
            rs_lookup (handleRegistryUpdate (RegisterUpdate r) t) name =
              Some \<lparr>loc_node = node, loc_actor = a\<rparr>)
     \<and> (\<exists>r. last (rs_published (rs_unregister name s)) = UnregisterUpdate r \<and>
            rs_lookup (handleRegistryUpdate (UnregisterUpdate r) t) name = None)"
proof -
  have "vc_le (ar_clock old) (rs_clock s)"
    using reachable_covers [OF s] held by (simp add: clock_covers_def)
  then have newer: "vc_compare (vc_increment (rs_node s) (rs_clock s)) (ar_clock old) = After"
    by (rule vc_after_increment)
  show ?thesis
    using newer t held named
    by (simp add: rs_register_def rs_unregister_def rs_lookup_def accept_def Let_def)
qed

definition demo_copy :: registry_sync where
  "demo_copy = rs_register 1 ''svc'' ''n1'' ''a1'' (new_registry_sync ''n1'')"

theorem own_change_supersedes_witness:
  "\<exists>r. last (rs_published (rs_unregister ''svc'' demo_copy)) = UnregisterUpdate r \<and>
     rs_lookup (handleRegistryUpdate (UnregisterUpdate r) demo_copy) ''svc'' = None"
proof -
  have r: "sync_reachable demo_copy"
    unfolding demo_copy_def by (intro sync_register sync_new)
  have "jget (rs_regs demo_copy) ''svc'' = Some \<lparr>ar_name = ''svc'', ar_node = ''n1'', ar_actor = ''a1'',
      ar_generation = 1, ar_clock = vc_increment ''n1'' []\<rparr>"
    by (simp add: demo_copy_def rs_register_def new_registry_sync_def Let_def)
  from own_change_supersedes [OF r this this] show ?thesis by simp
qed

text \<open>The tie-breaker as an order.\<close>

definition outranks :: "registration \<Rightarrow> registration \<Rightarrow> bool" where
  "outranks r q \<longleftrightarrow> ar_generation r > ar_generation q \<or>
     ar_generation r = ar_generation q \<and> ar_node r > ar_node q"

lemma outranks_trans: "outranks r q \<Longrightarrow> outranks q p \<Longrightarrow> outranks r p"
  by (auto simp: outranks_def)

lemma outranks_asym: "outranks r q \<Longrightarrow> \<not> outranks q r"
  by (auto simp: outranks_def)

text \<open>The clocks of the nodes agree with causality: a later registration ranks higher.\<close>

definition ranked :: "registration set \<Rightarrow> bool" where
  "ranked R \<longleftrightarrow> (\<forall>r\<in>R. \<forall>q\<in>R. r \<noteq> q \<longrightarrow> outranks r q \<or> outranks q r) \<and>
     (\<forall>r\<in>R. \<forall>q\<in>R. vc_compare (ar_clock q) (ar_clock r) = Before \<longrightarrow> outranks r q)"

lemma ranked_after: "ranked R \<Longrightarrow> r \<in> R \<Longrightarrow> q \<in> R \<Longrightarrow> vc_compare (ar_clock r) (ar_clock q) = After \<Longrightarrow> outranks r q"
  using vc.cmp_converse by (auto simp: ranked_def)

lemma update_ranked:
  assumes "ranked R" and "r \<in> R" and "q \<in> R" and "jget (rs_regs s) (ar_name r) = Some q"
  shows "jget (rs_regs (handleRegistryUpdate (RegisterUpdate r) s)) (ar_name r) =
     Some (if outranks r q then r else q)"
proof (cases "vc_compare (ar_clock r) (ar_clock q)")
  case Before
  then have "outranks q r" using assms by (auto simp: ranked_def)
  then show ?thesis using Before assms(4) outranks_asym by (auto simp: accept_def)
next
  case After
  then show ?thesis using ranked_after [OF assms(1-3)] assms(4) by (simp add: accept_def)
next
  case Concurrent
  then show ?thesis using assms(4) by (auto simp: accept_def outranks_def)
qed

text \<open>The entry is the highest ranked registration received.\<close>

lemma updates_highest:
  assumes "ranked (set us)" and "\<forall>r\<in>set us. ar_name r = name" and "jget (rs_regs s) name = None" and "us \<noteq> []"
  shows "\<exists>r\<in>set us. jget (rs_regs (fold handleRegistryUpdate (map RegisterUpdate us) s)) name = Some r \<and>
     (\<forall>q\<in>set us. q \<noteq> r \<longrightarrow> outranks r q)"
  using assms
proof (induction us rule: rev_induct)
  case (snoc u us)
  show ?case
  proof (cases "us = []")
    case True
    then show ?thesis using snoc.prems by (simp add: accept_def)
  next
    case False
    have "ranked (set us)" using snoc.prems(1) by (simp add: ranked_def)
    then obtain r where r: "r \<in> set us"
      "jget (rs_regs (fold handleRegistryUpdate (map RegisterUpdate us) s)) name = Some r"
      "\<forall>q\<in>set us. q \<noteq> r \<longrightarrow> outranks r q"
      using snoc False by auto
    have e: "jget (rs_regs (fold handleRegistryUpdate (map RegisterUpdate (us @ [u])) s)) name =
        Some (if outranks u r then u else r)"
      using update_ranked [OF snoc.prems(1), of u r] r(1,2) snoc.prems(2) by simp
    show ?thesis
    proof (cases "outranks u r")
      case True
      then have "\<forall>q\<in>set (us @ [u]). q \<noteq> u \<longrightarrow> outranks u q"
        using r(3) outranks_trans by (auto; metis)
      then show ?thesis using e True by (intro bexI [of _ u]) simp_all
    next
      case False
      then have "u \<noteq> r \<longrightarrow> outranks r u" using snoc.prems(1) r(1) by (auto simp: ranked_def)
      then show ?thesis using e False r(1,3) by (intro bexI [of _ r]) auto
    qed
  qed
qed simp

text \<open>
  C23: As long as the generations (the nodes' clocks) order registrations of a name the way
  causality does and no two have the same generation and node, all copies that receive the
  same registrations agree, in whatever order they arrive and however often one is repeated.
\<close>

theorem registry_copies_converge:
  assumes "ranked (set us)" and "set us' = set us" and "\<forall>r\<in>set us. ar_name r = name"
    and "jget (rs_regs s) name = None" and "jget (rs_regs s') name = None"
  shows "rs_lookup (fold handleRegistryUpdate (map RegisterUpdate us) s) name =
     rs_lookup (fold handleRegistryUpdate (map RegisterUpdate us') s') name"
proof (cases "us = []")
  case True
  then show ?thesis using assms by (simp add: rs_lookup_def)
next
  case False
  then have "us' \<noteq> []" using assms(2) by auto
  then show ?thesis
    using updates_highest [of us name s] updates_highest [of us' name s'] False assms outranks_asym
    by (simp add: rs_lookup_def) metis
qed

definition demo_reg :: "string \<Rightarrow> int \<Rightarrow> vclock \<Rightarrow> registration" where
  "demo_reg node gen c = \<lparr>ar_name = ''svc'', ar_node = node, ar_actor = ''a-'' @ node,
     ar_generation = gen, ar_clock = c\<rparr>"

definition upd_a :: registration where "upd_a = demo_reg ''n1'' 10 [(''n1'', 1)]"
definition upd_b :: registration where "upd_b = demo_reg ''n2'' 1 [(''n1'', 1), (''n2'', 1)]"
definition upd_c :: registration where "upd_c = demo_reg ''n3'' 5 [(''n3'', 1)]"

lemmas demo_upd_defs = upd_a_def upd_b_def upd_c_def demo_reg_def

lemma demo_compare:
  "vc_compare (ar_clock upd_a) (ar_clock upd_c) = Concurrent"
  "vc_compare (ar_clock upd_c) (ar_clock upd_a) = Concurrent"
  "vc_compare (ar_clock upd_a) (ar_clock upd_a) = Concurrent"
  "vc_compare (ar_clock upd_c) (ar_clock upd_c) = Concurrent"
  "vc_compare (ar_clock upd_b) (ar_clock upd_a) = After"
  "vc_compare (ar_clock upd_c) (ar_clock upd_b) = Concurrent"
  by (simp_all add: demo_upd_defs vc_compare_def vc_flags_def vc_get_def sadd_def)

theorem registry_copies_converge_witness:
  "rs_lookup (fold handleRegistryUpdate (map RegisterUpdate [upd_a, upd_c]) (new_registry_sync ''x'')) ''svc'' =
   rs_lookup (fold handleRegistryUpdate (map RegisterUpdate [upd_c, upd_a, upd_c]) (new_registry_sync ''y'')) ''svc''"
proof (rule registry_copies_converge)
  show "ranked (set [upd_a, upd_c])"
    by (simp add: ranked_def demo_compare) (simp add: demo_upd_defs outranks_def)
qed (auto simp: demo_upd_defs new_registry_sync_def)

text \<open>
  Without that assumption copies diverge for good: the rule "newer clock first, then
  generation" is not transitive. Three registrations, the second after the first but stamped
  by a slower clock, leave two copies that received all three with different owners of the name.
\<close>

theorem registry_copies_diverge:
  "rs_lookup (fold handleRegistryUpdate (map RegisterUpdate [upd_a, upd_b, upd_c]) (new_registry_sync ''x'')) ''svc''
     = Some \<lparr>loc_node = ''n3'', loc_actor = ''a-n3''\<rparr>
   \<and> rs_lookup (fold handleRegistryUpdate (map RegisterUpdate [upd_b, upd_c, upd_a]) (new_registry_sync ''y'')) ''svc''
     = Some \<lparr>loc_node = ''n1'', loc_actor = ''a-n1''\<rparr>"
  by (simp add: demo_upd_defs new_registry_sync_def rs_lookup_def accept_def vc_compare_def vc_flags_def
      vc_get_def sadd_def)

text \<open>
  A removal leaves no trace: a copy that dropped a name on an \<open>unregister\<close> takes the same
  registration back when it arrives once more (as \<open>republishAll\<close> of a node that missed the
  removal sends it when a peer joins), so the name points at the stopped actor again.
\<close>

theorem unregistered_name_returns:
  assumes "jget (rs_regs t) (ar_name r) = Some r" and "ar_name gone = ar_name r"
    and "vc_compare (ar_clock gone) (ar_clock r) = After"
  shows "rs_lookup (handleRegistryUpdate (UnregisterUpdate gone) t) (ar_name r) = None
     \<and> rs_lookup (handleRegistryUpdate (RegisterUpdate r) (handleRegistryUpdate (UnregisterUpdate gone) t)) (ar_name r)
         = Some \<lparr>loc_node = ar_node r, loc_actor = ar_actor r\<rparr>"
  using assms by (simp add: rs_lookup_def accept_def Let_def)

theorem unregistered_name_returns_witness:
  "rs_lookup (handleRegistryUpdate (RegisterUpdate upd_a) (handleRegistryUpdate (UnregisterUpdate upd_b)
     (handleRegistryUpdate (RegisterUpdate upd_a) (new_registry_sync ''x'')))) ''svc''
   = Some \<lparr>loc_node = ''n1'', loc_actor = ''a-n1''\<rparr>"
  using unregistered_name_returns [of "handleRegistryUpdate (RegisterUpdate upd_a) (new_registry_sync ''x'')" upd_a upd_b]
    demo_compare(5)
  by (simp add: demo_upd_defs new_registry_sync_def accept_def)

text \<open>
  Reservations of the distributed registry do not exclude each other across nodes: as
  long as a name is not registered, two nodes can both reserve it and both confirm.
\<close>

theorem distributed_reservation_not_exclusive:
  assumes free: "rs_lookup (dr_gossip s1) name = None" "rs_lookup (dr_gossip s2) name = None"
    and none: "dr_reservations s1 = []" "dr_reservations s2 = []"
    and r1: "(x1, s1') = dr_reserveName i1 now name n1 ttl s1"
    and r2: "(x2, s2') = dr_reserveName i2 now name n2 ttl s2"
    and in_time: "0 \<le> ttl"
  shows "x1 = Some i1 \<and> x2 = Some i2
     \<and> rs_lookup (dr_gossip (snd (dr_confirmReservation now i1 a1 s1'))) name = Some \<lparr>loc_node = n1, loc_actor = a1\<rparr>
     \<and> rs_lookup (dr_gossip (snd (dr_confirmReservation now i2 a2 s2'))) name = Some \<lparr>loc_node = n2, loc_actor = a2\<rparr>"
proof -
  have "fst (dr_reserveName i now name n ttl s) = Some i \<and>
      rs_lookup (dr_gossip (snd (dr_confirmReservation now i a (snd (dr_reserveName i now name n ttl s))))) name =
        Some \<lparr>loc_node = n, loc_actor = a\<rparr>"
    if "rs_lookup (dr_gossip s) name = None" "dr_reservations s = []" for i n a s
    using in_time that
    by (simp add: dr_reserveName_def reserve_in_def cleanupExpiredReservations_def
        dr_confirmReservation_def rs.lookup_register)
  then show ?thesis using free none r1 r2 by (metis fst_conv snd_conv)
qed

definition demo_dr :: "string \<Rightarrow> distributed_registry" where
  "demo_dr n = \<lparr>dr_gossip = new_registry_sync n, dr_reservations = []\<rparr>"

theorem distributed_reservation_not_exclusive_witness:
  "fst (dr_reserveName ''r1'' 0 ''svc'' ''n1'' 30000 (demo_dr ''n1'')) = Some ''r1'' \<and>
   fst (dr_reserveName ''r2'' 0 ''svc'' ''n2'' 30000 (demo_dr ''n2'')) = Some ''r2''"
  using distributed_reservation_not_exclusive [of "demo_dr ''n1''" "''svc''" "demo_dr ''n2''"
      "fst (dr_reserveName ''r1'' 0 ''svc'' ''n1'' 30000 (demo_dr ''n1''))"
      "snd (dr_reserveName ''r1'' 0 ''svc'' ''n1'' 30000 (demo_dr ''n1''))" "''r1''" 0 "''n1''" 30000
      "fst (dr_reserveName ''r2'' 0 ''svc'' ''n2'' 30000 (demo_dr ''n2''))"
      "snd (dr_reserveName ''r2'' 0 ''svc'' ''n2'' 30000 (demo_dr ''n2''))" "''r2''" "''n2''"]
  by (simp add: demo_dr_def new_registry_sync_def rs_lookup_def)

end
