(* ===== verification/Migration.thy ===== *)
theory Migration
  imports Scheduler Moved Registry_Sync
begin

text \<open>
  Moving a named actor to another node: \<open>migrate\<close> of \<open>src/actor_system.ts\<close> in the stages
  between which it awaits something, and the handlers of \<open>migrate:prepare\<close>,
  \<open>migrate:execute\<close> and \<open>migrate:rollback\<close> on the target. The registry is a record of
  functions (\<open>registry_ops\<close>), as the interface \<open>Registry\<close> with its optional operations; user
  code (\<open>init\<close>, \<open>getState\<close>, \<open>setState\<close>) is a parameter, the private state of an actor a text.
\<close>

section \<open>A node with its registry\<close>

record 'r registry_ops =
  ro_lookup :: "string \<Rightarrow> 'r \<Rightarrow> actor_location option"
  ro_register :: "string \<Rightarrow> string \<Rightarrow> string \<Rightarrow> 'r \<Rightarrow> 'r"
  ro_unregister :: "string \<Rightarrow> 'r \<Rightarrow> 'r"
  ro_reserveName :: "(string \<Rightarrow> string \<Rightarrow> 'r \<Rightarrow> string option \<times> 'r) option"
  ro_confirmReservation :: "(string \<Rightarrow> string \<Rightarrow> 'r \<Rightarrow> bool \<times> 'r) option"
  ro_releaseReservation :: "(string \<Rightarrow> 'r \<Rightarrow> 'r) option"

text \<open>The two registries of the repository, with a fresh id and the clock.\<close>

definition local_ops :: "string \<Rightarrow> int \<Rightarrow> local_registry registry_ops" where
  "local_ops fresh now =
     \<lparr>ro_lookup = (\<lambda>n s. lr_lookup s n), ro_register = lr_register, ro_unregister = lr_unregister,
      ro_reserveName = Some (\<lambda>name node. lr_reserveName fresh now name node DEFAULT_RESERVATION_TTL_MS),
      ro_confirmReservation = Some (lr_confirmReservation now), ro_releaseReservation = Some lr_releaseReservation\<rparr>"

definition dist_ops :: "string \<Rightarrow> int \<Rightarrow> distributed_registry registry_ops" where
  "dist_ops fresh now =
     \<lparr>ro_lookup = (\<lambda>n s. rs_lookup (dr_gossip s) n),
      ro_register = (\<lambda>n node a s. s\<lparr>dr_gossip := rs_register now n node a (dr_gossip s)\<rparr>),
      ro_unregister = (\<lambda>n s. s\<lparr>dr_gossip := rs_unregister n (dr_gossip s)\<rparr>),
      ro_reserveName = Some (\<lambda>name node. dr_reserveName fresh now name node DEFAULT_RESERVATION_TTL_MS),
      ro_confirmReservation = Some (dr_confirmReservation now), ro_releaseReservation = Some dr_releaseReservation\<rparr>"

text \<open>
  \<open>uc_getState\<close>: \<open>None\<close> when the promise is not settled within the timeout; the left side is
  the text of an error.
\<close>

record user_code =
  uc_init :: "actor_class \<Rightarrow> string list \<Rightarrow> string + string"
  uc_getState :: "actor_class \<Rightarrow> string \<Rightarrow> (string + string) option"
  uc_setState :: "actor_class \<Rightarrow> string \<Rightarrow> string + string"

record 'r mig_node =
  mn_sched :: sched
  mn_registry :: 'r
  mn_classes :: "(string, actor_class) jsmap"
  mn_state :: "(string, string) jsmap"

abbreviation mn_sys :: "'r mig_node \<Rightarrow> sys" where
  "mn_sys n \<equiv> sc_sys (mn_sched n)"

definition upd_sched :: "(sched \<Rightarrow> sched) \<Rightarrow> 'r mig_node \<Rightarrow> 'r mig_node" where
  "upd_sched f n = n\<lparr>mn_sched := f (mn_sched n)\<rparr>"

definition upd_sys :: "(sys \<Rightarrow> sys) \<Rightarrow> 'r mig_node \<Rightarrow> 'r mig_node" where
  "upd_sys f = upd_sched (\<lambda>S. S\<lparr>sc_sys := f (sc_sys S)\<rparr>)"

section \<open>The target\<close>

datatype prepare_response = PrepareReady string | PrepareRefused string
datatype execute_response = ExecuteDone string | ExecuteFailed string

definition handleMigratePrepare ::
  "'r registry_ops \<Rightarrow> string \<Rightarrow> string \<Rightarrow> 'r mig_node \<Rightarrow> prepare_response \<times> 'r mig_node" where
  "handleMigratePrepare ops name cname n =
     (if \<not> jhas (mn_classes n) cname then (PrepareRefused (''Actor class not registered: '' @ cname), n)
      else case ro_reserveName ops of
        None \<Rightarrow> (PrepareRefused ''Registry does not support name reservation'', n)
      | Some reserve \<Rightarrow>
          (case reserve name (sys_id (mn_sys n)) (mn_registry n) of
             (None, r) \<Rightarrow> (PrepareRefused (''Failed to reserve name: '' @ name), n\<lparr>mn_registry := r\<rparr>)
           | (Some i, r) \<Rightarrow> (PrepareReady i, n\<lparr>mn_registry := r\<rparr>)))"

record execute_request =
  ex_reservation :: string
  ex_name :: string
  ex_class :: string
  ex_state :: string
  ex_args :: "string list"
  ex_pending :: "(message_type \<times> string) list"

definition release_reservation :: "'r registry_ops \<Rightarrow> string \<Rightarrow> 'r mig_node \<Rightarrow> 'r mig_node" where
  "release_reservation ops i n =
     (case ro_releaseReservation ops of None \<Rightarrow> n | Some f \<Rightarrow> n\<lparr>mn_registry := f i (mn_registry n)\<rparr>)"

definition migrated_options :: "execute_request \<Rightarrow> spawn_options" where
  "migrated_options q = \<lparr>so_name = Some (ex_name q), so_args = Some (ex_args q), so_strategy = None, so_role = None, so_mailbox = None\<rparr>"

definition migrated_messages :: "execute_request \<Rightarrow> string stashed_message list" where
  "migrated_messages q = map (\<lambda>(t, m). \<lparr>sm_type = t, sm_message = m, sm_reply = None\<rparr>) (ex_pending q)"

text \<open>Creating the instance and running \<open>init\<close> and \<open>setState\<close>; the left side is the error caught.\<close>

definition create_migrated ::
  "user_code \<Rightarrow> string \<Rightarrow> int \<Rightarrow> actor_class \<Rightarrow> execute_request \<Rightarrow> 'r mig_node \<Rightarrow> string option \<times> 'r mig_node" where
  "create_migrated uc i now c q n =
     (let r = \<lparr>ref_node = sys_id (mn_sys n), ref_id = i, ref_name = Some (ex_name q), ref_original = True\<rparr>;
          n1 = upd_sys (\<lambda>s. emit (CallInit i) (add_actor now c (migrated_options q) r None s)) n
      in case uc_init uc c (ex_args q) of
           Inl err \<Rightarrow> (Some err, n1)
         | Inr st \<Rightarrow>
             (let n2 = n1\<lparr>mn_state := jput (mn_state n1) i st\<rparr>
              in if isMigratable c
                 then case uc_setState uc c (ex_state q) of
                     Inl err \<Rightarrow> (Some err, n2)
                   | Inr st' \<Rightarrow> (None, n2\<lparr>mn_state := jput (mn_state n2) i st'\<rparr>)
                 else (None, n2)))"

text \<open>The deletions after a reservation that could not be confirmed.\<close>

definition discard_migrated :: "string \<Rightarrow> sys \<Rightarrow> sys" where
  "discard_migrated i s = delete_actor i (emit (GroupsLeaveAll i) s)"

definition confirm_migrated ::
  "'r registry_ops \<Rightarrow> string \<Rightarrow> execute_request \<Rightarrow> 'r mig_node \<Rightarrow> bool \<times> 'r mig_node" where
  "confirm_migrated ops i q n =
     (case ro_confirmReservation ops of
        Some confirm \<Rightarrow> (let (ok, r) = confirm (ex_reservation q) i (mn_registry n) in (ok, n\<lparr>mn_registry := r\<rparr>))
      | None \<Rightarrow> (True, n\<lparr>mn_registry := ro_register ops (ex_name q) (sys_id (mn_sys n)) i (mn_registry n)\<rparr>))"

definition handleMigrateExecute ::
  "'r registry_ops \<Rightarrow> user_code \<Rightarrow> string \<Rightarrow> int \<Rightarrow> execute_request \<Rightarrow> 'r mig_node \<Rightarrow> execute_response \<times> 'r mig_node" where
  "handleMigrateExecute ops uc i now q n =
     (case jget (mn_classes n) (ex_class q) of
        None \<Rightarrow> (ExecuteFailed (''Actor class not registered: '' @ ex_class q), n)
      | Some c \<Rightarrow>
          (case create_migrated uc i now c q n of
             (Some err, n1) \<Rightarrow> (ExecuteFailed err, release_reservation ops (ex_reservation q) n1)
           | (None, n1) \<Rightarrow>
               (case confirm_migrated ops i q (upd_sched (\<lambda>S. snd (injectMessages i (migrated_messages q) S)) n1) of
                  (False, n2) \<Rightarrow> (ExecuteFailed ''Failed to confirm name reservation'', upd_sys (discard_migrated i) n2)
                | (True, n2) \<Rightarrow> (ExecuteDone i, upd_sched (on_sys (scheduleProcessMailbox i)) n2))))"

definition handleMigrateRollback :: "'r registry_ops \<Rightarrow> string \<Rightarrow> 'r mig_node \<Rightarrow> bool \<times> 'r mig_node" where
  "handleMigrateRollback ops i n = (True, release_reservation ops i n)"

section \<open>The source\<close>

datatype migration_result = MigrationOk string string | MigrationError string

text \<open>The local variables of \<open>migrate\<close>.\<close>

record migration =
  mg_name :: string
  mg_target :: string
  mg_timeout :: int
  mg_actor :: string
  mg_class :: actor_class
  mg_args :: "string list"
  mg_reservation :: string
  mg_pending :: "string stashed_message list"

datatype progress = Thrown js_error | Finished migration_result | Ongoing migration

text \<open>
  \<open>_rejectPendingCallsForMigration\<close>: the queued calls somebody waits for are rejected, the rest
  stays. The slots of a ring that \<open>replaceWith\<close> left broken are skipped.
\<close>

definition present :: "'a option list \<Rightarrow> 'a list" where
  "present xs = map the (filter (\<lambda>x. x \<noteq> None) xs)"

definition waited_call :: "string stashed_message \<Rightarrow> bool" where
  "waited_call m \<longleftrightarrow> sm_type m = CallMsg \<and> sm_reply m \<noteq> None"

definition rejectPendingCallsForMigration :: "string \<Rightarrow> string \<Rightarrow> string \<Rightarrow> sched \<Rightarrow> nat \<times> sched" where
  "rejectPendingCallsForMigration i name target S =
     (case jget (mailboxes (sc_sys S)) i of
        None \<Rightarrow> (0, S)
      | Some mb \<Rightarrow>
          (let ms = present (toArray mb); rejected = filter waited_call ms
           in (length rejected,
               fold (\<lambda>m. settle_opt (sm_reply m) (RejectedWith (MigrationInProgressError name target))) rejected
                 (S\<lparr>sc_sys := set_mailbox i (replaceWith mb (filter (\<lambda>m. \<not> waited_call m) ms)) (sc_sys S)\<rparr>))))"

text \<open>Up to the request \<open>migrate:prepare\<close>.\<close>

definition migrate_begin :: "'r registry_ops \<Rightarrow> string \<Rightarrow> string \<Rightarrow> int \<Rightarrow> 'r mig_node \<Rightarrow> progress \<times> 'r mig_node" where
  "migrate_begin ops name target timeout n =
     (let s = mn_sys n; fail = (\<lambda>e. (Finished (MigrationError e), n))
      in if isShuttingDown s then fail ''System is shutting down''
         else if target = sys_id s then fail ''Cannot migrate to same node''
         else case ro_lookup ops name (mn_registry n) of
           None \<Rightarrow> fail (''Actor not found: '' @ name)
         | Some l \<Rightarrow>
             if loc_node l \<noteq> sys_id s then fail (''Actor '' @ name @ '' is not on this node'')
             else case getActor s (loc_actor l) of
               None \<Rightarrow> fail ''Actor instance not found''
             | Some act \<Rightarrow>
                 if \<not> isMigratable (a_class act) then (Thrown (ActorNotMigratableError (loc_actor l)), n)
                 else if a_children act \<noteq> [] then (Thrown (ActorHasChildrenError (loc_actor l) (length (a_children act))), n)
                 else case jget (actorMetadata s) (loc_actor l) of
                   None \<Rightarrow> fail ''Actor metadata not found''
                 | Some md \<Rightarrow>
                     (Ongoing \<lparr>mg_name = name, mg_target = target, mg_timeout = timeout, mg_actor = loc_actor l,
                        mg_class = md_class md, mg_args = (case so_args (md_options md) of None \<Rightarrow> [] | Some xs \<Rightarrow> xs),
                        mg_reservation = '''', mg_pending = []\<rparr>,
                      upd_sched (\<lambda>S. snd (rejectPendingCallsForMigration (loc_actor l) name target S))
                        (upd_sys (\<lambda>s. snd (pauseMailbox (loc_actor l) s)) n)))"

definition resume_actor :: "string \<Rightarrow> 'r mig_node \<Rightarrow> 'r mig_node" where
  "resume_actor i = upd_sched (\<lambda>S. snd (resumeMailbox i S))"

text \<open>Giving up after the mailbox was drained: the messages go back in front.\<close>

definition restore_actor :: "migration \<Rightarrow> 'r mig_node \<Rightarrow> 'r mig_node" where
  "restore_actor m n = resume_actor (mg_actor m) (upd_sched (\<lambda>S. snd (injectMessages (mg_actor m) (mg_pending m) S)) n)"

definition or_else :: "string \<Rightarrow> string \<Rightarrow> string" where
  "or_else x d = (if x = '''' then d else x)"

text \<open>The answer to \<open>migrate:prepare\<close>, then \<open>drainMailbox\<close> up to the moment it takes the messages.\<close>

definition migrate_prepared :: "migration \<Rightarrow> string + prepare_response \<Rightarrow> 'r mig_node \<Rightarrow> progress \<times> 'r mig_node" where
  "migrate_prepared m reply n =
     (case reply of
        Inl err \<Rightarrow> (Finished (MigrationError (''Failed to prepare migration: '' @ err)), resume_actor (mg_actor m) n)
      | Inr (PrepareRefused e) \<Rightarrow> (Finished (MigrationError (or_else e ''Target not ready'')), resume_actor (mg_actor m) n)
      | Inr (PrepareReady i) \<Rightarrow> (Ongoing (m\<lparr>mg_reservation := i\<rparr>), upd_sys (drain_start (mg_actor m)) n))"

definition migrate_drained :: "migration \<Rightarrow> 'r mig_node \<Rightarrow> migration \<times> 'r mig_node" where
  "migrate_drained m n =
     (let (ms, s) = drain_finish (mg_actor m) (mn_sys n)
      in (m\<lparr>mg_pending := present ms\<rparr>, upd_sys (\<lambda>_. s) n))"

text \<open>\<open>getState\<close> with its timeout: the state, or the text of the error.\<close>

definition state_of :: "string \<Rightarrow> 'r mig_node \<Rightarrow> string" where
  "state_of i n = (case jget (mn_state n) i of None \<Rightarrow> '''' | Some x \<Rightarrow> x)"

definition getStateWithTimeout :: "user_code \<Rightarrow> migration \<Rightarrow> 'r mig_node \<Rightarrow> string + string" where
  "getStateWithTimeout uc m n =
     (case uc_getState uc (mg_class m) (state_of (mg_actor m) n) of
        None \<Rightarrow> Inl (error_message (StateSerializationTimeoutError (mg_name m) (mg_timeout m)))
      | Some x \<Rightarrow> x)"

definition execute_of :: "migration \<Rightarrow> string \<Rightarrow> execute_request" where
  "execute_of m st = \<lparr>ex_reservation = mg_reservation m, ex_name = mg_name m, ex_class = ac_name (mg_class m),
     ex_state = st, ex_args = mg_args m, ex_pending = map (\<lambda>x. (sm_type x, sm_message x)) (mg_pending m)\<rparr>"

definition cleanupActorForMigration :: "string \<Rightarrow> sys \<Rightarrow> sys" where
  "cleanupActorForMigration i s =
     (let s1 = delete_actor i (emit (GroupsLeaveAll i) s)
      in s1\<lparr>pausedMailboxes := sdel (pausedMailboxes s1) i, processingActors := sdel (processingActors s1) i\<rparr>)"

text \<open>The answer to \<open>migrate:execute\<close>.\<close>

definition migrate_executed ::
  "'r registry_ops \<Rightarrow> migration \<Rightarrow> string + execute_response \<Rightarrow> 'r mig_node \<Rightarrow> migration_result \<times> 'r mig_node" where
  "migrate_executed ops m reply n =
     (case reply of
        Inl err \<Rightarrow> (MigrationError (''Failed to execute migration: '' @ err), restore_actor m n)
      | Inr (ExecuteFailed e) \<Rightarrow> (MigrationError (or_else e ''Migration execution failed''), restore_actor m n)
      | Inr (ExecuteDone newId) \<Rightarrow>
          (let i = mg_actor m; mv = moved_to (sys_id (mn_sys n)) (Some (mg_name m)) (mg_target m) newId
           in (MigrationOk newId (mg_target m),
               upd_sys (\<lambda>s. cleanupActorForMigration i (notifyLinkedActorsOfMigration i mv (notifyWatchersOfMigration i mv s)))
                 (n\<lparr>mn_registry := ro_unregister ops (mg_name m) (mn_registry n)\<rparr>))))"

section \<open>Both nodes\<close>

text \<open>What the network does with a request.\<close>

datatype delivery = Delivered | RequestLost string | ReplyLost string

fun deliver :: "delivery \<Rightarrow> ('n \<Rightarrow> 'a \<times> 'n) \<Rightarrow> 'n \<Rightarrow> (string + 'a) \<times> 'n" where
  "deliver Delivered f n = (case f n of (a, n') \<Rightarrow> (Inr a, n'))"
| "deliver (RequestLost e) f n = (Inl e, n)"
| "deliver (ReplyLost e) f n = (Inl e, snd (f n))"

text \<open>
  The operations of the registries during a migration (of the source; of the target when it
  prepares and when it executes), user code, the id and clock of the new instance, and the fate
  of the three requests.
\<close>

record 'r mig_env =
  me_source :: "'r registry_ops"
  me_prepare :: "'r registry_ops"
  me_execute :: "'r registry_ops"
  me_code :: user_code
  me_instance :: string
  me_now :: int
  me_net1 :: delivery
  me_net2 :: delivery
  me_net3 :: delivery

text \<open>From the drained mailbox on.\<close>

definition migrate_transfer ::
  "'r mig_env \<Rightarrow> migration \<Rightarrow> 'r mig_node \<Rightarrow> 'r mig_node \<Rightarrow> migration_result \<times> 'r mig_node \<times> 'r mig_node" where
  "migrate_transfer e m src tgt =
     (let rollback = (\<lambda>t. snd (deliver (me_net3 e) (handleMigrateRollback (me_execute e) (mg_reservation m)) t))
      in case getStateWithTimeout (me_code e) m src of
           Inl err \<Rightarrow> (MigrationError (''Failed to serialize state: '' @ err), restore_actor m src, rollback tgt)
         | Inr st \<Rightarrow>
             (case deliver (me_net2 e) (handleMigrateExecute (me_execute e) (me_code e) (me_instance e) (me_now e) (execute_of m st)) tgt of
                (reply, tgt1) \<Rightarrow>
                  (case migrate_executed (me_source e) m reply src of
                     (res, src1) \<Rightarrow> (res, src1, (case reply of Inl _ \<Rightarrow> rollback tgt1 | Inr _ \<Rightarrow> tgt1)))))"

text \<open>
  The stages one after the other, with nothing in between: no message and no operation reaches either
  node while \<open>migrate\<close> awaits an answer, except through the parameters of the target. (See
  \<open>late_messages_lost\<close> for a call that arrives in between.)
\<close>

definition migrate ::
  "'r mig_env \<Rightarrow> string \<Rightarrow> string \<Rightarrow> int \<Rightarrow> 'r mig_node \<Rightarrow> 'r mig_node \<Rightarrow> progress \<times> 'r mig_node \<times> 'r mig_node" where
  "migrate e name target timeout src tgt =
     (case migrate_begin (me_source e) name target timeout src of
        (Ongoing m, src1) \<Rightarrow>
          (case deliver (me_net1 e) (handleMigratePrepare (me_prepare e) name (ac_name (mg_class m))) tgt of
             (reply, tgt1) \<Rightarrow>
               (case migrate_prepared m reply src1 of
                  (Ongoing m1, src2) \<Rightarrow>
                    (case migrate_drained m1 src2 of
                       (m2, src3) \<Rightarrow>
                         (case migrate_transfer e m2 src3 tgt1 of (res, src4, tgt2) \<Rightarrow> (Finished res, src4, tgt2)))
                | (p, src2) \<Rightarrow> (p, src2, tgt1)))
      | (p, src1) \<Rightarrow> (p, src1, tgt))"


section \<open>Lemmas\<close>

lemma upd_simps [simp]:
  "mn_sched (upd_sched f n) = f (mn_sched n)" "mn_registry (upd_sched f n) = mn_registry n"
  "mn_classes (upd_sched f n) = mn_classes n" "mn_state (upd_sched f n) = mn_state n"
  "mn_sched (upd_sys g n) = (mn_sched n)\<lparr>sc_sys := g (mn_sys n)\<rparr>" "mn_registry (upd_sys g n) = mn_registry n"
  "mn_classes (upd_sys g n) = mn_classes n" "mn_state (upd_sys g n) = mn_state n"
  by (simp_all add: upd_sched_def upd_sys_def)

lemma sc_sys_settle [simp]: "sc_sys (settle n r S) = sc_sys S" "sc_sys (settle_opt k r S) = sc_sys S"
  by (simp_all add: settle_def settle_opt_def split: option.split)

lemma sc_sys_fold_settle [simp]: "sc_sys (fold (\<lambda>m. settle_opt (f m) (g m)) ms S) = sc_sys S"
  by (induction ms arbitrary: S) simp_all

lemma scheduled_simps [simp]:
  "actors (scheduleProcessMailbox i s) = actors s" "mailboxes (scheduleProcessMailbox i s) = mailboxes s"
  "actorMetadata (scheduleProcessMailbox i s) = actorMetadata s" "sys_id (scheduleProcessMailbox i s) = sys_id s"
  "pausedMailboxes (scheduleProcessMailbox i s) = pausedMailboxes s" "outbox (scheduleProcessMailbox i s) = outbox s"
  by (simp_all add: scheduleProcessMailbox_def)

lemma set_mailbox_simps [simp]:
  "actors (set_mailbox i mb s) = actors s" "mailboxes (set_mailbox i mb s) = jput (mailboxes s) i mb"
  "actorMetadata (set_mailbox i mb s) = actorMetadata s" "sys_id (set_mailbox i mb s) = sys_id s"
  "pausedMailboxes (set_mailbox i mb s) = pausedMailboxes s"
  by (simp_all add: set_mailbox_def)

lemma present_Some [simp]: "present (map Some xs) = xs"
  by (induction xs) (simp_all add: present_def)

text \<open>What the stages do to the tables of the source.\<close>

lemma sc_sys_reject:
  "sc_sys (snd (rejectPendingCallsForMigration i name target S)) =
     (case jget (mailboxes (sc_sys S)) i of None \<Rightarrow> sc_sys S
      | Some mb \<Rightarrow> set_mailbox i (replaceWith mb (filter (\<lambda>m. \<not> waited_call m) (present (toArray mb)))) (sc_sys S))"
  by (simp add: rejectPendingCallsForMigration_def Let_def split: option.split)

lemma resume_actor_simps [simp]:
  "actors (mn_sys (resume_actor i n)) = actors (mn_sys n)" "mailboxes (mn_sys (resume_actor i n)) = mailboxes (mn_sys n)"
  "actorMetadata (mn_sys (resume_actor i n)) = actorMetadata (mn_sys n)" "sys_id (mn_sys (resume_actor i n)) = sys_id (mn_sys n)"
  "mn_registry (resume_actor i n) = mn_registry n"
  by (auto simp: resume_actor_def resumeMailbox_def Let_def)

lemma resume_unpauses: "alive (mn_sys n) i \<Longrightarrow> i \<notin> set (pausedMailboxes (mn_sys (resume_actor i n)))"
  by (auto simp: resume_actor_def resumeMailbox_def Let_def sdel_def)

lemma restore_actor_simps [simp]:
  "actors (mn_sys (restore_actor m n)) = actors (mn_sys n)" "sys_id (mn_sys (restore_actor m n)) = sys_id (mn_sys n)"
  "actorMetadata (mn_sys (restore_actor m n)) = actorMetadata (mn_sys n)" "mn_registry (restore_actor m n) = mn_registry n"
  "mailboxes (mn_sys (restore_actor m n)) = (case jget (mailboxes (mn_sys n)) (mg_actor m) of None \<Rightarrow> mailboxes (mn_sys n)
     | Some mb \<Rightarrow> jput (mailboxes (mn_sys n)) (mg_actor m) (unshift mb (mg_pending m)))"
  by (simp_all add: restore_actor_def injectMessages_def split: option.split)

lemma restore_unpauses: "alive (mn_sys n) (mg_actor m) \<Longrightarrow> mg_actor m \<notin> set (pausedMailboxes (mn_sys (restore_actor m n)))"
  unfolding restore_actor_def by (rule resume_unpauses) (simp add: injectMessages_def split: option.split)

lemma drain_start_simps [simp]:
  "actors (drain_start i s) = actors s" "mailboxes (drain_start i s) = mailboxes s"
  "actorMetadata (drain_start i s) = actorMetadata s" "sys_id (drain_start i s) = sys_id s"
  by (simp_all add: drain_start_def pauseMailbox_def)

lemma drain_finish_simps [simp]:
  "actors (snd (drain_finish i s)) = actors s" "sys_id (snd (drain_finish i s)) = sys_id s"
  "actorMetadata (snd (drain_finish i s)) = actorMetadata s"
  by (simp_all add: drain_finish_def drain_def Let_def split: option.split)

section \<open>A name that is registered elsewhere\<close>

text \<open>The contract of a registry that keeps a name from being reserved by a second node.\<close>

locale exclusive_names =
  fixes ops :: "'r registry_ops"
  assumes reserve_refuses: "ro_reserveName ops = Some f \<Longrightarrow> ro_lookup ops name r = Some l \<Longrightarrow> loc_node l \<noteq> node \<Longrightarrow>
    fst (f name node r) = None"
begin

lemma prepare_refused:
  assumes "ro_lookup ops name (mn_registry n) = Some l" and "loc_node l \<noteq> sys_id (mn_sys n)"
  shows "\<exists>e n'. handleMigratePrepare ops name cname n = (PrepareRefused e, n') \<and> mn_sched n' = mn_sched n"
  using reserve_refuses [OF _ assms]
  by (auto simp: handleMigratePrepare_def split: option.split prod.split)

lemma migrate_refused:
  assumes "me_prepare e = ops" and "ro_lookup ops name (mn_registry tgt) = Some l" and "loc_node l \<noteq> sys_id (mn_sys tgt)"
  shows "case migrate e name target timeout src tgt of (p, src', tgt') \<Rightarrow>
    (\<forall>i node. p \<noteq> Finished (MigrationOk i node)) \<and> actors (mn_sys src') = actors (mn_sys src) \<and> mn_sched tgt' = mn_sched tgt"
proof (cases "migrate_begin (me_source e) name target timeout src")
  case (Pair p src1)
  have a: "actors (mn_sys src1) = actors (mn_sys src)" "\<forall>i node. p \<noteq> Finished (MigrationOk i node)"
    using Pair by (auto simp: migrate_begin_def Let_def sc_sys_reject pauseMailbox_def split: if_splits option.splits)
  show ?thesis
  proof (cases p)
    case (Ongoing m)
    obtain er t where t: "handleMigratePrepare ops name (ac_name (mg_class m)) tgt = (PrepareRefused er, t)" "mn_sched t = mn_sched tgt"
      using prepare_refused [OF assms(2,3)] by blast
    show ?thesis
      using Pair Ongoing a t
      by (cases "me_net1 e") (simp_all add: migrate_def assms(1) migrate_prepared_def)
  qed (use Pair a in \<open>simp_all add: migrate_def\<close>)
qed

end

lemma reserve_in_refuses: "loc_node l \<noteq> node \<Longrightarrow> fst (reserve_in fresh now (Some l) name node ttl rs) = None"
  by (simp add: reserve_in_def Let_def)

interpretation local_names: exclusive_names "local_ops fresh now"
  by unfold_locales (auto simp: local_ops_def lr_reserveName_def reserve_in_refuses split_beta)

interpretation dist_names: exclusive_names "dist_ops fresh now"
  by unfold_locales (auto simp: dist_ops_def dr_reserveName_def reserve_in_refuses split_beta)

text \<open>
  C38: A migration reserves the name for the target at the target's registry, and the distributed
  registry refuses a name that is registered at another node, which is where the actor is. So when
  the target's copy of the registry is up to date the migration never succeeds, whatever the
  network and the actor do; the source keeps its actors.
\<close>

theorem migration_refused_when_registered:
  assumes "me_prepare e = dist_ops fresh now"
    and "rs_lookup (dr_gossip (mn_registry tgt)) name = Some l" and "loc_node l \<noteq> sys_id (mn_sys tgt)"
  shows "case migrate e name target timeout src tgt of (p, src', tgt') \<Rightarrow>
    (\<forall>i node. p \<noteq> Finished (MigrationOk i node)) \<and> actors (mn_sys src') = actors (mn_sys src) \<and> mn_sched tgt' = mn_sched tgt"
  by (rule dist_names.migrate_refused [OF assms(1) _ assms(3)]) (simp add: dist_ops_def assms(2))


section \<open>What a migration keeps\<close>

lemma begin_ongoing:
  assumes "migrate_begin ops name target timeout src = (Ongoing m, src1)"
  shows "alive (mn_sys src) (mg_actor m)" and "mg_name m = name" and "mg_target m = target"
    and "src1 = upd_sched (\<lambda>S. snd (rejectPendingCallsForMigration (mg_actor m) name target S))
       (upd_sys (\<lambda>s. snd (pauseMailbox (mg_actor m) s)) src)"
  using assms by (auto simp: migrate_begin_def Let_def jhas_def split: if_splits option.splits)

lemma begin_tables:
  assumes "migrate_begin ops name target timeout src = (Ongoing m, src1)"
  shows "actors (mn_sys src1) = actors (mn_sys src)" and "sys_id (mn_sys src1) = sys_id (mn_sys src)"
    and "mn_state src1 = mn_state src" and "mn_registry src1 = mn_registry src"
    and "jget (mailboxes (mn_sys src)) (mg_actor m) = Some mb \<Longrightarrow> jget (mailboxes (mn_sys src1)) (mg_actor m) =
       Some (replaceWith mb (filter (\<lambda>m. \<not> waited_call m) (present (toArray mb))))"
  unfolding begin_ongoing(4) [OF assms]
  by (simp_all add: sc_sys_reject pauseMailbox_def split: option.split)

lemma settle_opt_gets:
  "jget (sc_settled (settle_opt x r S)) k =
     (case jget (sc_settled S) k of None \<Rightarrow> if x = Some k then Some r else None | Some r' \<Rightarrow> Some r')"
  by (auto simp: settle_opt_def settle_def jhas_def split: option.split)

lemma fold_settle_gets:
  "jget (sc_settled (fold (\<lambda>m. settle_opt (sm_reply m) r) ms S)) k =
     (case jget (sc_settled S) k of None \<Rightarrow> if \<exists>m\<in>set ms. sm_reply m = Some k then Some r else None | Some r' \<Rightarrow> Some r')"
  by (induction ms arbitrary: S) (auto simp: settle_opt_gets split: option.split)

lemma begin_settles:
  assumes "migrate_begin ops name target timeout src = (Ongoing m, src1)"
    and "jget (mailboxes (mn_sys src)) (mg_actor m) = Some mb" and "mb_rep mb xs"
    and "x \<in> set xs" and "sm_type x = CallMsg" and "sm_reply x = Some k"
  shows "jget (sc_settled (mn_sched src1)) k = Some (case jget (sc_settled (mn_sched src)) k of
     None \<Rightarrow> RejectedWith (MigrationInProgressError name target) | Some r \<Rightarrow> r)"
proof -
  have "\<exists>x\<in>set (filter waited_call (present (toArray mb))). sm_reply x = Some k"
    using assms(4-6) by (auto simp: mb_rep_toArray [OF assms(3)] waited_call_def)
  moreover have "jget (mailboxes (snd (pauseMailbox i s))) j = jget (mailboxes s) j" for i j s
    by (simp add: pauseMailbox_def)
  ultimately show ?thesis
    unfolding begin_ongoing(4) [OF assms(1)]
    by (simp add: rejectPendingCallsForMigration_def Let_def assms(2) fold_settle_gets split: option.split)
qed

lemma settled_simps [simp]:
  "sc_settled (mn_sched (resume_actor i n)) = sc_settled (mn_sched n)"
  "sc_settled (mn_sched (restore_actor m n)) = sc_settled (mn_sched n)"
  by (auto simp: restore_actor_def resume_actor_def resumeMailbox_def injectMessages_def on_sys_def Let_def split: option.split)

text \<open>The mailbox through drain, and back.\<close>

lemma drained_pending:
  assumes "jget (mailboxes (mn_sys n)) (mg_actor m) = Some mb" and "mb_rep mb ys" and "migrate_drained m n = (m', n')"
  shows "mg_pending m' = ys" and "\<exists>mb'. jget (mailboxes (mn_sys n')) (mg_actor m) = Some mb' \<and> mb_rep mb' []"
    and "m' = m\<lparr>mg_pending := ys\<rparr>" and "actors (mn_sys n') = actors (mn_sys n)"
    and "sc_settled (mn_sched n') = sc_settled (mn_sched n)" and "mn_state n' = mn_state n"
    and "mn_registry n' = mn_registry n" and "sys_id (mn_sys n') = sys_id (mn_sys n)"
  using assms mb_rep_clear [OF assms(2)]
  by (auto simp: migrate_drained_def drain_finish_def drain_def mb_rep_toArray)

lemma restored_mailbox:
  assumes "jget (mailboxes (mn_sys n)) (mg_actor m) = Some mb" and "mb_rep mb []"
  shows "\<exists>mb'. jget (mailboxes (mn_sys (restore_actor m n))) (mg_actor m) = Some mb' \<and> mb_rep mb' (mg_pending m)"
  using mb_rep_unshift [OF assms(2), of "mg_pending m"] by (simp add: assms(1))

text \<open>
  The source when a migration that got past its first checks gives up: the actors are the same,
  the actor is not paused, its mailbox holds \<open>ys\<close>.
\<close>

definition intact :: "string \<Rightarrow> string stashed_message list \<Rightarrow> 'r mig_node \<Rightarrow> 'r mig_node \<Rightarrow> bool" where
  "intact i ys n n' \<longleftrightarrow> actors (mn_sys n') = actors (mn_sys n) \<and> i \<notin> set (pausedMailboxes (mn_sys n')) \<and>
     sc_settled (mn_sched n') = sc_settled (mn_sched n) \<and> (\<exists>mb. jget (mailboxes (mn_sys n')) i = Some mb \<and> mb_rep mb ys)"

lemma transfer_intact:
  assumes "migrate_transfer e m src tgt = (MigrationError er, src', tgt')" and "alive (mn_sys src) (mg_actor m)"
    and "jget (mailboxes (mn_sys src)) (mg_actor m) = Some mb" and "mb_rep mb []"
  shows "intact (mg_actor m) (mg_pending m) src src'"
proof -
  have "src' = restore_actor m src"
    using assms(1)
    by (auto simp: migrate_transfer_def Let_def migrate_executed_def split: sum.splits prod.splits execute_response.splits)
  then show ?thesis
    using restore_unpauses [OF assms(2)] restored_mailbox [OF assms(3,4)] by (simp add: intact_def)
qed

lemma prepared_intact:
  assumes "jget (mailboxes (mn_sys n)) (mg_actor m) = Some mb" and "mb_rep mb ys" and "alive (mn_sys n) (mg_actor m)"
    and "migrate_prepared m reply n = (Finished res, n')"
  shows "intact (mg_actor m) ys n n'"
proof -
  have "n' = resume_actor (mg_actor m) n"
    using assms(4) by (auto simp: migrate_prepared_def split: sum.splits prepare_response.splits)
  then show ?thesis using assms resume_unpauses [OF assms(3)] by (auto simp: intact_def)
qed

text \<open>
  C18: A migration that does not succeed leaves the actor where it was, ready to run, with its messages
  in their order; every call that waited there has been rejected with \<open>MigrationInProgressError\<close>,
  unless its promise was settled before. (The messages that stay must not fill the ring of the
  mailbox exactly, see \<open>replaceWith_loses_message\<close>. Between the requests nothing else happens.)
\<close>

theorem failed_migration_restores:
  assumes "migrate_begin (me_source e) name target timeout src = (Ongoing m, src1)"
    and "jget (mailboxes (mn_sys src)) (mg_actor m) = Some mb" and "mb_rep mb xs" and "int (length xs) \<le> 2 ^ 31"
    and "length (filter (\<lambda>m. \<not> waited_call m) xs) < length (mb_buf (replaceWith mb (filter (\<lambda>m. \<not> waited_call m) xs)))"
    and "migrate e name target timeout src tgt = (Finished (MigrationError er), src', tgt')"
  shows "actors (mn_sys src') = actors (mn_sys src) \<and> mg_actor m \<notin> set (pausedMailboxes (mn_sys src')) \<and>
    (\<exists>mb'. jget (mailboxes (mn_sys src')) (mg_actor m) = Some mb' \<and> mb_rep mb' (filter (\<lambda>m. \<not> waited_call m) xs)) \<and>
    (\<forall>x\<in>set xs. \<forall>k. sm_type x = CallMsg \<longrightarrow> sm_reply x = Some k \<longrightarrow>
       jget (sc_settled (mn_sched src')) k = Some (case jget (sc_settled (mn_sched src)) k of
         None \<Rightarrow> RejectedWith (MigrationInProgressError name target) | Some r \<Rightarrow> r))"
proof -
  let ?i = "mg_actor m" and ?ys = "filter (\<lambda>m. \<not> waited_call m) xs"
  note B = begin_tables [OF assms(1)] begin_ongoing [OF assms(1)]
  have mb1: "jget (mailboxes (mn_sys src1)) ?i = Some (replaceWith mb ?ys)"
    using B(5) [OF assms(2)] by (simp add: mb_rep_toArray [OF assms(3)])
  have "int (length ?ys) \<le> 2 ^ 31" using assms(4) length_filter_le [of "\<lambda>m. \<not> waited_call m" xs] by linarith
  then have rep: "mb_rep (replaceWith mb ?ys) ?ys" using replaceWith_rep assms(5) by blast
  have al: "alive (mn_sys src1) ?i" using B by simp
  have "intact ?i ?ys src1 src'"
  proof -
    obtain reply tgt1 where d: "deliver (me_net1 e) (handleMigratePrepare (me_prepare e) name (ac_name (mg_class m))) tgt = (reply, tgt1)"
      by fastforce
    obtain p src2 where p: "migrate_prepared m reply src1 = (p, src2)" by fastforce
    show ?thesis
    proof (cases p)
      case (Ongoing m1)
      have m1: "mg_actor m1 = ?i" "src2 = upd_sys (drain_start ?i) src1"
        using p Ongoing by (auto simp: migrate_prepared_def split: sum.splits prepare_response.splits)
      obtain m2 src3 where dr: "migrate_drained m1 src2 = (m2, src3)" by fastforce
      have "jget (mailboxes (mn_sys src2)) (mg_actor m1) = Some (replaceWith mb ?ys)" using mb1 m1 by simp
      note D = drained_pending [OF this rep dr]
      obtain res src4 tgt2 where tr: "migrate_transfer e m2 src3 tgt1 = (res, src4, tgt2)" by (cases "migrate_transfer e m2 src3 tgt1")
      have "res = MigrationError er" "src4 = src'"
        using assms(6) by (simp_all add: migrate_def assms(1) d p Ongoing dr tr)
      then have "intact (mg_actor m2) (mg_pending m2) src3 src'"
        using transfer_intact [of e m2 src3 tgt1 er src' tgt2] tr D m1 al by fastforce
      then show ?thesis using D m1 by (simp add: intact_def)
    next
      case (Finished res)
      then have "src2 = src'" using assms(6) by (simp add: migrate_def assms(1) d p)
      then show ?thesis using prepared_intact [OF mb1 rep al] p Finished by blast
    next
      case (Thrown er)
      then show ?thesis using p by (simp add: migrate_prepared_def split: sum.splits prepare_response.splits)
    qed
  qed
  then show ?thesis
    using B(1) begin_settles [OF assms(1-3)] by (simp add: intact_def)
qed


section \<open>A migration that succeeds\<close>

lemma cleanup_gone: "\<not> alive (cleanupActorForMigration i s) i" "\<not> jhas (mailboxes (cleanupActorForMigration i s)) i"
  by (simp_all add: cleanupActorForMigration_def delete_actor_def Let_def)

lemma executed_done:
  assumes "migrate_executed ops m (Inr (ExecuteDone i)) n = (res, n')"
  shows "res = MigrationOk i (mg_target m)" and "\<not> alive (mn_sys n') (mg_actor m)" and "\<not> jhas (mailboxes (mn_sys n')) (mg_actor m)"
    and "mn_registry n' = ro_unregister ops (mg_name m) (mn_registry n)"
    and "sc_settled (mn_sched n') = sc_settled (mn_sched n)"
  using assms by (auto simp: migrate_executed_def Let_def cleanup_gone)

text \<open>The instance the target creates.\<close>

definition migrated_ref :: "string \<Rightarrow> execute_request \<Rightarrow> 'r mig_node \<Rightarrow> actor_ref" where
  "migrated_ref i q n = \<lparr>ref_node = sys_id (mn_sys n), ref_id = i, ref_name = Some (ex_name q), ref_original = True\<rparr>"

lemma create_migrated_tables:
  assumes "create_migrated uc i now c q n = (err, n1)"
  shows "getActor (mn_sys n1) i = Some (new_actor c (migrated_ref i q n) None now)"
    and "\<exists>mb. jget (mailboxes (mn_sys n1)) i = Some mb \<and> mb_rep mb []"
    and "mn_registry n1 = mn_registry n" and "sys_id (mn_sys n1) = sys_id (mn_sys n)"
  using assms
  by (auto simp: create_migrated_def Let_def add_actor_def migrated_ref_def split: sum.splits if_splits)

lemma injected_mailbox:
  assumes "jget (mailboxes (mn_sys n)) i = Some mb" and "mb_rep mb []"
  shows "\<exists>mb'. jget (mailboxes (mn_sys (upd_sched (\<lambda>S. snd (injectMessages i ms S)) n))) i = Some mb' \<and> mb_rep mb' ms"
    and "actors (mn_sys (upd_sched (\<lambda>S. snd (injectMessages i ms S)) n)) = actors (mn_sys n)"
  using mb_rep_unshift [OF assms(2), of ms] by (simp_all add: injectMessages_def assms(1))

lemma execute_done:
  assumes "handleMigrateExecute ops uc i now q n = (ExecuteDone j, n')"
    and "jget (mn_classes n) (ex_class q) = Some c"
  shows "j = i" and "getActor (mn_sys n') i = Some (new_actor c (migrated_ref i q n) None now)"
    and "\<exists>mb. jget (mailboxes (mn_sys n')) i = Some mb \<and> mb_rep mb (migrated_messages q)"
proof -
  obtain err n1 where c: "create_migrated uc i now c q n = (err, n1)" by fastforce
  note T = create_migrated_tables [OF c]
  obtain mb where mb: "jget (mailboxes (mn_sys n1)) i = Some mb" "mb_rep mb []" using T(2) by blast
  let ?n = "upd_sched (\<lambda>S. snd (injectMessages i (migrated_messages q) S)) n1"
  obtain ok n2 where k: "confirm_migrated ops i q ?n = (ok, n2)" by fastforce
  have n2: "mn_sched n2 = mn_sched ?n"
    using k by (auto simp: confirm_migrated_def Let_def split: option.splits prod.splits)
  have "err = None" "ok" "j = i" "n' = upd_sched (on_sys (scheduleProcessMailbox i)) n2"
    using assms(1) by (auto simp: handleMigrateExecute_def assms(2) c k split: option.splits bool.splits)
  then show "j = i" "getActor (mn_sys n') i = Some (new_actor c (migrated_ref i q n) None now)"
    "\<exists>mb. jget (mailboxes (mn_sys n')) i = Some mb \<and> mb_rep mb (migrated_messages q)"
    using injected_mailbox [OF mb, of "migrated_messages q"] T(1) by (simp_all add: n2)
qed

text \<open>The instance gets the state \<open>setState\<close> made of the one \<open>getState\<close> gave.\<close>

lemma execute_state:
  assumes "jget (mn_classes n) (ex_class q) = Some c" and "isMigratable c"
    and "uc_init uc c (ex_args q) = Inr st0" and "uc_setState uc c (ex_state q) = Inr st1"
    and "ro_confirmReservation ops = Some f" and "f (ex_reservation q) i (mn_registry n) = (True, r)"
  shows "\<exists>n'. handleMigrateExecute ops uc i now q n = (ExecuteDone i, n') \<and> jget (mn_state n') i = Some st1 \<and> mn_registry n' = r"
  using assms by (simp add: handleMigrateExecute_def create_migrated_def confirm_migrated_def Let_def)

text \<open>
  A migration whose requests are answered, whose reservation holds and whose user code works: the
  actor is gone from the source with its mailbox, its successor on the target has the migrated
  state and the queued messages in their order, the source unregisters the name, and the registry
  of the target is what confirming the reservation made of it.
\<close>

theorem migration_moves_actor:
  assumes "migrate_begin (me_source e) name target timeout src = (Ongoing m, src1)"
    and "jget (mailboxes (mn_sys src)) (mg_actor m) = Some mb" and "mb_rep mb xs" and "int (length xs) \<le> 2 ^ 31"
    and "length (filter (\<lambda>m. \<not> waited_call m) xs) < length (mb_buf (replaceWith mb (filter (\<lambda>m. \<not> waited_call m) xs)))"
    and "me_net1 e = Delivered" and "me_net2 e = Delivered"
    and "handleMigratePrepare (me_prepare e) name (ac_name (mg_class m)) tgt = (PrepareReady rid, tgt1)"
    and "jget (mn_classes tgt1) (ac_name (mg_class m)) = Some c" and "isMigratable c"
    and "uc_getState (me_code e) (mg_class m) (state_of (mg_actor m) src) = Some (Inr st)"
    and "uc_init (me_code e) c (mg_args m) = Inr st0" and "uc_setState (me_code e) c st = Inr st1"
    and "ro_confirmReservation (me_execute e) = Some f" and "f rid (me_instance e) (mn_registry tgt1) = (True, r)"
  shows "\<exists>src' tgt'. migrate e name target timeout src tgt = (Finished (MigrationOk (me_instance e) target), src', tgt') \<and>
    \<not> alive (mn_sys src') (mg_actor m) \<and> \<not> jhas (mailboxes (mn_sys src')) (mg_actor m) \<and>
    mn_registry src' = ro_unregister (me_source e) name (mn_registry src) \<and> mn_registry tgt' = r \<and>
    sc_settled (mn_sched src') = sc_settled (mn_sched src1) \<and>
    (\<exists>act. getActor (mn_sys tgt') (me_instance e) = Some act \<and> a_class act = c \<and> a_stash act = []) \<and>
    jget (mn_state tgt') (me_instance e) = Some st1 \<and>
    (\<exists>mb'. jget (mailboxes (mn_sys tgt')) (me_instance e) = Some mb' \<and>
       mb_rep mb' (map (\<lambda>x. x\<lparr>sm_reply := None\<rparr>) (filter (\<lambda>m. \<not> waited_call m) xs)))"
proof -
  let ?i = "mg_actor m" and ?ys = "filter (\<lambda>m. \<not> waited_call m) xs" and ?j = "me_instance e"
  note B = begin_tables [OF assms(1)] begin_ongoing [OF assms(1)]
  have mb1: "jget (mailboxes (mn_sys src1)) ?i = Some (replaceWith mb ?ys)"
    using B(5) [OF assms(2)] by (simp add: mb_rep_toArray [OF assms(3)])
  have "int (length ?ys) \<le> 2 ^ 31" using assms(4) length_filter_le [of "\<lambda>m. \<not> waited_call m" xs] by linarith
  then have rep: "mb_rep (replaceWith mb ?ys) ?ys" using replaceWith_rep assms(5) by blast
  define m1 where "m1 = m\<lparr>mg_reservation := rid\<rparr>"
  define src2 where "src2 = upd_sys (drain_start ?i) src1"
  have p: "migrate_prepared m (Inr (PrepareReady rid)) src1 = (Ongoing m1, src2)"
    by (simp add: migrate_prepared_def m1_def src2_def)
  obtain m2 src3 where dr: "migrate_drained m1 src2 = (m2, src3)" by fastforce
  have "jget (mailboxes (mn_sys src2)) (mg_actor m1) = Some (replaceWith mb ?ys)" using mb1 by (simp add: m1_def src2_def)
  note D = drained_pending [OF this rep dr]
  let ?q = "execute_of m2 st"
  have q: "ex_class ?q = ac_name (mg_class m)" "ex_args ?q = mg_args m" "ex_state ?q = st" "ex_reservation ?q = rid"
    "migrated_messages ?q = map (\<lambda>x. x\<lparr>sm_reply := None\<rparr>) ?ys"
    by (simp_all add: execute_of_def D(3) m1_def migrated_messages_def)
  obtain tgt' where ex: "handleMigrateExecute (me_execute e) (me_code e) ?j (me_now e) ?q tgt1 = (ExecuteDone ?j, tgt')"
    "jget (mn_state tgt') ?j = Some st1" "mn_registry tgt' = r"
    using execute_state [where q = ?q and n = tgt1 and uc = "me_code e" and i = ?j and now = "me_now e"] assms(9-15) q by metis
  have c: "jget (mn_classes tgt1) (ex_class ?q) = Some c" by (simp only: q assms(9))
  note E = execute_done [OF ex(1) c]
  have "state_of (mg_actor m2) src3 = state_of ?i src" by (simp add: state_of_def D m1_def src2_def B)
  then have g: "getStateWithTimeout (me_code e) m2 src3 = Inr st"
    using assms(11) by (simp add: getStateWithTimeout_def D m1_def)
  obtain res src' where me: "migrate_executed (me_source e) m2 (Inr (ExecuteDone ?j)) src3 = (res, src')" by fastforce
  note X = executed_done [OF me]
  have tr: "migrate_transfer e m2 src3 tgt1 = (res, src', tgt')"
    by (simp add: migrate_transfer_def g ex(1) me assms(7) Let_def)
  have "res = MigrationOk ?j target" using X(1) B(8) by (simp add: D(3) m1_def)
  then have "migrate e name target timeout src tgt = (Finished (MigrationOk ?j target), src', tgt')"
    by (simp add: migrate_def assms(1,6,8) p dr tr)
  moreover have "mn_registry src' = ro_unregister (me_source e) name (mn_registry src)"
    using X(4) B by (simp add: D m1_def src2_def)
  moreover have "sc_settled (mn_sched src') = sc_settled (mn_sched src1)" using X(5) by (simp add: D src2_def)
  ultimately show ?thesis
    using X(2,3) E(2,3) [unfolded q] ex(2,3) by (simp add: D(3) m1_def new_actor_def)
qed


text \<open>A name that was reserved for a node is registered there when the reservation is confirmed in time.\<close>

lemma prepared_reservation:
  assumes "handleMigratePrepare (local_ops fresh now) name cname n = (PrepareReady rid, n1)"
  shows "jget (lres (mn_registry n1)) rid =
       Some \<lparr>res_name = name, res_node = sys_id (mn_sys n), res_expiresAt = now + DEFAULT_RESERVATION_TTL_MS\<rparr>"
    and "mn_classes n1 = mn_classes n"
  using assms
  by (auto simp: handleMigratePrepare_def local_ops_def lr_reserveName_def reserve_in_def Let_def
      split: if_splits option.splits prod.splits)

lemma confirmed_name:
  assumes "jget (lres r) rid = Some \<lparr>res_name = name, res_node = node, res_expiresAt = t\<rparr>" and "now \<le> t"
  shows "\<exists>r'. lr_confirmReservation now rid i r = (True, r') \<and> lr_lookup r' name = Some \<lparr>loc_node = node, loc_actor = i\<rparr>"
  using assms by (simp add: lr_confirmReservation_def lr_register_def lr_lookup_def)

text \<open>
  C17: A migration between nodes with a local registry each, whose requests are answered and whose user
  code works: if the target confirms the reservation before it expires, then the actor is gone
  from the source with its mailbox; its successor on the target has the state \<open>setState\<close> made of
  what \<open>getState\<close> gave and the queued messages in their order, without the calls that waited, which
  have been rejected with \<open>MigrationInProgressError\<close>; and the name is no longer registered at the source but at the target, for
  the successor. The stash, the timers and the flags of the old actor do not move. (The messages
  that stay must not fill the ring of the mailbox exactly; nothing else happens between the requests.)
\<close>

theorem migration_moves_local:
  fixes e :: "local_registry mig_env"
  assumes "migrate_begin (me_source e) name target timeout src = (Ongoing m, src1)"
    and "jget (mailboxes (mn_sys src)) (mg_actor m) = Some mb" and "mb_rep mb xs" and "int (length xs) \<le> 2 ^ 31"
    and "length (filter (\<lambda>m. \<not> waited_call m) xs) < length (mb_buf (replaceWith mb (filter (\<lambda>m. \<not> waited_call m) xs)))"
    and "me_net1 e = Delivered" and "me_net2 e = Delivered"
    and "me_source e = local_ops a t0" and "me_prepare e = local_ops b t1" and "me_execute e = local_ops d t2"
    and "handleMigratePrepare (me_prepare e) name (ac_name (mg_class m)) tgt = (PrepareReady rid, tgt1)"
    and "t2 \<le> t1 + DEFAULT_RESERVATION_TTL_MS"
    and "jget (mn_classes tgt) (ac_name (mg_class m)) = Some c" and "isMigratable c"
    and "uc_getState (me_code e) (mg_class m) (state_of (mg_actor m) src) = Some (Inr st)"
    and "uc_init (me_code e) c (mg_args m) = Inr st0" and "uc_setState (me_code e) c st = Inr st1"
  shows "\<exists>src' tgt'. migrate e name target timeout src tgt = (Finished (MigrationOk (me_instance e) target), src', tgt') \<and>
    \<not> alive (mn_sys src') (mg_actor m) \<and> \<not> jhas (mailboxes (mn_sys src')) (mg_actor m) \<and>
    lr_lookup (mn_registry src') name = None \<and>
    lr_lookup (mn_registry tgt') name = Some \<lparr>loc_node = sys_id (mn_sys tgt), loc_actor = me_instance e\<rparr> \<and>
    (\<forall>x\<in>set xs. \<forall>k. sm_type x = CallMsg \<longrightarrow> sm_reply x = Some k \<longrightarrow>
       jget (sc_settled (mn_sched src')) k = Some (case jget (sc_settled (mn_sched src)) k of
         None \<Rightarrow> RejectedWith (MigrationInProgressError name target) | Some r \<Rightarrow> r)) \<and>
    (\<exists>act. getActor (mn_sys tgt') (me_instance e) = Some act \<and> a_class act = c \<and> a_stash act = []) \<and>
    jget (mn_state tgt') (me_instance e) = Some st1 \<and>
    (\<exists>mb'. jget (mailboxes (mn_sys tgt')) (me_instance e) = Some mb' \<and>
       mb_rep mb' (map (\<lambda>x. x\<lparr>sm_reply := None\<rparr>) (filter (\<lambda>m. \<not> waited_call m) xs)))"
proof -
  note P = prepared_reservation [OF assms(11) [unfolded assms(9)]]
  obtain r where r: "lr_confirmReservation t2 rid (me_instance e) (mn_registry tgt1) = (True, r)"
    "lr_lookup r name = Some \<lparr>loc_node = sys_id (mn_sys tgt), loc_actor = me_instance e\<rparr>"
    using confirmed_name [OF P(1) assms(12)] by blast
  have c: "jget (mn_classes tgt1) (ac_name (mg_class m)) = Some c" using assms(13) P(2) by simp
  have f: "ro_confirmReservation (me_execute e) = Some (lr_confirmReservation t2)" by (simp add: assms(10) local_ops_def)
  have u: "lr_lookup (ro_unregister (me_source e) name x) name = None" for x
    by (simp add: assms(8) local_ops_def lr_unregister_def lr_lookup_def)
  obtain src' tgt' where M: "migrate e name target timeout src tgt = (Finished (MigrationOk (me_instance e) target), src', tgt')"
    "\<not> alive (mn_sys src') (mg_actor m)" "\<not> jhas (mailboxes (mn_sys src')) (mg_actor m)"
    "mn_registry src' = ro_unregister (me_source e) name (mn_registry src)" "mn_registry tgt' = r"
    "sc_settled (mn_sched src') = sc_settled (mn_sched src1)"
    "\<exists>act. getActor (mn_sys tgt') (me_instance e) = Some act \<and> a_class act = c \<and> a_stash act = []"
    "jget (mn_state tgt') (me_instance e) = Some st1"
    "\<exists>mb'. jget (mailboxes (mn_sys tgt')) (me_instance e) = Some mb' \<and>
       mb_rep mb' (map (\<lambda>x. x\<lparr>sm_reply := None\<rparr>) (filter (\<lambda>m. \<not> waited_call m) xs))"
    using migration_moves_actor [OF assms(1-7) assms(11) c assms(14-17) f r(1)] by blast
  have "lr_lookup (mn_registry src') name = None"
    "lr_lookup (mn_registry tgt') name = Some \<lparr>loc_node = sys_id (mn_sys tgt), loc_actor = me_instance e\<rparr>"
    using u r(2) by (simp_all only: M(4,5))
  moreover have "\<forall>x\<in>set xs. \<forall>k. sm_type x = CallMsg \<longrightarrow> sm_reply x = Some k \<longrightarrow>
       jget (sc_settled (mn_sched src')) k = Some (case jget (sc_settled (mn_sched src)) k of
         None \<Rightarrow> RejectedWith (MigrationInProgressError name target) | Some r \<Rightarrow> r)"
    unfolding M(6) using begin_settles [OF assms(1-3)] by blast
  ultimately show ?thesis using M(1-3,7-9) by blast
qed


section \<open>An example\<close>

text \<open>An actor \<open>x\<close> with one cast and one call in its mailbox on node \<open>n\<close>, and an empty node \<open>m\<close>.\<close>

definition mig_class :: actor_class where
  "mig_class = \<lparr>ac_name = ''C'', ac_supervision = DEFAULT_CHILD_SUPERVISION, ac_getState = True, ac_setState = True\<rparr>"

definition mig_code :: user_code where
  "mig_code = \<lparr>uc_init = (\<lambda>c args. Inr ''0''), uc_getState = (\<lambda>c st. Some (Inr st)), uc_setState = (\<lambda>c st. Inr st)\<rparr>"

definition mig_messages :: "string stashed_message list" where
  "mig_messages = [\<lparr>sm_type = CastMsg, sm_message = ''hello'', sm_reply = None\<rparr>, \<lparr>sm_type = CallMsg, sm_message = ''ask'', sm_reply = Some 1\<rparr>]"

definition mig_box :: "string mailbox" where
  "mig_box = unshift (new_mailbox DEFAULT_MAILBOX_CONFIG) mig_messages"

definition mig_sys :: sys where
  "mig_sys = (new_system ''n'' None None)
     \<lparr>actors := [(''a'', new_actor mig_class \<lparr>ref_node = ''n'', ref_id = ''a'', ref_name = Some ''x'', ref_original = True\<rparr> None 0)],
      mailboxes := [(''a'', mig_box)],
      actorMetadata := [(''a'', \<lparr>md_class = mig_class, md_options =
        \<lparr>so_name = Some ''x'', so_args = None, so_strategy = None, so_role = None, so_mailbox = None\<rparr>, md_parent = None\<rparr>)]\<rparr>"

definition mig_source :: "'r \<Rightarrow> 'r mig_node" where
  "mig_source r = \<lparr>mn_sched = (new_node ''n'' None None)\<lparr>sc_sys := mig_sys\<rparr>, mn_registry = r, mn_classes = [], mn_state = [(''a'', ''7'')]\<rparr>"

definition mig_target :: "'r \<Rightarrow> 'r mig_node" where
  "mig_target r = \<lparr>mn_sched = new_node ''m'' None None, mn_registry = r, mn_classes = [(''C'', mig_class)], mn_state = []\<rparr>"

definition mig_registry :: local_registry where
  "mig_registry = \<lparr>lreg = [(''x'', \<lparr>loc_node = ''n'', loc_actor = ''a''\<rparr>)], lres = []\<rparr>"

definition mig_local :: "user_code \<Rightarrow> delivery \<Rightarrow> local_registry mig_env" where
  "mig_local uc d = \<lparr>me_source = local_ops ''r'' 0, me_prepare = local_ops ''r'' 0, me_execute = local_ops ''r'' 1, me_code = uc,
     me_instance = ''b'', me_now = 1, me_net1 = Delivered, me_net2 = d, me_net3 = Delivered\<rparr>"

definition mig_ongoing :: migration where
  "mig_ongoing = \<lparr>mg_name = ''x'', mg_target = ''m'', mg_timeout = 30000, mg_actor = ''a'', mg_class = mig_class, mg_args = [],
     mg_reservation = '''', mg_pending = []\<rparr>"

lemma mig_box_rep: "mb_rep mig_box mig_messages"
  unfolding mig_box_def using mb_rep_unshift [OF mb_rep_new] by simp

lemma mig_begin:
  "ro_lookup ops ''x'' r = Some \<lparr>loc_node = ''n'', loc_actor = ''a''\<rparr> \<Longrightarrow>
     \<exists>src1. migrate_begin ops ''x'' ''m'' 30000 (mig_source r) = (Ongoing mig_ongoing, src1)"
  by (simp add: migrate_begin_def Let_def mig_source_def new_node_def mig_sys_def new_system_def new_actor_def isMigratable_def
      mig_class_def mig_ongoing_def)

lemma mig_lookup: "ro_lookup (me_source (mig_local uc d)) ''x'' mig_registry = Some \<lparr>loc_node = ''n'', loc_actor = ''a''\<rparr>"
  by (simp add: mig_local_def local_ops_def lr_lookup_def mig_registry_def)

lemma mig_source_box: "jget (mailboxes (mn_sys (mig_source r))) (mg_actor mig_ongoing) = Some mig_box"
  by (simp add: mig_source_def new_node_def mig_sys_def mig_ongoing_def)

lemma replaceWith_room:
  assumes "length msgs < 16"
  shows "length msgs < length (mb_buf (replaceWith mb msgs))"
proof -
  define b :: "'a stashed_message option list" where
    "b = (let n = nat (max 16 (nextPow2 (int (length msgs))))
          in if length (mb_buf mb) < n then replicate n None else replicate (length (mb_buf mb)) None)"
  have b: "16 \<le> length b" by (auto simp: b_def Let_def)
  have e: "mb_buf (replaceWith mb msgs) = fold (\<lambda>i b. awrite b i (Some (msgs ! i))) [0..<length msgs] b"
    unfolding replaceWith_def b_def Let_def by simp
  show ?thesis unfolding e using assms b length_fold_awrite [of msgs b] by simp
qed

lemma mig_room: "length (filter (\<lambda>m. \<not> waited_call m) mig_messages)
    < length (mb_buf (replaceWith mig_box (filter (\<lambda>m. \<not> waited_call m) mig_messages)))"
  by (rule replaceWith_room) (simp add: mig_messages_def)


theorem migration_refused_when_registered_witness:
  "\<forall>i node. fst (migrate \<lparr>me_source = dist_ops ''r'' 0, me_prepare = dist_ops ''r'' 0, me_execute = dist_ops ''r'' 1,
      me_code = mig_code, me_instance = ''b'', me_now = 1, me_net1 = Delivered, me_net2 = Delivered, me_net3 = Delivered\<rparr>
     ''x'' ''m'' 30000
     (mig_source \<lparr>dr_gossip = rs_register 0 ''x'' ''n'' ''a'' (new_registry_sync ''n''), dr_reservations = []\<rparr>)
     (mig_target \<lparr>dr_gossip = rs_register 0 ''x'' ''n'' ''a'' (new_registry_sync ''m''), dr_reservations = []\<rparr>))
   \<noteq> Finished (MigrationOk i node)"
proof -
  let ?e = "\<lparr>me_source = dist_ops ''r'' 0, me_prepare = dist_ops ''r'' 0, me_execute = dist_ops ''r'' 1,
      me_code = mig_code, me_instance = ''b'', me_now = 1, me_net1 = Delivered, me_net2 = Delivered, me_net3 = Delivered\<rparr>"
  let ?t = "mig_target \<lparr>dr_gossip = rs_register 0 ''x'' ''n'' ''a'' (new_registry_sync ''m''), dr_reservations = []\<rparr>"
  have "rs_lookup (dr_gossip (mn_registry ?t)) ''x'' = Some \<lparr>loc_node = ''n'', loc_actor = ''a''\<rparr>"
    by (simp add: mig_target_def rs_register_def rs_lookup_def Let_def)
  then show ?thesis
    using migration_refused_when_registered [where e = ?e and tgt = ?t and fresh = "''r''" and now = 0 and name = "''x''" and target = "''m''"
        and timeout = 30000 and src = "mig_source \<lparr>dr_gossip = rs_register 0 ''x'' ''n'' ''a'' (new_registry_sync ''n''), dr_reservations = []\<rparr>"]
    by (simp add: mig_target_def new_node_def new_system_def split_beta)
qed

theorem failed_migration_restores_witness:
  "\<exists>mb. jget (mailboxes (mn_sys (fst (snd (migrate ((mig_local mig_code Delivered)\<lparr>me_net1 := RequestLost ''timeout''\<rparr>) ''x'' ''m'' 30000
       (mig_source mig_registry) (mig_target \<lparr>lreg = [], lres = []\<rparr>)))))) ''a'' = Some mb \<and>
     mb_rep mb [\<lparr>sm_type = CastMsg, sm_message = ''hello'', sm_reply = None\<rparr>]"
proof -
  let ?e = "(mig_local mig_code Delivered)\<lparr>me_net1 := RequestLost ''timeout''\<rparr>" and ?t = "mig_target \<lparr>lreg = [], lres = []\<rparr>" and ?s = "mig_source mig_registry"
  have l: "ro_lookup (me_source ?e) ''x'' mig_registry = Some \<lparr>loc_node = ''n'', loc_actor = ''a''\<rparr>" using mig_lookup by simp
  obtain src1 where b: "migrate_begin (me_source ?e) ''x'' ''m'' 30000 ?s = (Ongoing mig_ongoing, src1)"
    using mig_begin [OF l] by blast
  obtain p s t where m: "migrate ?e ''x'' ''m'' 30000 ?s ?t = (p, s, t)" by (cases "migrate ?e ''x'' ''m'' 30000 ?s ?t")
  have "fst (migrate ?e ''x'' ''m'' 30000 ?s ?t) = Finished (MigrationError ''Failed to prepare migration: timeout'')"
    using b by (simp add: migrate_def migrate_prepared_def)
  then have m': "migrate ?e ''x'' ''m'' 30000 ?s ?t = (Finished (MigrationError ''Failed to prepare migration: timeout''), s, t)"
    using m by simp
  have f: "filter (\<lambda>m. \<not> waited_call m) mig_messages = [\<lparr>sm_type = CastMsg, sm_message = ''hello'', sm_reply = None\<rparr>]"
    by (simp add: mig_messages_def waited_call_def)
  show ?thesis
    using failed_migration_restores [OF b mig_source_box mig_box_rep _ mig_room m']
    by (simp add: m mig_ongoing_def mig_messages_def waited_call_def)
qed


lemma mig_prepare:
  "\<exists>t. handleMigratePrepare (local_ops ''r'' 0) ''x'' (ac_name (mg_class mig_ongoing)) (mig_target \<lparr>lreg = [], lres = []\<rparr>)
       = (PrepareReady ''r'', t) \<and> mn_registry t = \<lparr>lreg = [], lres = [(''r'', \<lparr>res_name = ''x'', res_node = ''m'', res_expiresAt = 30000\<rparr>)]\<rparr>
     \<and> mn_classes t = [(''C'', mig_class)]"
  by (simp add: handleMigratePrepare_def mig_target_def mig_ongoing_def mig_class_def local_ops_def lr_reserveName_def
      reserve_in_def lr_lookup_def cleanupExpiredReservations_def new_node_def new_system_def DEFAULT_RESERVATION_TTL_MS_def jhas_def)

theorem migration_moves_actor_witness:
  "\<exists>src' tgt'. migrate (mig_local mig_code Delivered) ''x'' ''m'' 30000 (mig_source mig_registry) (mig_target \<lparr>lreg = [], lres = []\<rparr>)
      = (Finished (MigrationOk ''b'' ''m''), src', tgt') \<and> \<not> alive (mn_sys src') ''a'' \<and> jget (mn_state tgt') ''b'' = Some ''7''"
proof -
  obtain src1 where b: "migrate_begin (me_source (mig_local mig_code Delivered)) ''x'' ''m'' 30000 (mig_source mig_registry) = (Ongoing mig_ongoing, src1)"
    using mig_begin [OF mig_lookup] by blast
  obtain t where t: "handleMigratePrepare (me_prepare (mig_local mig_code Delivered)) ''x'' (ac_name (mg_class mig_ongoing)) (mig_target \<lparr>lreg = [], lres = []\<rparr>)
       = (PrepareReady ''r'', t)" and r: "mn_registry t = \<lparr>lreg = [], lres = [(''r'', \<lparr>res_name = ''x'', res_node = ''m'', res_expiresAt = 30000\<rparr>)]\<rparr>"
    and c: "mn_classes t = [(''C'', mig_class)]"
    using mig_prepare by (auto simp: mig_local_def)
  have len: "int (length mig_messages) \<le> 2 ^ 31" by (simp add: mig_messages_def)
  show ?thesis
    using migration_moves_actor [OF b mig_source_box mig_box_rep len mig_room _ _ t, where c = mig_class and st = "''7''" and ?st0.0 = "''0''" and ?st1.0 = "''7''"
        and f = "lr_confirmReservation 1"
        and r = "\<lparr>lreg = [(''x'', \<lparr>loc_node = ''m'', loc_actor = ''b''\<rparr>)], lres = []\<rparr>"]
    by (simp add: mig_local_def c r, simp add: mig_ongoing_def mig_class_def isMigratable_def mig_code_def mig_source_def state_of_def
        local_ops_def lr_confirmReservation_def lr_register_def) blast
qed

theorem migration_moves_local_witness:
  "\<exists>src' tgt'. migrate (mig_local mig_code Delivered) ''x'' ''m'' 30000 (mig_source mig_registry) (mig_target \<lparr>lreg = [], lres = []\<rparr>)
      = (Finished (MigrationOk ''b'' ''m''), src', tgt') \<and> lr_lookup (mn_registry src') ''x'' = None \<and>
     lr_lookup (mn_registry tgt') ''x'' = Some \<lparr>loc_node = ''m'', loc_actor = ''b''\<rparr>"
proof -
  let ?e = "mig_local mig_code Delivered" and ?t = "mig_target \<lparr>lreg = [], lres = []\<rparr>"
  obtain src1 where b: "migrate_begin (me_source ?e) ''x'' ''m'' 30000 (mig_source mig_registry) = (Ongoing mig_ongoing, src1)"
    using mig_begin [OF mig_lookup] by blast
  obtain t where t: "handleMigratePrepare (me_prepare ?e) ''x'' (ac_name (mg_class mig_ongoing)) ?t = (PrepareReady ''r'', t)"
    using mig_prepare by (auto simp: mig_local_def)
  have len: "int (length mig_messages) \<le> 2 ^ 31" by (simp add: mig_messages_def)
  show ?thesis
    using migration_moves_local [OF b mig_source_box mig_box_rep len mig_room _ _ _ _ _ t, where c = mig_class and st = "''7''"
        and ?st0.0 = "''0''" and ?st1.0 = "''7''" and ?t1.0 = 0 and ?t2.0 = 1 and d = "''r''" and b = "''r''"]
    by (simp add: mig_local_def mig_target_def new_node_def new_system_def DEFAULT_RESERVATION_TTL_MS_def,
        simp add: mig_ongoing_def mig_class_def isMigratable_def mig_code_def mig_source_def state_of_def) blast
qed

section \<open>What goes wrong\<close>

text \<open>
  While the migration awaits \<open>getState\<close> or the answer to \<open>migrate:execute\<close> the mailbox is paused
  but still accepts messages. When the migration then succeeds they go with the mailbox: a call
  that arrived in that time is in no mailbox, and its promise is not settled by the migration.
\<close>

theorem late_messages_lost:
  assumes "jget (mailboxes (mn_sys n)) (mg_actor m) = Some mb" and "mb_rep mb ys" and "\<not> isFull mb"
    and "mg_actor m \<in> set (pausedMailboxes (mn_sys n))" and "jget (sc_settled (mn_sched n)) k = None"
    and "n1 = upd_sched (enqueue_call k (mg_actor m) msg) n"
    and "migrate_executed ops m (Inr (ExecuteDone i)) n1 = (res, n2)"
  shows "(\<exists>mb'. jget (mailboxes (mn_sys n1)) (mg_actor m) = Some mb' \<and>
            mb_rep mb' (ys @ [\<lparr>sm_type = CallMsg, sm_message = msg, sm_reply = Some k\<rparr>]))
       \<and> res = MigrationOk i (mg_target m)
       \<and> \<not> jhas (mailboxes (mn_sys n2)) (mg_actor m) \<and> jget (sc_settled (mn_sched n2)) k = None"
proof -
  let ?c = "\<lparr>sm_type = CallMsg, sm_message = msg, sm_reply = Some k\<rparr>"
  obtain mb' where e: "enqueue mb ?c = (mb', Inr True, [])" by (cases "enqueue mb ?c") (auto simp: enqueue_def Let_def assms(3))
  have "mb_rep mb' (ys @ [?c])" using enqueue_room [OF assms(2,3), of ?c] e by simp
  moreover have "jget (mailboxes (mn_sys n1)) (mg_actor m) = Some mb'" "sc_settled (mn_sched n1) = sc_settled (mn_sched n)"
    using assms(1) e by (simp_all add: assms(6) enqueue_call_def Let_def reject_all_def on_sys_def)
  ultimately show ?thesis using executed_done [OF assms(7)] assms(5) by simp
qed

text \<open>
  When \<open>init\<close> or \<open>setState\<close> fails on the target the answer is an error and the reservation is
  released, but the half-made instance stays in the tables with its empty mailbox, while the actor
  goes on at the source.
\<close>

theorem failed_execute_leaks_actor:
  assumes "jget (mn_classes n) (ex_class q) = Some c" and "uc_init uc c (ex_args q) = Inl err"
    and "handleMigrateExecute ops uc i now q n = (res, n')"
  shows "res = ExecuteFailed err \<and> alive (mn_sys n') i \<and> jhas (mailboxes (mn_sys n')) i"
proof -
  obtain n1 where c: "create_migrated uc i now c q n = (Some err, n1)"
    using assms(2) by (simp add: create_migrated_def Let_def)
  have "n' = release_reservation ops (ex_reservation q) n1" "res = ExecuteFailed err"
    using assms(1,3) c by (simp_all add: handleMigrateExecute_def)
  moreover have "mn_sched (release_reservation ops (ex_reservation q) n1) = mn_sched n1"
    by (simp add: release_reservation_def split: option.split)
  ultimately show ?thesis using create_migrated_tables [OF c] by (auto simp: jhas_def)
qed

text \<open>
  When the target has executed the migration and only its answer is lost, the source gives up and
  goes on with its actor, and so does the target: two instances run, and the rollback does not
  touch the one at the target.
\<close>

theorem lost_answer_duplicates:
  assumes "getStateWithTimeout (me_code e) m src = Inr st" and "me_net2 e = ReplyLost err"
    and "handleMigrateExecute (me_execute e) (me_code e) (me_instance e) (me_now e) (execute_of m st) tgt = (ExecuteDone i, tgt1)"
    and "alive (mn_sys src) (mg_actor m)"
    and "migrate_transfer e m src tgt = (res, src', tgt')"
  shows "res = MigrationError (''Failed to execute migration: '' @ err) \<and> alive (mn_sys src') (mg_actor m) \<and>
    alive (mn_sys tgt') (me_instance e)"
proof -
  have c: "jhas (mn_classes tgt) (ex_class (execute_of m st))"
    using assms(3) by (auto simp: handleMigrateExecute_def jhas_def split: option.splits)
  then obtain c where c: "jget (mn_classes tgt) (ex_class (execute_of m st)) = Some c" by (auto simp: jhas_def)
  have "alive (mn_sys tgt1) (me_instance e)" using execute_done(2) [OF assms(3) c] by (simp add: jhas_def)
  moreover have "mn_sched (snd (deliver d (handleMigrateRollback ops r) t)) = mn_sched t" for d ops r and t :: "'a mig_node"
    by (cases d) (simp_all add: handleMigrateRollback_def release_reservation_def split: option.split)
  moreover have "res = MigrationError (''Failed to execute migration: '' @ err)" "src' = restore_actor m src"
    "tgt' = snd (deliver (me_net3 e) (handleMigrateRollback (me_execute e) (mg_reservation m)) tgt1)"
    using assms(5) by (simp_all add: migrate_transfer_def assms(1-3) migrate_executed_def Let_def)
  ultimately show ?thesis using assms(4) by simp
qed


definition mig_paused :: "string \<Rightarrow> local_registry mig_node" where
  "mig_paused i = upd_sys (\<lambda>s. snd (pauseMailbox i s)) (mig_source mig_registry)"

theorem late_messages_lost_witness:
  "jget (sc_settled (mn_sched (snd (migrate_executed (local_ops ''r'' 2) mig_ongoing (Inr (ExecuteDone ''b''))
      (upd_sched (enqueue_call 9 ''a'' ''late'') (mig_paused ''a'')))))) 9 = None"
proof -
  have "jget (mailboxes (mn_sys (mig_paused ''a''))) (mg_actor mig_ongoing) = Some mig_box"
    using mig_source_box [of mig_registry] by (simp add: mig_paused_def pauseMailbox_def)
  moreover have "\<not> isFull mig_box" by (simp add: isFull_def mig_box_def new_mailbox_def DEFAULT_MAILBOX_CONFIG_def)
  moreover have "mg_actor mig_ongoing \<in> set (pausedMailboxes (mn_sys (mig_paused ''a'')))"
    by (simp add: mig_paused_def mig_ongoing_def pauseMailbox_def mig_source_def mig_sys_def jhas_def sadd_def)
  moreover have "jget (sc_settled (mn_sched (mig_paused ''a''))) 9 = None"
    by (simp add: mig_paused_def mig_source_def new_node_def)
  ultimately show ?thesis
    using late_messages_lost [OF _ mig_box_rep _ _ _ refl surjective_pairing, of "mig_paused ''a''" mig_ongoing]
    by (simp add: mig_ongoing_def)
qed

definition failing_code :: user_code where
  "failing_code = mig_code\<lparr>uc_init := (\<lambda>c args. Inl ''boom'')\<rparr>"

theorem failed_execute_leaks_actor_witness:
  "alive (mn_sys (snd (handleMigrateExecute (local_ops ''r'' 1) failing_code ''b'' 1 (execute_of mig_ongoing ''7'')
      (mig_target \<lparr>lreg = [], lres = []\<rparr>)))) ''b''"
  using failed_execute_leaks_actor [OF _ _ surjective_pairing, of "mig_target \<lparr>lreg = [], lres = []\<rparr>" "execute_of mig_ongoing ''7''"
      mig_class failing_code "''boom''" "local_ops ''r'' 1" "''b''" 1]
  by (simp add: mig_target_def execute_of_def mig_ongoing_def mig_class_def failing_code_def)

theorem lost_answer_duplicates_witness:
  "case migrate_transfer (mig_local mig_code (ReplyLost ''timeout'')) (mig_ongoing\<lparr>mg_reservation := ''r''\<rparr>) (mig_source mig_registry)
       (snd (handleMigratePrepare (local_ops ''r'' 0) ''x'' ''C'' (mig_target \<lparr>lreg = [], lres = []\<rparr>))) of
     (res, src, tgt) \<Rightarrow> alive (mn_sys src) ''a'' \<and> alive (mn_sys tgt) ''b''"
proof -
  let ?e = "mig_local mig_code (ReplyLost ''timeout'')" and ?m = "mig_ongoing\<lparr>mg_reservation := ''r''\<rparr>"
  define t where "t = snd (handleMigratePrepare (local_ops ''r'' 0) ''x'' ''C'' (mig_target \<lparr>lreg = [], lres = []\<rparr>))"
  have t: "mn_registry t = \<lparr>lreg = [], lres = [(''r'', \<lparr>res_name = ''x'', res_node = ''m'', res_expiresAt = 30000\<rparr>)]\<rparr>"
    "mn_classes t = [(''C'', mig_class)]"
    using mig_prepare by (auto simp: t_def mig_ongoing_def mig_class_def)
  have "\<exists>n'. handleMigrateExecute (me_execute ?e) (me_code ?e) (me_instance ?e) (me_now ?e) (execute_of ?m ''7'') t = (ExecuteDone (me_instance ?e), n') \<and>
     jget (mn_state n') (me_instance ?e) = Some ''7'' \<and>
     mn_registry n' = \<lparr>lreg = [(''x'', \<lparr>loc_node = ''m'', loc_actor = ''b''\<rparr>)], lres = []\<rparr>"
    by (rule execute_state [where c = mig_class and f = "lr_confirmReservation 1"])
      (simp_all add: t mig_local_def mig_code_def mig_class_def mig_ongoing_def execute_of_def isMigratable_def local_ops_def
        lr_confirmReservation_def lr_register_def)
  then obtain n' where ex: "handleMigrateExecute (me_execute ?e) (me_code ?e) (me_instance ?e) (me_now ?e) (execute_of ?m ''7'') t
      = (ExecuteDone (me_instance ?e), n')" by blast
  obtain res s x where tr: "migrate_transfer ?e ?m (mig_source mig_registry) t = (res, s, x)" by (cases "migrate_transfer ?e ?m (mig_source mig_registry) t")
  have g: "getStateWithTimeout (me_code ?e) ?m (mig_source mig_registry) = Inr ''7''"
    by (simp add: getStateWithTimeout_def mig_local_def mig_code_def state_of_def mig_source_def mig_ongoing_def)
  have al: "alive (mn_sys (mig_source mig_registry)) (mg_actor ?m)"
    by (simp add: mig_source_def mig_sys_def mig_ongoing_def jhas_def)
  show ?thesis
    using lost_answer_duplicates [OF g _ ex al tr, of "''timeout''"]
    by (simp add: tr t_def [symmetric]) (simp add: mig_local_def mig_ongoing_def)
qed

text \<open>
  After a successful migration the source unregisters the name, whoever holds it by then. With the
  distributed registry the unregistration it publishes is never older than the target's
  registration (no node knows more of a node's counter than that node), so the target drops the
  name of the actor it has just taken over.
\<close>

theorem migrated_name_unregistered:
  assumes "migrate_executed (dist_ops fresh now) m (Inr (ExecuteDone i)) n = (res, n2)"
    and "S = dr_gossip (mn_registry n)" and "jget (rs_regs S) (mg_name m) = Some x" and "ar_name x = mg_name m"
    and "jget (rs_regs T) (mg_name m) = Some rt"
    and "vc_get (ar_clock rt) (rs_node S) \<le> vc_get (rs_clock S) (rs_node S)"
  shows "\<exists>u. rs_published (dr_gossip (mn_registry n2)) = rs_published S @ [u] \<and>
    rs_lookup (handleRegistryUpdate u T) (mg_name m) = None"
proof -
  let ?c = "vc_increment (rs_node S) (rs_clock S)"
  have "dr_gossip (mn_registry n2) = rs_unregister (mg_name m) S"
    using executed_done(4) [OF assms(1)] by (simp add: dist_ops_def assms(2))
  then have p: "rs_published (dr_gossip (mn_registry n2)) = rs_published S @ [UnregisterUpdate (x\<lparr>ar_clock := ?c\<rparr>)]"
    by (simp add: rs_unregister_def assms(3) Let_def)
  have "vc_get (ar_clock rt) (rs_node S) < vc_get ?c (rs_node S)" using assms(6) by simp
  then have "\<not> vc_le ?c (ar_clock rt)" unfolding vc_le_def not_all not_le by blast
  then have "vc_compare ?c (ar_clock rt) \<noteq> Before" by (simp add: vc_compare_le)
  then have "vc_compare ?c (ar_clock rt) = After \<or> vc_compare ?c (ar_clock rt) = Concurrent"
    by (cases "vc_compare ?c (ar_clock rt)") simp_all
  then have "rs_lookup (handleRegistryUpdate (UnregisterUpdate (x\<lparr>ar_clock := ?c\<rparr>)) T) (mg_name m) = None"
    using assms(4,5) by (simp add: rs_lookup_def)
  then show ?thesis using p by blast
qed

theorem migrated_name_unregistered_witness:
  "let src = mig_source \<lparr>dr_gossip = rs_register 0 ''x'' ''n'' ''a'' (new_registry_sync ''n''), dr_reservations = []\<rparr>;
       tgt = rs_register 1 ''x'' ''m'' ''b'' (new_registry_sync ''m'')
   in \<exists>u. rs_lookup (handleRegistryUpdate u tgt) ''x'' = None \<and>
     u \<in> set (rs_published (dr_gossip (mn_registry (snd (migrate_executed (dist_ops ''r'' 2) mig_ongoing (Inr (ExecuteDone ''b'')) src)))))"
proof -
  let ?s = "mig_source \<lparr>dr_gossip = rs_register 0 ''x'' ''n'' ''a'' (new_registry_sync ''n''), dr_reservations = []\<rparr>"
  let ?t = "rs_register 1 ''x'' ''m'' ''b'' (new_registry_sync ''m'')"
  obtain res n2 where e: "migrate_executed (dist_ops ''r'' 2) mig_ongoing (Inr (ExecuteDone ''b'')) ?s = (res, n2)" by fastforce
  obtain x where x: "jget (rs_regs (dr_gossip (mn_registry ?s))) (mg_name mig_ongoing) = Some x" "ar_name x = mg_name mig_ongoing"
    by (simp add: mig_source_def rs_register_def Let_def mig_ongoing_def)
  obtain rt where rt: "jget (rs_regs ?t) (mg_name mig_ongoing) = Some rt" "vc_get (ar_clock rt) ''n'' = 0"
    by (simp add: rs_register_def Let_def mig_ongoing_def new_registry_sync_def vc_get_def vc_increment_def)
  have k: "vc_get (ar_clock rt) (rs_node (dr_gossip (mn_registry ?s))) \<le> vc_get (rs_clock (dr_gossip (mn_registry ?s))) (rs_node (dr_gossip (mn_registry ?s)))"
    using rt(2) by (simp add: mig_source_def rs_register_def Let_def new_registry_sync_def)
  from migrated_name_unregistered [OF e refl x rt(1) k] show ?thesis
    unfolding Let_def e by (auto simp: mig_ongoing_def)
qed

end
