(* ===== verification/System_Ops.thy ===== *)
theory System_Ops
  imports Event_Loop Health Heartbeat Migration
begin

text \<open>
  The operations on a whole \<open>ActorSystem\<close>: its list of actors, the registry of classes, drain mode,
  migrating everything, and the shutdown. The shutdown stops all actors at once: one task per
  actor unregisters its name, terminates it and deletes it, and the tasks interleave wherever
  they await. \<open>terminate\<close> may return, throw or hang: the race with the timer makes all three the
  same.
\<close>

section \<open>Looking at a node\<close>

definition system_isRunning :: "sys \<Rightarrow> bool" where
  "system_isRunning s \<longleftrightarrow> isRunning s \<and> \<not> isShuttingDown s"

record actor_info =
  ai_id :: string
  ai_name :: "string option"
  ai_class :: string
  ai_migratable :: bool
  ai_children :: nat

definition getActors :: "sys \<Rightarrow> actor_info list" where
  "getActors s = map (\<lambda>(i, act).
     \<lparr>ai_id = i,
      ai_name = (case jget (actorMetadata s) i of None \<Rightarrow> None | Some m \<Rightarrow> so_name (md_options m)),
      ai_class = (case jget (actorMetadata s) i of None \<Rightarrow> ''unknown'' | Some m \<Rightarrow> ac_name (md_class m)),
      ai_migratable = isMigratable (a_class act),
      ai_children = length (a_children act)\<rparr>) (actors s)"

definition getLocalActorIds :: "sys \<Rightarrow> string list" where
  "getLocalActorIds s = jkeys (actors s)"

definition getActorMetadata :: "string \<Rightarrow> sys \<Rightarrow> actor_metadata option" where
  "getActorMetadata i s = jget (actorMetadata s) i"

definition getActorByName :: "(string \<Rightarrow> actor_location option) \<Rightarrow> string \<Rightarrow> actor_ref option" where
  "getActorByName lookup name =
     map_option (\<lambda>l. \<lparr>ref_node = loc_node l, ref_id = loc_actor l, ref_name = Some name, ref_original = False\<rparr>) (lookup name)"

text \<open>\<open>name || actorClass.name\<close>: an empty name counts as none.\<close>

definition registerActorClass :: "actor_class \<Rightarrow> string option \<Rightarrow> (string, actor_class) jsmap \<Rightarrow> (string, actor_class) jsmap" where
  "registerActorClass c name m = jput m (case truthy_name name of None \<Rightarrow> ac_name c | Some n \<Rightarrow> n) c"

definition registerActorClasses :: "actor_class list \<Rightarrow> (string, actor_class) jsmap \<Rightarrow> (string, actor_class) jsmap" where
  "registerActorClasses cs m = fold (\<lambda>c. registerActorClass c None) cs m"

definition getActorClass :: "string \<Rightarrow> (string, actor_class) jsmap \<Rightarrow> actor_class option" where
  "getActorClass name m = jget m name"

section \<open>Waiting for the mailboxes\<close>

text \<open>
  \<open>_drainMailboxes\<close> looks at the mailboxes every 10 ms: \<open>obs k\<close> is the time and the state at the
  \<open>k\<close>-th look. The result is the number of looks and whether all mailboxes were empty.
\<close>

definition all_empty :: "sys \<Rightarrow> bool" where
  "all_empty s \<longleftrightarrow> (\<forall>mb \<in> set (jvals (mailboxes s)). mb_size mb = 0)"

partial_function (option) drain_loop :: "int \<Rightarrow> int \<Rightarrow> (nat \<Rightarrow> int \<times> sys) \<Rightarrow> nat \<Rightarrow> (nat \<times> bool) option" where
  "drain_loop start timeout obs k =
     (if fst (obs k) - start < timeout
      then (if all_empty (snd (obs k)) then Some (k, True) else drain_loop start timeout obs (Suc k))
      else Some (k, False))"

definition drainMailboxes :: "int \<Rightarrow> int \<Rightarrow> (nat \<Rightarrow> int \<times> sys) \<Rightarrow> (nat \<times> bool) option" where
  "drainMailboxes start timeout obs = drain_loop start timeout obs 0"

section \<open>Draining a node\<close>

record drain_result =
  dr_migrated :: nat
  dr_drained :: nat
  dr_failed :: "string list"

definition undrain :: "sys \<Rightarrow> sys" where
  "undrain s = s\<lparr>isDraining := False\<rparr>"

text \<open>The actors that can be migrated: named, migratable and without children.\<close>

definition eligible :: "sys \<Rightarrow> string list" where
  "eligible s = concat (map (\<lambda>a. case truthy_name (ai_name a) of
       Some n \<Rightarrow> if ai_migratable a \<and> ai_children a = 0 then [n] else [] | None \<Rightarrow> []) (getActors s))"

text \<open>
  One migration after the other, each in its own environment (\<open>env name\<close>); an exception of one
  ends the whole.
\<close>

fun migrate_names ::
  "(string \<Rightarrow> 'r mig_env) \<Rightarrow> string \<Rightarrow> int \<Rightarrow> string list \<Rightarrow> drain_result \<Rightarrow> 'r mig_node \<Rightarrow> 'r mig_node \<Rightarrow>
   (js_error + drain_result) \<times> 'r mig_node \<times> 'r mig_node" where
  "migrate_names env target timeout [] res src tgt = (Inr res, src, tgt)"
| "migrate_names env target timeout (n # ns) res src tgt =
     (case migrate (env n) n target timeout src tgt of
        (Thrown e, src1, tgt1) \<Rightarrow> (Inl e, src1, tgt1)
      | (Finished (MigrationOk a b), src1, tgt1) \<Rightarrow>
          migrate_names env target timeout ns (res\<lparr>dr_migrated := Suc (dr_migrated res)\<rparr>) src1 tgt1
      | (_, src1, tgt1) \<Rightarrow> migrate_names env target timeout ns (res\<lparr>dr_failed := dr_failed res @ [n]\<rparr>) src1 tgt1)"

definition migrateAll ::
  "(string \<Rightarrow> 'r mig_env) \<Rightarrow> string \<Rightarrow> int \<Rightarrow> 'r mig_node \<Rightarrow> 'r mig_node \<Rightarrow>
   (js_error + drain_result) \<times> 'r mig_node \<times> 'r mig_node" where
  "migrateAll env target timeout src tgt =
     migrate_names env target timeout (eligible (mn_sys src)) \<lparr>dr_migrated = 0, dr_drained = 0, dr_failed = []\<rparr> src tgt"

text \<open>\<open>drain\<close> up to the wait for the mailboxes, and after it.\<close>

definition drain_begin ::
  "(string \<Rightarrow> 'r mig_env) \<Rightarrow> string option \<Rightarrow> int \<Rightarrow> 'r mig_node \<Rightarrow> 'r mig_node \<Rightarrow>
   (js_error + drain_result option) \<times> 'r mig_node \<times> 'r mig_node" where
  "drain_begin env target timeout src tgt =
     (if isDraining (mn_sys src) then (Inr None, src, tgt)
      else (let src1 = upd_sys (\<lambda>s. s\<lparr>isDraining := True\<rparr>) src
            in case truthy_name target of
                 None \<Rightarrow> (Inr (Some \<lparr>dr_migrated = 0, dr_drained = 0, dr_failed = []\<rparr>), src1, tgt)
               | Some t \<Rightarrow>
                   (case migrateAll env t timeout src1 tgt of
                      (Inl e, src2, tgt2) \<Rightarrow> (Inl e, src2, tgt2)
                    | (Inr r, src2, tgt2) \<Rightarrow> (Inr (Some r), src2, tgt2))))"

definition remaining_timeout :: "string option \<Rightarrow> int \<Rightarrow> int" where
  "remaining_timeout target timeout = max (timeout - (if truthy_name target = None then 0 else 5000)) 1000"

definition drain_end :: "drain_result option \<Rightarrow> 'r mig_node \<Rightarrow> drain_result" where
  "drain_end r n = (case r of None \<Rightarrow> \<lparr>dr_migrated = 0, dr_drained = 0, dr_failed = []\<rparr>
     | Some r \<Rightarrow> r\<lparr>dr_drained := length (actors (mn_sys n))\<rparr>)"

section \<open>Shutting down\<close>

definition shutdown_begin :: "sys \<times> heartbeat \<Rightarrow> (sys \<times> heartbeat) option" where
  "shutdown_begin n =
     (case n of (s, hb) \<Rightarrow> if isShuttingDown s then None else Some (s\<lparr>isShuttingDown := True\<rparr>, hb_stop hb))"

text \<open>Where the task of an actor is.\<close>

datatype task = Unregistering | Terminating | Cleaned

definition task_terminate :: "string \<Rightarrow> sys \<Rightarrow> task \<times> sys" where
  "task_terminate i s = (Terminating, emit (CallTerminate i) s)"

definition task_start :: "string \<Rightarrow> sys \<Rightarrow> task \<times> sys" where
  "task_start i s =
     (case getActor s i of
        None \<Rightarrow> (Cleaned, s)
      | Some _ \<Rightarrow>
          (case (case jget (actorMetadata s) i of None \<Rightarrow> None | Some m \<Rightarrow> truthy_name (so_name (md_options m))) of
             Some n \<Rightarrow> (Unregistering, emit (RegistryUnregister n) s)
           | None \<Rightarrow> task_terminate i s))"

definition task_clean :: "string \<Rightarrow> sys \<Rightarrow> task \<times> sys" where
  "task_clean i s = (Cleaned, delete_actor i (emit (GroupsLeaveAll i) s))"

text \<open>What the task does when the promise it awaits is settled.\<close>

fun task_resume :: "string \<Rightarrow> task \<Rightarrow> sys \<Rightarrow> task \<times> sys" where
  "task_resume i Unregistering s = task_terminate i s"
| "task_resume i Terminating s = task_clean i s"
| "task_resume i Cleaned s = (Cleaned, s)"

text \<open>\<open>actorIds.map(async ...)\<close> runs every task up to its first \<open>await\<close>.\<close>

fun start_tasks :: "string list \<Rightarrow> sys \<Rightarrow> (string \<times> task) list \<times> sys" where
  "start_tasks [] s = ([], s)"
| "start_tasks (i # is) s =
     (case task_start i s of (t, s1) \<Rightarrow> (case start_tasks is s1 of (ts, s2) \<Rightarrow> ((i, t) # ts, s2)))"

definition shutdown_tasks :: "sys \<Rightarrow> (string \<times> task) list \<times> sys" where
  "shutdown_tasks s = start_tasks (jkeys (actors s)) s"

text \<open>Any task may go on next.\<close>

inductive shutdown_step :: "(string \<times> task) list \<times> sys \<Rightarrow> (string \<times> task) list \<times> sys \<Rightarrow> bool" where
  resume: "t \<noteq> Cleaned \<Longrightarrow> task_resume i t s = (t', s') \<Longrightarrow>
    shutdown_step (xs @ (i, t) # ys, s) (xs @ (i, t') # ys, s')"

definition shutdown_end :: "sys \<Rightarrow> sys" where
  "shutdown_end s = s\<lparr>isRunning := False\<rparr>"

inductive_cases shutdown_stepE: "shutdown_step c c'"

section \<open>Waiting ends\<close>

lemma drain_loop_returns:
  assumes clock: "\<forall>j. fst (obs j) + 10 \<le> fst (obs (Suc j))"
  shows "\<exists>n b. drain_loop start timeout obs k = Some (n, b) \<and> k \<le> n \<and>
     (n = k \<or> fst (obs (n - 1)) - start < timeout) \<and> (b \<longrightarrow> all_empty (snd (obs n))) \<and>
     (\<not> b \<longrightarrow> timeout \<le> fst (obs n) - start)"
proof (induction "nat (timeout - (fst (obs k) - start))" arbitrary: k rule: less_induct)
  case less
  show ?case
  proof (cases "fst (obs k) - start < timeout \<and> \<not> all_empty (snd (obs k))")
    case True
    have "nat (timeout - (fst (obs (Suc k)) - start)) < nat (timeout - (fst (obs k) - start))"
      using clock [rule_format, of k] True by linarith
    from less [OF this] obtain n b where "drain_loop start timeout obs (Suc k) = Some (n, b)" "Suc k \<le> n"
      "n = Suc k \<or> fst (obs (n - 1)) - start < timeout" "b \<longrightarrow> all_empty (snd (obs n))"
      "\<not> b \<longrightarrow> timeout \<le> fst (obs n) - start" by blast
    with True show ?thesis by (subst drain_loop.simps) (auto simp del: fst_conv)
  next
    case False
    then show ?thesis by (subst drain_loop.simps) auto
  qed
qed

lemma clock_advances: "\<forall>j. fst (obs j) + 10 \<le> fst (obs (Suc j)) \<Longrightarrow> fst (obs 0) + 10 * int n \<le> (fst (obs n) :: int)"
proof (induction n)
  case (Suc n)
  have "fst (obs n) + 10 \<le> fst (obs (Suc n))" using Suc.prems by blast
  with Suc.IH [OF Suc.prems] show ?case by simp
qed simp

text \<open>
  Waiting for the mailboxes ends: whatever happens meanwhile, \<open>_drainMailboxes\<close> returns after
  at most one look per 10 ms of the timeout and one more, if the clock advances by the 10 ms it
  sleeps; it returns early exactly when it saw all mailboxes empty. A paused actor with messages
  keeps it waiting for the whole timeout.
\<close>

theorem drain_wait_ends:
  assumes clock: "\<forall>j. fst (obs j) + 10 \<le> fst (obs (Suc j))" and "start \<le> fst (obs 0)" and "0 \<le> timeout"
  shows "\<exists>n b. drainMailboxes start timeout obs = Some (n, b) \<and> 10 * int n < timeout + 10 \<and>
     (if b then all_empty (snd (obs n)) else timeout \<le> fst (obs n) - start)"
proof -
  obtain n b where d: "drain_loop start timeout obs 0 = Some (n, b)" "n = 0 \<or> fst (obs (n - 1)) - start < timeout"
    "b \<longrightarrow> all_empty (snd (obs n))" "\<not> b \<longrightarrow> timeout \<le> fst (obs n) - start"
    using drain_loop_returns [OF clock] by blast
  have "10 * int n < timeout + 10"
  proof (cases n)
    case (Suc m)
    then show ?thesis using d(2) clock_advances [OF clock, of m] assms(2) by simp
  qed (use assms(3) in simp)
  then show ?thesis using d unfolding drainMailboxes_def by (intro exI [of _ n] exI [of _ b]) simp
qed

theorem drain_wait_ends_witness:
  "\<exists>n b. drainMailboxes 0 25 (\<lambda>k. (10 * int k, demo_first)) = Some (n, b) \<and> n \<le> 3"
proof -
  have "\<forall>j. fst ((\<lambda>k. (10 * int k, demo_first)) j) + 10 \<le> fst ((\<lambda>k. (10 * int k, demo_first)) (Suc j))" by simp
  from drain_wait_ends [OF this, of 0 25] show ?thesis by auto
qed

section \<open>A shutdown completes\<close>

text \<open>The names unregistered so far, and the names of the actors in the table.\<close>

definition unregs :: "sys \<Rightarrow> string list" where
  "unregs s = concat (map (\<lambda>e. case e of RegistryUnregister n \<Rightarrow> [n] | _ \<Rightarrow> []) (outbox s))"

definition name_of :: "sys \<Rightarrow> string \<Rightarrow> string option" where
  "name_of s i = (case jget (actorMetadata s) i of None \<Rightarrow> None | Some m \<Rightarrow> truthy_name (so_name (md_options m)))"

definition actor_names :: "sys \<Rightarrow> string list \<Rightarrow> string list" where
  "actor_names s is = concat (map (\<lambda>i. case name_of s i of None \<Rightarrow> [] | Some n \<Rightarrow> [n]) is)"

lemma unregs_emit [simp]: "unregs (emit e s) = unregs s @ (case e of RegistryUnregister n \<Rightarrow> [n] | _ \<Rightarrow> [])"
  by (simp add: unregs_def)

lemma delete_actor_simps [simp]:
  "terms (delete_actor i s) = terms s" "unregs (delete_actor i s) = unregs s"
  "actors (delete_actor i s) = jdel (actors s) i" "mailboxes (delete_actor i s) = jdel (mailboxes s) i"
  "actorMetadata (delete_actor i s) = jdel (actorMetadata s) i"
  by (simp_all add: delete_actor_def terms_def unregs_def)

definition first_task :: "sys \<Rightarrow> string \<Rightarrow> task" where
  "first_task s i = (if name_of s i = None then Terminating else Unregistering)"

lemma name_of_emit [simp]: "name_of (emit e s) = name_of s"
  by (simp add: name_of_def fun_eq_iff)

lemma task_start_alive: "alive s i \<Longrightarrow> task_start i s = (first_task s i,
     emit (case name_of s i of None \<Rightarrow> CallTerminate i | Some n \<Rightarrow> RegistryUnregister n) s)"
  by (auto simp: task_start_def task_terminate_def first_task_def name_of_def jhas_def split: option.split)

lemma start_tasks_alive:
  "\<forall>i \<in> set is. alive s i \<Longrightarrow> \<exists>s'. start_tasks is s = (map (\<lambda>i. (i, first_task s i)) is, s') \<and>
     actors s' = actors s \<and> mailboxes s' = mailboxes s \<and> actorMetadata s' = actorMetadata s \<and> isShuttingDown s' = isShuttingDown s \<and>
     terms s' = terms s @ filter (\<lambda>i. name_of s i = None) is \<and> unregs s' = unregs s @ actor_names s is"
proof (induction "is" arbitrary: s)
  case (Cons i "is")
  let ?s = "emit (case name_of s i of None \<Rightarrow> CallTerminate i | Some n \<Rightarrow> RegistryUnregister n) s"
  have "\<forall>j \<in> set is. alive ?s j" using Cons.prems by simp
  from Cons.IH [OF this] Cons.prems show ?case
    by (auto simp: task_start_alive first_task_def actor_names_def split: option.split)
qed (simp add: actor_names_def)

text \<open>What holds between two steps of the tasks that were started in \<open>s\<close>.\<close>

definition left_over :: "(string \<times> task) list \<Rightarrow> string list" where
  "left_over ts = map fst (filter (\<lambda>x. snd x \<noteq> Cleaned) ts)"

definition touched :: "(string \<times> task) list \<Rightarrow> string list" where
  "touched ts = map fst (filter (\<lambda>x. snd x \<noteq> Unregistering) ts)"

definition shutting :: "sys \<Rightarrow> (string \<times> task) list \<times> sys \<Rightarrow> bool" where
  "shutting s c = (case c of (ts, s') \<Rightarrow> map fst ts = jkeys (actors s) \<and>
     set (jkeys (actors s')) = set (left_over ts) \<and> set (jkeys (mailboxes s')) = set (left_over ts) \<and>
     set (jkeys (actorMetadata s')) = set (left_over ts) \<and> isShuttingDown s' = isShuttingDown s \<and>
     mset (terms s') = mset (terms s) + mset (touched ts) \<and>
     unregs s' = unregs s @ actor_names s (jkeys (actors s)))"

fun task_weight :: "task \<Rightarrow> nat" where
  "task_weight Unregistering = 2" | "task_weight Terminating = 1" | "task_weight Cleaned = 0"

definition weight :: "(string \<times> task) list \<Rightarrow> nat" where
  "weight ts = sum_list (map (\<lambda>x. task_weight (snd x)) ts)"

lemma tasks_append [simp]:
  "left_over [] = []" "touched [] = []" "weight [] = 0"
  "left_over (x # ts) = (if snd x \<noteq> Cleaned then [fst x] else []) @ left_over ts"
  "touched (x # ts) = (if snd x \<noteq> Unregistering then [fst x] else []) @ touched ts"
  "weight (x # ts) = task_weight (snd x) + weight ts"
  "left_over (ts @ us) = left_over ts @ left_over us" "touched (ts @ us) = touched ts @ touched us"
  "weight (ts @ us) = weight ts + weight us"
  by (simp_all add: left_over_def touched_def weight_def)

lemma shutting_start:
  assumes "node_ok s" and "shutdown_tasks s = (ts, s')"
  shows "shutting s (ts, s')" and "weight ts \<le> 2 * length (actors s)"
proof -
  have keys: "set (jkeys (mailboxes s)) = set (jkeys (actors s))" "set (jkeys (actorMetadata s)) = set (jkeys (actors s))"
    using assms(1) by (auto simp: node_ok_def jhas_iff)
  have al: "\<forall>i \<in> set (jkeys (actors s)). alive s i" by (simp add: jhas_iff)
  have ts: "ts = map (\<lambda>i. (i, first_task s i)) (jkeys (actors s))"
    using start_tasks_alive [OF al] assms(2) by (auto simp: shutdown_tasks_def)
  have lo: "set (left_over ts) = set (jkeys (actors s))"
    by (auto simp: left_over_def ts first_task_def)
  have "touched (map (\<lambda>i. (i, first_task s i)) is) = filter (\<lambda>i. name_of s i = None) is" for "is"
    by (induction "is") (simp_all add: first_task_def)
  then have "touched ts = filter (\<lambda>i. name_of s i = None) (jkeys (actors s))" by (simp only: ts)
  then show "shutting s (ts, s')"
    using start_tasks_alive [OF al] assms(2) keys lo
    by (auto simp: shutting_def shutdown_tasks_def comp_def simp del: mset_filter)
  have "weight (map (\<lambda>i. (i, first_task s i)) is) \<le> 2 * length is" for "is"
  proof (induction "is")
    case (Cons i "is")
    moreover have "task_weight (first_task s i) \<le> 2" by (simp add: first_task_def)
    ultimately show ?case by simp
  qed simp
  from this [of "jkeys (actors s)"] show "weight ts \<le> 2 * length (actors s)" by (simp add: ts)
qed

lemma shutting_step:
  assumes "shutdown_step c c'" and "shutting s c" and "jwf (actors s)"
  shows "shutting s c' \<and> weight (fst c) = Suc (weight (fst c'))"
  using assms
proof (elim shutdown_stepE)
  fix t i s1 t' s2 xs ys
  assume c: "c = (xs @ (i, t) # ys, s1)" "c' = (xs @ (i, t') # ys, s2)" and t: "t \<noteq> Cleaned" "task_resume i t s1 = (t', s2)"
  have "distinct (map fst (xs @ (i, t) # ys))" using assms(2,3) by (simp add: shutting_def c)
  then have i: "i \<notin> set (left_over xs)" "i \<notin> set (left_over ys)" by (force simp: left_over_def)+
  show ?thesis
  proof (cases t)
    case Unregistering
    then have "t' = Terminating" "s2 = emit (CallTerminate i) s1" using t by (simp_all add: task_terminate_def)
    then show ?thesis using assms(2) Unregistering by (simp add: c shutting_def del: mset_map)
  next
    case Terminating
    then have t': "t' = Cleaned" "s2 = delete_actor i (emit (GroupsLeaveAll i) s1)" using t by (simp_all add: task_clean_def)
    have "set (left_over (xs @ (i, t') # ys)) = {x \<in> set (left_over (xs @ (i, t) # ys)). x \<noteq> i}"
      using i t' Terminating by auto
    then show ?thesis
      using assms(2) t' Terminating by (simp add: c shutting_def jkeys_jdel del: mset_map set_map) (auto simp: delete_actor_def)
  qed (use t in simp)
qed

lemma shutting_run:
  "(shutdown_step ^^ n) c c' \<Longrightarrow> shutting s c \<Longrightarrow> jwf (actors s) \<Longrightarrow> shutting s c' \<and> weight (fst c) = n + weight (fst c')"
proof (induction n arbitrary: c')
  case (Suc n)
  then obtain d where "(shutdown_step ^^ n) c d" "shutdown_step d c'" by auto
  then show ?case using Suc shutting_step by fastforce
qed simp

lemma shutdown_stuck: "\<nexists>c. shutdown_step (ts, s) c \<Longrightarrow> left_over ts = []"
proof (rule ccontr)
  assume stuck: "\<nexists>c. shutdown_step (ts, s) c" and "left_over ts \<noteq> []"
  then obtain x where "x \<in> set ts" "snd x \<noteq> Cleaned" by (auto simp: left_over_def filter_empty_conv)
  then obtain xs ys where "ts = xs @ (fst x, snd x) # ys" by (metis prod.collapse split_list)
  moreover obtain t' s' where "task_resume (fst x) (snd x) s = (t', s')" by fastforce
  ultimately show False using stuck shutdown_step.resume [OF \<open>snd x \<noteq> Cleaned\<close>] by metis
qed

text \<open>
  C31: A shutdown completes, however its tasks interleave: from a well-formed node it takes at most
  two steps per actor, it can only stop when every task is done, and then the three tables of
  the node are empty, every actor was terminated exactly once, every registered name was
  unregistered, exactly once and in the order of the table, and the node reports itself as unhealthy.
\<close>

theorem shutdown_completes:
  assumes "node_ok s" and "shutdown_tasks s = (ts0, s0)" and "(shutdown_step ^^ n) (ts0, s0) (ts, s')"
  shows "n \<le> 2 * length (actors s)
     \<and> ((\<nexists>c. shutdown_step (ts, s') c) \<longrightarrow> actors s' = [] \<and> mailboxes s' = [] \<and> actorMetadata s' = []
          \<and> mset (terms s') = mset (terms s) + mset (jkeys (actors s))
          \<and> unregs s' = unregs s @ actor_names s (jkeys (actors s))
          \<and> ch_status (system_health k (shutdown_end s')) = Unhealthy)"
proof -
  have wf: "jwf (actors s)" using assms(1) by (simp add: node_ok_def)
  note r = shutting_run [OF assms(3) shutting_start(1) [OF assms(1,2)] wf]
  have n: "n \<le> 2 * length (actors s)" using r shutting_start(2) [OF assms(1,2)] by simp
  have "actors s' = [] \<and> mailboxes s' = [] \<and> actorMetadata s' = [] \<and> mset (terms s') = mset (terms s) + mset (jkeys (actors s))"
    if "\<nexists>c. shutdown_step (ts, s') c"
  proof -
    have lo: "left_over ts = []" by (rule shutdown_stuck [OF that])
    then have "filter (\<lambda>x. snd x \<noteq> Unregistering) ts = ts" by (auto simp: left_over_def filter_empty_conv intro: filter_True)
    then have "touched ts = map fst ts" by (simp add: touched_def)
    then show ?thesis using r lo by (simp add: shutting_def del: mset_map)
  qed
  moreover have "ch_status (system_health k (shutdown_end s')) = Unhealthy"
    by (simp add: system_health_def shutdown_end_def Let_def)
  ultimately show ?thesis using n r by (simp add: shutting_def)
qed

lemma demo_first_ok: "node_ok demo_first"
proof -
  let ?h = "scripted demo_sup (\<lambda>_. None) (\<lambda>_ _. (Promises, []))"
  have "(node_step ?h demo_sup (\<lambda>_. None) (\<lambda>_. None))\<^sup>*\<^sup>* (new_node ''n'' None None)
      (on_sys (\<lambda>_. demo_first) (new_node ''n'' None None))"
    by (rule r_into_rtranclp, rule node_step.event, rule demo_first_reach)
  moreover have "node_ok (sc_sys (new_node ''n'' None None))" by (simp add: new_node_def new_system_def node_ok_def jhas_def)
  ultimately show ?thesis using Node.scripted.reachable_ok by fastforce
qed

definition demo_closing :: sys where
  "demo_closing = demo_first\<lparr>isShuttingDown := True\<rparr>"

lemma demo_closing_ok: "node_ok demo_closing" "isShuttingDown demo_closing"
  using demo_first_ok node_ok_cong [of demo_closing demo_first] by (simp_all add: demo_closing_def faces_def fun_eq_iff)

lemma demo_closing_tasks:
  "shutdown_tasks demo_closing = ([(''j'', Terminating)], emit (CallTerminate ''j'') demo_closing)" "\<not> alive demo_closing ''k''"
  by (simp_all add: demo_closing_def shutdown_tasks_def task_start_def task_terminate_def demo_run)

theorem shutdown_completes_witness:
  "actors (delete_actor ''j'' (emit (GroupsLeaveAll ''j'') (emit (CallTerminate ''j'') demo_closing))) = []"
proof -
  let ?s = "delete_actor ''j'' (emit (GroupsLeaveAll ''j'') (emit (CallTerminate ''j'') demo_closing))"
  have "shutdown_step ([(''j'', Terminating)], emit (CallTerminate ''j'') demo_closing) ([(''j'', Cleaned)], ?s)"
    using shutdown_step.resume [of Terminating "''j''" "emit (CallTerminate ''j'') demo_closing" Cleaned ?s "[]" "[]"]
    by (simp add: task_clean_def)
  then have "(shutdown_step ^^ 1) ([(''j'', Terminating)], emit (CallTerminate ''j'') demo_closing) ([(''j'', Cleaned)], ?s)"
    by (simp only: relpowp_1)
  note C = shutdown_completes [OF demo_closing_ok(1) demo_closing_tasks(1) this]
  have "\<nexists>c. shutdown_step ([(''j'', Cleaned)], ?s) c"
    by (auto elim!: shutdown_stepE simp: Cons_eq_append_conv)
  then show ?thesis using C by blast
qed

section \<open>What a shutdown misses\<close>




text \<open>Casts are accepted during a shutdown, when calls are refused.\<close>

lemma shutdown_accepts_casts:
  assumes "queue_of i S xs" and "isShuttingDown (sc_sys S)"
    and "\<And>mb. jget (mailboxes (sc_sys S)) i = Some mb \<Longrightarrow> \<not> isFull mb"
    and "ref_id r = i" and "ref_node r = sys_id (sc_sys S)" and "ref_name r = None"
  shows "queue_of i (dispatchCast lookup r msg S) (xs @ [cast_message msg])"
    and "dispatchCall h se lookup n r msg S = settle n (RejectedWith (SystemShuttingDownError ''make calls'')) S"
  using queue_cast(1) [OF assms(1,3-6)] assms(2) by (simp_all add: dispatchCall_def)

text \<open>The mailboxes can be empty while a handler is still waiting for a promise.\<close>

lemma drained_while_handling: "all_empty (sc_sys overlap_called) \<and> sc_calls overlap_called \<noteq> []"
  using overlap_called_fields(1)
  by (simp add: all_empty_def overlap_called_def dispatchCall_def syncLocalCall_def demo_run promises_def lock_scheduled_def
      pending_count_def)

end
