(* ===== verification/Dynamic_Supervisor.thy ===== *)
theory Dynamic_Supervisor
  imports Node
begin

text \<open>
  \<open>src/dynamic_supervisor.ts\<close>: an actor that spawns supervised children on demand, up to a limit.
  The public class only spawns this actor and sends it calls. The set \<open>context.children\<close> is its
  only record of them.
\<close>

section \<open>State and calls\<close>

record dyn_options =
  do_maxChildren :: "nat option"
  do_maxRestarts :: "nat option"
  do_periodMs :: "int option"

text \<open>\<open>ds_maxChildren\<close> is \<open>None\<close> for \<open>Infinity\<close>.\<close>

record dyn_supervisor =
  ds_maxChildren :: "nat option"
  ds_maxRestarts :: nat
  ds_periodMs :: int

definition dyn_init :: "dyn_options option \<Rightarrow> dyn_supervisor" where
  "dyn_init o' =
     (case o' of
        None \<Rightarrow> \<lparr>ds_maxChildren = None, ds_maxRestarts = 3, ds_periodMs = 5000\<rparr>
      | Some opts \<Rightarrow>
          \<lparr>ds_maxChildren = do_maxChildren opts,
           ds_maxRestarts = (case do_maxRestarts opts of None \<Rightarrow> 3 | Some n \<Rightarrow> n),
           ds_periodMs = (case do_periodMs opts of None \<Rightarrow> 5000 | Some n \<Rightarrow> n)\<rparr>)"

definition dyn_childSupervision :: "dyn_supervisor \<Rightarrow> child_supervision" where
  "dyn_childSupervision ds = \<lparr>cs_strategy = OneForOne, cs_maxRestarts = ds_maxRestarts ds, cs_periodMs = ds_periodMs ds\<rparr>"

definition children_of :: "sys \<Rightarrow> actor_ref \<Rightarrow> actor_ref list" where
  "children_of s self = (case getActor s (ref_id self) of None \<Rightarrow> [] | Some a \<Rightarrow> a_children a)"

definition handleStartChild ::
  "env \<Rightarrow> dyn_supervisor \<Rightarrow> actor_ref \<Rightarrow> actor_class \<Rightarrow> spawn_options \<Rightarrow> sys \<Rightarrow> js_error + actor_ref \<times> sys" where
  "handleStartChild env ds self c opts s =
     (case ds_maxChildren ds of
        Some n \<Rightarrow> if n \<le> length (children_of s self) then Inl (MaxChildrenError n) else spawnChild env self c opts s
      | None \<Rightarrow> spawnChild env self c opts s)"

text \<open>The child is looked for by id; the object found in the set is stopped.\<close>

definition handleTerminateChild :: "env \<Rightarrow> actor_ref \<Rightarrow> actor_ref \<Rightarrow> sys \<Rightarrow> bool \<times> sys" where
  "handleTerminateChild env self r s =
     (case find (\<lambda>c. ref_id c = ref_id r) (children_of s self) of
        None \<Rightarrow> (False, s)
      | Some c \<Rightarrow> (True, stop env c s))"

record child_info =
  ci_ref :: actor_ref
  ci_class :: string
  ci_name :: "string option"

definition handleWhichChildren :: "actor_ref \<Rightarrow> sys \<Rightarrow> child_info list" where
  "handleWhichChildren self s =
     map (\<lambda>c. \<lparr>ci_ref = c,
            ci_class = (case jget (actorMetadata s) (ref_id c) of
                          None \<Rightarrow> ''Unknown''
                        | Some m \<Rightarrow> if ac_name (md_class m) = '''' then ''Unknown'' else ac_name (md_class m)),
            ci_name = ref_name c\<rparr>) (children_of s self)"

definition handleCountChildren :: "actor_ref \<Rightarrow> sys \<Rightarrow> nat \<times> nat" where
  "handleCountChildren self s = (length (children_of s self), length (children_of s self))"

datatype dyn_call = StartChild actor_class spawn_options | TerminateChild actor_ref | WhichChildren | CountChildren

datatype dyn_reply = Started actor_ref | Terminated bool | Children "child_info list" | Counts "nat \<times> nat"

fun dyn_handleCall :: "env \<Rightarrow> dyn_supervisor \<Rightarrow> actor_ref \<Rightarrow> dyn_call \<Rightarrow> sys \<Rightarrow> (js_error + dyn_reply) \<times> sys" where
  "dyn_handleCall env ds self (StartChild c opts) s =
     (case handleStartChild env ds self c opts s of Inl e \<Rightarrow> (Inl e, s) | Inr (r, s') \<Rightarrow> (Inr (Started r), s'))"
| "dyn_handleCall env ds self (TerminateChild r) s =
     (case handleTerminateChild env self r s of (b, s') \<Rightarrow> (Inr (Terminated b), s'))"
| "dyn_handleCall env ds self WhichChildren s = (Inr (Children (handleWhichChildren self s)), s)"
| "dyn_handleCall env ds self CountChildren s = (Inr (Counts (handleCountChildren self s)), s)"

fun dyn_run :: "env \<Rightarrow> dyn_supervisor \<Rightarrow> actor_ref \<Rightarrow> dyn_call list \<Rightarrow> sys \<Rightarrow> (js_error + dyn_reply) list \<times> sys" where
  "dyn_run env ds self [] s = ([], s)"
| "dyn_run env ds self (c # cs) s =
     (case dyn_handleCall env ds self c s of (r, s1) \<Rightarrow> (case dyn_run env ds self cs s1 of (rs, s2) \<Rightarrow> (r # rs, s2)))"

section \<open>Stopping never adds a child\<close>

definition fewer_children :: "sys \<Rightarrow> sys \<Rightarrow> bool" where
  "fewer_children s t \<longleftrightarrow> (\<forall>a. length (case kids t a of None \<Rightarrow> [] | Some ks \<Rightarrow> ks) \<le> length (case kids s a of None \<Rightarrow> [] | Some ks \<Rightarrow> ks))"

lemma children_kids: "children_of s self = (case kids s (ref_id self) of None \<Rightarrow> [] | Some ks \<Rightarrow> ks)"
  by (simp add: children_of_def kids_def split: option.split)

lemma kids_remove: "kids (on_actor a (remove_child r) s) b = (if b = a then map_option (\<lambda>ks. sdel ks r) (kids s a) else kids s b)"
  by (simp add: kids_def remove_child_def option.map_comp comp_def)

interpretation fewer: stop_relation fewer_children
proof
  have rem: "fewer_children s (on_actor a (remove_child r) t)" if "\<forall>b. kids t b = kids s b" for s t a r
    using that by (auto simp: fewer_children_def kids_remove sdel_def split: option.split)
  show "fewer_children s (detach r s)" for r s
    using rem [of s s] by (auto simp: detach_def fewer_children_def split: option.split)
  show "fewer_children s (stopRemoteChild env i s)" for env i s
  proof -
    have k: "\<forall>b. kids ((emit e s)\<lparr>remoteChildren := x\<rparr>) b = kids s b" for e x by (simp add: kids_def)
    then have "fewer_children s ((emit e s)\<lparr>remoteChildren := x\<rparr>)" for e x by (simp add: fewer_children_def)
    with rem [OF k] show ?thesis
      by (auto simp: stopRemoteChild_def Let_def split: option.split) (simp add: fewer_children_def)
  qed
  show "fewer_children s (bury r s)" for r s
    by (auto simp: fewer_children_def kids_def bury_simps split: option.split)
qed (auto simp: fewer_children_def same_tree_def intro: order_trans)

lemma fewer_children_of: "fewer_children s t \<Longrightarrow> length (children_of t self) \<le> length (children_of s self)"
  by (simp add: fewer_children_def children_kids)

lemma spawnChild_children:
  assumes "spawnChild env self c opts s = Inr (r, s')"
  shows "length (children_of s' self) \<le> Suc (length (children_of s self))"
  using spawnChild_result [OF assms] by (auto simp: children_of_def new_actor_def sadd_def jhas_def split: option.split)

lemma dyn_call_bound:
  assumes "ds_maxChildren ds = Some n" and "length (children_of s self) \<le> n"
  shows "length (children_of (snd (dyn_handleCall env ds self call s)) self) \<le> n"
proof (cases call)
  case (StartChild c opts)
  then show ?thesis
    using assms spawnChild_children [of env self c opts s]
    by (auto simp: handleStartChild_def split: sum.split)
next
  case (TerminateChild r)
  then show ?thesis
    using assms(2) order_trans [OF fewer_children_of [OF fewer.keeps_stop] assms(2)]
    by (simp add: handleTerminateChild_def split: option.split)
qed (use assms in simp_all)

text \<open>
  C33: A dynamic supervisor never has more children than its limit, whatever calls it gets: in any
  sequence of calls the number of children stays within the limit if it was, a \<open>startChild\<close> at
  the limit fails with a \<open>MaxChildrenError\<close> and changes nothing, and below it is the
  \<open>spawnChild\<close> of the system.
\<close>

theorem dynamic_supervisor_bound:
  assumes "ds_maxChildren ds = Some n" and "length (children_of s self) \<le> n"
    and "dyn_run env ds self calls s = (replies, s')"
  shows "length (children_of s' self) \<le> n
     \<and> dyn_handleCall env ds self (StartChild c opts) s' =
         (if length (children_of s' self) = n then (Inl (MaxChildrenError n), s')
          else case spawnChild env self c opts s' of Inl e \<Rightarrow> (Inl e, s') | Inr (r, s2) \<Rightarrow> (Inr (Started r), s2))"
proof -
  have "length (children_of s' self) \<le> n"
    using assms(2,3)
  proof (induction calls arbitrary: s replies)
    case (Cons call calls)
    then show ?case using dyn_call_bound [OF assms(1) Cons.prems(1), of env call] by (auto split: prod.splits)
  qed simp
  then show ?thesis using assms(1) by (simp add: handleStartChild_def)
qed

section \<open>A crash that keeps its slot\<close>

text \<open>The fields a restart of a child reads of the parent are not those of the stopped child.\<close>

lemma stopSingle_rebuilt:
  assumes alive: "alive s (ref_id r)" and m: "jget (actorMetadata s) (ref_id r) = Some m" "md_parent m = Some q"
    and ne: "ref_id q \<noteq> ref_id r" and r: "r \<notin> set (children_of s q)"
  shows "children_of (stopSingle b r s) q = children_of s q" and "alive (stopSingle b r s) (ref_id q) = alive s (ref_id q)"
    and "uuids (stopSingle b r s) = uuids s" and "\<not> alive (stopSingle b r s) (ref_id r)"
proof -
  from stopSingle_tree [OF alive, of b] obtain s1 where s1: "same_tree (detach r s) s1" "stopSingle b r s = bury r s1" by auto
  have d: "detach r s = on_actor (ref_id q) (remove_child r) s" using m by (simp add: detach_def)
  have "kids s1 (ref_id q) = map_option (\<lambda>ks. sdel ks r) (kids s (ref_id q))"
    using s1(1) d kids_remove by (simp add: same_tree_def)
  moreover have "map_option (\<lambda>ks. sdel ks r) (kids s (ref_id q)) = kids s (ref_id q)"
    using r by (cases "kids s (ref_id q)") (simp_all add: children_kids)
  moreover have "kids (bury r s1) (ref_id q) = kids s1 (ref_id q)" using ne by (simp add: kids_def bury_simps)
  ultimately show "children_of (stopSingle b r s) q = children_of s q" by (simp add: children_kids s1(2))
  have a: "alive s1 x = alive s x" for x using same_tree_alive [OF s1(1), of x] d by simp
  then show "alive (stopSingle b r s) (ref_id q) = alive s (ref_id q)" "\<not> alive (stopSingle b r s) (ref_id r)"
    using ne by (simp_all add: s1(2) bury_simps jhas_def)
  have "settings (stopSingle b r s) = settings s" by simp
  then show "uuids (stopSingle b r s) = uuids s" by (simp add: settings_def)
qed

text \<open>
  A child that crashes in a cast from another node keeps its slot: the handler of that cast
  names the crashed actor by a reference rebuilt from its id, \<open>stopSingle\<close> deletes that object
  from \<open>context.children\<close>, where it is not, and the restarted child is added. The set then holds
  the dead child too: a supervisor with one free slot counts itself full and refuses the next
  child, although no more children run than before.
\<close>

theorem remote_crash_keeps_slot:
  assumes parent: "getActor s (ref_id q) = Some p" "ac_supervision (a_class p) = dyn_childSupervision ds"
    and child: "alive s (ref_id r)" "jget (actorMetadata s) (ref_id r) = Some m" "md_parent m = Some q" "ref_id q \<noteq> ref_id r"
    and objects: "\<forall>c \<in> set (a_children p). ref_original c"
    and allowed: "fst (canRestart (env_now (se_env se)) (dyn_childSupervision ds) (getRestartKey se (ref_id r) (ref_id q) s) s)"
    and run: "\<not> isShuttingDown s" "\<not> isDraining s"
    and fresh: "\<not> alive s (env_uuid (se_env se) (uuids s))" "\<forall>c \<in> set (a_children p). ref_id c \<noteq> env_uuid (se_env se) (uuids s)"
    and limit: "ds_maxChildren ds = Some (Suc (length (a_children p)))"
    and s': "s' = handleCrash se (rpc_ref r) err s"
  shows "\<exists>new. children_of s' q = a_children p @ [new] \<and> alive s' (ref_id new) \<and> \<not> alive s' (ref_id r)
     \<and> handleStartChild env ds q c opts s' = Inl (MaxChildrenError (Suc (length (a_children p))))"
proof -
  obtain cm where c: "canRestart (env_now (se_env se)) (dyn_childSupervision ds)
      (getRestartKey se (ref_id r) (ref_id q) s) s = (True, s\<lparr>childRestarts := cm\<rparr>)"
    using canRestart_state allowed by (metis prod.collapse)
  let ?s = "s\<lparr>childRestarts := cm\<rparr>" and ?r = "rpc_ref r" and ?i = "env_uuid (se_env se) (uuids s)"
  let ?t = "stopSingle False ?r ?s"
  have r: "ref_id ?r = ref_id r" "?r \<notin> set (children_of ?s q)"
    using objects parent(1) by (auto simp: rpc_ref_def children_of_def)
  have H: "s' = snd (restart (se_env se) (se_place se) ?r ?s)"
    using child parent c r(1)
    by (simp add: s' handleCrash_def crash_step_def handleChildCrash_def Let_def handleOneForOne_def dyn_childSupervision_def)
  note T = stopSingle_rebuilt [where r = ?r and s = ?s and q = q and m = m and b = False]
  have T: "children_of ?t q = a_children p" "alive ?t (ref_id q)" "uuids ?t = uuids s" "\<not> alive ?t (ref_id r)"
    using T child r parent(1) by (simp_all add: children_of_def jhas_def)
  have set: "settings ?t = settings ?s" by simp
  then have run': "\<not> isShuttingDown ?t" "\<not> isDraining ?t" using run by (simp_all add: settings_def)
  obtain new s2 where S: "spawnChild (se_env se) q (md_class m) (md_options m) ?t = Inr (new, s2)"
    using run' T(2) by (auto simp: spawnChild_def Let_def)
  have s2: "s' = s2" using H child(2,3) r(1) S by (simp add: restart_def Let_def)
  note N = spawnChild_result [OF S]
  obtain p' where p': "getActor ?t (ref_id q) = Some p'" "a_children p' = a_children p"
    using T(1,2) by (auto simp: children_of_def jhas_def split: option.splits)
  have i: "ref_id new = ?i" "?i \<noteq> ref_id q" "?i \<noteq> ref_id r" "new \<notin> set (a_children p)"
    using N T(3) fresh parent(1) child(1) by (auto simp: jhas_def)
  have "children_of s' q = a_children p @ [new]"
    using N p' i by (simp add: s2 children_of_def sadd_def)
  moreover have "alive s' (ref_id new)" "\<not> alive s' (ref_id r)"
    using N i T(4) by (simp_all add: s2)
  ultimately show ?thesis using limit by (auto simp: handleStartChild_def)
qed

section \<open>Witnesses\<close>

definition demo_dyn :: dyn_supervisor where
  "demo_dyn = dyn_init (Some \<lparr>do_maxChildren = Some 2, do_maxRestarts = None, do_periodMs = None\<rparr>)"

definition demo_pool :: sys where
  "demo_pool = (new_system ''n'' None None)\<lparr>
     actors := [(''p'', (new_actor (demo_class\<lparr>ac_supervision := dyn_childSupervision demo_dyn\<rparr>) (demo_id ''n'' ''p'') None 0)
                   \<lparr>a_children := [demo_id ''n'' ''a''], a_childOrder := [demo_id ''n'' ''a'']\<rparr>),
                (''a'', new_actor demo_class (demo_id ''n'' ''a'') (Some (demo_id ''n'' ''p'')) 0)],
     actorMetadata := [(''a'', \<lparr>md_class = demo_class, md_options = no_options, md_parent = Some (demo_id ''n'' ''p'')\<rparr>)]\<rparr>"

theorem dynamic_supervisor_bound_witness:
  "length (children_of (snd (dyn_run (demo_env CHR ''j'') demo_dyn (demo_id ''n'' ''p'')
     [StartChild demo_class no_options, StartChild demo_class no_options] demo_pool)) (demo_id ''n'' ''p'')) \<le> 2"
proof -
  have l: "ds_maxChildren demo_dyn = Some 2" "length (children_of demo_pool (demo_id ''n'' ''p'')) \<le> 2"
    by (simp_all add: demo_dyn_def dyn_init_def children_of_def demo_pool_def demo_id_def)
  show ?thesis
    by (rule conjunct1 [OF dynamic_supervisor_bound [OF l surjective_pairing]])
qed

theorem remote_crash_keeps_slot_witness:
  "\<exists>new. children_of (handleCrash demo_sup (rpc_ref (demo_id ''n'' ''a'')) ''boom'' demo_pool) (demo_id ''n'' ''p'')
     = [demo_id ''n'' ''a'', new]"
proof -
  let ?p = "the (getActor demo_pool ''p'')"
  have "\<exists>new. children_of (handleCrash demo_sup (rpc_ref (demo_id ''n'' ''a'')) ''boom'' demo_pool) (demo_id ''n'' ''p'')
      = a_children ?p @ [new]
    \<and> alive (handleCrash demo_sup (rpc_ref (demo_id ''n'' ''a'')) ''boom'' demo_pool) (ref_id new)
    \<and> \<not> alive (handleCrash demo_sup (rpc_ref (demo_id ''n'' ''a'')) ''boom'' demo_pool) (ref_id (demo_id ''n'' ''a''))
    \<and> handleStartChild (demo_env CHR ''k'') demo_dyn (demo_id ''n'' ''p'') demo_class no_options
        (handleCrash demo_sup (rpc_ref (demo_id ''n'' ''a'')) ''boom'' demo_pool) = Inl (MaxChildrenError (Suc (length (a_children ?p))))"
  proof (rule remote_crash_keeps_slot)
    show "jget (actorMetadata demo_pool) (ref_id (demo_id ''n'' ''a'')) =
        Some \<lparr>md_class = demo_class, md_options = no_options, md_parent = Some (demo_id ''n'' ''p'')\<rparr>"
      by (simp add: demo_pool_def demo_id_def)
    show "fst (canRestart (env_now (se_env demo_sup)) (dyn_childSupervision demo_dyn)
        (getRestartKey demo_sup (ref_id (demo_id ''n'' ''a'')) (ref_id (demo_id ''n'' ''p'')) demo_pool) demo_pool)"
      by (simp add: canRestart_def canRestart_in_def restart_record_for_def Let_def demo_pool_def new_system_def
          dyn_childSupervision_def demo_dyn_def dyn_init_def)
  qed (simp_all add: demo_pool_def demo_id_def new_system_def new_actor_def demo_dyn_def dyn_init_def demo_sup_def demo_env_def jhas_def)
  then show ?thesis by (auto simp: demo_pool_def)
qed

end
