(* ===== verification/Process_Group.thy ===== *)
theory Process_Group
  imports Scheduler
begin

text \<open>
  \<open>src/process_group.ts\<close>: named groups of actors, a copy on every node, kept together by the
  updates a node publishes about its own actors; and the operations of \<open>src/actor_system.ts\<close>
  on groups. An update that was published is in \<open>pg_published\<close>, in order.
\<close>

section \<open>State\<close>

record group_member =
  mem_node :: string
  mem_actor :: string
  mem_name :: "string option"

datatype group_update = JoinUpdate string group_member | LeaveUpdate string group_member

record process_groups =
  pg_node :: string
  pg_groups :: "(string, (string, group_member) jsmap) jsmap"
  pg_published :: "group_update list"

definition new_process_groups :: "string \<Rightarrow> process_groups" where
  "new_process_groups node = \<lparr>pg_node = node, pg_groups = [], pg_published = []\<rparr>"

definition pg_disconnect :: "process_groups \<Rightarrow> process_groups" where
  "pg_disconnect s = s\<lparr>pg_groups := []\<rparr>"

definition publish_group :: "group_update \<Rightarrow> process_groups \<Rightarrow> process_groups" where
  "publish_group u s = s\<lparr>pg_published := pg_published s @ [u]\<rparr>"

section \<open>Operations\<close>

definition add_member :: "string \<Rightarrow> group_member \<Rightarrow> process_groups \<Rightarrow> process_groups" where
  "add_member g m s =
     (let ms = (case jget (pg_groups s) g of None \<Rightarrow> [] | Some ms \<Rightarrow> ms)
      in s\<lparr>pg_groups := jput (pg_groups s) g (jput ms (mem_actor m) m)\<rparr>)"

text \<open>Removing a member; a group without members goes.\<close>

definition drop_member :: "string \<Rightarrow> string \<Rightarrow> process_groups \<Rightarrow> process_groups" where
  "drop_member g a s =
     (case jget (pg_groups s) g of
        None \<Rightarrow> s
      | Some ms \<Rightarrow> (let ms' = jdel ms a
          in s\<lparr>pg_groups := (if ms' = [] then jdel (pg_groups s) g else jput (pg_groups s) g ms')\<rparr>))"

definition join :: "string \<Rightarrow> group_member \<Rightarrow> process_groups \<Rightarrow> process_groups" where
  "join g m s = publish_group (JoinUpdate g m) (add_member g m s)"

definition member_of :: "process_groups \<Rightarrow> string \<Rightarrow> string \<Rightarrow> group_member option" where
  "member_of s g a = (case jget (pg_groups s) g of None \<Rightarrow> None | Some ms \<Rightarrow> jget ms a)"

definition leave :: "string \<Rightarrow> string \<Rightarrow> process_groups \<Rightarrow> process_groups" where
  "leave g a s = (case member_of s g a of None \<Rightarrow> s | Some m \<Rightarrow> publish_group (LeaveUpdate g m) (drop_member g a s))"

definition leaveAll :: "string \<Rightarrow> process_groups \<Rightarrow> process_groups" where
  "leaveAll a s = fold (\<lambda>g. leave g a) (jkeys (pg_groups s)) s"

definition pg_getMembers :: "process_groups \<Rightarrow> string \<Rightarrow> group_member list" where
  "pg_getMembers s g = (case jget (pg_groups s) g of None \<Rightarrow> [] | Some ms \<Rightarrow> jvals ms)"

definition pg_getGroups :: "process_groups \<Rightarrow> string list" where
  "pg_getGroups s = jkeys (pg_groups s)"

fun pg_handleUpdate :: "group_update \<Rightarrow> process_groups \<Rightarrow> process_groups" where
  "pg_handleUpdate (JoinUpdate g m) s = (if mem_node m = pg_node s then s else add_member g m s)"
| "pg_handleUpdate (LeaveUpdate g m) s = (if mem_node m = pg_node s then s else drop_member g (mem_actor m) s)"

definition pg_handlePeerLeave :: "string \<Rightarrow> process_groups \<Rightarrow> process_groups" where
  "pg_handlePeerLeave node s =
     fold (\<lambda>(g, ms). fold (\<lambda>(a, m) s. if mem_node m = node then drop_member g a s else s) ms) (pg_groups s) s"

definition own_updates :: "process_groups \<Rightarrow> group_update list" where
  "own_updates s = [JoinUpdate g m. (g, ms) \<leftarrow> pg_groups s, (a, m) \<leftarrow> ms, mem_node m = pg_node s]"

definition pg_handlePeerJoin :: "process_groups \<Rightarrow> process_groups" where
  "pg_handlePeerJoin s = s\<lparr>pg_published := pg_published s @ own_updates s\<rparr>"

section \<open>The operations of the system\<close>

text \<open>The actor system has process groups or not; without them nothing happens.\<close>

definition member_of_ref :: "actor_ref \<Rightarrow> group_member" where
  "member_of_ref r = \<lparr>mem_node = ref_node r, mem_actor = ref_id r, mem_name = ref_name r\<rparr>"

definition joinGroup :: "string \<Rightarrow> actor_ref \<Rightarrow> process_groups option \<Rightarrow> process_groups option" where
  "joinGroup g r p = map_option (join g (member_of_ref r)) p"

definition leaveGroup :: "string \<Rightarrow> actor_ref \<Rightarrow> process_groups option \<Rightarrow> process_groups option" where
  "leaveGroup g r p = map_option (leave g (ref_id r)) p"

definition ref_of_member :: "group_member \<Rightarrow> actor_ref" where
  "ref_of_member m = \<lparr>ref_node = mem_node m, ref_id = mem_actor m, ref_name = mem_name m, ref_original = False\<rparr>"

definition getGroup :: "string \<Rightarrow> process_groups option \<Rightarrow> actor_ref list" where
  "getGroup g p = (case p of None \<Rightarrow> [] | Some s \<Rightarrow> map ref_of_member (pg_getMembers s g))"

definition broadcast_group :: "(string \<Rightarrow> string option) \<Rightarrow> string \<Rightarrow> string \<Rightarrow> process_groups option \<Rightarrow> sched \<Rightarrow> sched" where
  "broadcast_group lookup g msg p S = fold (\<lambda>r. dispatchCast lookup r msg) (getGroup g p) S"

section \<open>The groups as a relation\<close>

text \<open>No group is empty, keys are distinct, and a member is kept under its actor's id.\<close>

definition pg_ok :: "process_groups \<Rightarrow> bool" where
  "pg_ok s \<longleftrightarrow> jwf (pg_groups s) \<and> (\<forall>g ms. jget (pg_groups s) g = Some ms \<longrightarrow> ms \<noteq> [] \<and> jwf ms \<and>
     (\<forall>a m. jget ms a = Some m \<longrightarrow> mem_actor m = a))"

lemma member_add [simp]:
  "member_of (add_member g m s) g' a = (if g' = g \<and> a = mem_actor m then Some m else member_of s g' a)"
  by (simp add: member_of_def add_member_def Let_def split: option.split)

lemma member_drop [simp]: "member_of (drop_member g a s) g' a' = (if g' = g \<and> a' = a then None else member_of s g' a')"
proof (cases "jget (pg_groups s) g")
  case (Some ms)
  have "jget ms a' = None" if "jdel ms a = []" "a' \<noteq> a" using that by (metis jget_jdel map_of.simps(1))
  then show ?thesis using Some by (auto simp: member_of_def drop_member_def Let_def split: if_splits)
qed (auto simp: member_of_def drop_member_def)

lemma member_publish [simp]: "member_of (publish_group u s) = member_of s"
  by (intro ext) (simp add: member_of_def publish_group_def)

lemma pg_node_simps [simp]:
  "pg_node (add_member g m s) = pg_node s" "pg_node (drop_member g a s) = pg_node s" "pg_node (publish_group u s) = pg_node s"
  "pg_published (add_member g m s) = pg_published s" "pg_published (drop_member g a s) = pg_published s"
  by (simp_all add: add_member_def drop_member_def publish_group_def Let_def split: option.split)

lemma member_published [simp]: "member_of (s\<lparr>pg_published := us\<rparr>) = member_of s"
  by (intro ext) (simp add: member_of_def)

lemma published_publish [simp]: "pg_published (publish_group u s) = pg_published s @ [u]"
  by (simp add: publish_group_def)

lemma pg_ok_add: "pg_ok s \<Longrightarrow> pg_ok (add_member g m s)"
  by (auto simp: pg_ok_def add_member_def Let_def split: option.split)

lemma pg_ok_drop: "pg_ok s \<Longrightarrow> pg_ok (drop_member g a s)"
  by (auto simp: pg_ok_def drop_member_def Let_def split: option.split)

lemma pg_ok_publish [simp]: "pg_ok (publish_group u s) = pg_ok s"
  by (simp add: pg_ok_def publish_group_def)

lemma member_leave [simp]: "member_of (leave g a s) g' a' = (if g' = g \<and> a' = a then None else member_of s g' a')"
  by (simp add: leave_def split: option.split)

lemma pg_ok_leave: "pg_ok s \<Longrightarrow> pg_ok (leave g a s)"
  by (simp add: leave_def pg_ok_drop split: option.split)


lemma fold_leave:
  "member_of (fold (\<lambda>g. leave g a) gs s) g' a' = (if g' \<in> set gs \<and> a' = a then None else member_of s g' a')"
  "pg_ok s \<Longrightarrow> pg_ok (fold (\<lambda>g. leave g a) gs s)"
  by (induction gs arbitrary: s) (auto simp: pg_ok_leave)

lemma member_absent: "g \<notin> set (jkeys (pg_groups s)) \<Longrightarrow> member_of s g a = None"
  by (simp add: member_of_def map_of_eq_None_iff [THEN iffD2])

lemma member_leaveAll [simp]: "member_of (leaveAll a s) g' a' = (if a' = a then None else member_of s g' a')"
  using member_absent [of g' s a] by (auto simp: leaveAll_def fold_leave)

text \<open>Folds that drop members one by one.\<close>

lemma fold_drop_group:
  "member_of (fold (\<lambda>(a, m) s. if P m then drop_member g a s else s) ms s) g' a' =
     (if g' = g \<and> (\<exists>q\<in>set ms. fst q = a' \<and> P (snd q)) then None else member_of s g' a')"
  "pg_ok s \<Longrightarrow> pg_ok (fold (\<lambda>(a, m) s. if P m then drop_member g a s else s) ms s)"
  "pg_node (fold (\<lambda>(a, m) s. if P m then drop_member g a s else s) ms s) = pg_node s"
  "pg_published (fold (\<lambda>(a, m) s. if P m then drop_member g a s else s) ms s) = pg_published s"
  by (induction ms arbitrary: s) (auto simp: pg_ok_drop)

lemma fold_drop_groups:
  "member_of (fold (\<lambda>(g, ms). fold (\<lambda>(a, m) s. if P m then drop_member g a s else s) ms) gs s) g' a' =
     (if \<exists>p\<in>set gs. fst p = g' \<and> (\<exists>q\<in>set (snd p). fst q = a' \<and> P (snd q)) then None else member_of s g' a')"
proof (induction gs arbitrary: s)
  case (Cons p gs)
  obtain g ms where "p = (g, ms)" by (cases p)
  then show ?case using Cons.IH by (simp add: fold_drop_group) blast
qed simp

lemma fold_drop_groups_keep:
  "pg_ok s \<Longrightarrow> pg_ok (fold (\<lambda>(g, ms). fold (\<lambda>(a, m) s. if P m then drop_member g a s else s) ms) gs s)"
  "pg_node (fold (\<lambda>(g, ms). fold (\<lambda>(a, m) s. if P m then drop_member g a s else s) ms) gs s) = pg_node s"
  "pg_published (fold (\<lambda>(g, ms). fold (\<lambda>(a, m) s. if P m then drop_member g a s else s) ms) gs s) = pg_published s"
  by (induction gs arbitrary: s) (auto simp: fold_drop_group)

lemma member_in_groups:
  assumes "pg_ok s"
  shows "(\<exists>ms. (g, ms) \<in> set (pg_groups s) \<and> (a, m) \<in> set ms) \<longleftrightarrow> member_of s g a = Some m"
proof -
  have "(g, ms) \<in> set (pg_groups s) \<longleftrightarrow> jget (pg_groups s) g = Some ms" for ms
    using assms by (auto simp: pg_ok_def intro: map_of_is_SomeI dest: map_of_SomeD)
  moreover have "jget (pg_groups s) g = Some ms \<Longrightarrow> (a, m) \<in> set ms \<longleftrightarrow> jget ms a = Some m" for ms
    using assms by (auto simp: pg_ok_def intro: map_of_is_SomeI dest: map_of_SomeD)
  ultimately show ?thesis by (auto simp: member_of_def split: option.split)
qed

lemma member_peerLeave:
  assumes "pg_ok s"
  shows "member_of (pg_handlePeerLeave node s) g a = (case member_of s g a of None \<Rightarrow> None
     | Some m \<Rightarrow> if mem_node m = node then None else Some m)"
proof -
  have "(\<exists>p\<in>set (pg_groups s). fst p = g \<and> (\<exists>q\<in>set (snd p). fst q = a \<and> mem_node (snd q) = node)) \<longleftrightarrow>
      (\<exists>ms m. (g, ms) \<in> set (pg_groups s) \<and> (a, m) \<in> set ms \<and> mem_node m = node)"
    by force
  also have "\<dots> \<longleftrightarrow> (\<exists>m. member_of s g a = Some m \<and> mem_node m = node)"
    using member_in_groups [OF assms] by metis
  finally have "(\<exists>p\<in>set (pg_groups s). fst p = g \<and> (\<exists>q\<in>set (snd p). fst q = a \<and> mem_node (snd q) = node)) \<longleftrightarrow>
      (\<exists>m. member_of s g a = Some m \<and> mem_node m = node)" .
  then show ?thesis by (auto simp: pg_handlePeerLeave_def fold_drop_groups split: option.split)
qed

text \<open>The operations as a program over groups.\<close>

datatype group_op = OpJoin string group_member | OpLeave string string | OpLeaveAll string | OpUpdate group_update
  | OpPeerLeave string | OpPeerJoin

fun group_step :: "group_op \<Rightarrow> process_groups \<Rightarrow> process_groups" where
  "group_step (OpJoin g m) s = join g m s"
| "group_step (OpLeave g a) s = leave g a s"
| "group_step (OpLeaveAll a) s = leaveAll a s"
| "group_step (OpUpdate u) s = pg_handleUpdate u s"
| "group_step (OpPeerLeave n) s = pg_handlePeerLeave n s"
| "group_step OpPeerJoin s = pg_handlePeerJoin s"

text \<open>What they mean: a partial function from group and actor to a member.\<close>

fun group_spec :: "string \<Rightarrow> group_op \<Rightarrow> (string \<Rightarrow> string \<Rightarrow> group_member option) \<Rightarrow> string \<Rightarrow> string \<Rightarrow> group_member option" where
  "group_spec node (OpJoin g m) f g' a = (if g' = g \<and> a = mem_actor m then Some m else f g' a)"
| "group_spec node (OpLeave g b) f g' a = (if g' = g \<and> a = b then None else f g' a)"
| "group_spec node (OpLeaveAll b) f g' a = (if a = b then None else f g' a)"
| "group_spec node (OpUpdate (JoinUpdate g m)) f g' a = (if mem_node m \<noteq> node \<and> g' = g \<and> a = mem_actor m then Some m else f g' a)"
| "group_spec node (OpUpdate (LeaveUpdate g m)) f g' a = (if mem_node m \<noteq> node \<and> g' = g \<and> a = mem_actor m then None else f g' a)"
| "group_spec node (OpPeerLeave n) f g' a = (case f g' a of None \<Rightarrow> None | Some m \<Rightarrow> if mem_node m = n then None else Some m)"
| "group_spec node OpPeerJoin f g' a = f g' a"

lemma group_step_node [simp]: "pg_node (group_step x s) = pg_node s"
proof -
  have l: "pg_node (leave g a s) = pg_node s" for g a s by (simp add: leave_def split: option.split)
  then have "pg_node (fold (\<lambda>g. leave g a) gs s) = pg_node s" for a gs by (induction gs arbitrary: s) simp_all
  then show ?thesis
    by (cases "(x, s)" rule: group_step.cases)
      (auto simp: join_def leaveAll_def pg_handlePeerLeave_def pg_handlePeerJoin_def fold_drop_groups_keep l elim: pg_handleUpdate.elims,
       metis pg_handleUpdate.elims pg_node_simps(1,2))
qed

lemma group_step_ok: "pg_ok s \<Longrightarrow> pg_ok (group_step x s)"
proof -
  assume ok: "pg_ok s"
  show ?thesis
  proof (cases x)
    case (OpUpdate u)
    then show ?thesis using ok by (cases u) (simp_all add: pg_ok_add pg_ok_drop)
  next
    case OpPeerJoin
    then show ?thesis using ok by (simp add: pg_handlePeerJoin_def pg_ok_def)
  qed (use ok in \<open>simp_all add: join_def pg_ok_add pg_ok_leave leaveAll_def fold_leave(2) pg_handlePeerLeave_def fold_drop_groups_keep\<close>)
qed

lemma group_step_spec:
  assumes "pg_ok s"
  shows "member_of (group_step x s) = group_spec (pg_node s) x (member_of s)"
proof (intro ext)
  fix g a
  show "member_of (group_step x s) g a = group_spec (pg_node s) x (member_of s) g a"
  proof (cases x)
    case (OpUpdate u)
    then show ?thesis by (cases u) simp_all
  next
    case (OpPeerLeave n)
    then show ?thesis by (simp add: member_peerLeave [OF assms])
  next
    case OpPeerJoin
    then show ?thesis by (simp add: pg_handlePeerJoin_def member_of_def)
  qed (simp_all add: join_def)
qed


text \<open>
  C19: The nested maps represent a set of memberships: from an empty table, whatever operations run, no
  group is empty, the members found under a group and an actor are what the operations mean, each
  listed once by \<open>getMembers\<close>, and \<open>getGroups\<close> lists exactly the groups that have a member.
\<close>

theorem process_groups_refine:
  "let s = fold group_step xs (new_process_groups node)
   in pg_ok s \<and> member_of s = fold (group_spec node) xs (\<lambda>g a. None) \<and>
    (\<forall>g m. m \<in> set (pg_getMembers s g) \<longleftrightarrow> member_of s g (mem_actor m) = Some m) \<and>
    (\<forall>g. distinct (pg_getMembers s g)) \<and>
    (\<forall>g. g \<in> set (pg_getGroups s) \<longleftrightarrow> pg_getMembers s g \<noteq> [])"
proof -
  define s where "s = fold group_step xs (new_process_groups node)"
  have run: "pg_ok (fold group_step xs t) \<and> member_of (fold group_step xs t) = fold (group_spec (pg_node t)) xs (member_of t)"
    if "pg_ok t" for t
    using that
  proof (induction xs arbitrary: t)
    case (Cons x xs)
    show ?case using Cons.IH [OF group_step_ok [OF Cons.prems, of x]] by (simp add: group_step_spec [OF Cons.prems])
  qed simp
  have new: "pg_ok (new_process_groups node)" "member_of (new_process_groups node) = (\<lambda>g a. None)" "pg_node (new_process_groups node) = node"
    by (simp_all add: pg_ok_def new_process_groups_def member_of_def fun_eq_iff)
  have ok: "pg_ok s" using run [OF new(1)] by (simp add: s_def)
  have mem: "m \<in> set (pg_getMembers s g) \<longleftrightarrow> member_of s g (mem_actor m) = Some m" for g m
  proof (cases "jget (pg_groups s) g")
    case (Some ms)
    then have w: "jwf ms" "\<And>a m. jget ms a = Some m \<Longrightarrow> mem_actor m = a" using ok by (simp_all add: pg_ok_def)
    have "m \<in> set (jvals ms) \<longleftrightarrow> (\<exists>a. jget ms a = Some m)"
      using w(1) by (force intro: map_of_is_SomeI dest: map_of_SomeD)
    also have "\<dots> \<longleftrightarrow> jget ms (mem_actor m) = Some m" using w(2) by blast
    finally show ?thesis using Some by (simp add: pg_getMembers_def member_of_def)
  qed (simp add: pg_getMembers_def member_of_def)
  have dist: "distinct (pg_getMembers s g)" for g
  proof (cases "jget (pg_groups s) g")
    case (Some ms)
    then have w: "jwf ms" "\<And>a m. (a, m) \<in> set ms \<Longrightarrow> mem_actor m = a" using ok by (auto simp: pg_ok_def)
    then have "inj_on snd (set ms)" unfolding inj_on_def by (metis prod.collapse)
    moreover have "distinct ms" using w(1) by (simp add: distinct_map)
    ultimately show ?thesis using Some by (simp add: pg_getMembers_def distinct_map)
  qed (simp add: pg_getMembers_def)
  have "g \<in> set (pg_getGroups s) \<longleftrightarrow> pg_getMembers s g \<noteq> []" for g
  proof (cases "jget (pg_groups s) g")
    case None
    moreover from None have "g \<notin> set (jkeys (pg_groups s))" unfolding map_of_eq_None_iff by simp
    ultimately show ?thesis by (simp add: pg_getGroups_def pg_getMembers_def)
  next
    case (Some ms)
    then have "g \<in> fst ` set (pg_groups s)" by (force dest: map_of_SomeD)
    then show ?thesis using Some ok by (simp add: pg_getGroups_def pg_getMembers_def pg_ok_def)
  qed
  then show ?thesis using ok mem dist run [OF new(1)] new by (simp add: s_def Let_def)
qed


section \<open>Two copies\<close>

text \<open>
  The copy a node \<open>b\<close> keeps of the members of node \<open>a\<close>. The updates \<open>a\<close> publishes reach \<open>b\<close> in
  their order; \<open>wire\<close> is what has not arrived. \<open>own i\<close> tells which node an actor lives on. Both
  nodes run operations on their own actors and handle the updates and failures of third nodes.
\<close>

record group_net =
  gn_a :: process_groups
  gn_b :: process_groups
  gn_wire :: "group_update list"

definition fresh_updates :: "process_groups \<Rightarrow> process_groups \<Rightarrow> group_update list" where
  "fresh_updates s s' = drop (length (pg_published s)) (pg_published s')"

text \<open>The operations a node performs itself: on actors that live on it, and the updates and failures of nodes other than \<open>peer\<close>.\<close>

fun update_member :: "group_update \<Rightarrow> group_member" where
  "update_member (JoinUpdate g m) = m"
| "update_member (LeaveUpdate g m) = m"

fun local_op :: "(string \<Rightarrow> string) \<Rightarrow> string \<Rightarrow> string \<Rightarrow> group_op \<Rightarrow> bool" where
  "local_op own node peer (OpJoin g m) \<longleftrightarrow> mem_node m = node \<and> own (mem_actor m) = node"
| "local_op own node peer (OpLeave g i) \<longleftrightarrow> own i = node"
| "local_op own node peer (OpLeaveAll i) \<longleftrightarrow> own i = node"
| "local_op own node peer (OpUpdate u) \<longleftrightarrow> mem_node (update_member u) \<noteq> peer \<and> own (mem_actor (update_member u)) = mem_node (update_member u)"
| "local_op own node peer (OpPeerLeave n) \<longleftrightarrow> n \<noteq> peer \<and> n \<noteq> node"
| "local_op own node peer OpPeerJoin \<longleftrightarrow> True"

inductive group_reachable :: "(string \<Rightarrow> string) \<Rightarrow> string \<Rightarrow> string \<Rightarrow> group_net \<Rightarrow> bool"
  for own a b where
  start: "group_reachable own a b \<lparr>gn_a = new_process_groups a, gn_b = new_process_groups b, gn_wire = []\<rparr>"
| at_a: "group_reachable own a b N \<Longrightarrow> local_op own a b x \<Longrightarrow>
    group_reachable own a b (N\<lparr>gn_a := group_step x (gn_a N), gn_wire := gn_wire N @ fresh_updates (gn_a N) (group_step x (gn_a N))\<rparr>)"
| at_b: "group_reachable own a b N \<Longrightarrow> local_op own b a x \<Longrightarrow> group_reachable own a b (N\<lparr>gn_b := group_step x (gn_b N)\<rparr>)"
| arrive: "group_reachable own a b N \<Longrightarrow> gn_wire N = u # us \<Longrightarrow>
    group_reachable own a b (N\<lparr>gn_b := pg_handleUpdate u (gn_b N), gn_wire := us\<rparr>)"

text \<open>The members of node \<open>a\<close> in a copy, and what the updates on the wire make of them.\<close>

definition of_node :: "(string \<Rightarrow> string) \<Rightarrow> string \<Rightarrow> (string \<Rightarrow> string \<Rightarrow> group_member option) \<Rightarrow> string \<Rightarrow> string \<Rightarrow> group_member option" where
  "of_node own a f g i = (if own i = a then f g i else None)"

fun update_spec :: "group_update \<Rightarrow> (string \<Rightarrow> string \<Rightarrow> group_member option) \<Rightarrow> string \<Rightarrow> string \<Rightarrow> group_member option" where
  "update_spec (JoinUpdate g m) f g' a = (if g' = g \<and> a = mem_actor m then Some m else f g' a)"
| "update_spec (LeaveUpdate g m) f g' a = (if g' = g \<and> a = mem_actor m then None else f g' a)"

definition from_a :: "(string \<Rightarrow> string) \<Rightarrow> string \<Rightarrow> group_update \<Rightarrow> bool" where
  "from_a own a u \<longleftrightarrow> mem_node (update_member u) = a \<and> own (mem_actor (update_member u)) = a"


lemma of_node_eq: "of_node own a f = of_node own a f' \<longleftrightarrow> (\<forall>g i. own i = a \<longrightarrow> f g i = f' g i)"
  unfolding of_node_def fun_eq_iff by metis

lemma of_node_update_cong:
  "of_node own a f = of_node own a f' \<Longrightarrow> of_node own a (update_spec u f) = of_node own a (update_spec u f')"
  by (cases u) (simp_all add: of_node_eq)

lemma of_node_fold_cong:
  "of_node own a f = of_node own a f' \<Longrightarrow> of_node own a (fold update_spec us f) = of_node own a (fold update_spec us f')"
proof (induction us arbitrary: f f')
  case (Cons u us)
  from Cons.IH [OF of_node_update_cong [OF Cons.prems]] show ?case by simp
qed simp

text \<open>The members a copy holds are where they say they are.\<close>

definition placed :: "(string \<Rightarrow> string) \<Rightarrow> process_groups \<Rightarrow> bool" where
  "placed own s \<longleftrightarrow> (\<forall>g i m. member_of s g i = Some m \<longrightarrow> mem_actor m = i \<and> mem_node m = own i)"

text \<open>The updates a step publishes have the effect of the step on the node's own members.\<close>

definition tracked :: "(string \<Rightarrow> string) \<Rightarrow> string \<Rightarrow> process_groups \<Rightarrow> process_groups \<Rightarrow> bool" where
  "tracked own a s s' \<longleftrightarrow> (\<exists>us. pg_published s' = pg_published s @ us \<and> (\<forall>u\<in>set us. from_a own a u) \<and>
     of_node own a (fold update_spec us (member_of s)) = of_node own a (member_of s'))"

lemma tracked_refl: "tracked own a s s"
  unfolding tracked_def by (rule exI [of _ "[]"]) simp

lemma tracked_trans:
  assumes "tracked own a s s'" and "tracked own a s' s''"
  shows "tracked own a s s''"
proof -
  obtain us where us: "pg_published s' = pg_published s @ us" "\<forall>u\<in>set us. from_a own a u"
    "of_node own a (fold update_spec us (member_of s)) = of_node own a (member_of s')" using assms(1) by (auto simp: tracked_def)
  obtain vs where vs: "pg_published s'' = pg_published s' @ vs" "\<forall>u\<in>set vs. from_a own a u"
    "of_node own a (fold update_spec vs (member_of s')) = of_node own a (member_of s'')" using assms(2) by (auto simp: tracked_def)
  show ?thesis
    unfolding tracked_def
    using us vs of_node_fold_cong [OF us(3), of vs] by (intro exI [of _ "us @ vs"]) auto
qed

lemma tracked_leave:
  assumes "placed own s" and "own i = a"
  shows "tracked own a s (leave g i s)"
proof (cases "member_of s g i")
  case None
  then show ?thesis by (simp add: leave_def tracked_refl)
next
  case (Some m)
  have m: "mem_actor m = i" "mem_node m = a" using assms Some by (auto simp: placed_def)
  have "of_node own a (update_spec (LeaveUpdate g m) (member_of s)) = of_node own a (member_of (leave g i s))"
    using m by (simp add: of_node_eq)
  then show ?thesis
    using Some m assms(2) unfolding tracked_def
    by (intro exI [of _ "[LeaveUpdate g m]"]) (simp add: leave_def from_a_def)
qed

lemma placed_step:
  assumes "placed own s" and "pg_ok s" and "local_op own (pg_node s) peer x"
  shows "placed own (group_step x s)"
proof -
  have "mem_actor m = i \<and> mem_node m = own i" if "group_spec (pg_node s) x (member_of s) g i = Some m" for g i m
    using assms(1,3) that
    by (cases "(pg_node s, x, member_of s, g, i)" rule: group_spec.cases)
      (auto simp: placed_def split: if_splits option.splits)
  then show ?thesis unfolding placed_def group_step_spec [OF assms(2)] by blast
qed

lemma tracked_step:
  assumes "placed own s" and "pg_ok s" and "pg_node s = a" and "local_op own a b x"
  shows "tracked own a s (group_step x s)"
proof (cases x)
  case (OpJoin g m)
  then show ?thesis
    using assms(3,4) unfolding tracked_def
    by (intro exI [of _ "[JoinUpdate g m]"]) (simp add: join_def from_a_def of_node_eq)
next
  case (OpLeaveAll i)
  have "tracked own a s (fold (\<lambda>g. leave g i) gs s)" if "placed own s" for gs s
    using that
  proof (induction gs arbitrary: s)
    case (Cons g gs)
    have "placed own (leave g i s)" using Cons.prems by (auto simp: placed_def)
    then show ?case
      using tracked_trans [OF tracked_leave [OF Cons.prems] Cons.IH] OpLeaveAll assms(4) by simp
  qed (simp add: tracked_refl)
  then show ?thesis using assms(1) OpLeaveAll by (simp add: leaveAll_def)
next
  case (OpUpdate u)
  then have "pg_published (group_step x s) = pg_published s" by (cases u) simp_all
  moreover have "of_node own a (member_of (group_step x s)) = of_node own a (member_of s)"
    using OpUpdate assms(3,4) by (cases u) (auto simp: of_node_eq)
  ultimately show ?thesis unfolding tracked_def by (intro exI [of _ "[]"]) simp
next
  case (OpPeerLeave n)
  have "of_node own a (member_of (group_step x s)) = of_node own a (member_of s)"
    using assms OpPeerLeave by (auto simp: of_node_eq member_peerLeave placed_def split: option.split)
  then show ?thesis
    using OpPeerLeave unfolding tracked_def by (intro exI [of _ "[]"]) (simp add: pg_handlePeerLeave_def fold_drop_groups_keep)
next
  case OpPeerJoin
  have keep: "fold update_spec us f = f" if "\<forall>u\<in>set us. \<exists>g m. u = JoinUpdate g m \<and> f g (mem_actor m) = Some m" for us f
    using that
  proof (induction us)
    case (Cons u us)
    then obtain g m where "u = JoinUpdate g m" "f g (mem_actor m) = Some m" by auto
    then have "update_spec u f = f" by (auto simp: fun_eq_iff)
    then show ?case using Cons by simp
  qed simp
  have own: "\<exists>g m. u = JoinUpdate g m \<and> member_of s g (mem_actor m) = Some m \<and> mem_node m = a" if own: "u \<in> set (own_updates s)" for u
  proof -
    obtain g ms i m where u: "u = JoinUpdate g m" "(g, ms) \<in> set (pg_groups s)" "(i, m) \<in> set ms" "mem_node m = pg_node s"
      using own unfolding own_updates_def by (auto split: if_splits)
    have "member_of s g i = Some m" using member_in_groups [OF assms(2)] u(2,3) by blast
    then show ?thesis using u assms(1,3) by (auto simp: placed_def)
  qed
  moreover have "from_a own a u" if u: "u \<in> set (own_updates s)" for u
  proof -
    obtain g m where "u = JoinUpdate g m" "member_of s g (mem_actor m) = Some m" "mem_node m = a"
      using own [OF u] by blast
    moreover from this have "mem_node m = own (mem_actor m)" using assms(1) unfolding placed_def by blast
    ultimately show ?thesis by (simp add: from_a_def)
  qed
  moreover have "fold update_spec (own_updates s) (member_of s) = member_of s" using calculation(1) by (intro keep) blast
  ultimately show ?thesis
    using OpPeerJoin unfolding tracked_def by (intro exI [of _ "own_updates s"]) (simp add: pg_handlePeerJoin_def)
qed (use assms tracked_leave in simp)


definition group_inv :: "(string \<Rightarrow> string) \<Rightarrow> string \<Rightarrow> string \<Rightarrow> group_net \<Rightarrow> bool" where
  "group_inv own a b N \<longleftrightarrow> pg_node (gn_a N) = a \<and> pg_node (gn_b N) = b \<and> pg_ok (gn_a N) \<and> pg_ok (gn_b N) \<and>
     placed own (gn_a N) \<and> placed own (gn_b N) \<and> (\<forall>u\<in>set (gn_wire N). from_a own a u) \<and>
     of_node own a (fold update_spec (gn_wire N) (member_of (gn_b N))) = of_node own a (member_of (gn_a N))"

lemma untouched_step:
  assumes "placed own s" and "pg_ok s" and "pg_node s = b" and "local_op own b a x" and "a \<noteq> b"
  shows "of_node own a (member_of (group_step x s)) = of_node own a (member_of s)"
proof -
  have "group_spec b x (member_of s) g i = member_of s g i" if "own i = a" for g i
    using assms that
    by (cases "(b, x, member_of s, g, i)" rule: group_spec.cases) (auto simp: placed_def split: option.split)
  then show ?thesis by (simp add: group_step_spec [OF assms(2)] assms(3) of_node_eq)
qed

lemma group_inv_reachable:
  assumes "a \<noteq> b"
  shows "group_reachable own a b N \<Longrightarrow> group_inv own a b N"
proof (induction rule: group_reachable.induct)
  case start
  then show ?case by (simp add: group_inv_def new_process_groups_def pg_ok_def placed_def member_of_def of_node_eq)
next
  case (at_a N x)
  let ?s = "gn_a N"
  have I: "placed own ?s" "pg_ok ?s" "pg_node ?s = a" using at_a.IH by (simp_all add: group_inv_def)
  obtain us where us: "pg_published (group_step x ?s) = pg_published ?s @ us" "\<forall>u\<in>set us. from_a own a u"
    "of_node own a (fold update_spec us (member_of ?s)) = of_node own a (member_of (group_step x ?s))"
    using tracked_step [OF I at_a.hyps(2)] by (auto simp: tracked_def)
  have "of_node own a (fold update_spec us (fold update_spec (gn_wire N) (member_of (gn_b N)))) = of_node own a (member_of (group_step x ?s))"
    using of_node_fold_cong [of own a _ _ us] us(3) at_a.IH unfolding group_inv_def by metis
  then show ?case
    using at_a us(1,2) placed_step [OF I(1,2)] I group_step_ok by (auto simp: group_inv_def fresh_updates_def)
next
  case (at_b N x)
  let ?s = "gn_b N"
  have I: "placed own ?s" "pg_ok ?s" "pg_node ?s = b" using at_b.IH by (simp_all add: group_inv_def)
  note u = untouched_step [OF I at_b.hyps(2) assms]
  then show ?case
    using at_b.IH of_node_fold_cong [OF u, of "gn_wire N"] placed_step [OF I(1,2)] group_step_ok [OF I(2)] at_b.hyps(2) I(3)
    by (simp add: group_inv_def)
next
  case (arrive N u us)
  let ?s = "gn_b N"
  have I: "placed own ?s" "pg_ok ?s" "pg_node ?s = b" "from_a own a u" using arrive by (simp_all add: group_inv_def)
  then have m: "member_of (pg_handleUpdate u ?s) = update_spec u (member_of ?s)"
    using assms by (cases u) (auto simp: from_a_def fun_eq_iff)
  have "placed own (pg_handleUpdate u ?s)"
    using I(1,4) unfolding placed_def m by (cases u) (auto simp: from_a_def)
  moreover have "pg_ok (pg_handleUpdate u ?s)" "pg_node (pg_handleUpdate u ?s) = b"
    using group_step_ok [OF I(2), of "OpUpdate u"] group_step_node [of "OpUpdate u" ?s] I(3) by simp_all
  ultimately show ?case using arrive m by (simp add: group_inv_def)
qed

text \<open>
  C22: Every node's view of another node's actors is right up to what is on the way: in every state two
  nodes reach, whatever they do on their own actors and learn from third nodes, applying the
  updates still on the wire to \<open>b\<close>'s copy gives exactly the members \<open>a\<close> has among its own
  actors. So when the wire is empty the two copies agree on them.
\<close>

theorem group_copies_agree:
  assumes "group_reachable own a b N" and "a \<noteq> b" and "own i = a"
  shows "fold update_spec (gn_wire N) (member_of (gn_b N)) g i = member_of (gn_a N) g i"
  using group_inv_reachable [OF assms(2,1)] assms(3) by (simp add: group_inv_def of_node_eq)

theorem group_copies_agree_witness:
  "let m = \<lparr>mem_node = ''n'', mem_actor = ''a'', mem_name = None\<rparr>; A = join ''g'' m (new_process_groups ''n'')
   in member_of (pg_handleUpdate (JoinUpdate ''g'' m) (new_process_groups ''k'')) ''g'' ''a'' = member_of A ''g'' ''a''"
proof -
  let ?m = "\<lparr>mem_node = ''n'', mem_actor = ''a'', mem_name = None\<rparr>"
  let ?own = "\<lambda>i. ''n''"
  let ?N = "\<lparr>gn_a = new_process_groups ''n'', gn_b = new_process_groups ''k'', gn_wire = []\<rparr>"
  let ?A = "join ''g'' ?m (new_process_groups ''n'')"
  have "group_reachable ?own ''n'' ''k'' (?N\<lparr>gn_a := group_step (OpJoin ''g'' ?m) (gn_a ?N),
      gn_wire := gn_wire ?N @ fresh_updates (gn_a ?N) (group_step (OpJoin ''g'' ?m) (gn_a ?N))\<rparr>)"
    by (rule group_reachable.at_a [OF group_reachable.start]) simp
  then have "group_reachable ?own ''n'' ''k'' \<lparr>gn_a = ?A, gn_b = new_process_groups ''k'', gn_wire = [JoinUpdate ''g'' ?m]\<rparr>"
    by (simp add: fresh_updates_def join_def)
  from group_copies_agree [OF group_reachable.arrive [OF this, of "JoinUpdate ''g'' ?m" "[]"], where i = "''a''" and g = "''g''"] show ?thesis
    by (simp add: new_process_groups_def)
qed

text \<open>
  A node that adds an actor of another node to a group: the actor's own node ignores the update,
  because it takes it for an echo of its own, so the two copies disagree about that member for good.
\<close>

theorem remote_join_diverges:
  assumes "member_of s g (ref_id r) = None" and "ref_node r = pg_node s" and "jget (pg_groups t) g = None"
    and "joinGroup g r (Some t) = Some t'"
  shows "\<exists>u. pg_published t' = pg_published t @ [u] \<and> member_of t' g (ref_id r) \<noteq> None \<and>
    member_of (pg_handleUpdate u s) g (ref_id r) = None"
  using assms by (auto simp: joinGroup_def join_def member_of_ref_def)

theorem remote_join_diverges_witness:
  "member_of (pg_handleUpdate (JoinUpdate ''g'' (member_of_ref (demo_ref ''n'' ''a''))) (new_process_groups ''n'')) ''g'' ''a'' = None"
proof -
  have "member_of (new_process_groups ''n'') ''g'' (ref_id (demo_ref ''n'' ''a'')) = None"
    "ref_node (demo_ref ''n'' ''a'') = pg_node (new_process_groups ''n'')" "jget (pg_groups (new_process_groups ''k'')) ''g'' = None"
    by (simp_all add: member_of_def new_process_groups_def demo_ref_def)
  from remote_join_diverges [OF this refl [THEN trans], of "join ''g'' (member_of_ref (demo_ref ''n'' ''a'')) (new_process_groups ''k'')"]
  show ?thesis by (auto simp: joinGroup_def join_def demo_ref_def)
qed

end
