(* ===== verification/Dispatchers.thy ===== *)
theory Dispatchers
  imports Actor_State
begin

text \<open>
  The dispatchers of \<open>src/gen_stage.ts\<close>: \<open>DemandDispatcher\<close>, \<open>BroadcastDispatcher\<close> and
  \<open>PartitionDispatcher\<close>, which decide what consumer an event of a producer goes to, and the
  contract the stages use them by: the locale \<open>dispatcher\<close>, interpreted on each of the three and
  on the choice \<open>createDispatcher\<close> makes.
\<close>

section \<open>Subscriptions\<close>

text \<open>\<open>ProducerSub\<close>; the options of a subscription are whole numbers.\<close>

record producer_sub =
  ps_ref :: actor_ref
  ps_demand :: int
  ps_maxDemand :: int
  ps_minDemand :: int

type_synonym subs = "(string, producer_sub) jsmap"

text \<open>An element of \<open>DispatchResult.dispatched\<close>: consumer, tag, events.\<close>

type_synonym 'e batch = "actor_ref \<times> string \<times> 'e list"

definition add_demand :: "int \<Rightarrow> producer_sub \<Rightarrow> producer_sub" where
  "add_demand n sub = sub\<lparr>ps_demand := ps_demand sub + n\<rparr>"

datatype partition_opt = PNumber int | PString string

section \<open>DemandDispatcher\<close>

definition dd_subscribe :: "string \<Rightarrow> producer_sub \<Rightarrow> partition_opt option \<Rightarrow> subs \<Rightarrow> js_error + subs" where
  "dd_subscribe t sub p subs = Inr (jput subs t sub)"

definition dd_cancel :: "string \<Rightarrow> subs \<Rightarrow> subs" where
  "dd_cancel t subs = jdel subs t"

definition totalDemand :: "subs \<Rightarrow> int" where
  "totalDemand subs = sum_list (map (\<lambda>(t, sub). ps_demand sub) subs)"

definition dd_ask :: "string \<Rightarrow> int \<Rightarrow> subs \<Rightarrow> int \<times> subs" where
  "dd_ask t n subs = (let s = jmodify subs t (add_demand n) in (totalDemand s, s))"

text \<open>The first subscriber with the highest positive demand.\<close>

definition better :: "string \<times> producer_sub \<Rightarrow> (string \<times> producer_sub) option \<Rightarrow> (string \<times> producer_sub) option" where
  "better x b = (if ps_demand (snd x) > (case b of None \<Rightarrow> 0 | Some y \<Rightarrow> ps_demand (snd y)) then Some x else b)"

definition best_sub :: "subs \<Rightarrow> (string \<times> producer_sub) option" where
  "best_sub subs = fold better subs None"

lemma fold_better:
  assumes "fold better subs b = Some x"
  shows "b = Some x \<or> x \<in> set subs \<and> 0 < ps_demand (snd x) \<or> (\<exists>y. b = Some y \<and> ps_demand (snd y) < 0)"
  using assms
proof (induction subs arbitrary: b)
  case (Cons s subs)
  from Cons.IH [of "better s b"] Cons.prems show ?case
    by (auto simp: better_def split: if_splits option.splits)
qed simp

lemma best_sub_in: "best_sub subs = Some (t, sub) \<Longrightarrow> (t, sub) \<in> set subs \<and> 0 < ps_demand sub"
  unfolding best_sub_def by (drule fold_better) auto

lemma fold_better_None: "fold better subs b = None \<Longrightarrow> b = None \<and> (\<forall>(t, sub)\<in>set subs. ps_demand sub \<le> 0)"
proof (induction subs arbitrary: b)
  case (Cons s subs)
  from Cons.IH [of "better s b"] Cons.prems show ?case
    by (auto simp: better_def split: if_splits)
qed simp

lemma best_sub_None: "best_sub subs = None \<Longrightarrow> (t, sub) \<in> set subs \<Longrightarrow> ps_demand sub \<le> 0"
  unfolding best_sub_def by (drule fold_better_None) auto

text \<open>The loop for several subscribers, and \<open>dispatch\<close> with its path for a single one.\<close>

function dd_loop :: "subs \<Rightarrow> 'e list \<Rightarrow> 'e batch list \<times> 'e list \<times> subs" where
  "dd_loop subs es =
     (if es = [] then ([], [], subs)
      else case best_sub subs of
        None \<Rightarrow> ([], es, subs)
      | Some (t, sub) \<Rightarrow>
          (let n = min (nat (ps_demand sub)) (length es);
               (bs, rem, subs') = dd_loop (jput subs t (add_demand (- int n) sub)) (drop n es)
           in ((ps_ref sub, t, take n es) # bs, rem, subs')))"
  by pat_completeness auto

termination
  by (relation "measure (\<lambda>(subs, es). length es)") (auto dest: best_sub_in)

declare dd_loop.simps [simp del]

definition dd_dispatch :: "'e list \<Rightarrow> subs \<Rightarrow> (js_error + 'e batch list \<times> 'e list) \<times> subs" where
  "dd_dispatch es subs =
     (case subs of
        [(t, sub)] \<Rightarrow>
          if ps_demand sub > 0 then
            (let n = min (nat (ps_demand sub)) (length es)
             in (Inr ([(ps_ref sub, t, take n es)], drop n es), [(t, add_demand (- int n) sub)]))
          else (Inr ([], es), subs)
      | _ \<Rightarrow> (let (bs, rem, subs') = dd_loop subs es in (Inr (bs, rem), subs')))"

section \<open>BroadcastDispatcher\<close>

record broadcast =
  bc_subs :: subs
  bc_waiting :: int
  bc_requested :: int

definition all_demands :: "int \<Rightarrow> subs \<Rightarrow> subs" where
  "all_demands n subs = map (\<lambda>(t, sub). (t, add_demand n sub)) subs"

definition min_demand :: "subs \<Rightarrow> int" where
  "min_demand subs = (case map (\<lambda>(t, sub). ps_demand sub) subs of [] \<Rightarrow> 0 | d # ds \<Rightarrow> fold min ds d)"

definition syncDemands :: "broadcast \<Rightarrow> int \<times> broadcast" where
  "syncDemands b =
     (let m = min_demand (bc_subs b)
      in if bc_subs b = [] \<or> m \<le> 0 then (0, b)
         else (let w = bc_waiting b + m; request = max 0 (w - bc_requested b)
               in (request, b\<lparr>bc_subs := all_demands (- m) (bc_subs b), bc_waiting := w,
                              bc_requested := bc_requested b + request\<rparr>)))"

definition bc_subscribe :: "string \<Rightarrow> producer_sub \<Rightarrow> partition_opt option \<Rightarrow> broadcast \<Rightarrow> js_error + broadcast" where
  "bc_subscribe t sub p b =
     (let subs = (if bc_waiting b > 0 then all_demands (bc_waiting b) (bc_subs b) else bc_subs b)
      in Inr (b\<lparr>bc_subs := jput subs t sub, bc_waiting := 0\<rparr>))"

text \<open>What \<open>syncDemands\<close> returns, the events to request upstream, is ignored here.\<close>

definition bc_cancel :: "string \<Rightarrow> broadcast \<Rightarrow> broadcast" where
  "bc_cancel t b =
     (let b1 = b\<lparr>bc_subs := jdel (bc_subs b) t\<rparr>
      in if bc_subs b1 = [] then b1\<lparr>bc_waiting := 0, bc_requested := 0\<rparr> else snd (syncDemands b1))"

definition bc_ask :: "string \<Rightarrow> int \<Rightarrow> broadcast \<Rightarrow> int \<times> broadcast" where
  "bc_ask t n b =
     (if jhas (bc_subs b) t then syncDemands (b\<lparr>bc_subs := jmodify (bc_subs b) t (add_demand n)\<rparr>) else (0, b))"

definition bc_dispatch :: "'e list \<Rightarrow> broadcast \<Rightarrow> (js_error + 'e batch list \<times> 'e list) \<times> broadcast" where
  "bc_dispatch es b =
     (if bc_waiting b = 0 \<or> bc_subs b = [] then (Inr ([], es), b)
      else (let n = min (length es) (nat (bc_waiting b))
            in (Inr (map (\<lambda>(t, sub). (ps_ref sub, t, take n es)) (bc_subs b), drop n es),
                b\<lparr>bc_waiting := bc_waiting b - int n, bc_requested := bc_requested b - int n\<rparr>)))"

section \<open>PartitionDispatcher\<close>

text \<open>\<open>pd_hash\<close>: the partition of an event, or \<open>None\<close> for \<open>null\<close>; a whole number.\<close>

record 'e partition =
  pd_count :: nat
  pd_hash :: "'e \<Rightarrow> int option"
  pd_slots :: "(string \<times> producer_sub) option list"
  pd_tags :: "(string, nat) jsmap"
  pd_buffers :: "'e list list"

text \<open>The default hash looks at numbers, strings, and the \<open>key\<close> of objects.\<close>

datatype event_view = ENumber int | EString string | EKeyNumber int | EKeyString string | EOther

definition simpleHash :: "string \<Rightarrow> 32 word" where
  "simpleHash s = fold (\<lambda>c h. push_bit 5 h + h + word_of_nat (of_char c)) s 5381"

definition js_rem :: "int \<Rightarrow> int \<Rightarrow> int" where
  "js_rem k n = sgn k * (\<bar>k\<bar> mod n)"

definition default_hash :: "nat \<Rightarrow> event_view \<Rightarrow> int option" where
  "default_hash n v =
     Some (case v of
        ENumber k \<Rightarrow> js_rem k (int n)
      | EString s \<Rightarrow> js_rem \<bar>sint (simpleHash s)\<bar> (int n)
      | EKeyNumber k \<Rightarrow> js_rem k (int n)
      | EKeyString s \<Rightarrow> js_rem \<bar>sint (simpleHash s)\<bar> (int n)
      | EOther \<Rightarrow> 0)"

definition new_partition :: "nat \<Rightarrow> ('e \<Rightarrow> int option) \<Rightarrow> 'e partition" where
  "new_partition n h = \<lparr>pd_count = n, pd_hash = h, pd_slots = replicate n None, pd_tags = [],
     pd_buffers = replicate n []\<rparr>"

text \<open>\<open>parseInt(text, 10)\<close>: blanks, a sign, then digits; \<open>NaN\<close> without a digit.\<close>

definition is_digit :: "char \<Rightarrow> bool" where
  "is_digit c \<longleftrightarrow> 48 \<le> (of_char c :: nat) \<and> (of_char c :: nat) \<le> 57"

definition digits_value :: "string \<Rightarrow> int" where
  "digits_value ds = fold (\<lambda>c v. 10 * v + (of_char c - 48)) ds 0"

definition parseInt10 :: "string \<Rightarrow> int option" where
  "parseInt10 text =
     (let t = dropWhile (\<lambda>c. of_char c \<in> {9, 10, 11, 12, 13, 32, 160 :: nat}) text;
          (sign, body) = (case t of
             c # cs \<Rightarrow> if c = CHR ''-'' then (-1, cs) else if c = CHR ''+'' then (1, cs) else (1, t)
           | [] \<Rightarrow> (1 :: int, []));
          ds = takeWhile is_digit body
      in if ds = [] then None else Some (sign * digits_value ds))"

definition pd_subscribe ::
  "string \<Rightarrow> producer_sub \<Rightarrow> partition_opt option \<Rightarrow> 'e partition \<Rightarrow> js_error + 'e partition" where
  "pd_subscribe t sub part d =
     (case part of
        None \<Rightarrow> Inl (PlainError ''PartitionDispatcher requires a 'partition' option on subscribe'')
      | Some o' \<Rightarrow>
          (let p = (case o' of PNumber k \<Rightarrow> Some k | PString s \<Rightarrow> parseInt10 s);
               shown = (case o' of PNumber k \<Rightarrow> js_int k | PString s \<Rightarrow> s);
               invalid = Inl (PlainError (''Invalid partition '' @ shown @ ''. Must be 0..'' @ js_int (int (pd_count d) - 1)))
           in case p of
                None \<Rightarrow> invalid
              | Some k \<Rightarrow>
                  if k < 0 \<or> k \<ge> int (pd_count d) then invalid
                  else (case pd_slots d ! nat k of
                          Some (t', _) \<Rightarrow>
                            Inl (PlainError (''Partition '' @ js_int k @ '' is already taken by subscriber '' @ t'))
                        | None \<Rightarrow> Inr (d\<lparr>pd_slots := (pd_slots d)[nat k := Some (t, sub)],
                                         pd_tags := jput (pd_tags d) t (nat k)\<rparr>))))"

definition pd_cancel :: "string \<Rightarrow> 'e partition \<Rightarrow> 'e partition" where
  "pd_cancel t d =
     (case jget (pd_tags d) t of
        None \<Rightarrow> d
      | Some p \<Rightarrow> d\<lparr>pd_slots := (pd_slots d)[p := None], pd_tags := jdel (pd_tags d) t\<rparr>)"

definition slot_demand :: "nat \<Rightarrow> 'e partition \<Rightarrow> int" where
  "slot_demand p d = (case pd_slots d ! p of None \<Rightarrow> 0 | Some (t, sub) \<Rightarrow> ps_demand sub)"

definition give_slot :: "nat \<Rightarrow> int \<Rightarrow> 'e partition \<Rightarrow> 'e partition" where
  "give_slot p n d = d\<lparr>pd_slots := (pd_slots d)[p := map_option (\<lambda>(t, sub). (t, add_demand n sub)) (pd_slots d ! p)]\<rparr>"

definition pd_ask :: "string \<Rightarrow> int \<Rightarrow> 'e partition \<Rightarrow> int \<times> 'e partition" where
  "pd_ask t n d =
     (case jget (pd_tags d) t of
        None \<Rightarrow> (0, d)
      | Some p \<Rightarrow> (case pd_slots d ! p of None \<Rightarrow> (0, d) | Some _ \<Rightarrow> (n, give_slot p n d)))"

text \<open>The first loop of \<open>dispatch\<close>: an event is discarded, buffered or put into its bucket.\<close>

fun pd_route :: "'e list \<Rightarrow> 'e list list \<Rightarrow> 'e partition \<Rightarrow> (js_error + 'e list list) \<times> 'e partition" where
  "pd_route [] bk d = (Inr bk, d)"
| "pd_route (e # es) bk d =
     (case pd_hash d e of
        None \<Rightarrow> pd_route es bk d
      | Some k \<Rightarrow>
          if k < 0 \<or> k \<ge> int (pd_count d) then
            (Inl (PlainError (''Hash returned invalid partition '' @ js_int k @ ''. Must be 0..''
               @ js_int (int (pd_count d) - 1) @ '' or null'')), d)
          else
            (let p = nat k
             in if slot_demand p d \<le> 0
                then pd_route es bk (d\<lparr>pd_buffers := (pd_buffers d)[p := pd_buffers d ! p @ [e]]\<rparr>)
                else pd_route es (bk[p := bk ! p @ [e]]) (give_slot p (- 1) d)))"

text \<open>The second loop: what the buffers hold, as far as there is demand.\<close>

definition pd_drain :: "nat \<Rightarrow> 'e list list \<times> 'e partition \<Rightarrow> 'e list list \<times> 'e partition" where
  "pd_drain p x =
     (case x of (bk, d) \<Rightarrow>
        let buf = pd_buffers d ! p; dem = slot_demand p d
        in if buf = [] \<or> dem \<le> 0 then (bk, d)
           else (let n = min (nat dem) (length buf)
                 in (bk[p := bk ! p @ take n buf],
                     (give_slot p (- int n) d)\<lparr>pd_buffers := (pd_buffers d)[p := drop n buf]\<rparr>)))"

definition pd_batches :: "'e list list \<Rightarrow> 'e partition \<Rightarrow> 'e batch list" where
  "pd_batches bk d = concat (map (\<lambda>p. if bk ! p = [] then []
     else case pd_slots d ! p of None \<Rightarrow> [] | Some (t, sub) \<Rightarrow> [(ps_ref sub, t, bk ! p)]) [0..<pd_count d])"

definition pd_dispatch :: "'e list \<Rightarrow> 'e partition \<Rightarrow> (js_error + 'e batch list \<times> 'e list) \<times> 'e partition" where
  "pd_dispatch es d =
     (case pd_route es (replicate (pd_count d) []) d of
        (Inl e, d1) \<Rightarrow> (Inl e, d1)
      | (Inr bk, d1) \<Rightarrow> (let (bk', d2) = fold pd_drain [0..<pd_count d] (bk, d1) in (Inr (pd_batches bk' d2, []), d2)))"

section \<open>The dispatcher of a stage\<close>

datatype 'e dispatcher =
    DemandDispatcher subs
  | BroadcastDispatcher broadcast
  | PartitionDispatcher "'e partition"

datatype 'e dispatcher_config = DemandConfig | BroadcastConfig | PartitionConfig nat "('e \<Rightarrow> int option) option"

definition createDispatcher :: "('e \<Rightarrow> event_view) \<Rightarrow> 'e dispatcher_config option \<Rightarrow> 'e dispatcher" where
  "createDispatcher view config =
     (case config of
        None \<Rightarrow> DemandDispatcher []
      | Some DemandConfig \<Rightarrow> DemandDispatcher []
      | Some BroadcastConfig \<Rightarrow> BroadcastDispatcher \<lparr>bc_subs = [], bc_waiting = 0, bc_requested = 0\<rparr>
      | Some (PartitionConfig n h) \<Rightarrow>
          PartitionDispatcher (new_partition n (case h of None \<Rightarrow> default_hash n \<circ> view | Some f \<Rightarrow> f)))"

fun disp_subscribe ::
  "string \<Rightarrow> producer_sub \<Rightarrow> partition_opt option \<Rightarrow> 'e dispatcher \<Rightarrow> js_error + 'e dispatcher" where
  "disp_subscribe t sub p (DemandDispatcher d) = map_sum id DemandDispatcher (dd_subscribe t sub p d)"
| "disp_subscribe t sub p (BroadcastDispatcher d) = map_sum id BroadcastDispatcher (bc_subscribe t sub p d)"
| "disp_subscribe t sub p (PartitionDispatcher d) = map_sum id PartitionDispatcher (pd_subscribe t sub p d)"

fun disp_cancel :: "string \<Rightarrow> 'e dispatcher \<Rightarrow> 'e dispatcher" where
  "disp_cancel t (DemandDispatcher d) = DemandDispatcher (dd_cancel t d)"
| "disp_cancel t (BroadcastDispatcher d) = BroadcastDispatcher (bc_cancel t d)"
| "disp_cancel t (PartitionDispatcher d) = PartitionDispatcher (pd_cancel t d)"

fun disp_ask :: "string \<Rightarrow> int \<Rightarrow> 'e dispatcher \<Rightarrow> int \<times> 'e dispatcher" where
  "disp_ask t n (DemandDispatcher d) = map_prod id DemandDispatcher (dd_ask t n d)"
| "disp_ask t n (BroadcastDispatcher d) = map_prod id BroadcastDispatcher (bc_ask t n d)"
| "disp_ask t n (PartitionDispatcher d) = map_prod id PartitionDispatcher (pd_ask t n d)"

fun disp_dispatch :: "'e list \<Rightarrow> 'e dispatcher \<Rightarrow> (js_error + 'e batch list \<times> 'e list) \<times> 'e dispatcher" where
  "disp_dispatch es (DemandDispatcher d) = map_prod id DemandDispatcher (dd_dispatch es d)"
| "disp_dispatch es (BroadcastDispatcher d) = map_prod id BroadcastDispatcher (bc_dispatch es d)"
| "disp_dispatch es (PartitionDispatcher d) = map_prod id PartitionDispatcher (pd_dispatch es d)"

fun disp_hasSubscribers :: "'e dispatcher \<Rightarrow> bool" where
  "disp_hasSubscribers (DemandDispatcher d) \<longleftrightarrow> d \<noteq> []"
| "disp_hasSubscribers (BroadcastDispatcher d) \<longleftrightarrow> bc_subs d \<noteq> []"
| "disp_hasSubscribers (PartitionDispatcher d) \<longleftrightarrow> (\<exists>x\<in>set (pd_slots d). x \<noteq> None)"

fun disp_has :: "string \<Rightarrow> 'e dispatcher \<Rightarrow> bool" where
  "disp_has t (DemandDispatcher d) \<longleftrightarrow> jhas d t"
| "disp_has t (BroadcastDispatcher d) \<longleftrightarrow> jhas (bc_subs d) t"
| "disp_has t (PartitionDispatcher d) \<longleftrightarrow> jhas (pd_tags d) t"


section \<open>The contract\<close>

definition sent :: "string \<Rightarrow> 'e batch list \<Rightarrow> int" where
  "sent t bs = sum_list (map (\<lambda>(r, u, es). if u = t then int (length es) else 0) bs)"

lemma sent_simps [simp]:
  "sent t [] = 0" "sent t ((r, u, es) # bs) = (if u = t then int (length es) else 0) + sent t bs"
  "sent t (bs @ bs') = sent t bs + sent t bs'"
  by (simp_all add: sent_def)

lemma sent_nonneg [simp]: "0 \<le> sent t bs"
  by (induction bs) auto

text \<open>
  What a stage relies on: a dispatcher knows its consumers (\<open>target\<close>) and how many more events
  each has asked for (\<open>credit\<close>); asking adds to the credit, dispatching takes from it, sends to
  known consumers with credit only, and never overdraws it.
\<close>

locale dispatcher_laws =
  fixes subscribe :: "string \<Rightarrow> producer_sub \<Rightarrow> partition_opt option \<Rightarrow> 'd \<Rightarrow> js_error + 'd"
    and cancel :: "string \<Rightarrow> 'd \<Rightarrow> 'd"
    and ask :: "string \<Rightarrow> int \<Rightarrow> 'd \<Rightarrow> int \<times> 'd"
    and dispatch :: "'e list \<Rightarrow> 'd \<Rightarrow> (js_error + 'e batch list \<times> 'e list) \<times> 'd"
    and dinv :: "'d \<Rightarrow> bool"
    and credit :: "'d \<Rightarrow> string \<Rightarrow> int"
    and target :: "'d \<Rightarrow> string \<Rightarrow> actor_ref option"
  assumes subscribe_ok: "dinv d \<Longrightarrow> target d t = None \<Longrightarrow> ps_demand sub = 0 \<Longrightarrow> subscribe t sub p d = Inr d' \<Longrightarrow>
      dinv d' \<and> target d' = (target d)(t \<mapsto> ps_ref sub) \<and> credit d' = credit d"
    and cancel_ok: "dinv d \<Longrightarrow> dinv (cancel t d) \<and> target (cancel t d) = (target d)(t := None) \<and>
      credit (cancel t d) = (credit d)(t := 0)"
    and ask_ok: "dinv d \<Longrightarrow> 0 \<le> n \<Longrightarrow> dinv (snd (ask t n d)) \<and> target (snd (ask t n d)) = target d \<and>
      credit (snd (ask t n d)) = (if target d t = None then credit d else (credit d)(t := credit d t + n))"
    and dispatch_ok: "dinv d \<Longrightarrow> dispatch es d = (Inr (bs, rem), d') \<Longrightarrow>
      dinv d' \<and> target d' = target d \<and> (\<forall>t. credit d' t = credit d t - sent t bs) \<and>
      (\<forall>r t b. (r, t, b) \<in> set bs \<longrightarrow> target d t = Some r \<and> 0 < credit d t)"
    and credit_nonneg: "dinv d \<Longrightarrow> 0 \<le> credit d t"
    and credit_absent: "dinv d \<Longrightarrow> target d t = None \<Longrightarrow> credit d t = 0"
begin

text \<open>No dispatch sends more than was asked for.\<close>

lemma dispatch_bounded: "dinv d \<Longrightarrow> dispatch es d = (Inr (bs, rem), d') \<Longrightarrow> sent t bs \<le> credit d t"
  using dispatch_ok [of d es bs rem d'] credit_nonneg [of d' t] by (metis diff_ge_0_iff_ge)

lemma nothing_without_subscribers:
  "dinv d \<Longrightarrow> target d = Map.empty \<Longrightarrow> dispatch es d = (Inr (bs, rem), d') \<Longrightarrow> bs = []"
  using dispatch_ok [of d es bs rem d'] by (cases bs) auto

end

section \<open>DemandDispatcher keeps the contract\<close>

definition dd_inv :: "subs \<Rightarrow> bool" where
  "dd_inv d \<longleftrightarrow> jwf d \<and> (\<forall>t sub. jget d t = Some sub \<longrightarrow> 0 \<le> ps_demand sub)"

definition sub_credit :: "subs \<Rightarrow> string \<Rightarrow> int" where
  "sub_credit d t = (case jget d t of None \<Rightarrow> 0 | Some sub \<Rightarrow> ps_demand sub)"

definition sub_target :: "subs \<Rightarrow> string \<Rightarrow> actor_ref option" where
  "sub_target d t = map_option ps_ref (jget d t)"

lemma add_demand_simps [simp]: "ps_demand (add_demand n sub) = ps_demand sub + n" "ps_ref (add_demand n sub) = ps_ref sub"
  by (simp_all add: add_demand_def)

lemma best_sub_get: "jwf subs \<Longrightarrow> best_sub subs = Some (t, sub) \<Longrightarrow> jget subs t = Some sub \<and> 0 < ps_demand sub"
  using best_sub_in jget_in_set by metis

lemma dd_loop_ok:
  assumes "dd_inv d" and "dd_loop d es = (bs, rem, d')"
  shows "dd_inv d' \<and> sub_target d' = sub_target d \<and> (\<forall>t. sub_credit d' t = sub_credit d t - sent t bs) \<and>
     (\<forall>r t b. (r, t, b) \<in> set bs \<longrightarrow> sub_target d t = Some r \<and> 0 < sub_credit d t)"
  using assms
proof (induction d es arbitrary: bs rem d' rule: dd_loop.induct)
  case (1 d es)
  show ?case
  proof (cases "es = [] \<or> best_sub d = None")
    case True
    then have "dd_loop d es = ([], es, d)" by (subst dd_loop.simps) auto
    then show ?thesis using "1.prems" by simp
  next
    case False
    then obtain t sub where b: "best_sub d = Some (t, sub)" and e: "es \<noteq> []" by auto
    let ?n = "min (nat (ps_demand sub)) (length es)"
    let ?d = "jput d t (add_demand (- int ?n) sub)"
    obtain bs1 rem1 d1 where r: "dd_loop ?d (drop ?n es) = (bs1, rem1, d1)" by (metis prod_cases3)
    have res: "bs = (ps_ref sub, t, take ?n es) # bs1" "d' = d1"
      using "1.prems"(2) b e r by (subst (asm) dd_loop.simps, simp add: Let_def)+
    have g: "jget d t = Some sub" "0 < ps_demand sub"
      using best_sub_get [OF _ b] "1.prems"(1) by (auto simp: dd_inv_def)
    have "dd_inv ?d" using "1.prems"(1) g by (auto simp: dd_inv_def)
    from "1.IH" [OF e b refl refl this r]
    have IH: "dd_inv d1" "sub_target d1 = sub_target ?d" "\<forall>u. sub_credit d1 u = sub_credit ?d u - sent u bs1"
      "\<forall>r u b. (r, u, b) \<in> set bs1 \<longrightarrow> sub_target ?d u = Some r \<and> 0 < sub_credit ?d u" by auto
    moreover have T: "sub_target ?d = sub_target d" using g by (auto simp: sub_target_def fun_eq_iff)
    moreover have C: "sub_credit ?d u = sub_credit d u - (if u = t then int ?n else 0)" for u
      using g by (auto simp: sub_credit_def)
    moreover have "sub_target d t = Some (ps_ref sub)" "0 < sub_credit d t" using g by (simp_all add: sub_target_def sub_credit_def)
    moreover have "0 < sub_credit d u" if "0 < sub_credit ?d u" for u using that unfolding C by (simp split: if_splits)
    ultimately show ?thesis unfolding res by auto
  qed
qed

lemma dd_dispatch_ok:
  assumes "dd_inv d" and "dd_dispatch es d = (Inr (bs, rem), d')"
  shows "dd_inv d' \<and> sub_target d' = sub_target d \<and> (\<forall>t. sub_credit d' t = sub_credit d t - sent t bs) \<and>
     (\<forall>r t b. (r, t, b) \<in> set bs \<longrightarrow> sub_target d t = Some r \<and> 0 < sub_credit d t)"
proof (cases "\<exists>t sub. d = [(t, sub)]")
  case True
  then obtain t sub where d: "d = [(t, sub)]" by auto
  show ?thesis
    using assms unfolding d
    by (auto simp: dd_dispatch_def dd_inv_def sub_target_def sub_credit_def fun_eq_iff Let_def split: if_splits)
next
  case False
  then have "dd_dispatch es d = (let (bs, rem, subs') = dd_loop d es in (Inr (bs, rem), subs'))"
    by (auto simp: dd_dispatch_def split: list.split)
  then have "dd_loop d es = (bs, rem, d')" using assms(2) by (simp add: split_beta Let_def prod_eq_iff)
  then show ?thesis by (rule dd_loop_ok [OF assms(1)])
qed

interpretation demand: dispatcher_laws dd_subscribe dd_cancel dd_ask dd_dispatch dd_inv sub_credit sub_target
proof
  show "dd_inv d' \<and> sub_target d' = (sub_target d)(t \<mapsto> ps_ref sub) \<and> sub_credit d' = sub_credit d"
    if "dd_inv d" "sub_target d t = None" "ps_demand sub = 0" "dd_subscribe t sub p d = Inr d'" for d t sub p d'
    using that by (auto simp: dd_subscribe_def dd_inv_def sub_target_def sub_credit_def fun_eq_iff split: option.split if_splits)
  show "dd_inv (dd_cancel t d) \<and> sub_target (dd_cancel t d) = (sub_target d)(t := None) \<and>
      sub_credit (dd_cancel t d) = (sub_credit d)(t := 0)" if "dd_inv d" for d t
    using that by (auto simp: dd_cancel_def dd_inv_def sub_target_def sub_credit_def fun_eq_iff split: if_splits)
  show "dd_inv (snd (dd_ask t n d)) \<and> sub_target (snd (dd_ask t n d)) = sub_target d \<and> sub_credit (snd (dd_ask t n d)) =
      (if sub_target d t = None then sub_credit d else (sub_credit d)(t := sub_credit d t + n))" if "dd_inv d" "0 \<le> n" for d t n
    using that
    by (auto simp: dd_ask_def Let_def dd_inv_def sub_target_def sub_credit_def fun_eq_iff split: option.split if_splits)
  show "dd_inv d' \<and> sub_target d' = sub_target d \<and> (\<forall>t. sub_credit d' t = sub_credit d t - sent t bs) \<and>
     (\<forall>r t b. (r, t, b) \<in> set bs \<longrightarrow> sub_target d t = Some r \<and> 0 < sub_credit d t)"
    if "dd_inv d" "dd_dispatch es d = (Inr (bs, rem), d')" for d es bs rem d'
    using that by (rule dd_dispatch_ok)
  show "0 \<le> sub_credit d t" if "dd_inv d" for d t using that by (auto simp: dd_inv_def sub_credit_def split: option.split)
  show "sub_credit d t = 0" if "dd_inv d" "sub_target d t = None" for d t using that by (simp add: sub_target_def sub_credit_def)
qed


section \<open>BroadcastDispatcher keeps the contract\<close>

definition bc_inv :: "broadcast \<Rightarrow> bool" where
  "bc_inv b \<longleftrightarrow> jwf (bc_subs b) \<and> (\<forall>t sub. jget (bc_subs b) t = Some sub \<longrightarrow> 0 \<le> ps_demand sub) \<and>
     0 \<le> bc_waiting b"

text \<open>What a consumer has asked for and has not got: its own demand and the common one.\<close>

definition bc_credit :: "broadcast \<Rightarrow> string \<Rightarrow> int" where
  "bc_credit b t = (case jget (bc_subs b) t of None \<Rightarrow> 0 | Some sub \<Rightarrow> ps_demand sub + bc_waiting b)"

definition bc_target :: "broadcast \<Rightarrow> string \<Rightarrow> actor_ref option" where
  "bc_target b = sub_target (bc_subs b)"

lemma jget_all_demands [simp]: "jget (all_demands n d) t = map_option (add_demand n) (jget d t)"
  by (induction d) (auto simp: all_demands_def)

lemma jkeys_all_demands [simp]: "jkeys (all_demands n d) = jkeys d"
  by (induction d) (auto simp: all_demands_def)

lemma fold_min_le: "fold min ds (x :: int) \<le> x \<and> (\<forall>d\<in>set ds. fold min ds x \<le> d)"
proof (induction ds arbitrary: x)
  case (Cons d ds)
  from Cons.IH [of "min d x"] show ?case by auto
qed simp

lemma min_demand_le: "jget d t = Some sub \<Longrightarrow> min_demand d \<le> ps_demand sub"
proof (cases d)
  case (Cons x xs)
  assume "jget d t = Some sub"
  then have "(t, sub) \<in> set d" by (rule map_of_SomeD)
  then show ?thesis
    using Cons fold_min_le [of "map (\<lambda>(t, sub). ps_demand sub) xs" "ps_demand (snd x)"]
    by (cases x) (force simp: min_demand_def)
qed simp

lemma sent_all: "jwf d \<Longrightarrow> sent t (map (\<lambda>(u, sub). (ps_ref sub, u, es)) d) = (if jhas d t then int (length es) else 0)"
  by (induction d) (auto simp: jhas_iff simp del: set_map)

lemma sub_target_all [simp]: "sub_target (all_demands n d) = sub_target d"
  by (auto simp: sub_target_def fun_eq_iff option.map_comp o_def)

lemma syncDemands_ok:
  assumes "bc_inv b"
  shows "bc_inv (snd (syncDemands b)) \<and> bc_target (snd (syncDemands b)) = bc_target b \<and>
     bc_credit (snd (syncDemands b)) = bc_credit b"
proof (cases "bc_subs b = [] \<or> min_demand (bc_subs b) \<le> 0")
  case False
  let ?m = "min_demand (bc_subs b)"
  have s: "bc_subs (snd (syncDemands b)) = all_demands (- ?m) (bc_subs b)"
    "bc_waiting (snd (syncDemands b)) = bc_waiting b + ?m"
    using False by (simp_all add: syncDemands_def Let_def)
  have "bc_inv (snd (syncDemands b))"
    unfolding bc_inv_def s using assms False min_demand_le by (force simp: bc_inv_def)
  moreover have "bc_credit (snd (syncDemands b)) = bc_credit b"
    unfolding bc_credit_def s by (auto simp: fun_eq_iff split: option.split)
  moreover have "bc_target (snd (syncDemands b)) = bc_target b" unfolding bc_target_def s by simp
  ultimately show ?thesis by blast
qed (use assms in \<open>auto simp: syncDemands_def Let_def\<close>)

interpretation broadcast: dispatcher_laws bc_subscribe bc_cancel bc_ask bc_dispatch bc_inv bc_credit bc_target
proof
  show "bc_inv d' \<and> bc_target d' = (bc_target d)(t \<mapsto> ps_ref sub) \<and> bc_credit d' = bc_credit d"
    if "bc_inv d" "bc_target d t = None" "ps_demand sub = 0" "bc_subscribe t sub p d = Inr d'" for d t sub p d'
    using that
    by (auto simp: bc_subscribe_def Let_def bc_inv_def bc_target_def sub_target_def bc_credit_def fun_eq_iff
        option.map_comp o_def split: option.split if_splits)
  show "bc_inv (bc_cancel t d) \<and> bc_target (bc_cancel t d) = (bc_target d)(t := None) \<and>
      bc_credit (bc_cancel t d) = (bc_credit d)(t := 0)" if "bc_inv d" for d t
  proof -
    let ?d = "d\<lparr>bc_subs := jdel (bc_subs d) t\<rparr>"
    have I: "bc_inv ?d" "bc_target ?d = (bc_target d)(t := None)" "bc_credit ?d = (bc_credit d)(t := 0)"
      using that
      by (auto simp: bc_inv_def bc_target_def sub_target_def bc_credit_def fun_eq_iff split: if_splits option.split)
    have "bc_inv (?d\<lparr>bc_waiting := 0, bc_requested := 0\<rparr>)" "bc_credit (?d\<lparr>bc_waiting := 0, bc_requested := 0\<rparr>) = bc_credit ?d"
      "bc_target (?d\<lparr>bc_waiting := 0, bc_requested := 0\<rparr>) = bc_target ?d" if "jdel (bc_subs d) t = []"
      using that by (auto simp: bc_inv_def bc_target_def bc_credit_def fun_eq_iff)
    then show ?thesis
      using I syncDemands_ok [OF I(1)] by (cases "jdel (bc_subs d) t = []") (simp_all add: bc_cancel_def Let_def)
  qed
  show "bc_inv (snd (bc_ask t n d)) \<and> bc_target (snd (bc_ask t n d)) = bc_target d \<and> bc_credit (snd (bc_ask t n d)) =
      (if bc_target d t = None then bc_credit d else (bc_credit d)(t := bc_credit d t + n))" if "bc_inv d" "0 \<le> n" for d t n
  proof (cases "jhas (bc_subs d) t")
    case True
    let ?d = "d\<lparr>bc_subs := jmodify (bc_subs d) t (add_demand n)\<rparr>"
    have I: "bc_inv ?d" "bc_target ?d = bc_target d" "bc_credit ?d = (bc_credit d)(t := bc_credit d t + n)"
      using that True
      by (auto simp: bc_inv_def bc_target_def sub_target_def bc_credit_def fun_eq_iff jhas_def option.map_comp o_def
          split: if_splits option.split)
    have "bc_target d t \<noteq> None" using True by (auto simp: bc_target_def sub_target_def jhas_def)
    then show ?thesis using True I syncDemands_ok [OF I(1)] by (auto simp: bc_ask_def)
  next
    case False
    then have "bc_target d t = None" by (simp add: bc_target_def sub_target_def jhas_def)
    then show ?thesis using False that by (simp add: bc_ask_def)
  qed
  show "bc_inv d' \<and> bc_target d' = bc_target d \<and> (\<forall>t. bc_credit d' t = bc_credit d t - sent t bs) \<and>
     (\<forall>r t b. (r, t, b) \<in> set bs \<longrightarrow> bc_target d t = Some r \<and> 0 < bc_credit d t)"
    if d: "bc_inv d" "bc_dispatch es d = (Inr (bs, rem), d')" for d es bs rem d'
  proof (cases "bc_waiting d = 0 \<or> bc_subs d = []")
    case False
    let ?n = "min (length es) (nat (bc_waiting d))"
    have w: "jwf (bc_subs d)" using d(1) by (simp add: bc_inv_def)
    have e: "bs = map (\<lambda>(u, sub). (ps_ref sub, u, take ?n es)) (bc_subs d)"
      "d' = d\<lparr>bc_waiting := bc_waiting d - int ?n, bc_requested := bc_requested d - int ?n\<rparr>"
      using d(2) False by (auto simp: bc_dispatch_def Let_def)
    have g: "jget (bc_subs d) u = Some sub" if "(u, sub) \<in> set (bc_subs d)" for u sub
      using that jget_in_set [OF w] by blast
    moreover have "0 < ps_demand sub + bc_waiting d" if "(u, sub) \<in> set (bc_subs d)" for u sub
    proof -
      have "0 \<le> ps_demand sub" "0 \<le> bc_waiting d" using g [OF that] d(1) by (auto simp: bc_inv_def)
      then show ?thesis using False by linarith
    qed
    ultimately show ?thesis
      using d(1) unfolding e
      by (auto simp: sent_all [OF w] bc_inv_def bc_target_def sub_target_def bc_credit_def jhas_def split: option.split)
  qed (use d in \<open>auto simp: bc_dispatch_def\<close>)
  show "0 \<le> bc_credit d t" if "bc_inv d" for d t using that by (auto simp: bc_inv_def bc_credit_def split: option.split)
  show "bc_credit d t = 0" if "bc_inv d" "bc_target d t = None" for d t
    using that by (simp add: bc_target_def sub_target_def bc_credit_def)
qed


section \<open>PartitionDispatcher keeps the contract\<close>

definition pd_inv :: "'e partition \<Rightarrow> bool" where
  "pd_inv d \<longleftrightarrow> length (pd_slots d) = pd_count d \<and> length (pd_buffers d) = pd_count d \<and>
     (\<forall>t p. jget (pd_tags d) t = Some p \<longleftrightarrow> p < pd_count d \<and> (\<exists>sub. pd_slots d ! p = Some (t, sub))) \<and>
     (\<forall>p<pd_count d. 0 \<le> slot_demand p d)"

definition pd_credit :: "'e partition \<Rightarrow> string \<Rightarrow> int" where
  "pd_credit d t = (case jget (pd_tags d) t of None \<Rightarrow> 0 | Some p \<Rightarrow> slot_demand p d)"

definition slot_ref :: "nat \<Rightarrow> 'e partition \<Rightarrow> actor_ref option" where
  "slot_ref p d = map_option (\<lambda>(t, sub). ps_ref sub) (pd_slots d ! p)"

definition pd_target :: "'e partition \<Rightarrow> string \<Rightarrow> actor_ref option" where
  "pd_target d t = (case jget (pd_tags d) t of None \<Rightarrow> None | Some p \<Rightarrow> slot_ref p d)"

lemma give_slot_simps [simp]:
  "pd_count (give_slot p n d) = pd_count d" "pd_tags (give_slot p n d) = pd_tags d"
  "pd_buffers (give_slot p n d) = pd_buffers d" "pd_hash (give_slot p n d) = pd_hash d"
  "length (pd_slots (give_slot p n d)) = length (pd_slots d)"
  by (simp_all add: give_slot_def)

lemma slot_more [simp]: "slot_demand p (d\<lparr>pd_buffers := b\<rparr>) = slot_demand p d" "slot_ref p (d\<lparr>pd_buffers := b\<rparr>) = slot_ref p d"
  by (simp_all add: slot_demand_def slot_ref_def)

lemma slot_give:
  "p < length (pd_slots d) \<Longrightarrow> slot_demand q (give_slot p n d) =
     slot_demand q d + (if q = p \<and> pd_slots d ! p \<noteq> None then n else 0)"
  "p < length (pd_slots d) \<Longrightarrow> slot_ref q (give_slot p n d) = slot_ref q d"
  by (cases "pd_slots d ! p"; auto simp: slot_demand_def slot_ref_def give_slot_def nth_list_update)+

lemma slots_give:
  "p < length (pd_slots d) \<Longrightarrow> (\<exists>sub. pd_slots (give_slot p n d) ! q = Some (t, sub)) \<longleftrightarrow> (\<exists>sub. pd_slots d ! q = Some (t, sub))"
  by (auto simp: give_slot_def nth_list_update)

lemma tag_of_slot: "pd_inv d \<Longrightarrow> p < pd_count d \<Longrightarrow> pd_slots d ! p = Some (t, sub) \<Longrightarrow> jget (pd_tags d) t = Some p"
  by (simp add: pd_inv_def)

lemma pd_inv_give:
  assumes "pd_inv d" and "p < pd_count d" and "0 \<le> slot_demand p d + n"
  shows "pd_inv (give_slot p n d)"
  using assms by (auto simp: pd_inv_def slots_give slot_give)

lemma pd_inv_buffers: "pd_inv d \<Longrightarrow> length b = pd_count d \<Longrightarrow> pd_inv (d\<lparr>pd_buffers := b\<rparr>)"
  by (simp add: pd_inv_def)

lemma slot_some: "0 < slot_demand p d \<Longrightarrow> pd_slots d ! p \<noteq> None"
  by (auto simp: slot_demand_def split: option.splits)

text \<open>What the loops of \<open>dispatch\<close> keep: an event in a bucket is paid for with demand.\<close>

definition routed :: "'e partition \<Rightarrow> 'e list list \<Rightarrow> 'e partition \<Rightarrow> bool" where
  "routed d0 bk d \<longleftrightarrow> pd_inv d \<and> pd_tags d = pd_tags d0 \<and> pd_count d = pd_count d0 \<and> length bk = pd_count d \<and>
     (\<forall>p<pd_count d. int (length (bk ! p)) + slot_demand p d = slot_demand p d0 \<and> slot_ref p d = slot_ref p d0 \<and>
        (bk ! p \<noteq> [] \<longrightarrow> pd_slots d ! p \<noteq> None))"

lemma routed_buffers: "routed d0 bk d \<Longrightarrow> length b = pd_count d \<Longrightarrow> routed d0 bk (d\<lparr>pd_buffers := b\<rparr>)"
  using pd_inv_buffers [of d b] by (simp add: routed_def)

lemma routed_give:
  assumes r: "routed d0 bk d" and p: "p < pd_count d" and n: "int (length xs) \<le> slot_demand p d" "0 < slot_demand p d"
  shows "routed d0 (bk[p := bk ! p @ xs]) (give_slot p (- int (length xs)) d)"
proof -
  have d: "pd_inv d" using r by (simp add: routed_def)
  then have d': "length (pd_slots d) = pd_count d" by (simp add: pd_inv_def)
  have s: "pd_slots d ! p \<noteq> None" using n(2) by (rule slot_some)
  have "pd_slots (give_slot p k d) ! q \<noteq> None \<longleftrightarrow> pd_slots d ! q \<noteq> None" for q k
    using p d' by (auto simp: give_slot_def nth_list_update)
  then show ?thesis
    using r p d d' s pd_inv_give [OF d p, of "- int (length xs)"] n
    unfolding routed_def by (simp add: slot_give nth_list_update)
qed

lemma pd_route_ok:
  "routed d0 bk d \<Longrightarrow> pd_route es bk d = (Inr bk', d') \<Longrightarrow> routed d0 bk' d'"
proof (induction es bk d rule: pd_route.induct)
  case (2 e es bk d)
  show ?case
  proof (cases "pd_hash d e")
    case None
    then show ?thesis using 2 by simp
  next
    case (Some k)
    then have k: "\<not> (k < 0 \<or> k \<ge> int (pd_count d))" using 2(5) by (auto split: if_splits)
    then have p: "nat k < pd_count d" by auto
    show ?thesis
    proof (cases "slot_demand (nat k) d \<le> 0")
      case True
      have l: "length ((pd_buffers d)[nat k := pd_buffers d ! nat k @ [e]]) = pd_count d"
        using 2(4) by (simp add: routed_def pd_inv_def)
      have "pd_route es bk (d\<lparr>pd_buffers := (pd_buffers d)[nat k := pd_buffers d ! nat k @ [e]]\<rparr>) = (Inr bk', d')"
        using 2(5) Some k True by (simp add: Let_def)
      then show ?thesis by (rule 2(2) [OF Some k refl True routed_buffers [OF 2(4) l]])
    next
      case False
      have "routed d0 (bk[nat k := bk ! nat k @ [e]]) (give_slot (nat k) (- 1) d)"
        using routed_give [OF 2(4) p, of "[e]"] False by simp
      then show ?thesis
      proof (rule 2(3) [OF Some k refl False])
        show "pd_route es (bk[nat k := bk ! nat k @ [e]]) (give_slot (nat k) (- 1) d) = (Inr bk', d')"
          using 2(5) Some k False by (simp add: Let_def)
      qed
    qed
  qed
qed simp

lemma pd_drain_ok:
  assumes "routed d0 (fst x) (snd x)" and "p < pd_count (snd x)"
  shows "routed d0 (fst (pd_drain p x)) (snd (pd_drain p x))"
proof -
  obtain bk d where x: "x = (bk, d)" by (cases x)
  let ?n = "min (nat (slot_demand p d)) (length (pd_buffers d ! p))"
  have len: "length (pd_buffers d) = pd_count d" using assms(1) by (simp add: x routed_def pd_inv_def)
  show ?thesis
  proof (cases "pd_buffers d ! p = [] \<or> slot_demand p d \<le> 0")
    case False
    have "routed d0 (bk[p := bk ! p @ take ?n (pd_buffers d ! p)]) (give_slot p (- int ?n) d)"
    proof -
      have "int ?n \<le> slot_demand p d" "0 < slot_demand p d" using False by auto
      then show ?thesis using routed_give [of d0 bk d p "take ?n (pd_buffers d ! p)"] assms by (simp add: x)
    qed
    then have "routed d0 (bk[p := bk ! p @ take ?n (pd_buffers d ! p)])
        ((give_slot p (- int ?n) d)\<lparr>pd_buffers := (pd_buffers d)[p := drop ?n (pd_buffers d ! p)]\<rparr>)"
      by (rule routed_buffers) (simp add: len)
    then show ?thesis using False by (simp add: x pd_drain_def Let_def)
  qed (use assms in \<open>auto simp: x pd_drain_def Let_def\<close>)
qed

lemma pd_drains_ok:
  "routed d0 (fst x) (snd x) \<Longrightarrow> \<forall>p\<in>set ps. p < pd_count d0 \<Longrightarrow>
     routed d0 (fst (fold pd_drain ps x)) (snd (fold pd_drain ps x))"
proof (induction ps arbitrary: x)
  case (Cons p ps)
  then have "p < pd_count (snd x)" by (simp add: routed_def)
  from Cons.IH [OF pd_drain_ok [OF Cons.prems(1) this]] Cons.prems(2) show ?case by simp
qed simp

lemma sent_batches:
  assumes "routed d0 bk d"
  shows "sent t (pd_batches bk d) = (case jget (pd_tags d) t of None \<Rightarrow> 0 | Some p \<Rightarrow> int (length (bk ! p)))"
proof -
  have inv: "pd_inv d" and some: "\<And>p. p < pd_count d \<Longrightarrow> bk ! p \<noteq> [] \<Longrightarrow> pd_slots d ! p \<noteq> None"
    using assms by (auto simp: routed_def)
  let ?b = "\<lambda>p. if bk ! p = [] then [] else case pd_slots d ! p of None \<Rightarrow> [] | Some (t, sub) \<Rightarrow> [(ps_ref sub, t, bk ! p)]"
  have one: "sent t (?b p) = (if jget (pd_tags d) t = Some p then int (length (bk ! p)) else 0)" if "p < pd_count d" for p
    using inv some [OF that] that by (auto simp: pd_inv_def split: option.split)
  have "sent t (concat (map ?b ps)) = sum_list (map (\<lambda>p. if jget (pd_tags d) t = Some p then int (length (bk ! p)) else 0) ps)"
    if "\<forall>p\<in>set ps. p < pd_count d" for ps
    using that by (induction ps) (simp_all add: one del: split_paired_All)
  then have "sent t (pd_batches bk d) =
      sum_list (map (\<lambda>p. if jget (pd_tags d) t = Some p then int (length (bk ! p)) else 0) [0..<pd_count d])"
    unfolding pd_batches_def by simp
  also have "\<dots> = (\<Sum>p<pd_count d. if jget (pd_tags d) t = Some p then int (length (bk ! p)) else 0)"
    by (simp add: interv_sum_list_conv_sum_set_nat atLeast0LessThan)
  also have "\<dots> = (case jget (pd_tags d) t of None \<Rightarrow> 0 | Some p \<Rightarrow> int (length (bk ! p)))"
  proof (cases "jget (pd_tags d) t")
    case (Some q)
    then have "q < pd_count d" using inv by (simp add: pd_inv_def)
    then show ?thesis by (simp add: Some eq_commute [of q] sum.delta)
  qed simp
  finally show ?thesis .
qed


lemma routed_start: "pd_inv d \<Longrightarrow> routed d (replicate (pd_count d) []) d"
  by (simp add: routed_def)

lemma pd_dispatch_ok:
  assumes inv: "pd_inv d" and res: "pd_dispatch es d = (Inr (bs, rem), d')"
  shows "pd_inv d' \<and> pd_target d' = pd_target d \<and> (\<forall>t. pd_credit d' t = pd_credit d t - sent t bs) \<and>
     (\<forall>r t b. (r, t, b) \<in> set bs \<longrightarrow> pd_target d t = Some r \<and> 0 < pd_credit d t)"
proof -
  obtain bk1 d1 where r: "pd_route es (replicate (pd_count d) []) d = (Inr bk1, d1)"
    using res by (auto simp: pd_dispatch_def split: prod.splits sum.splits)
  obtain bk where f: "fold pd_drain [0..<pd_count d] (bk1, d1) = (bk, d')" and bs: "bs = pd_batches bk d'"
    using res by (auto simp: pd_dispatch_def r split: prod.splits)
  have "routed d bk1 d1" by (rule pd_route_ok [OF routed_start [OF inv] r])
  then have R: "routed d bk d'" using pd_drains_ok [of d "(bk1, d1)" "[0..<pd_count d]"] f by simp
  then have I: "pd_inv d'" and T: "pd_tags d' = pd_tags d" and C: "pd_count d' = pd_count d"
    and S: "\<And>p. p < pd_count d' \<Longrightarrow> slot_demand p d' = slot_demand p d - int (length (bk ! p)) \<and> slot_ref p d' = slot_ref p d"
    by (auto simp: routed_def algebra_simps)
  have p: "p < pd_count d'" if "jget (pd_tags d) t = Some p" for t p using I that T by (simp add: pd_inv_def)
  have target: "pd_target d' = pd_target d" using S p by (auto simp: pd_target_def T fun_eq_iff split: option.split)
  have "pd_credit d' t = pd_credit d t - sent t bs" for t
    using S p unfolding pd_credit_def bs sent_batches [OF R] T by (auto split: option.split)
  moreover have "pd_target d' t = Some r \<and> 0 < pd_credit d t" if B: "(r, t, b) \<in> set bs" for r t b
  proof -
    from B obtain p where p: "p < pd_count d'"
      "(r, t, b) \<in> set (if bk ! p = [] then [] else case pd_slots d' ! p of None \<Rightarrow> []
         | Some (t, sub) \<Rightarrow> [(ps_ref sub, t, bk ! p)])"
      unfolding bs pd_batches_def set_concat by force
    from p(2) have ne: "bk ! p \<noteq> []" by (auto split: if_splits)
    from p(2) obtain x where "pd_slots d' ! p = Some x" by (cases "pd_slots d' ! p") (auto split: if_splits)
    with p obtain sub where "p < pd_count d'" "pd_slots d' ! p = Some (t, sub)" "r = ps_ref sub"
      by (cases x) (auto split: if_splits)
    moreover from this have "jget (pd_tags d') t = Some p" using tag_of_slot [OF I] by blast
    ultimately have "pd_target d' t = Some r" and t: "jget (pd_tags d') t = Some p" by (simp_all add: pd_target_def slot_ref_def)
    moreover have "0 < pd_credit d t"
    proof -
      have "0 \<le> slot_demand p d'" using I p(1) by (simp add: pd_inv_def)
      moreover have "0 < length (bk ! p)" using ne by simp
      ultimately have "0 < slot_demand p d" using S [OF p(1)] by linarith
      then show ?thesis using t by (simp add: pd_credit_def T)
    qed
    ultimately show ?thesis by blast
  qed
  ultimately show ?thesis using I target by simp
qed

lemma pd_subscribe_Inr:
  assumes "pd_subscribe t sub o' d = Inr d'"
  obtains p where "p < pd_count d" "pd_slots d ! p = None"
    "d' = d\<lparr>pd_slots := (pd_slots d)[p := Some (t, sub)], pd_tags := jput (pd_tags d) t p\<rparr>"
proof -
  obtain o1 where o1: "o' = Some o1" using assms by (cases o') (auto simp: pd_subscribe_def)
  define k where "k = (case o1 of PNumber k \<Rightarrow> Some k | PString s \<Rightarrow> parseInt10 s)"
  obtain j where j: "k = Some j" using assms by (cases k) (auto simp: pd_subscribe_def Let_def o1 k_def)
  have "nat j < pd_count d" "pd_slots d ! nat j = None"
    "d' = d\<lparr>pd_slots := (pd_slots d)[nat j := Some (t, sub)], pd_tags := jput (pd_tags d) t (nat j)\<rparr>"
    using assms j by (auto simp: pd_subscribe_def Let_def o1 k_def split: if_splits option.splits)
  then show thesis by (rule that)
qed

interpretation partition: dispatcher_laws pd_subscribe pd_cancel pd_ask pd_dispatch pd_inv pd_credit pd_target
proof
  show "pd_inv d' \<and> pd_target d' = (pd_target d)(t \<mapsto> ps_ref sub) \<and> pd_credit d' = pd_credit d"
    if d: "pd_inv d" "pd_target d t = None" "ps_demand sub = 0" "pd_subscribe t sub p d = Inr d'"
    for t sub p and d d' :: "'e partition"
  proof -
    from d(4) obtain p where p: "p < pd_count d" "pd_slots d ! p = None"
      "d' = d\<lparr>pd_slots := (pd_slots d)[p := Some (t, sub)], pd_tags := jput (pd_tags d) t p\<rparr>"
      by (rule pd_subscribe_Inr)
    have t: "jget (pd_tags d) t = None"
      using d(1,2) by (auto simp: pd_target_def pd_inv_def slot_ref_def split: option.splits)
    have D: "slot_demand q d' = slot_demand q d" for q
      using d(1,3) p by (auto simp: slot_demand_def nth_list_update pd_inv_def)
    have S: "pd_slots d' ! q = (if q = p then Some (t, sub) else pd_slots d ! q)" for q
      using d(1) p by (auto simp: nth_list_update pd_inv_def)
    have no: "q \<noteq> p" if "jget (pd_tags d) u = Some q" for u q using that d(1) p(2) by (auto simp: pd_inv_def)
    have T: "pd_tags d' = jput (pd_tags d) t p" by (simp add: p(3))
    have free: "pd_slots d ! q \<noteq> Some (t, x)" if "q < pd_count d" for q x using t tag_of_slot [OF d(1) that] by auto
    have "pd_inv d'"
      using d(1) p t free unfolding pd_inv_def S D by (auto split: if_splits)
    moreover have "pd_credit d' = pd_credit d"
      by (simp add: pd_credit_def D T fun_eq_iff t split: option.split) (simp add: slot_demand_def p(2))
    moreover have "pd_target d' = (pd_target d)(t \<mapsto> ps_ref sub)"
      using no t by (auto simp: pd_target_def fun_eq_iff slot_ref_def S T split: option.split)
    ultimately show ?thesis by blast
  qed
  show "pd_inv (pd_cancel t d) \<and> pd_target (pd_cancel t d) = (pd_target d)(t := None) \<and>
      pd_credit (pd_cancel t d) = (pd_credit d)(t := 0)" if d: "pd_inv d" for t and d :: "'e partition"
  proof (cases "jget (pd_tags d) t")
    case None
    then show ?thesis using d by (auto simp: pd_cancel_def pd_target_def pd_credit_def fun_eq_iff)
  next
    case (Some p)
    then have p: "p < pd_count d" "\<exists>sub. pd_slots d ! p = Some (t, sub)" using d by (auto simp: pd_inv_def)
    let ?d = "pd_cancel t d"
    have e: "?d = d\<lparr>pd_slots := (pd_slots d)[p := None], pd_tags := jdel (pd_tags d) t\<rparr>"
      using Some by (simp add: pd_cancel_def)
    have S: "pd_slots ?d ! q = (if q = p then None else pd_slots d ! q)" for q
      using d p by (auto simp: e nth_list_update pd_inv_def)
    have D: "slot_demand q ?d = (if q = p then 0 else slot_demand q d)" for q by (simp add: slot_demand_def S)
    have no: "q \<noteq> p" if "jget (pd_tags d) u = Some q" "u \<noteq> t" for u q using that d p by (auto simp: pd_inv_def)
    have uniq: "q = p" if "q < pd_count d" "pd_slots d ! q = Some (t, x)" for q x
      using tag_of_slot [OF d that] Some by simp
    have "pd_inv ?d"
      using d p uniq unfolding pd_inv_def S D by (auto simp: e split: if_splits)
    moreover have T: "pd_tags ?d = jdel (pd_tags d) t" by (simp add: e)
    then have "pd_credit ?d = (pd_credit d)(t := 0)" using no by (auto simp: pd_credit_def D fun_eq_iff split: option.split)
    moreover have "pd_target ?d = (pd_target d)(t := None)"
      using no by (auto simp: pd_target_def slot_ref_def S T fun_eq_iff split: option.split)
    ultimately show ?thesis by blast
  qed
  show "pd_inv (snd (pd_ask t n d)) \<and> pd_target (snd (pd_ask t n d)) = pd_target d \<and> pd_credit (snd (pd_ask t n d)) =
      (if pd_target d t = None then pd_credit d else (pd_credit d)(t := pd_credit d t + n))"
    if d: "pd_inv d" "0 \<le> n" for t n and d :: "'e partition"
  proof (cases "jget (pd_tags d) t")
    case None
    then show ?thesis using d by (simp add: pd_ask_def pd_target_def)
  next
    case (Some p)
    then obtain sub where p: "p < pd_count d" "pd_slots d ! p = Some (t, sub)" using d by (auto simp: pd_inv_def)
    have l: "p < length (pd_slots d)" using p d by (simp add: pd_inv_def)
    have e: "snd (pd_ask t n d) = give_slot p n d" using Some p by (simp add: pd_ask_def)
    have no: "q \<noteq> p" if "jget (pd_tags d) u = Some q" "u \<noteq> t" for u q using that d p by (auto simp: pd_inv_def)
    have "pd_inv (give_slot p n d)" using d p by (intro pd_inv_give) (auto simp: pd_inv_def)
    moreover have "pd_target (give_slot p n d) = pd_target d" by (simp add: pd_target_def slot_give [OF l] fun_eq_iff split: option.split)
    moreover have "pd_credit (give_slot p n d) = (pd_credit d)(t := pd_credit d t + n)"
      using Some no p by (auto simp: pd_credit_def slot_give [OF l] fun_eq_iff split: option.split)
    moreover have "pd_target d t \<noteq> None" using Some p by (simp add: pd_target_def slot_ref_def)
    ultimately show ?thesis by (auto simp: e)
  qed
  show "pd_inv d' \<and> pd_target d' = pd_target d \<and> (\<forall>t. pd_credit d' t = pd_credit d t - sent t bs) \<and>
     (\<forall>r t b. (r, t, b) \<in> set bs \<longrightarrow> pd_target d t = Some r \<and> 0 < pd_credit d t)"
    if "pd_inv d" "pd_dispatch es d = (Inr (bs, rem), d')" for es bs rem and d d' :: "'e partition"
    using that by (rule pd_dispatch_ok)
  show "0 \<le> pd_credit d t" if "pd_inv d" for t and d :: "'e partition"
    using that by (auto simp: pd_inv_def pd_credit_def split: option.split)
  show "pd_credit d t = 0" if d: "pd_inv d" "pd_target d t = None" for t and d :: "'e partition"
  proof (cases "jget (pd_tags d) t")
    case (Some p)
    then obtain sub where "pd_slots d ! p = Some (t, sub)" using d(1) by (auto simp: pd_inv_def)
    then show ?thesis using d(2) Some by (simp add: pd_target_def slot_ref_def)
  qed (simp add: pd_credit_def)
qed


section \<open>The dispatcher of a stage keeps the contract\<close>

fun disp_inv :: "'e dispatcher \<Rightarrow> bool" where
  "disp_inv (DemandDispatcher d) = dd_inv d"
| "disp_inv (BroadcastDispatcher d) = bc_inv d"
| "disp_inv (PartitionDispatcher d) = pd_inv d"

fun disp_credit :: "'e dispatcher \<Rightarrow> string \<Rightarrow> int" where
  "disp_credit (DemandDispatcher d) = sub_credit d"
| "disp_credit (BroadcastDispatcher d) = bc_credit d"
| "disp_credit (PartitionDispatcher d) = pd_credit d"

fun disp_target :: "'e dispatcher \<Rightarrow> string \<Rightarrow> actor_ref option" where
  "disp_target (DemandDispatcher d) = sub_target d"
| "disp_target (BroadcastDispatcher d) = bc_target d"
| "disp_target (PartitionDispatcher d) = pd_target d"

interpretation stage_disp: dispatcher_laws disp_subscribe disp_cancel disp_ask disp_dispatch disp_inv disp_credit disp_target
proof
  show "disp_inv d' \<and> disp_target d' = (disp_target d)(t \<mapsto> ps_ref sub) \<and> disp_credit d' = disp_credit d"
    if "disp_inv d" "disp_target d t = None" "ps_demand sub = 0" "disp_subscribe t sub p d = Inr d'"
    for t sub p and d d' :: "'e dispatcher"
  proof (cases d)
    case (DemandDispatcher x)
    then show ?thesis using that demand.subscribe_ok [of x t sub p] by (cases "dd_subscribe t sub p x") auto
  next
    case (BroadcastDispatcher x)
    then show ?thesis using that broadcast.subscribe_ok [of x t sub p] by (cases "bc_subscribe t sub p x") auto
  next
    case (PartitionDispatcher x)
    then show ?thesis using that partition.subscribe_ok [of x t sub p] by (cases "pd_subscribe t sub p x") auto
  qed
  show "disp_inv (disp_cancel t d) \<and> disp_target (disp_cancel t d) = (disp_target d)(t := None) \<and>
      disp_credit (disp_cancel t d) = (disp_credit d)(t := 0)" if "disp_inv d" for t and d :: "'e dispatcher"
    using that by (cases d) (auto simp: demand.cancel_ok broadcast.cancel_ok partition.cancel_ok)
  show "disp_inv (snd (disp_ask t n d)) \<and> disp_target (snd (disp_ask t n d)) = disp_target d \<and>
      disp_credit (snd (disp_ask t n d)) =
        (if disp_target d t = None then disp_credit d else (disp_credit d)(t := disp_credit d t + n))"
    if "disp_inv d" "0 \<le> n" for t n and d :: "'e dispatcher"
    using that by (cases d) (simp_all add: demand.ask_ok broadcast.ask_ok partition.ask_ok)
  show "disp_inv d' \<and> disp_target d' = disp_target d \<and> (\<forall>t. disp_credit d' t = disp_credit d t - sent t bs) \<and>
     (\<forall>r t b. (r, t, b) \<in> set bs \<longrightarrow> disp_target d t = Some r \<and> 0 < disp_credit d t)"
    if "disp_inv d" "disp_dispatch es d = (Inr (bs, rem), d')" for es bs rem and d d' :: "'e dispatcher"
  proof (cases d)
    case (DemandDispatcher x)
    then show ?thesis using that demand.dispatch_ok [of x es bs rem] by (cases "dd_dispatch es x") auto
  next
    case (BroadcastDispatcher x)
    then show ?thesis using that broadcast.dispatch_ok [of x es bs rem] by (cases "bc_dispatch es x") auto
  next
    case (PartitionDispatcher x)
    then show ?thesis using that partition.dispatch_ok [of x es bs rem] by (cases "pd_dispatch es x") auto
  qed
  show "0 \<le> disp_credit d t" if "disp_inv d" for t and d :: "'e dispatcher"
    using that by (cases d) (auto intro: demand.credit_nonneg broadcast.credit_nonneg partition.credit_nonneg)
  show "disp_credit d t = 0" if "disp_inv d" "disp_target d t = None" for t and d :: "'e dispatcher"
    using that by (cases d) (auto intro: demand.credit_absent broadcast.credit_absent partition.credit_absent)
qed

lemma createDispatcher_ok [simp]:
  "disp_inv (createDispatcher view config)" "disp_credit (createDispatcher view config) t = 0"
  "disp_target (createDispatcher view config) = Map.empty"
  by (auto simp: createDispatcher_def dd_inv_def bc_inv_def pd_inv_def new_partition_def slot_demand_def sub_credit_def
      bc_credit_def pd_credit_def sub_target_def bc_target_def pd_target_def fun_eq_iff
      split: option.split dispatcher_config.split)

lemma hasSubscribers_iff:
  assumes "disp_inv d"
  shows "disp_hasSubscribers d \<longleftrightarrow> disp_target d \<noteq> Map.empty"
proof (cases d)
  case (PartitionDispatcher x)
  have "(\<exists>y\<in>set (pd_slots x). y \<noteq> None) \<longleftrightarrow> (\<exists>t. pd_target x t \<noteq> None)"
  proof
    assume "\<exists>y\<in>set (pd_slots x). y \<noteq> None"
    then obtain p t sub where "p < pd_count x" "pd_slots x ! p = Some (t, sub)"
      using assms PartitionDispatcher by (auto simp: in_set_conv_nth pd_inv_def)
    then have "pd_target x t \<noteq> None"
      using tag_of_slot [of x p t sub] assms PartitionDispatcher by (simp add: pd_target_def slot_ref_def)
    then show "\<exists>t. pd_target x t \<noteq> None" ..
  next
    assume "\<exists>t. pd_target x t \<noteq> None"
    then obtain t p where "jget (pd_tags x) t = Some p" by (auto simp: pd_target_def split: option.splits)
    then show "\<exists>y\<in>set (pd_slots x). y \<noteq> None"
      using assms PartitionDispatcher by (force simp: pd_inv_def in_set_conv_nth)
  qed
  then show ?thesis using PartitionDispatcher by (simp add: fun_eq_iff)
next
  case (DemandDispatcher x)
  then show ?thesis by (cases x) (auto simp: sub_target_def fun_eq_iff)
next
  case (BroadcastDispatcher x)
  then show ?thesis by (cases "bc_subs x") (auto simp: bc_target_def sub_target_def fun_eq_iff)
qed

end
