(* ===== verification/Gen_Stage.thy ===== *)
theory Gen_Stage
  imports Dispatchers
begin

text \<open>
  The stages of \<open>src/gen_stage.ts\<close>: the actors behind \<open>Producer\<close>, \<open>Consumer\<close>,
  \<open>ConsumerSupervisor\<close> and \<open>ProducerConsumer\<close>. A stage is a record, a message handler a function
  on it; the messages a stage casts are collected in the record. The user's callbacks are
  parameters. \<open>askProducer\<close> hands its message over through \<open>_syncLocalCast\<close> when it can; it is
  always the last thing a handler does, so that is a cast delivered at once.
\<close>

section \<open>Messages and options\<close>

datatype 'e stage_msg =
    Ask string int
  | Events string actor_ref "'e list"
  | Cancel string string
  | DeferredAsk string
  | SetDemandMode
  | OtherMessage

datatype buffer_keep = KeepFirst | KeepLast

datatype demand_mode = Accumulate | Forward

record 'e producer_options =
  po_bufferSize :: "int option"
  po_bufferKeep :: "buffer_keep option"
  po_dispatcher :: "'e dispatcher_config option"
  po_demand :: "demand_mode option"

datatype cancel_policy = Permanent | Transient | Temporary

record subscription_options =
  so_maxDemand :: "int option"
  so_minDemand :: "int option"
  so_cancel :: "cancel_policy option"
  so_partition :: "partition_opt option"

definition maxDemand_of :: "subscription_options \<Rightarrow> int" where
  "maxDemand_of opts = (case so_maxDemand opts of None \<Rightarrow> 1000 | Some n \<Rightarrow> n)"

text \<open>\<open>Math.floor(maxDemand * 0.75)\<close> by default.\<close>

definition minDemand_of :: "subscription_options \<Rightarrow> int" where
  "minDemand_of opts = (case so_minDemand opts of None \<Rightarrow> (3 * maxDemand_of opts) div 4 | Some n \<Rightarrow> n)"

section \<open>The buffer of a stage\<close>

text \<open>\<open>addToBuffer\<close>: \<open>last\<close> drops the oldest events, \<open>first\<close> the new ones.\<close>

definition addToBuffer :: "buffer_keep \<Rightarrow> int \<Rightarrow> 'e list \<Rightarrow> 'e list \<Rightarrow> 'e list" where
  "addToBuffer keep limit es buffer =
     (case keep of
        KeepLast \<Rightarrow> (let b = buffer @ es in if int (length b) > limit then drop (length b - nat limit) b else b)
      | KeepFirst \<Rightarrow> (let space = limit - int (length buffer) in if space > 0 then buffer @ take (nat space) es else buffer))"

section \<open>ProducerStageActor\<close>

record ('s, 'e) producer =
  pr_state :: 's
  pr_disp :: "'e dispatcher"
  pr_buffer :: "'e list"
  pr_bufferSize :: int
  pr_keep :: buffer_keep
  pr_mode :: demand_mode
  pr_acc :: int
  pr_sent :: "'e batch list"

definition pr_init :: "('e \<Rightarrow> event_view) \<Rightarrow> 's \<Rightarrow> 'e producer_options \<Rightarrow> ('s, 'e) producer" where
  "pr_init view s0 opts = \<lparr>pr_state = s0, pr_disp = createDispatcher view (po_dispatcher opts), pr_buffer = [],
     pr_bufferSize = (case po_bufferSize opts of None \<Rightarrow> 10000 | Some n \<Rightarrow> n),
     pr_keep = (case po_bufferKeep opts of None \<Rightarrow> KeepLast | Some k \<Rightarrow> k),
     pr_mode = (case po_demand opts of None \<Rightarrow> Forward | Some m \<Rightarrow> m), pr_acc = 0, pr_sent = []\<rparr>"

definition new_sub :: "actor_ref \<Rightarrow> int \<Rightarrow> int \<Rightarrow> producer_sub" where
  "new_sub r mx mn = \<lparr>ps_ref = r, ps_demand = 0, ps_maxDemand = mx, ps_minDemand = mn\<rparr>"

definition pr_handleSubscribe ::
  "string \<Rightarrow> actor_ref \<Rightarrow> int \<Rightarrow> int \<Rightarrow> partition_opt option \<Rightarrow> ('s, 'e) producer \<Rightarrow> js_error + ('s, 'e) producer" where
  "pr_handleSubscribe t r mx mn part P =
     map_sum id (\<lambda>d. P\<lparr>pr_disp := d\<rparr>) (disp_subscribe t (new_sub r mx mn) part (pr_disp P))"

text \<open>An error of \<open>dispatch\<close> leaves the handler; what was sent before is sent.\<close>

definition pr_dispatchOrBuffer :: "'e list \<Rightarrow> ('s, 'e) producer \<Rightarrow> js_error option \<times> ('s, 'e) producer" where
  "pr_dispatchOrBuffer es P =
     (if \<not> disp_hasSubscribers (pr_disp P)
      then (None, P\<lparr>pr_buffer := addToBuffer (pr_keep P) (pr_bufferSize P) es (pr_buffer P)\<rparr>)
      else case disp_dispatch es (pr_disp P) of
        (Inl e, d) \<Rightarrow> (Some e, P\<lparr>pr_disp := d\<rparr>)
      | (Inr (bs, rem), d) \<Rightarrow>
          (None, P\<lparr>pr_disp := d, pr_sent := pr_sent P @ bs,
                   pr_buffer := (if rem = [] then pr_buffer P
                     else addToBuffer (pr_keep P) (pr_bufferSize P) rem (pr_buffer P))\<rparr>))"

text \<open>Calling \<open>handleDemand\<close> and passing its events on.\<close>

definition pr_produce ::
  "(int \<Rightarrow> 's \<Rightarrow> 'e list \<times> 's) \<Rightarrow> int \<Rightarrow> ('s, 'e) producer \<Rightarrow> js_error option \<times> ('s, 'e) producer" where
  "pr_produce cb n P =
     (let (es, s') = cb n (pr_state P); P1 = P\<lparr>pr_state := s'\<rparr>
      in if es = [] then (None, P1) else pr_dispatchOrBuffer es P1)"

definition pr_handleAsk ::
  "(int \<Rightarrow> 's \<Rightarrow> 'e list \<times> 's) \<Rightarrow> string \<Rightarrow> int \<Rightarrow> ('s, 'e) producer \<Rightarrow> js_error option \<times> ('s, 'e) producer" where
  "pr_handleAsk cb t n P =
     (if n \<le> 0 then (None, P)
      else let (up, d) = disp_ask t n (pr_disp P)
           in case disp_dispatch (pr_buffer P) d of
                (Inl e, d1) \<Rightarrow> (Some e, P\<lparr>pr_disp := d1\<rparr>)
              | (Inr (bs, rem), d1) \<Rightarrow>
                  (let P1 = P\<lparr>pr_disp := d1, pr_sent := pr_sent P @ bs, pr_buffer := rem\<rparr>
                   in if up > 0
                      then (if pr_mode P1 = Accumulate then (None, P1\<lparr>pr_acc := pr_acc P1 + up\<rparr>)
                            else pr_produce cb up P1)
                      else (None, P1)))"

definition pr_handleCancel :: "string \<Rightarrow> ('s, 'e) producer \<Rightarrow> ('s, 'e) producer" where
  "pr_handleCancel t P = P\<lparr>pr_disp := disp_cancel t (pr_disp P)\<rparr>"

definition switchDemandMode ::
  "(int \<Rightarrow> 's \<Rightarrow> 'e list \<times> 's) \<Rightarrow> ('s, 'e) producer \<Rightarrow> js_error option \<times> ('s, 'e) producer" where
  "switchDemandMode cb P =
     (let P1 = P\<lparr>pr_mode := Forward\<rparr>
      in if pr_acc P1 > 0 then pr_produce cb (pr_acc P1) (P1\<lparr>pr_acc := 0\<rparr>) else (None, P1))"

fun pr_handleCast ::
  "(int \<Rightarrow> 's \<Rightarrow> 'e list \<times> 's) \<Rightarrow> 'e stage_msg \<Rightarrow> ('s, 'e) producer \<Rightarrow> js_error option \<times> ('s, 'e) producer" where
  "pr_handleCast cb (Ask t n) P = pr_handleAsk cb t n P"
| "pr_handleCast cb (Cancel t reason) P = (None, pr_handleCancel t P)"
| "pr_handleCast cb SetDemandMode P = switchDemandMode cb P"
| "pr_handleCast cb _ P = (None, P)"

section \<open>ConsumerStageActor\<close>

record consumer_sub =
  cs_ref :: actor_ref
  cs_pending :: int
  cs_maxDemand :: int
  cs_minDemand :: int
  cs_cancel :: cancel_policy

definition new_consumer_sub :: "actor_ref \<Rightarrow> subscription_options \<Rightarrow> consumer_sub" where
  "new_consumer_sub r opts = \<lparr>cs_ref = r, cs_pending = 0, cs_maxDemand = maxDemand_of opts,
     cs_minDemand = minDemand_of opts,
     cs_cancel = (case so_cancel opts of None \<Rightarrow> Temporary | Some p \<Rightarrow> p)\<rparr>"

record ('s, 'e) consumer =
  co_state :: 's
  co_subs :: "(string, consumer_sub) jsmap"
  co_out :: "(actor_ref \<times> 'e stage_msg) list"

definition co_init :: "'s \<Rightarrow> ('s, 'e) consumer" where
  "co_init s0 = \<lparr>co_state = s0, co_subs = [], co_out = []\<rparr>"

text \<open>\<open>t\<close>: the tag, from the time and a random number.\<close>

definition co_subscribeToProducer ::
  "string \<Rightarrow> actor_ref \<Rightarrow> subscription_options \<Rightarrow> ('s, 'e) consumer \<Rightarrow> ('s, 'e) consumer" where
  "co_subscribeToProducer t r opts C = C\<lparr>co_subs := jput (co_subs C) t (new_consumer_sub r opts)\<rparr>"

definition co_askProducer :: "string \<Rightarrow> consumer_sub \<Rightarrow> int \<Rightarrow> ('s, 'e) consumer \<Rightarrow> ('s, 'e) consumer" where
  "co_askProducer t sub n C =
     C\<lparr>co_subs := jput (co_subs C) t (sub\<lparr>cs_pending := cs_pending sub + n\<rparr>),
       co_out := co_out C @ [(cs_ref sub, Ask t n)]\<rparr>"

definition co_sendInitialDemand :: "string \<Rightarrow> ('s, 'e) consumer \<Rightarrow> ('s, 'e) consumer" where
  "co_sendInitialDemand t C =
     (case jget (co_subs C) t of None \<Rightarrow> C | Some sub \<Rightarrow> co_askProducer t sub (cs_maxDemand sub) C)"

definition co_cancelSubscription :: "string \<Rightarrow> string \<Rightarrow> ('s, 'e) consumer \<Rightarrow> bool \<times> ('s, 'e) consumer" where
  "co_cancelSubscription t reason C =
     (case jget (co_subs C) t of
        None \<Rightarrow> (False, C)
      | Some sub \<Rightarrow> (True, C\<lparr>co_out := co_out C @ [(cs_ref sub, Cancel t reason)], co_subs := jdel (co_subs C) t\<rparr>))"

definition co_cancelAll :: "string \<Rightarrow> ('s, 'e) consumer \<Rightarrow> ('s, 'e) consumer" where
  "co_cancelAll reason C =
     C\<lparr>co_out := co_out C @ map (\<lambda>(t, sub). (cs_ref sub, Cancel t reason)) (co_subs C), co_subs := []\<rparr>"

definition received :: "nat \<Rightarrow> consumer_sub \<Rightarrow> consumer_sub" where
  "received n sub = sub\<lparr>cs_pending := max 0 (cs_pending sub - int n)\<rparr>"

definition co_handleEvents ::
  "('e list \<Rightarrow> string \<times> actor_ref \<Rightarrow> 's \<Rightarrow> 's) \<Rightarrow> string \<Rightarrow> actor_ref \<Rightarrow> 'e list \<Rightarrow> ('s, 'e) consumer \<Rightarrow> ('s, 'e) consumer" where
  "co_handleEvents he t r es C =
     (case jget (co_subs C) t of
        None \<Rightarrow> C
      | Some sub0 \<Rightarrow>
          (let sub = received (length es) sub0;
               C1 = C\<lparr>co_subs := jput (co_subs C) t sub, co_state := he es (t, r) (co_state C)\<rparr>
           in if cs_pending sub \<le> cs_minDemand sub
              then co_askProducer t sub (cs_maxDemand sub - cs_pending sub) C1 else C1))"

text \<open>The policy \<open>cs_cancel\<close> and the reason are not looked at.\<close>

fun co_handleCast ::
  "('e list \<Rightarrow> string \<times> actor_ref \<Rightarrow> 's \<Rightarrow> 's) \<Rightarrow> 'e stage_msg \<Rightarrow> ('s, 'e) consumer \<Rightarrow> ('s, 'e) consumer" where
  "co_handleCast he (DeferredAsk t) C = co_sendInitialDemand t C"
| "co_handleCast he (Events t r es) C = co_handleEvents he t r es C"
| "co_handleCast he (Cancel t reason) C = C\<lparr>co_subs := jdel (co_subs C) t\<rparr>"
| "co_handleCast he _ C = C"

section \<open>ConsumerSupervisorActor\<close>

text \<open>
  One worker per event. Spawning a worker is the parameter \<open>sp\<close> on a state of the system: a
  reference, or the error \<open>spawnChild\<close> throws.
\<close>

record 'e worker =
  wk_ref :: actor_ref
  wk_event :: 'e
  wk_tag :: string

record 'e consumer_sup =
  cv_subs :: "(string, consumer_sub) jsmap"
  cv_workers :: "(string, 'e worker) jsmap"
  cv_released :: "(string, int) jsmap"
  cv_out :: "(actor_ref \<times> 'e stage_msg) list"

definition cv_init :: "'e consumer_sup" where
  "cv_init = \<lparr>cv_subs = [], cv_workers = [], cv_released = [], cv_out = []\<rparr>"

definition cv_subscribeToProducer :: "string \<Rightarrow> actor_ref \<Rightarrow> subscription_options \<Rightarrow> 'e consumer_sup \<Rightarrow> 'e consumer_sup" where
  "cv_subscribeToProducer t r opts C =
     C\<lparr>cv_subs := jput (cv_subs C) t (new_consumer_sub r opts), cv_released := jput (cv_released C) t 0\<rparr>"

definition cv_askProducer :: "string \<Rightarrow> consumer_sub \<Rightarrow> int \<Rightarrow> 'e consumer_sup \<Rightarrow> 'e consumer_sup" where
  "cv_askProducer t sub n C =
     C\<lparr>cv_subs := jput (cv_subs C) t (sub\<lparr>cs_pending := cs_pending sub + n\<rparr>),
       cv_out := cv_out C @ [(cs_ref sub, Ask t n)]\<rparr>"

definition released :: "string \<Rightarrow> 'e consumer_sup \<Rightarrow> int" where
  "released t C = (case jget (cv_released C) t of None \<Rightarrow> 0 | Some n \<Rightarrow> n)"

definition release :: "string \<Rightarrow> 'e consumer_sup \<Rightarrow> 'e consumer_sup" where
  "release t C = C\<lparr>cv_released := jput (cv_released C) t (released t C + 1)\<rparr>"

definition maybeAskForMore :: "string \<Rightarrow> consumer_sub \<Rightarrow> 'e consumer_sup \<Rightarrow> 'e consumer_sup" where
  "maybeAskForMore t sub C =
     (let n = released t C
      in if n \<ge> cs_minDemand sub then cv_askProducer t sub n (C\<lparr>cv_released := jput (cv_released C) t 0\<rparr>) else C)"

definition cv_spawn ::
  "('sys \<Rightarrow> 'e \<Rightarrow> (js_error + actor_ref) \<times> 'sys) \<Rightarrow> string \<Rightarrow> 'e \<Rightarrow> 'e consumer_sup \<times> 'sys \<Rightarrow> 'e consumer_sup \<times> 'sys" where
  "cv_spawn sp t e x =
     (case x of (C, s) \<Rightarrow>
        (case sp s e of
           (Inl err, s') \<Rightarrow> (release t C, s')
         | (Inr r, s') \<Rightarrow>
             (C\<lparr>cv_workers := jput (cv_workers C) (ref_id r) \<lparr>wk_ref = r, wk_event = e, wk_tag = t\<rparr>\<rparr>, s')))"

definition cv_handleEvents ::
  "('sys \<Rightarrow> 'e \<Rightarrow> (js_error + actor_ref) \<times> 'sys) \<Rightarrow> string \<Rightarrow> 'e list \<Rightarrow> 'e consumer_sup \<times> 'sys \<Rightarrow> 'e consumer_sup \<times> 'sys" where
  "cv_handleEvents sp t es x =
     (case jget (cv_subs (fst x)) t of
        None \<Rightarrow> x
      | Some sub0 \<Rightarrow>
          (let sub = received (length es) sub0;
               (C1, s1) = fold (cv_spawn sp t) es ((fst x)\<lparr>cv_subs := jput (cv_subs (fst x)) t sub\<rparr>, snd x)
           in (maybeAskForMore t sub C1, s1)))"

definition handleWorkerDown :: "string \<Rightarrow> 'e consumer_sup \<Rightarrow> 'e consumer_sup" where
  "handleWorkerDown i C =
     (case jget (cv_workers C) i of
        None \<Rightarrow> C
      | Some w \<Rightarrow>
          (let C1 = C\<lparr>cv_workers := jdel (cv_workers C) i\<rparr>; t = wk_tag w
           in case jget (cv_subs C1) t of None \<Rightarrow> C1 | Some sub \<Rightarrow> maybeAskForMore t sub (release t C1)))"

definition cv_sendInitialDemand :: "string \<Rightarrow> 'e consumer_sup \<Rightarrow> 'e consumer_sup" where
  "cv_sendInitialDemand t C =
     (case jget (cv_subs C) t of None \<Rightarrow> C | Some sub \<Rightarrow> cv_askProducer t sub (cs_maxDemand sub) C)"

definition cv_cancelSubscription :: "string \<Rightarrow> string \<Rightarrow> 'e consumer_sup \<Rightarrow> bool \<times> 'e consumer_sup" where
  "cv_cancelSubscription t reason C =
     (case jget (cv_subs C) t of
        None \<Rightarrow> (False, C)
      | Some sub \<Rightarrow> (True, C\<lparr>cv_out := cv_out C @ [(cs_ref sub, Cancel t reason)], cv_subs := jdel (cv_subs C) t,
                         cv_released := jdel (cv_released C) t\<rparr>))"

definition cv_cancelAll :: "string \<Rightarrow> 'e consumer_sup \<Rightarrow> 'e consumer_sup" where
  "cv_cancelAll reason C =
     C\<lparr>cv_out := cv_out C @ map (\<lambda>(t, sub). (cs_ref sub, Cancel t reason)) (cv_subs C), cv_subs := [], cv_released := []\<rparr>"

definition cv_handleCancelFromProducer :: "string \<Rightarrow> 'e consumer_sup \<Rightarrow> 'e consumer_sup" where
  "cv_handleCancelFromProducer t C = C\<lparr>cv_subs := jdel (cv_subs C) t, cv_released := jdel (cv_released C) t\<rparr>"

fun cv_handleCast ::
  "('sys \<Rightarrow> 'e \<Rightarrow> (js_error + actor_ref) \<times> 'sys) \<Rightarrow> 'e stage_msg \<Rightarrow> 'e consumer_sup \<times> 'sys \<Rightarrow> 'e consumer_sup \<times> 'sys" where
  "cv_handleCast sp (DeferredAsk t) x = (cv_sendInitialDemand t (fst x), snd x)"
| "cv_handleCast sp (Events t r es) x = cv_handleEvents sp t es x"
| "cv_handleCast sp (Cancel t reason) x = (cv_handleCancelFromProducer t (fst x), snd x)"
| "cv_handleCast sp _ x = x"

definition getChildrenCounts :: "'e consumer_sup \<Rightarrow> nat \<times> nat" where
  "getChildrenCounts C = (length (cv_workers C), length (cv_workers C))"

section \<open>ProducerConsumerStageActor\<close>

record ('s, 'e) producer_consumer =
  pc_state :: 's
  pc_subs :: "(string, consumer_sub) jsmap"
  pc_disp :: "'e dispatcher"
  pc_buffer :: "'e list"
  pc_bufferSize :: int
  pc_keep :: buffer_keep
  pc_sent :: "'e batch list"
  pc_out :: "(actor_ref \<times> 'e stage_msg) list"

definition pc_init :: "('e \<Rightarrow> event_view) \<Rightarrow> 's \<Rightarrow> 'e producer_options \<Rightarrow> ('s, 'e) producer_consumer" where
  "pc_init view s0 opts = \<lparr>pc_state = s0, pc_subs = [], pc_disp = createDispatcher view (po_dispatcher opts), pc_buffer = [],
     pc_bufferSize = (case po_bufferSize opts of None \<Rightarrow> 10000 | Some n \<Rightarrow> n),
     pc_keep = (case po_bufferKeep opts of None \<Rightarrow> KeepLast | Some k \<Rightarrow> k), pc_sent = [], pc_out = []\<rparr>"

definition pc_handleSubscribe ::
  "string \<Rightarrow> actor_ref \<Rightarrow> int \<Rightarrow> int \<Rightarrow> partition_opt option \<Rightarrow> ('s, 'e) producer_consumer \<Rightarrow>
     js_error + ('s, 'e) producer_consumer" where
  "pc_handleSubscribe t r mx mn part P =
     map_sum id (\<lambda>d. P\<lparr>pc_disp := d\<rparr>) (disp_subscribe t (new_sub r mx mn) part (pc_disp P))"

definition pc_subscribeToProducer ::
  "string \<Rightarrow> actor_ref \<Rightarrow> subscription_options \<Rightarrow> ('s, 'e) producer_consumer \<Rightarrow> ('s, 'e) producer_consumer" where
  "pc_subscribeToProducer t r opts P = P\<lparr>pc_subs := jput (pc_subs P) t (new_consumer_sub r opts)\<rparr>"

definition pc_dispatchOrBuffer ::
  "'e list \<Rightarrow> ('s, 'e) producer_consumer \<Rightarrow> js_error option \<times> ('s, 'e) producer_consumer" where
  "pc_dispatchOrBuffer es P =
     (if \<not> disp_hasSubscribers (pc_disp P)
      then (None, P\<lparr>pc_buffer := addToBuffer (pc_keep P) (pc_bufferSize P) es (pc_buffer P)\<rparr>)
      else case disp_dispatch es (pc_disp P) of
        (Inl e, d) \<Rightarrow> (Some e, P\<lparr>pc_disp := d\<rparr>)
      | (Inr (bs, rem), d) \<Rightarrow>
          (None, P\<lparr>pc_disp := d, pc_sent := pc_sent P @ bs,
                   pc_buffer := (if rem = [] then pc_buffer P
                     else addToBuffer (pc_keep P) (pc_bufferSize P) rem (pc_buffer P))\<rparr>))"

definition pc_ask :: "string \<Rightarrow> consumer_sub \<Rightarrow> int \<Rightarrow> ('s, 'e) producer_consumer \<Rightarrow> ('s, 'e) producer_consumer" where
  "pc_ask t sub n P =
     P\<lparr>pc_subs := jput (pc_subs P) t (sub\<lparr>cs_pending := cs_pending sub + n\<rparr>),
       pc_out := pc_out P @ [(cs_ref sub, Ask t n)]\<rparr>"

definition pc_sendInitialDemand :: "string \<Rightarrow> ('s, 'e) producer_consumer \<Rightarrow> ('s, 'e) producer_consumer" where
  "pc_sendInitialDemand t P =
     (case jget (pc_subs P) t of None \<Rightarrow> P | Some sub \<Rightarrow> pc_ask t sub (cs_maxDemand sub) P)"

definition cancelUpstream :: "string \<Rightarrow> string \<Rightarrow> ('s, 'e) producer_consumer \<Rightarrow> bool \<times> ('s, 'e) producer_consumer" where
  "cancelUpstream t reason P =
     (case jget (pc_subs P) t of
        None \<Rightarrow> (False, P)
      | Some sub \<Rightarrow> (True, P\<lparr>pc_out := pc_out P @ [(cs_ref sub, Cancel t reason)], pc_subs := jdel (pc_subs P) t\<rparr>))"

definition cancelAllUpstream :: "string \<Rightarrow> ('s, 'e) producer_consumer \<Rightarrow> ('s, 'e) producer_consumer" where
  "cancelAllUpstream reason P =
     P\<lparr>pc_out := pc_out P @ map (\<lambda>(t, sub). (cs_ref sub, Cancel t reason)) (pc_subs P), pc_subs := []\<rparr>"

definition handleUpstreamEvents ::
  "('e list \<Rightarrow> string \<times> actor_ref \<Rightarrow> 's \<Rightarrow> 'e list \<times> 's) \<Rightarrow> string \<Rightarrow> actor_ref \<Rightarrow> 'e list \<Rightarrow>
     ('s, 'e) producer_consumer \<Rightarrow> js_error option \<times> ('s, 'e) producer_consumer" where
  "handleUpstreamEvents he t r es P =
     (case jget (pc_subs P) t of
        None \<Rightarrow> (None, P)
      | Some sub0 \<Rightarrow>
          (let sub = received (length es) sub0;
               (out, s') = he es (t, r) (pc_state P);
               P1 = P\<lparr>pc_subs := jput (pc_subs P) t sub, pc_state := s'\<rparr>;
               (err, P2) = (if out = [] then (None, P1) else pc_dispatchOrBuffer out P1)
           in if err \<noteq> None then (err, P2)
              else if cs_pending sub \<le> cs_minDemand sub
              then (None, pc_ask t sub (cs_maxDemand sub - cs_pending sub) P2) else (None, P2)))"

definition handleDownstreamAsk ::
  "string \<Rightarrow> int \<Rightarrow> ('s, 'e) producer_consumer \<Rightarrow> js_error option \<times> ('s, 'e) producer_consumer" where
  "handleDownstreamAsk t n P =
     (if n \<le> 0 then (None, P)
      else let d = snd (disp_ask t n (pc_disp P))
           in if pc_buffer P = [] then (None, P\<lparr>pc_disp := d\<rparr>)
              else case disp_dispatch (pc_buffer P) d of
                (Inl e, d1) \<Rightarrow> (Some e, P\<lparr>pc_disp := d1\<rparr>)
              | (Inr (bs, rem), d1) \<Rightarrow> (None, P\<lparr>pc_disp := d1, pc_buffer := rem, pc_sent := pc_sent P @ bs\<rparr>))"

definition pc_handleCancel :: "string \<Rightarrow> ('s, 'e) producer_consumer \<Rightarrow> ('s, 'e) producer_consumer" where
  "pc_handleCancel t P =
     (if disp_has t (pc_disp P) then P\<lparr>pc_disp := disp_cancel t (pc_disp P)\<rparr>
      else if jhas (pc_subs P) t then P\<lparr>pc_subs := jdel (pc_subs P) t\<rparr> else P)"

fun pc_handleCast ::
  "('e list \<Rightarrow> string \<times> actor_ref \<Rightarrow> 's \<Rightarrow> 'e list \<times> 's) \<Rightarrow> 'e stage_msg \<Rightarrow> ('s, 'e) producer_consumer \<Rightarrow>
     js_error option \<times> ('s, 'e) producer_consumer" where
  "pc_handleCast he (DeferredAsk t) P = (None, pc_sendInitialDemand t P)"
| "pc_handleCast he (Events t r es) P = handleUpstreamEvents he t r es P"
| "pc_handleCast he (Ask t n) P = handleDownstreamAsk t n P"
| "pc_handleCast he (Cancel t reason) P = (None, pc_handleCancel t P)"
| "pc_handleCast he SetDemandMode P = (None, P)"
| "pc_handleCast he OtherMessage P = (None, P)"

end
