(* ===== verification/Pipeline.thy ===== *)
theory Pipeline
  imports Gen_Stage
begin

text \<open>
  A producer and its consumers, with the messages between them in flight: asks and cancels on
  the way to the producer, batches of events on the way to the consumers, and the deferred first
  asks. Any message may be delivered next. Every dispatcher keeps the account of demand: what a
  consumer waits for is on its way, either as an ask, or as credit at the producer, or as events.
\<close>

section \<open>The producer keeps its accounts\<close>

text \<open>What a consumer may still get: its credit, and what is sent and not yet handed over.\<close>

definition balance :: "('s, 'e) producer \<Rightarrow> string \<Rightarrow> int" where
  "balance P t = disp_credit (pr_disp P) t + sent t (pr_sent P)"

text \<open>Batches go to known consumers that have something to get.\<close>

definition aimed :: "(string \<Rightarrow> actor_ref option) \<Rightarrow> (string \<Rightarrow> int) \<Rightarrow> 'e batch list \<Rightarrow> bool" where
  "aimed f k bs \<longleftrightarrow> list_all (\<lambda>(r, t, b). f t = Some r \<and> 0 < k t) bs"

lemma aimed_append [simp]: "aimed f k (bs @ bs') \<longleftrightarrow> aimed f k bs \<and> aimed f k bs'"
  by (simp add: aimed_def)

lemma aimed_iff: "aimed f k bs \<longleftrightarrow> (\<forall>r t b. (r, t, b) \<in> set bs \<longrightarrow> f t = Some r \<and> 0 < k t)"
  by (auto simp: aimed_def list_all_iff)

lemma aimed_mono: "aimed f k bs \<Longrightarrow> (\<And>t. 0 < k t \<Longrightarrow> 0 < k' t) \<Longrightarrow> aimed f k' bs"
  by (simp add: aimed_iff)

definition targeted :: "('s, 'e) producer \<Rightarrow> bool" where
  "targeted P \<longleftrightarrow> aimed (disp_target (pr_disp P)) (balance P) (pr_sent P)"

definition stage_ok :: "('s, 'e) producer \<Rightarrow> ('s, 'e) producer \<Rightarrow> bool" where
  "stage_ok P P' \<longleftrightarrow> disp_inv (pr_disp P') \<and> disp_target (pr_disp P') = disp_target (pr_disp P) \<and>
     balance P' = balance P \<and> (targeted P \<longrightarrow> targeted P')"

lemma stage_ok_refl: "disp_inv (pr_disp P) \<Longrightarrow> stage_ok P P"
  by (simp add: stage_ok_def)

lemma stage_ok_trans: "stage_ok P Q \<Longrightarrow> stage_ok Q R \<Longrightarrow> stage_ok P R"
  by (simp add: stage_ok_def)

lemma stage_ok_same: "disp_inv (pr_disp P) \<Longrightarrow> pr_disp P' = pr_disp P \<Longrightarrow> pr_sent P' = pr_sent P \<Longrightarrow> stage_ok P P'"
proof -
  assume *: "disp_inv (pr_disp P)" "pr_disp P' = pr_disp P" "pr_sent P' = pr_sent P"
  then have "balance P' = balance P" by (simp add: balance_def fun_eq_iff)
  with * show ?thesis by (simp add: stage_ok_def targeted_def)
qed

lemma dispatch_stage_ok:
  assumes "disp_inv (pr_disp P)" and "disp_dispatch es (pr_disp P) = (Inr (bs, rem), d)"
  shows "stage_ok P (P\<lparr>pr_disp := d, pr_sent := pr_sent P @ bs, pr_buffer := b\<rparr>)"
proof -
  let ?P = "P\<lparr>pr_disp := d, pr_sent := pr_sent P @ bs, pr_buffer := b\<rparr>"
  have D: "disp_inv d" "disp_target d = disp_target (pr_disp P)" "\<forall>t. disp_credit d t = disp_credit (pr_disp P) t - sent t bs"
    "aimed (disp_target (pr_disp P)) (disp_credit (pr_disp P)) bs"
    using stage_disp.dispatch_ok [OF assms, folded aimed_iff] by blast+
  have B: "balance ?P = balance P" using D(3) by (simp add: balance_def fun_eq_iff)
  have "aimed (disp_target (pr_disp P)) (balance P) bs"
    by (rule aimed_mono [OF D(4)]) (simp add: balance_def add_pos_nonneg)
  then show ?thesis using D B by (simp add: stage_ok_def targeted_def)
qed

lemma dispatchOrBuffer_ok:
  assumes "disp_inv (pr_disp P)" and "pr_dispatchOrBuffer es P = (None, P')"
  shows "stage_ok P P'"
proof (cases "disp_hasSubscribers (pr_disp P)")
  case True
  then obtain bs rem d where d: "disp_dispatch es (pr_disp P) = (Inr (bs, rem), d)"
    using assms(2) by (auto simp: pr_dispatchOrBuffer_def split: prod.splits sum.splits)
  then have "\<exists>b. P' = P\<lparr>pr_disp := d, pr_sent := pr_sent P @ bs, pr_buffer := b\<rparr>"
    using assms(2) True by (auto simp: pr_dispatchOrBuffer_def)
  then show ?thesis using dispatch_stage_ok [OF assms(1) d] by auto
qed (use assms in \<open>auto simp: pr_dispatchOrBuffer_def stage_ok_same\<close>)

lemma produce_ok:
  assumes "disp_inv (pr_disp P)" and "pr_produce cb n P = (None, P')"
  shows "stage_ok P P'"
proof -
  obtain es s' where c: "cb n (pr_state P) = (es, s')" by fastforce
  have s: "stage_ok P (P\<lparr>pr_state := s'\<rparr>)" using assms(1) by (simp add: stage_ok_same)
  show ?thesis
  proof (cases "es = []")
    case True
    then show ?thesis using assms(2) s by (simp add: pr_produce_def c)
  next
    case False
    then have "pr_dispatchOrBuffer es (P\<lparr>pr_state := s'\<rparr>) = (None, P')" using assms(2) by (simp add: pr_produce_def c)
    from dispatchOrBuffer_ok [OF _ this] s show ?thesis using assms(1) by (auto intro: stage_ok_trans)
  qed
qed

lemma switch_ok:
  assumes "disp_inv (pr_disp P)" and "switchDemandMode cb P = (None, P')"
  shows "stage_ok P P'"
proof (cases "pr_acc P > 0")
  case True
  have "stage_ok P (P\<lparr>pr_mode := Forward, pr_acc := 0\<rparr>)" using assms(1) by (simp add: stage_ok_same)
  moreover have "stage_ok (P\<lparr>pr_mode := Forward, pr_acc := 0\<rparr>) P'"
    using True assms by (intro produce_ok) (auto simp: switchDemandMode_def Let_def)
  ultimately show ?thesis by (rule stage_ok_trans)
qed (use assms in \<open>auto simp: switchDemandMode_def Let_def stage_ok_same\<close>)

lemma ask_ok:
  assumes inv: "disp_inv (pr_disp P)" and n: "0 \<le> n" and res: "pr_handleAsk cb t n P = (None, P')"
  shows "disp_inv (pr_disp P') \<and> disp_target (pr_disp P') = disp_target (pr_disp P) \<and>
     (\<forall>u. balance P' u = balance P u + (if u = t \<and> disp_target (pr_disp P) t \<noteq> None then n else 0)) \<and>
     (targeted P \<longrightarrow> targeted P')"
proof (cases "n = 0")
  case True
  then show ?thesis using inv res by (simp add: pr_handleAsk_def)
next
  case False
  obtain up d where a: "disp_ask t n (pr_disp P) = (up, d)" by fastforce
  let ?P = "P\<lparr>pr_disp := d\<rparr>"
  have A: "disp_inv d" "disp_target d = disp_target (pr_disp P)"
    "\<And>u. balance ?P u = balance P u + (if u = t \<and> disp_target (pr_disp P) t \<noteq> None then n else 0)"
    using stage_disp.ask_ok [OF inv n, of t] by (auto simp: a balance_def split: if_splits)
  have T: "targeted P \<longrightarrow> targeted ?P"
    using A(2) n by (auto simp: targeted_def A(3) elim!: aimed_mono)
  obtain bs rem d1 where d1: "disp_dispatch (pr_buffer P) d = (Inr (bs, rem), d1)"
    using res n False by (auto simp: pr_handleAsk_def a split: prod.splits sum.splits)
  let ?Q = "?P\<lparr>pr_disp := d1, pr_sent := pr_sent ?P @ bs, pr_buffer := rem\<rparr>"
  have Q: "stage_ok ?P ?Q" using dispatch_stage_ok [of ?P] A(1) d1 by simp
  have "stage_ok ?Q P'"
  proof (cases "up > 0 \<and> pr_mode P \<noteq> Accumulate")
    case True
    then have "pr_produce cb up ?Q = (None, P')" using res n False d1 by (simp add: pr_handleAsk_def a Let_def)
    then show ?thesis using Q by (intro produce_ok) (simp_all add: stage_ok_def)
  next
    case no: False
    then have "P' = ?Q \<or> P' = ?Q\<lparr>pr_acc := pr_acc P + up\<rparr>"
      using res n False d1 by (auto simp: pr_handleAsk_def a Let_def split: if_splits)
    moreover have "disp_inv (pr_disp ?Q)" using Q by (simp add: stage_ok_def)
    ultimately show ?thesis by (auto intro: stage_ok_same)
  qed
  from stage_ok_trans [OF Q this] A T show ?thesis by (simp add: stage_ok_def)
qed

section \<open>The network\<close>

text \<open>
  A message on which the dispatcher of the producer throws (a hash that names no partition) is no step
  here: it crashes the producer, and its supervisor stops it or starts a new one without
  subscriptions. So the reachable states are those of a producer that has not crashed.
  \<open>nt_owner\<close> remembers which consumer drew a tag; tags come from the clock and a random number
  and are taken to be fresh.
\<close>

record ('s, 'c, 'e) net =
  nt_prod :: "('s, 'e) producer"
  nt_ref :: actor_ref
  nt_cons :: "string \<Rightarrow> ('c, 'e) consumer"
  nt_asks :: "'e stage_msg list"
  nt_events :: "'e batch list"
  nt_timers :: "(string \<times> string) list"
  nt_owner :: "(string, string) jsmap"

definition run_consumer :: "string \<Rightarrow> (('c, 'e) consumer \<Rightarrow> ('c, 'e) consumer) \<Rightarrow> ('s, 'c, 'e) net \<Rightarrow> ('s, 'c, 'e) net" where
  "run_consumer c f N =
     (let C = f (nt_cons N c)
      in N\<lparr>nt_cons := (nt_cons N)(c := C\<lparr>co_out := []\<rparr>), nt_asks := nt_asks N @ map snd (co_out C)\<rparr>)"

definition run_producer :: "('s, 'e) producer \<Rightarrow> ('s, 'c, 'e) net \<Rightarrow> ('s, 'c, 'e) net" where
  "run_producer P N = N\<lparr>nt_prod := P\<lparr>pr_sent := []\<rparr>, nt_events := nt_events N @ pr_sent P\<rparr>"

inductive net_step ::
  "(int \<Rightarrow> 's \<Rightarrow> 'e list \<times> 's) \<Rightarrow> ('e list \<Rightarrow> string \<times> actor_ref \<Rightarrow> 'c \<Rightarrow> 'c) \<Rightarrow> ('s, 'c, 'e) net \<Rightarrow> ('s, 'c, 'e) net \<Rightarrow> bool"
  for cb :: "int \<Rightarrow> 's \<Rightarrow> 'e list \<times> 's" and he :: "'e list \<Rightarrow> string \<times> actor_ref \<Rightarrow> 'c \<Rightarrow> 'c" where
  subscribe: "jget (nt_owner N) t = None \<Longrightarrow> 0 \<le> maxDemand_of opts \<Longrightarrow> ref_id r = c \<Longrightarrow>
    pr_handleSubscribe t r (maxDemand_of opts) (minDemand_of opts) part (nt_prod N) = Inr P \<Longrightarrow>
    net_step cb he N ((run_consumer c (co_subscribeToProducer t (nt_ref N) opts) N)
      \<lparr>nt_prod := P, nt_timers := nt_timers N @ [(c, t)], nt_owner := jput (nt_owner N) t c\<rparr>)"
| refused: "jget (nt_owner N) t = None \<Longrightarrow> 0 \<le> maxDemand_of opts \<Longrightarrow> ref_id r = c \<Longrightarrow>
    pr_handleSubscribe t r (maxDemand_of opts) (minDemand_of opts) part (nt_prod N) = Inl e \<Longrightarrow>
    net_step cb he N ((run_consumer c (co_subscribeToProducer t (nt_ref N) opts) N)\<lparr>nt_owner := jput (nt_owner N) t c\<rparr>)"
| timer: "(c, t) \<in> set (nt_timers N) \<Longrightarrow>
    net_step cb he N (run_consumer c (co_handleCast he (DeferredAsk t)) (N\<lparr>nt_timers := remove1 (c, t) (nt_timers N)\<rparr>))"
| to_producer: "m \<in> set (nt_asks N) \<Longrightarrow> pr_handleCast cb m (nt_prod N) = (None, P) \<Longrightarrow>
    net_step cb he N (run_producer P (N\<lparr>nt_asks := remove1 m (nt_asks N)\<rparr>))"
| demand: "pr_handleCast cb SetDemandMode (nt_prod N) = (None, P) \<Longrightarrow> net_step cb he N (run_producer P N)"
| to_consumer: "(r, t, es) \<in> set (nt_events N) \<Longrightarrow>
    net_step cb he N (run_consumer (ref_id r) (co_handleCast he (Events t (nt_ref N) es))
      (N\<lparr>nt_events := remove1 (r, t, es) (nt_events N)\<rparr>))"
| cancel: "net_step cb he N (run_consumer c (\<lambda>C. snd (co_cancelSubscription t reason C)) N)"
| stop: "net_step cb he N (run_consumer c (co_cancelAll ''shutdown'') N)"

definition new_net :: "('s, 'e) producer \<Rightarrow> actor_ref \<Rightarrow> (string \<Rightarrow> 'c) \<Rightarrow> ('s, 'c, 'e) net" where
  "new_net P r s0 = \<lparr>nt_prod = P, nt_ref = r, nt_cons = (\<lambda>c. co_init (s0 c)), nt_asks = [], nt_events = [],
     nt_timers = [], nt_owner = []\<rparr>"

section \<open>The account of demand\<close>

fun ask_of :: "string \<Rightarrow> 'e stage_msg \<Rightarrow> int" where
  "ask_of t (Ask u n) = (if u = t then n else 0)"
| "ask_of t _ = 0"

definition asked :: "string \<Rightarrow> 'e stage_msg list \<Rightarrow> int" where
  "asked t ms = sum_list (map (ask_of t) ms)"

fun msg_ok :: "(string, string) jsmap \<Rightarrow> 'e stage_msg \<Rightarrow> bool" where
  "msg_ok ow (Ask t n) \<longleftrightarrow> 0 \<le> n \<and> jhas ow t"
| "msg_ok ow (Cancel t reason) \<longleftrightarrow> jhas ow t"
| "msg_ok ow _ \<longleftrightarrow> False"

text \<open>One subscription of consumer \<open>c\<close>.\<close>

definition sub_ok :: "('s, 'c, 'e) net \<Rightarrow> string \<Rightarrow> string \<Rightarrow> consumer_sub \<Rightarrow> bool" where
  "sub_ok N c t sub \<longleftrightarrow> jget (nt_owner N) t = Some c \<and> 0 \<le> cs_pending sub \<and> cs_pending sub \<le> cs_maxDemand sub \<and>
     cs_pending sub = asked t (nt_asks N) + disp_credit (pr_disp (nt_prod N)) t + sent t (nt_events N) \<and>
     (\<forall>reason. Cancel t reason \<notin> set (nt_asks N)) \<and>
     ((c, t) \<in> set (nt_timers N) \<or> disp_target (pr_disp (nt_prod N)) t = None \<longrightarrow>
        cs_pending sub = 0 \<and> (\<forall>r es. (r, t, es) \<notin> set (nt_events N))) \<and>
     (disp_target (pr_disp (nt_prod N)) t = None \<longrightarrow> (c, t) \<notin> set (nt_timers N))"

definition net_ok :: "('s, 'c, 'e) net \<Rightarrow> bool" where
  "net_ok N \<longleftrightarrow> disp_inv (pr_disp (nt_prod N)) \<and> pr_sent (nt_prod N) = [] \<and> distinct (nt_timers N) \<and>
     (\<forall>c. co_out (nt_cons N c) = []) \<and>
     (\<forall>t r. disp_target (pr_disp (nt_prod N)) t = Some r \<longrightarrow> jget (nt_owner N) t = Some (ref_id r)) \<and>
     (\<forall>r t es. (r, t, es) \<in> set (nt_events N) \<longrightarrow> jget (nt_owner N) t = Some (ref_id r)) \<and>
     (\<forall>c t. (c, t) \<in> set (nt_timers N) \<longrightarrow> jget (nt_owner N) t = Some c) \<and>
     (\<forall>m\<in>set (nt_asks N). msg_ok (nt_owner N) m) \<and>
     (\<forall>c t sub. jget (co_subs (nt_cons N c)) t = Some sub \<longrightarrow> sub_ok N c t sub)"


lemma asked_simps [simp]: "asked t [] = 0" "asked t (m # ms) = ask_of t m + asked t ms" "asked t (ms @ ms') = asked t ms + asked t ms'"
  by (simp_all add: asked_def)

lemma asked_remove1: "m \<in> set ms \<Longrightarrow> asked t (remove1 m ms) = asked t ms - ask_of t m"
  by (induction ms) auto

lemma ask_of_nonneg: "msg_ok ow m \<Longrightarrow> 0 \<le> ask_of t m"
  by (cases m) auto

lemma asked_nonneg: "\<forall>m\<in>set ms. msg_ok ow m \<Longrightarrow> 0 \<le> asked t ms"
  by (induction ms) (auto intro: add_nonneg_nonneg ask_of_nonneg)

lemma sent_remove1: "(r, u, es) \<in> set bs \<Longrightarrow> sent t (remove1 (r, u, es) bs) = sent t bs - (if u = t then int (length es) else 0)"
  by (induction bs) auto

lemma ask_le_asked: "\<forall>m\<in>set ms. msg_ok ow m \<Longrightarrow> m \<in> set ms \<Longrightarrow> ask_of t m \<le> asked t ms"
  by (induction ms) (auto intro: add_increasing ask_of_nonneg add_increasing2 asked_nonneg)

lemma sent_le: "(r, t, es) \<in> set bs \<Longrightarrow> int (length es) \<le> sent t bs"
  by (induction bs) (auto intro: add_increasing)

lemma net_okD:
  assumes "net_ok N"
  shows "disp_inv (pr_disp (nt_prod N))" "pr_sent (nt_prod N) = []" "distinct (nt_timers N)" "co_out (nt_cons N c) = []"
    "disp_target (pr_disp (nt_prod N)) t = Some r \<Longrightarrow> jget (nt_owner N) t = Some (ref_id r)"
    "(r, t, es) \<in> set (nt_events N) \<Longrightarrow> jget (nt_owner N) t = Some (ref_id r)"
    "(c, t) \<in> set (nt_timers N) \<Longrightarrow> jget (nt_owner N) t = Some c"
    "m \<in> set (nt_asks N) \<Longrightarrow> msg_ok (nt_owner N) m"
    "jget (co_subs (nt_cons N c)) t = Some sub \<Longrightarrow> sub_ok N c t sub"
  using assms unfolding net_ok_def by blast+

text \<open>A step of the producer: what leaves the asks turns into credit or events.\<close>

lemma producer_step:
  assumes ok: "net_ok N" and asks: "set asks \<subseteq> set (nt_asks N)"
    and inv: "disp_inv (pr_disp P)" and aim: "targeted P"
    and target: "\<And>t r. disp_target (pr_disp P) t = Some r \<Longrightarrow> disp_target (pr_disp (nt_prod N)) t = Some r"
    and bal: "\<And>c t sub. jget (co_subs (nt_cons N c)) t = Some sub \<Longrightarrow>
       asked t asks + balance P t = asked t (nt_asks N) + disp_credit (pr_disp (nt_prod N)) t \<and>
       disp_target (pr_disp P) t = disp_target (pr_disp (nt_prod N)) t"
  shows "net_ok (run_producer P (N\<lparr>nt_asks := asks\<rparr>))"
proof -
  let ?N = "run_producer P (N\<lparr>nt_asks := asks\<rparr>)"
  have f: "nt_prod ?N = P\<lparr>pr_sent := []\<rparr>" "nt_cons ?N = nt_cons N" "nt_asks ?N = asks" "nt_timers ?N = nt_timers N"
    "nt_events ?N = nt_events N @ pr_sent P" "nt_owner ?N = nt_owner N"
    by (simp_all add: run_producer_def)
  have new: "disp_target (pr_disp P) t = Some r \<and> 0 < balance P t" if "(r, t, es) \<in> set (pr_sent P)" for r t es
    using aim that unfolding targeted_def aimed_iff by blast
  have sub: "sub_ok ?N c t sub" if s: "jget (co_subs (nt_cons ?N c)) t = Some sub" for c t sub
  proof -
    have S: "sub_ok N c t sub" using net_okD(9) [OF ok] s f(2) by simp
    have B: "asked t asks + balance P t = asked t (nt_asks N) + disp_credit (pr_disp (nt_prod N)) t"
      "disp_target (pr_disp P) t = disp_target (pr_disp (nt_prod N)) t" using bal s f(2) by auto
    have "0 \<le> asked t asks" by (rule asked_nonneg [of _ "nt_owner N"]) (use net_okD(8) [OF ok] asks in auto)
    moreover have "cs_pending sub = asked t (nt_asks N) + disp_credit (pr_disp (nt_prod N)) t + sent t (nt_events N)"
      using S by (simp add: sub_ok_def)
    ultimately have "cs_pending sub \<noteq> 0" if "0 < balance P t"
      using B(1) that sent_nonneg [of t "nt_events N"] by linarith
    then have "\<forall>r es. (r, t, es) \<notin> set (pr_sent P)" if "cs_pending sub = 0" using new that by blast
    then show ?thesis
      using S B asks unfolding sub_ok_def f by (auto simp: balance_def)
  qed
  show ?thesis
    unfolding net_ok_def f
    using net_okD [OF ok] inv asks target new sub f by (auto dest: target)
qed


text \<open>A step of a consumer that concerns the tags \<open>T\<close>, its own.\<close>

lemma consumer_step:
  assumes ok: "net_ok N" and f: "f (nt_cons N c) = C"
    and N': "N' = run_consumer c f (N\<lparr>nt_events := evs, nt_timers := tms\<rparr>)"
    and evs: "set evs \<subseteq> set (nt_events N)" "\<And>u. u \<notin> T \<Longrightarrow> sent u evs = sent u (nt_events N)"
    and tms: "set tms \<subseteq> set (nt_timers N)" "distinct tms"
    and T: "\<And>u. u \<in> T \<Longrightarrow> jget (nt_owner N) u = Some c"
    and C: "\<And>u. u \<notin> T \<Longrightarrow> jget (co_subs C) u = jget (co_subs (nt_cons N c)) u"
    and out: "\<And>m. m \<in> snd ` set (co_out C) \<Longrightarrow> msg_ok (nt_owner N) m \<and>
       (\<forall>u. u \<notin> T \<longrightarrow> ask_of u m = 0 \<and> (\<forall>reason. m \<noteq> Cancel u reason))"
    and new: "\<And>u sub. u \<in> T \<Longrightarrow> jget (co_subs C) u = Some sub \<Longrightarrow> sub_ok N' c u sub"
  shows "net_ok N'"
proof -
  have g: "nt_prod N' = nt_prod N" "nt_cons N' = (nt_cons N)(c := C\<lparr>co_out := []\<rparr>)"
    "nt_asks N' = nt_asks N @ map snd (co_out C)" "nt_timers N' = tms" "nt_events N' = evs" "nt_owner N' = nt_owner N"
    by (simp_all add: N' run_consumer_def f Let_def)
  have zero: "asked u (map snd (co_out C)) = 0" if "u \<notin> T" for u
  proof -
    have "ask_of u (snd x) = 0" if "x \<in> set (co_out C)" for x using out [of "snd x"] \<open>u \<notin> T\<close> that by simp
    then show ?thesis by (simp add: asked_def comp_def sum_list_0 cong: map_cong)
  qed
  have sub: "sub_ok N' d u sub" if s: "jget (co_subs (nt_cons N' d)) u = Some sub" for d u sub
  proof (cases "u \<in> T")
    case True
    show ?thesis
    proof (cases "d = c")
      case False
      then have "jget (nt_owner N) u = Some d" using s g(2) net_okD(9) [OF ok, of d u sub] by (simp add: sub_ok_def)
      then show ?thesis using T [OF True] False by simp
    qed (use s g(2) new [OF True] in simp)
  next
    case False
    then have "sub_ok N d u sub" using s g(2) C net_okD(9) [OF ok, of d u sub] by (simp split: if_splits)
    moreover have "Cancel u reason \<notin> snd ` set (co_out C)" for reason using out False by blast
    ultimately show ?thesis
      using False evs tms(1) unfolding sub_ok_def g by (auto simp: zero)
  qed
  show ?thesis
    unfolding net_ok_def g
  proof (intro conjI allI impI ballI)
    fix m assume "m \<in> set (nt_asks N @ map snd (co_out C))"
    then show "msg_ok (nt_owner N) m" using net_okD(8) [OF ok] out by auto
  next
    fix d t sub assume "jget (co_subs (((nt_cons N)(c := C\<lparr>co_out := []\<rparr>)) d)) t = Some sub"
    then show "sub_ok N' d t sub" using sub g(2) by simp
  qed (use net_okD [OF ok] evs tms in auto)
qed


lemma fresh_tag:
  assumes ok: "net_ok N" and t: "jget (nt_owner N) t = None"
  shows "disp_target (pr_disp (nt_prod N)) t = None" "disp_credit (pr_disp (nt_prod N)) t = 0"
    "(r, t, es) \<notin> set (nt_events N)" "sent t (nt_events N) = 0" "(c, t) \<notin> set (nt_timers N)"
    "asked t (nt_asks N) = 0" "Cancel t reason \<notin> set (nt_asks N)"
proof -
  show d: "disp_target (pr_disp (nt_prod N)) t = None"
    using net_okD(5) [OF ok, of t] t by (cases "disp_target (pr_disp (nt_prod N)) t") auto
  show "disp_credit (pr_disp (nt_prod N)) t = 0" by (rule stage_disp.credit_absent [OF net_okD(1) [OF ok] d])
  show e: "(r, t, es) \<notin> set (nt_events N)" for r es using net_okD(6) [OF ok, of r t es] t by auto
  have "\<forall>x\<in>set bs. fst (snd x) \<noteq> t \<Longrightarrow> sent t bs = 0" for bs :: "'c batch list" by (induction bs) auto
  moreover have "\<forall>x\<in>set (nt_events N). fst (snd x) \<noteq> t"
  proof
    fix x assume "x \<in> set (nt_events N)"
    moreover obtain r u es where "x = (r, u, es)" by (cases x)
    ultimately show "fst (snd x) \<noteq> t" using e [of r es] by auto
  qed
  ultimately show "sent t (nt_events N) = 0" by blast
  show "(c, t) \<notin> set (nt_timers N)" using net_okD(7) [OF ok, of c t] t by auto
  have m: "ask_of t m = 0 \<and> m \<noteq> Cancel t reason" if "m \<in> set (nt_asks N)" for m reason
    using net_okD(8) [OF ok that] t by (cases m) (auto simp: jhas_def)
  then have "\<forall>m\<in>set ms. ask_of t m = 0 \<Longrightarrow> asked t ms = 0" for ms :: "'c stage_msg list" by (induction ms) auto
  then show "asked t (nt_asks N) = 0" using m by blast
  show "Cancel t reason \<notin> set (nt_asks N)" using m by blast
qed

lemma subscribe_step:
  assumes ok: "net_ok N" and t: "jget (nt_owner N) t = None" and mx: "0 \<le> maxDemand_of opts"
    and P: "disp_inv (pr_disp P)" "pr_sent P = []" "disp_credit (pr_disp P) = disp_credit (pr_disp (nt_prod N))"
    and target: "\<And>u. u \<noteq> t \<Longrightarrow> disp_target (pr_disp P) u = disp_target (pr_disp (nt_prod N)) u"
      "\<And>r. disp_target (pr_disp P) t = Some r \<Longrightarrow> ref_id r = c"
    and tms: "tms = nt_timers N \<or> tms = nt_timers N @ [(c, t)] \<and> disp_target (pr_disp P) t \<noteq> None"
  shows "net_ok ((run_consumer c (co_subscribeToProducer t (nt_ref N) opts) N)
     \<lparr>nt_prod := P, nt_timers := tms, nt_owner := jput (nt_owner N) t c\<rparr>)"
    (is "net_ok ?N")
proof -
  note F = fresh_tag [OF ok t]
  have out: "co_out (nt_cons N c) = []" by (rule net_okD(4) [OF ok])
  have g: "nt_prod ?N = P" "nt_asks ?N = nt_asks N" "nt_timers ?N = tms" "nt_events ?N = nt_events N"
    "nt_owner ?N = jput (nt_owner N) t c"
    by (simp_all add: run_consumer_def co_subscribeToProducer_def out Let_def)
  have cons: "jget (co_subs (nt_cons ?N d)) u =
      (if d = c \<and> u = t then Some (new_consumer_sub (nt_ref N) opts) else jget (co_subs (nt_cons N d)) u)" for d u
    by (simp add: run_consumer_def co_subscribeToProducer_def Let_def)
  have tms': "(d, u) \<in> set tms \<longleftrightarrow> (d, u) \<in> set (nt_timers N)" if "u \<noteq> t" for d u using that tms by auto
  have sub: "sub_ok ?N d u sub" if s: "jget (co_subs (nt_cons ?N d)) u = Some sub" for d u sub
  proof (cases "d = c \<and> u = t")
    case True
    then have e: "sub = new_consumer_sub (nt_ref N) opts" using s cons by simp
    have "(c, t) \<notin> set tms" if "disp_target (pr_disp P) t = None" using tms that F(5) by auto
    then show ?thesis using True F mx P(3) unfolding sub_ok_def g e by (simp add: new_consumer_sub_def)
  next
    case False
    then have "jget (co_subs (nt_cons N d)) u = Some sub" using s unfolding cons by auto
    then have S: "sub_ok N d u sub" by (rule net_okD(9) [OF ok])
    then have "u \<noteq> t" using t by (auto simp: sub_ok_def)
    then show ?thesis using S unfolding sub_ok_def g by (auto simp: target(1) tms' P(3))
  qed
  have d: "distinct tms" using tms net_okD(3) [OF ok] F(5) by auto
  have "co_out (nt_cons ?N d) = []" for d using net_okD(4) [OF ok] by (simp add: run_consumer_def Let_def)
  moreover have "jget (nt_owner ?N) u = Some (ref_id r)" if "disp_target (pr_disp P) u = Some r" for u r
    using that target net_okD(5) [OF ok, of u r] by (cases "u = t") (auto simp: g)
  moreover have "jget (nt_owner ?N) u = Some (ref_id r)" if "(r, u, es) \<in> set (nt_events N)" for r u es
    using net_okD(6) [OF ok that] t by (auto simp: g)
  moreover have "jget (nt_owner ?N) u = Some d'" if "(d', u) \<in> set tms" for u d'
  proof (cases "(d', u) \<in> set (nt_timers N)")
    case True
    then show ?thesis using net_okD(7) [OF ok True] t by (auto simp: g)
  qed (use that tms in \<open>auto simp: g\<close>)
  moreover have "msg_ok (nt_owner ?N) m" if "m \<in> set (nt_asks N)" for m
    using net_okD(8) [OF ok that] by (cases m) (auto simp: g)
  ultimately show ?thesis unfolding net_ok_def g using P(1,2) sub d by (simp add: g)
qed

lemma net_ok_producer:
  assumes ok: "net_ok N" and m: "m \<in> set (nt_asks N)" and res: "pr_handleCast cb m (nt_prod N) = (None, P)"
  shows "net_ok (run_producer P (N\<lparr>nt_asks := remove1 m (nt_asks N)\<rparr>))"
proof -
  let ?P = "nt_prod N"
  have bal: "balance ?P t = disp_credit (pr_disp ?P) t" for t by (simp add: balance_def net_okD(2) [OF ok])
  have tg: "targeted ?P" by (simp add: targeted_def aimed_iff net_okD(2) [OF ok])
  have sub: "set (remove1 m (nt_asks N)) \<subseteq> set (nt_asks N)" by (rule set_remove1_subset)
  consider (ask) t n where "m = Ask t n" "0 \<le> n" | (cancel) t reason where "m = Cancel t reason"
    using net_okD(8) [OF ok m] by (cases m) auto
  then show ?thesis
  proof cases
    case ask
    from ask_ok [OF net_okD(1) [OF ok] ask(2)] res ask(1)
    have A: "disp_inv (pr_disp P)" "disp_target (pr_disp P) = disp_target (pr_disp ?P)"
      "\<And>u. balance P u = balance ?P u + (if u = t \<and> disp_target (pr_disp ?P) t \<noteq> None then n else 0)" "targeted P"
      using tg by auto
    show ?thesis
    proof (rule producer_step [OF ok sub A(1) A(4)])
      fix c u s assume s: "jget (co_subs (nt_cons N c)) u = Some s"
      have "n = 0" if "u = t" "disp_target (pr_disp ?P) t = None"
      proof -
        have S: "sub_ok N c t s" using net_okD(9) [OF ok s] that by simp
        have "ask_of t m \<le> asked t (nt_asks N)" by (rule ask_le_asked [OF _ m]) (use net_okD(8) [OF ok] in blast)
        then have "n \<le> asked t (nt_asks N)" using ask(1) by simp
        moreover have "0 = asked t (nt_asks N) + disp_credit (pr_disp ?P) t + sent t (nt_events N)"
          using S that(2) by (simp add: sub_ok_def)
        moreover note stage_disp.credit_nonneg [OF net_okD(1) [OF ok], of t] sent_nonneg [of t "nt_events N"]
        ultimately show ?thesis using ask(2) by linarith
      qed
      then show "asked u (remove1 m (nt_asks N)) + balance P u = asked u (nt_asks N) + disp_credit (pr_disp ?P) u \<and>
          disp_target (pr_disp P) u = disp_target (pr_disp ?P) u"
        using ask m by (auto simp: asked_remove1 A(2,3) bal)
    qed (simp add: A(2))
  next
    case cancel
    then have P: "P = pr_handleCancel t ?P" using res by simp
    have C: "disp_inv (pr_disp P)" "disp_target (pr_disp P) = (disp_target (pr_disp ?P))(t := None)"
      "disp_credit (pr_disp P) = (disp_credit (pr_disp ?P))(t := 0)" "pr_sent P = []"
      using stage_disp.cancel_ok [OF net_okD(1) [OF ok], of t] by (simp_all add: P pr_handleCancel_def net_okD(2) [OF ok])
    show ?thesis
    proof (rule producer_step [OF ok sub C(1)])
      show "targeted P" by (simp add: targeted_def aimed_iff C(4))
      fix c u s assume "jget (co_subs (nt_cons N c)) u = Some s"
      then have "u \<noteq> t" using net_okD(9) [OF ok, of c u s] m cancel by (auto simp: sub_ok_def)
      then show "asked u (remove1 m (nt_asks N)) + balance P u = asked u (nt_asks N) + disp_credit (pr_disp ?P) u \<and>
          disp_target (pr_disp P) u = disp_target (pr_disp ?P) u"
        using m cancel by (simp add: asked_remove1 balance_def C)
    qed (simp add: C(2) split: if_splits)
  qed
qed


lemma net_ok_demand:
  assumes ok: "net_ok N" and res: "pr_handleCast cb SetDemandMode (nt_prod N) = (None, P)"
  shows "net_ok (run_producer P N)"
proof -
  have "stage_ok (nt_prod N) P" using switch_ok [OF net_okD(1) [OF ok]] res by simp
  moreover have "targeted (nt_prod N)" by (simp add: targeted_def aimed_iff net_okD(2) [OF ok])
  moreover have "balance (nt_prod N) t = disp_credit (pr_disp (nt_prod N)) t" for t
    by (simp add: balance_def net_okD(2) [OF ok])
  ultimately have "net_ok (run_producer P (N\<lparr>nt_asks := nt_asks N\<rparr>))"
    by (intro producer_step [OF ok]) (simp_all add: stage_ok_def)
  then show ?thesis by simp
qed

lemma run_consumer_fields:
  "nt_prod (run_consumer c f N) = nt_prod N" "nt_timers (run_consumer c f N) = nt_timers N"
  "nt_events (run_consumer c f N) = nt_events N" "nt_owner (run_consumer c f N) = nt_owner N"
  "nt_asks (run_consumer c f N) = nt_asks N @ map snd (co_out (f (nt_cons N c)))"
  by (simp_all add: run_consumer_def Let_def)

lemma net_ok_timer:
  assumes ok: "net_ok N" and t: "(c, t) \<in> set (nt_timers N)"
  shows "net_ok (run_consumer c (co_handleCast he (DeferredAsk t)) (N\<lparr>nt_timers := remove1 (c, t) (nt_timers N)\<rparr>))"
    (is "net_ok ?N")
proof -
  let ?C = "co_handleCast he (DeferredAsk t) (nt_cons N c)"
  have o1: "jget (nt_owner N) t = Some c" by (rule net_okD(7) [OF ok t])
  note out0 = net_okD(4) [OF ok, of c]
  have T: "(c, t) \<notin> set (remove1 (c, t) (nt_timers N))" using net_okD(3) [OF ok] by simp
  have mx: "0 \<le> cs_maxDemand sub" if "jget (co_subs (nt_cons N c)) t = Some sub" for sub
    using net_okD(9) [OF ok that] by (simp add: sub_ok_def)
  show ?thesis
  proof (rule consumer_step [OF ok refl, where N' = ?N and evs = "nt_events N" and T = "{t}"])
    show "?N = run_consumer c (co_handleCast he (DeferredAsk t))
        (N\<lparr>nt_events := nt_events N, nt_timers := remove1 (c, t) (nt_timers N)\<rparr>)" by simp
    show "jget (co_subs ?C) u = jget (co_subs (nt_cons N c)) u" if "u \<notin> {t}" for u
      using that by (simp add: co_sendInitialDemand_def co_askProducer_def split: option.split)
    show "msg_ok (nt_owner N) m \<and> (\<forall>u. u \<notin> {t} \<longrightarrow> ask_of u m = 0 \<and> (\<forall>reason. m \<noteq> Cancel u reason))"
      if "m \<in> snd ` set (co_out ?C)" for m
      using that mx o1 by (auto simp: co_sendInitialDemand_def co_askProducer_def out0 jhas_def split: option.splits)
    show "sub_ok ?N c u sub" if u: "u \<in> {t}" and s: "jget (co_subs ?C) u = Some sub" for u sub
    proof -
      obtain sub0 where s0: "jget (co_subs (nt_cons N c)) t = Some sub0"
        using s u by (cases "jget (co_subs (nt_cons N c)) t") (auto simp: co_sendInitialDemand_def)
      have S: "sub_ok N c t sub0" by (rule net_okD(9) [OF ok s0])
      have e: "sub = sub0\<lparr>cs_pending := cs_pending sub0 + cs_maxDemand sub0\<rparr>"
        "co_out ?C = [(cs_ref sub0, Ask t (cs_maxDemand sub0))]"
        using s u s0 by (simp_all add: co_sendInitialDemand_def co_askProducer_def out0)
      have asks: "nt_asks ?N = nt_asks N @ [Ask t (cs_maxDemand sub0)]" unfolding run_consumer_fields using e(2) by simp
      show ?thesis
        using S t T u mx [OF s0] unfolding sub_ok_def asks run_consumer_fields(1-4) by (auto simp: e(1))
    qed
  qed (use o1 net_okD(3) [OF ok] in \<open>auto dest: notin_set_remove1\<close>)
qed

lemma net_ok_to_consumer:
  assumes ok: "net_ok N" and b: "(r, t, es) \<in> set (nt_events N)"
  shows "net_ok (run_consumer (ref_id r) (co_handleCast he (Events t (nt_ref N) es))
     (N\<lparr>nt_events := remove1 (r, t, es) (nt_events N)\<rparr>))" (is "net_ok ?N")
proof -
  let ?c = "ref_id r" and ?f = "co_handleCast he (Events t (nt_ref N) es)"
  let ?C = "?f (nt_cons N ?c)"
  have o1: "jget (nt_owner N) t = Some ?c" by (rule net_okD(6) [OF ok b])
  note out0 = net_okD(4) [OF ok, of ?c]
  have acc: "cs_pending sub = asked t (nt_asks N) + disp_credit (pr_disp (nt_prod N)) t + sent t (nt_events N)"
    "(?c, t) \<notin> set (nt_timers N)" "disp_target (pr_disp (nt_prod N)) t \<noteq> None" "cs_pending sub \<le> cs_maxDemand sub"
    "\<forall>reason. Cancel t reason \<notin> set (nt_asks N)" "int (length es) \<le> cs_pending sub"
    if "jget (co_subs (nt_cons N ?c)) t = Some sub" for sub
  proof -
    have S: "sub_ok N ?c t sub" by (rule net_okD(9) [OF ok that])
    then show e: "cs_pending sub = asked t (nt_asks N) + disp_credit (pr_disp (nt_prod N)) t + sent t (nt_events N)"
      and "(?c, t) \<notin> set (nt_timers N)" "disp_target (pr_disp (nt_prod N)) t \<noteq> None" "cs_pending sub \<le> cs_maxDemand sub"
      "\<forall>reason. Cancel t reason \<notin> set (nt_asks N)"
      using b by (auto simp: sub_ok_def)
    show "int (length es) \<le> cs_pending sub"
      using e sent_le [OF b] asked_nonneg [of "nt_asks N" "nt_owner N" t] net_okD(8) [OF ok]
        stage_disp.credit_nonneg [OF net_okD(1) [OF ok], of t] by simp
  qed
  show ?thesis
  proof (rule consumer_step [OF ok refl, where N' = ?N and tms = "nt_timers N" and T = "{t}"])
    show "?N = run_consumer ?c ?f (N\<lparr>nt_events := remove1 (r, t, es) (nt_events N), nt_timers := nt_timers N\<rparr>)" by simp
    show "jget (co_subs ?C) u = jget (co_subs (nt_cons N ?c)) u" if "u \<notin> {t}" for u
      using that by (simp add: co_handleEvents_def Let_def co_askProducer_def split: option.split)
    show "msg_ok (nt_owner N) m \<and> (\<forall>u. u \<notin> {t} \<longrightarrow> ask_of u m = 0 \<and> (\<forall>reason. m \<noteq> Cancel u reason))"
      if "m \<in> snd ` set (co_out ?C)" for m
      using that acc o1
      by (auto simp: co_handleEvents_def Let_def co_askProducer_def received_def out0 jhas_def split: option.splits if_splits)
    show "sub_ok ?N ?c u sub" if u: "u \<in> {t}" and s: "jget (co_subs ?C) u = Some sub" for u sub
    proof -
      obtain sub0 where s0: "jget (co_subs (nt_cons N ?c)) t = Some sub0"
        using s u by (cases "jget (co_subs (nt_cons N ?c)) t") (auto simp: co_handleEvents_def)
      note A = acc [OF s0]
      let ?n = "cs_pending sub0 - int (length es)"
      have r0: "received (length es) sub0 = sub0\<lparr>cs_pending := ?n\<rparr>" using A(6) by (simp add: received_def)
      have e: "sub = sub0\<lparr>cs_pending := (if ?n \<le> cs_minDemand sub0 then cs_maxDemand sub0 else ?n)\<rparr>"
        "map snd (co_out ?C) = (if ?n \<le> cs_minDemand sub0 then [Ask t (cs_maxDemand sub0 - ?n)] else [])"
        using s u s0 by (auto simp: co_handleEvents_def Let_def co_askProducer_def r0 out0 split: if_splits)
      have asks: "nt_asks ?N = nt_asks N @ (if ?n \<le> cs_minDemand sub0 then [Ask t (cs_maxDemand sub0 - ?n)] else [])"
        unfolding run_consumer_fields using e(2) by simp
      have "0 \<le> ?n" "0 \<le> cs_maxDemand sub0" using A(4,6) by simp_all
      then show ?thesis
        using A o1 b u unfolding sub_ok_def asks run_consumer_fields(1-4) by (auto simp: e(1) sent_remove1)
    qed
    show "sent u (remove1 (r, t, es) (nt_events N)) = sent u (nt_events N)" if "u \<notin> {t}" for u
      using that b by (simp add: sent_remove1)
  qed (use o1 net_okD(3) [OF ok] set_remove1_subset [of "(r, t, es)" "nt_events N"] in auto)
qed


lemma net_ok_cancel:
  assumes ok: "net_ok N"
  shows "net_ok (run_consumer c (\<lambda>C. snd (co_cancelSubscription t reason C)) N)" (is "net_ok ?N")
proof (cases "jget (co_subs (nt_cons N c)) t")
  case None
  have out: "(nt_cons N c)\<lparr>co_out := []\<rparr> = nt_cons N c" using net_okD(4) [OF ok, of c] by (cases "nt_cons N c") simp
  then have "?N = N" using net_okD(4) [OF ok, of c] by (simp add: run_consumer_def co_cancelSubscription_def None Let_def out)
  then show ?thesis using ok by simp
next
  case (Some sub)
  let ?f = "\<lambda>C. snd (co_cancelSubscription t reason C)"
  have o1: "jget (nt_owner N) t = Some c" using net_okD(9) [OF ok Some] by (simp add: sub_ok_def)
  have C: "?f (nt_cons N c) = (nt_cons N c)\<lparr>co_out := [(cs_ref sub, Cancel t reason)], co_subs := jdel (co_subs (nt_cons N c)) t\<rparr>"
    using Some net_okD(4) [OF ok, of c] by (simp add: co_cancelSubscription_def)
  show ?thesis
    by (rule consumer_step [where f = ?f, OF ok C, where N' = ?N and evs = "nt_events N" and tms = "nt_timers N" and T = "{t}"])
      (use o1 net_okD(3) [OF ok] in \<open>auto simp: jhas_def\<close>)
qed

lemma net_ok_stop:
  assumes ok: "net_ok N"
  shows "net_ok (run_consumer c (co_cancelAll reason) N)" (is "net_ok ?N")
proof -
  let ?subs = "co_subs (nt_cons N c)"
  have C: "co_cancelAll reason (nt_cons N c) =
      (nt_cons N c)\<lparr>co_out := map (\<lambda>(t, sub). (cs_ref sub, Cancel t reason)) ?subs, co_subs := []\<rparr>"
    using net_okD(4) [OF ok, of c] by (simp add: co_cancelAll_def)
  have o1: "jget (nt_owner N) u = Some c" if "u \<in> set (jkeys ?subs)" for u
  proof -
    obtain sub where "jget ?subs u = Some sub" using \<open>u \<in> set (jkeys ?subs)\<close> by (cases "jget ?subs u") (auto simp: map_of_eq_None_iff)
    from net_okD(9) [OF ok this] show ?thesis by (simp add: sub_ok_def)
  qed
  show ?thesis
  proof (rule consumer_step [where f = "co_cancelAll reason", OF ok C, where N' = ?N and evs = "nt_events N" and tms = "nt_timers N" and T = "set (jkeys ?subs)"])
    show "jget (co_subs ((nt_cons N c)\<lparr>co_out := map (\<lambda>(t, sub). (cs_ref sub, Cancel t reason)) ?subs, co_subs := []\<rparr>)) u
        = jget ?subs u" if "u \<notin> set (jkeys ?subs)" for u
      using that by (simp add: map_of_eq_None_iff [symmetric] eq_commute [of None])
    show "msg_ok (nt_owner N) m \<and> (\<forall>u. u \<notin> set (jkeys ?subs) \<longrightarrow> ask_of u m = 0 \<and> (\<forall>reason. m \<noteq> Cancel u reason))"
      if "m \<in> snd ` set (co_out ((nt_cons N c)\<lparr>co_out := map (\<lambda>(t, sub). (cs_ref sub, Cancel t reason)) ?subs, co_subs := []\<rparr>))"
      for m
    proof -
      from that obtain t sub where m: "m = Cancel t reason" "(t, sub) \<in> set ?subs" by auto
      then have "t \<in> set (jkeys ?subs)" by force
      then show ?thesis using o1 m(1) by (auto simp: jhas_def)
    qed
  qed (use o1 net_okD(3) [OF ok] in auto)
qed

lemma net_ok_step: "net_step cb he N N' \<Longrightarrow> net_ok N \<Longrightarrow> net_ok N'"
proof (induction rule: net_step.induct)
  case (subscribe N t opts r c part P)
  let ?d = "pr_disp (nt_prod N)"
  note ok = subscribe.prems
  note F = fresh_tag [OF ok subscribe.hyps(1)]
  obtain d where d: "disp_subscribe t (new_sub r (maxDemand_of opts) (minDemand_of opts)) part ?d = Inr d" "P = (nt_prod N)\<lparr>pr_disp := d\<rparr>"
    using subscribe.hyps(4)
    by (cases "disp_subscribe t (new_sub r (maxDemand_of opts) (minDemand_of opts)) part ?d") (auto simp: pr_handleSubscribe_def)
  from stage_disp.subscribe_ok [OF net_okD(1) [OF ok] F(1) _ d(1)]
  have "disp_inv d \<and> disp_target d = (disp_target ?d)(t \<mapsto> r) \<and> disp_credit d = disp_credit ?d" by (simp add: new_sub_def)
  then show ?case
    using subscribe.hyps net_okD(2) [OF ok] by (intro subscribe_step [OF ok]) (auto simp: d(2))
next
  case (refused N t opts r c part e)
  note ok = refused.prems
  have "net_ok ((run_consumer c (co_subscribeToProducer t (nt_ref N) opts) N)
     \<lparr>nt_prod := nt_prod N, nt_timers := nt_timers N, nt_owner := jput (nt_owner N) t c\<rparr>)"
    using refused.hyps net_okD(1,2) [OF ok] fresh_tag(1) [OF ok refused.hyps(1)] by (intro subscribe_step [OF ok]) auto
  then show ?case by (simp add: run_consumer_def Let_def)
qed (simp_all add: net_ok_timer net_ok_producer net_ok_demand net_ok_to_consumer net_ok_cancel net_ok_stop)

lemma net_ok_new: "net_ok (new_net (pr_init view s0 opts) r cs)"
  by (simp add: net_ok_def new_net_def pr_init_def co_init_def)

lemma net_ok_reachable: "(net_step cb he)\<^sup>*\<^sup>* N N' \<Longrightarrow> net_ok N \<Longrightarrow> net_ok N'"
  by (induction rule: rtranclp_induct) (auto intro: net_ok_step)

text \<open>
  C15: Back-pressure: with every dispatcher, and in every interleaving of subscribing, asking,
  producing, delivering and cancelling, what a consumer waits for (\<open>pendingDemand\<close>) is exactly
  what is on its way: its asks, its credit at the producer, and the events sent to it. So there
  are never more than \<open>maxDemand\<close> events in flight on a subscription, and no demand gets lost. (A
  producer whose dispatcher throws crashes, and the network ends there.)
\<close>

theorem backpressure:
  assumes "(net_step cb he)\<^sup>*\<^sup>* (new_net (pr_init view s0 opts) r cs) N"
    and "jget (co_subs (nt_cons N c)) t = Some sub"
  shows "cs_pending sub = asked t (nt_asks N) + disp_credit (pr_disp (nt_prod N)) t + sent t (nt_events N)
     \<and> 0 \<le> asked t (nt_asks N) \<and> 0 \<le> disp_credit (pr_disp (nt_prod N)) t
     \<and> sent t (nt_events N) \<le> cs_maxDemand sub"
proof -
  have ok: "net_ok N" using net_ok_reachable [OF assms(1) net_ok_new] .
  have "sub_ok N c t sub" by (rule net_okD(9) [OF ok assms(2)])
  moreover have "0 \<le> asked t (nt_asks N)" by (rule asked_nonneg) (use net_okD(8) [OF ok] in blast)
  moreover have "0 \<le> disp_credit (pr_disp (nt_prod N)) t" by (rule stage_disp.credit_nonneg [OF net_okD(1) [OF ok]])
  ultimately show ?thesis by (simp add: sub_ok_def)
qed

section \<open>Witness\<close>

definition default_subscription :: subscription_options where
  "default_subscription = \<lparr>so_maxDemand = None, so_minDemand = None, so_cancel = None, so_partition = None\<rparr>"

definition stage_ref :: "string \<Rightarrow> actor_ref" where
  "stage_ref i = \<lparr>ref_node = ''n'', ref_id = i, ref_name = None, ref_original = True\<rparr>"

text \<open>A subscription that is accepted.\<close>

definition joined :: "string \<Rightarrow> string \<Rightarrow> ('s, 'c, 'e) net \<Rightarrow> ('s, 'c, 'e) net" where
  "joined c t N =
     (run_consumer c (co_subscribeToProducer t (nt_ref N) default_subscription) N)
       \<lparr>nt_prod := projr (pr_handleSubscribe t (stage_ref c) 1000 750 None (nt_prod N)),
         nt_timers := nt_timers N @ [(c, t)], nt_owner := jput (nt_owner N) t c\<rparr>"

lemma joined_step:
  assumes "jget (nt_owner N) t = None" "\<exists>P. pr_handleSubscribe t (stage_ref c) 1000 750 None (nt_prod N) = Inr P"
  shows "net_step cb he N (joined c t N)"
proof -
  have "maxDemand_of default_subscription = 1000" "minDemand_of default_subscription = 750" "ref_id (stage_ref c) = c"
    by (simp_all add: maxDemand_of_def minDemand_of_def default_subscription_def stage_ref_def)
  then show ?thesis
    using assms net_step.subscribe [of N t default_subscription "stage_ref c" c None _ cb he] by (auto simp: joined_def)
qed

definition plain_options :: "'e producer_options" where
  "plain_options = \<lparr>po_bufferSize = None, po_bufferKeep = None, po_dispatcher = None, po_demand = None\<rparr>"

definition one_joined :: "(unit, unit, nat) net" where
  "one_joined = joined ''a'' ''t'' (new_net (pr_init (\<lambda>_. EOther) () plain_options) (stage_ref ''p'') (\<lambda>_. ()))"

theorem backpressure_witness:
  "sent ''t'' (nt_events one_joined) \<le> 1000"
proof -
  let ?N0 = "new_net (pr_init (\<lambda>_. EOther) () plain_options) (stage_ref ''p'') (\<lambda>_. ()) :: (unit, unit, nat) net"
  have "net_step (\<lambda>_ s. ([], s)) (\<lambda>_ _ s. s) ?N0 one_joined"
    unfolding one_joined_def
    by (rule joined_step) (simp_all add: new_net_def pr_handleSubscribe_def pr_init_def createDispatcher_def plain_options_def
        dd_subscribe_def)
  then have r: "(net_step (\<lambda>_ s. ([], s)) (\<lambda>_ _ s. s))\<^sup>*\<^sup>* ?N0 one_joined" by (rule r_into_rtranclp)
  have n: "jget (co_subs (nt_cons one_joined ''a'')) ''t'' = Some (new_consumer_sub (stage_ref ''p'') default_subscription)"
    by (simp add: one_joined_def joined_def run_consumer_def co_subscribeToProducer_def new_net_def co_init_def Let_def)
  from backpressure [OF r n] show ?thesis by (simp add: new_consumer_sub_def maxDemand_of_def default_subscription_def)
qed

end
