(* ===== verification/Stage_Order.thy ===== *)
theory Stage_Order
  imports Pipeline "HOL-Library.Sublist"
begin

text \<open>
  What comes out of a stage: with the demand dispatcher a producer hands on the events its
  callback returned in their order, none twice, and all of them unless its buffer overflows. And what can go wrong:
  a consumer of a broadcast can be left waiting for ever, and a partitioned stage can hold an
  event back while later ones pass it.
\<close>

section \<open>DemandDispatcher keeps the order\<close>

definition contents :: "'e batch list \<Rightarrow> 'e list" where
  "contents bs = concat (map (\<lambda>(r, t, es). es) bs)"

lemma contents_simps [simp]:
  "contents [] = []" "contents ((r, t, es) # bs) = es @ contents bs" "contents (bs @ bs') = contents bs @ contents bs'"
  by (simp_all add: contents_def)

definition no_demand :: "subs \<Rightarrow> bool" where
  "no_demand d \<longleftrightarrow> (\<forall>(t, sub)\<in>set d. ps_demand sub \<le> 0)"

lemma best_sub_no_demand: "best_sub d = None \<longleftrightarrow> no_demand d"
  using best_sub_in [of d] best_sub_None [of d] by (cases "best_sub d") (force simp: no_demand_def)+

lemma dd_loop_order:
  "dd_loop d es = (bs, rem, d') \<Longrightarrow> contents bs @ rem = es \<and> (rem \<noteq> [] \<longrightarrow> no_demand d')"
proof (induction d es arbitrary: bs rem d' rule: dd_loop.induct)
  case (1 d es)
  show ?case
  proof (cases "es = [] \<or> best_sub d = None")
    case True
    then have "dd_loop d es = ([], es, d)" by (subst dd_loop.simps) auto
    then show ?thesis using "1.prems" True best_sub_no_demand by auto
  next
    case False
    then obtain t sub where b: "best_sub d = Some (t, sub)" and e: "es \<noteq> []" by auto
    let ?n = "min (nat (ps_demand sub)) (length es)"
    obtain bs1 rem1 d1 where r: "dd_loop (jput d t (add_demand (- int ?n) sub)) (drop ?n es) = (bs1, rem1, d1)"
      by (metis prod_cases3)
    have "bs = (ps_ref sub, t, take ?n es) # bs1" "d' = d1" "rem = rem1"
      using "1.prems" b e r by (subst (asm) dd_loop.simps, simp add: Let_def)+
    then show ?thesis using "1.IH" [OF e b refl refl r] append_take_drop_id [of ?n es] by auto
  qed
qed

lemma dd_dispatch_order:
  assumes "dd_dispatch es d = (Inr (bs, rem), d')"
  shows "contents bs @ rem = es" and "rem \<noteq> [] \<Longrightarrow> no_demand d'" and "no_demand d \<Longrightarrow> contents bs = []"
proof -
  have single: "contents bs @ rem = es \<and> (rem \<noteq> [] \<longrightarrow> no_demand d') \<and> (no_demand d \<longrightarrow> contents bs = [])"
    if d: "d = [(t, sub)]" for t sub
    using assms unfolding d by (auto simp: dd_dispatch_def no_demand_def Let_def split: if_splits)
  have loop: "contents bs @ rem = es \<and> (rem \<noteq> [] \<longrightarrow> no_demand d') \<and> (no_demand d \<longrightarrow> contents bs = [])"
    if "\<not> (\<exists>t sub. d = [(t, sub)])"
  proof -
    have l: "dd_loop d es = (bs, rem, d')"
      using assms that by (auto simp: dd_dispatch_def split_beta Let_def prod_eq_iff split: list.splits)
    have "bs = []" if "no_demand d"
    proof -
      have "best_sub d = None" using that best_sub_no_demand by blast
      then have "dd_loop d es = ([], es, d)" by (subst dd_loop.simps) simp
      then show ?thesis using l by simp
    qed
    then show ?thesis using dd_loop_order [OF l] by auto
  qed
  show "contents bs @ rem = es" "rem \<noteq> [] \<Longrightarrow> no_demand d'" "no_demand d \<Longrightarrow> contents bs = []"
    using single loop by (cases "\<exists>t sub. d = [(t, sub)]"; blast)+
qed

lemma dd_dispatch_total: "\<exists>bs rem d'. dd_dispatch es d = (Inr (bs, rem), d')"
  by (auto simp: dd_dispatch_def Let_def split_beta split: list.split)

section \<open>A producer's whole output\<close>

text \<open>The callback with a log of the events it returned.\<close>

definition logged :: "(int \<Rightarrow> 's \<Rightarrow> 'e list \<times> 's) \<Rightarrow> int \<Rightarrow> 's \<times> 'e list \<Rightarrow> 'e list \<times> 's \<times> 'e list" where
  "logged cb n x = (let (es, s) = cb n (fst x) in (es, s, snd x @ es))"

datatype 'e stage_op = Subscribe string actor_ref int int "partition_opt option" | Deliver "'e stage_msg"

fun stage_run :: "(int \<Rightarrow> 's \<Rightarrow> 'e list \<times> 's) \<Rightarrow> 'e stage_op \<Rightarrow> ('s, 'e) producer \<Rightarrow> ('s, 'e) producer" where
  "stage_run cb (Subscribe t r mx mn part) P = (case pr_handleSubscribe t r mx mn part P of Inl e \<Rightarrow> P | Inr P' \<Rightarrow> P')"
| "stage_run cb (Deliver m) P = snd (pr_handleCast cb m P)"

text \<open>
  Buffered events mean that nobody has demand; what is sent and what is buffered, in this order, are
  events of the log, in the order of the log.
\<close>

definition in_order :: "('s \<times> 'e list, 'e) producer \<Rightarrow> bool" where
  "in_order P \<longleftrightarrow> (\<exists>d. pr_disp P = DemandDispatcher d \<and> (pr_buffer P \<noteq> [] \<longrightarrow> no_demand d)) \<and>
     subseq (contents (pr_sent P) @ pr_buffer P) (snd (pr_state P))"

text \<open>Nothing is missing; how many events of the log were not sent; what a step keeps.\<close>

definition complete :: "('s \<times> 'e list, 'e) producer \<Rightarrow> bool" where
  "complete P \<longleftrightarrow> contents (pr_sent P) @ pr_buffer P = snd (pr_state P)"

definition unsent :: "('s \<times> 'e list, 'e) producer \<Rightarrow> int" where
  "unsent P = int (length (snd (pr_state P))) - int (length (contents (pr_sent P)))"

definition keeps_order :: "bool \<Rightarrow> ('s \<times> 'e list, 'e) producer \<Rightarrow> bool" where
  "keeps_order b P \<longleftrightarrow> in_order P \<and> (b \<longrightarrow> unsent P \<le> pr_bufferSize P \<longrightarrow> complete P)"

lemma addToBuffer_room: "int (length buffer + length es) \<le> n \<Longrightarrow> addToBuffer k n es buffer = buffer @ es"
  by (cases es) (auto simp: addToBuffer_def Let_def split: buffer_keep.split)

lemma addToBuffer_subseq: "subseq (addToBuffer k n es buffer) (buffer @ es)"
proof -
  have last: "subseq (drop m (buffer @ es)) (buffer @ es)" for m
    by (rule suffix_imp_subseq) (rule suffix_drop)
  have first: "subseq (buffer @ take m es) (buffer @ es)" for m
    by (rule list_emb_append_mono) (simp_all add: prefix_imp_subseq take_is_prefix)
  show ?thesis
    using last first by (auto simp: addToBuffer_def Let_def simp del: drop_append split: buffer_keep.split)
qed

lemma keeps_order_dispatch:
  assumes d: "pr_disp P = DemandDispatcher d" "pr_buffer P \<noteq> [] \<longrightarrow> no_demand d"
    and log: "subseq (contents (pr_sent P) @ pr_buffer P @ es) (snd (pr_state P))"
    and b: "b \<Longrightarrow> contents (pr_sent P) @ pr_buffer P @ es = snd (pr_state P)"
    and es: "es \<noteq> []"
  shows "keeps_order b (snd (pr_dispatchOrBuffer es P))"
proof (cases "d = []")
  case True
  let ?b = "addToBuffer (pr_keep P) (pr_bufferSize P) es (pr_buffer P)"
  have e: "snd (pr_dispatchOrBuffer es P) = P\<lparr>pr_buffer := ?b\<rparr>" using d True by (simp add: pr_dispatchOrBuffer_def)
  have "subseq (contents (pr_sent P) @ ?b) (snd (pr_state P))"
    by (rule subseq_order.order_trans [OF list_emb_append_mono [OF _ addToBuffer_subseq] log]) simp
  moreover have "contents (pr_sent P) @ ?b = snd (pr_state P)" if "b" "unsent P \<le> pr_bufferSize P"
  proof -
    have "int (length (pr_buffer P) + length es) = unsent P"
      using arg_cong [OF b [OF that(1)], of length] by (simp add: unsent_def)
    then show ?thesis using b [OF that(1)] that(2) by (simp only: addToBuffer_room)
  qed
  ultimately show ?thesis
    using d True by (simp add: keeps_order_def in_order_def complete_def unsent_def e no_demand_def)
next
  case False
  obtain bs rem d' where r: "dd_dispatch es d = (Inr (bs, rem), d')" using dd_dispatch_total by blast
  note O = dd_dispatch_order [OF r]
  let ?b = "if rem = [] then pr_buffer P else addToBuffer (pr_keep P) (pr_bufferSize P) rem (pr_buffer P)"
  have e: "snd (pr_dispatchOrBuffer es P) = P\<lparr>pr_disp := DemandDispatcher d', pr_sent := pr_sent P @ bs, pr_buffer := ?b\<rparr>"
    using False d(1) r by (simp add: pr_dispatchOrBuffer_def)
  have empty: "contents bs = []" if "pr_buffer P \<noteq> []" using O(3) d(2) that by blast
  then have rem: "rem = es" if "pr_buffer P \<noteq> []" using O(1) that by simp
  have same: "contents (pr_sent P) @ contents bs @ pr_buffer P @ rem = contents (pr_sent P) @ pr_buffer P @ es"
    using O(1) empty by (cases "pr_buffer P = []") auto
  have "no_demand d'" if "?b \<noteq> []" using O(2) rem es that by (auto split: if_splits)
  moreover have "subseq ?b (pr_buffer P @ rem)" using addToBuffer_subseq [of _ _ rem "pr_buffer P"] by simp
  then have "subseq (contents (pr_sent P) @ contents bs @ ?b) (snd (pr_state P))"
    by (intro subseq_order.order_trans [OF _ log [folded same]]) (simp only: subseq_append')
  moreover have "contents (pr_sent P) @ contents bs @ ?b = snd (pr_state P)"
    if "b" "int (length (snd (pr_state P))) - int (length (contents (pr_sent P) @ contents bs)) \<le> pr_bufferSize P"
  proof -
    have "int (length (pr_buffer P) + length rem) \<le> pr_bufferSize P"
      using arg_cong [OF same, of length] arg_cong [OF b [OF that(1)], of length] that(2) by simp
    then have "?b = pr_buffer P @ rem" by (simp add: addToBuffer_room)
    then show ?thesis using same b [OF that(1)] by simp
  qed
  ultimately show ?thesis by (simp add: keeps_order_def in_order_def complete_def unsent_def e)
qed

lemma keeps_order_produce:
  assumes "in_order P"
  shows "keeps_order (complete P) (snd (pr_produce (logged cb) n P))"
proof -
  obtain es s where c: "cb n (fst (pr_state P)) = (es, s)" by fastforce
  let ?P = "P\<lparr>pr_state := (s, snd (pr_state P) @ es)\<rparr>"
  obtain d where d: "pr_disp P = DemandDispatcher d" "pr_buffer P \<noteq> [] \<longrightarrow> no_demand d"
    using assms by (auto simp: in_order_def)
  show ?thesis
  proof (cases "es = []")
    case True
    then show ?thesis using assms by (simp add: pr_produce_def logged_def c in_order_def keeps_order_def complete_def)
  next
    case False
    have "subseq ((contents (pr_sent P) @ pr_buffer P) @ es) (snd (pr_state P) @ es)"
      using assms by (intro list_emb_append_mono) (auto simp: in_order_def)
    then have "keeps_order (complete P) (snd (pr_dispatchOrBuffer es ?P))"
      using d False by (intro keeps_order_dispatch [of _ d]) (auto simp: complete_def)
    then show ?thesis using False by (simp add: pr_produce_def logged_def c Let_def)
  qed
qed

lemma keeps_order_same:
  "in_order P \<Longrightarrow> in_order P' \<Longrightarrow> pr_sent P' = pr_sent P \<Longrightarrow> pr_buffer P' = pr_buffer P \<Longrightarrow> pr_state P' = pr_state P \<Longrightarrow>
     keeps_order (complete P) P'"
  by (simp add: keeps_order_def complete_def)

lemma keeps_order_ask:
  assumes "in_order P"
  shows "keeps_order (complete P) (snd (pr_handleAsk (logged cb) t n P))"
proof (cases "n \<le> 0")
  case False
  obtain d where d: "pr_disp P = DemandDispatcher d" using assms by (auto simp: in_order_def)
  let ?d = "jmodify d t (add_demand n)"
  obtain bs rem d' where r: "dd_dispatch (pr_buffer P) ?d = (Inr (bs, rem), d')" using dd_dispatch_total by blast
  note O = dd_dispatch_order [OF r]
  let ?P = "P\<lparr>pr_disp := DemandDispatcher d', pr_sent := pr_sent P @ bs, pr_buffer := rem\<rparr>"
  have P: "in_order ?P" using assms O(1,2) by (auto simp: in_order_def)
  have C: "complete ?P = complete P" using O(1) by (auto simp: complete_def)
  have "snd (pr_handleAsk (logged cb) t n P) \<in>
      {?P, ?P\<lparr>pr_acc := pr_acc P + totalDemand ?d\<rparr>, snd (pr_produce (logged cb) (totalDemand ?d) ?P)}"
    using False r by (simp add: pr_handleAsk_def d dd_ask_def Let_def)
  moreover have "in_order (?P\<lparr>pr_acc := k\<rparr>)" "complete (?P\<lparr>pr_acc := k\<rparr>) = complete ?P" for k
    using P by (simp_all add: in_order_def complete_def)
  ultimately show ?thesis using P C keeps_order_produce [OF P, of cb] by (auto simp: keeps_order_def)
qed (use assms in \<open>simp add: pr_handleAsk_def keeps_order_def\<close>)

lemma keeps_order_run:
  assumes "in_order P"
  shows "keeps_order (complete P) (stage_run (logged cb) x P)"
proof (cases x)
  case (Subscribe t r mx mn part)
  obtain d where d: "pr_disp P = DemandDispatcher d" "pr_buffer P \<noteq> [] \<longrightarrow> no_demand d"
    using assms by (auto simp: in_order_def)
  have "no_demand (jput d t (new_sub r mx mn))" if "no_demand d"
    using that set_jput_subset [of t "new_sub r mx mn" d] by (force simp: no_demand_def new_sub_def)
  then show ?thesis
    using assms d by (auto simp: Subscribe pr_handleSubscribe_def dd_subscribe_def in_order_def keeps_order_def complete_def)
next
  case (Deliver m)
  obtain d where d: "pr_disp P = DemandDispatcher d" "pr_buffer P \<noteq> [] \<longrightarrow> no_demand d"
    using assms by (auto simp: in_order_def)
  have F: "in_order (P\<lparr>pr_mode := Forward, pr_acc := k\<rparr>)" "in_order (P\<lparr>pr_mode := Forward\<rparr>)"
    "complete (P\<lparr>pr_mode := Forward, pr_acc := k\<rparr>) = complete P" "complete (P\<lparr>pr_mode := Forward\<rparr>) = complete P" for k
    using assms by (simp_all add: in_order_def complete_def)
  have "keeps_order (complete P) (snd (switchDemandMode (logged cb) P))"
    using keeps_order_produce [OF F(1) [of 0], of cb "pr_acc P"] F by (simp add: switchDemandMode_def Let_def keeps_order_def)
  moreover have "keeps_order (complete P) (pr_handleCancel t P)" for t
    by (rule keeps_order_same [OF assms])
      (use assms d in \<open>auto simp: in_order_def pr_handleCancel_def dd_cancel_def no_demand_def set_jdel\<close>)
  moreover have "keeps_order (complete P) P" using assms by (simp add: keeps_order_def)
  ultimately show ?thesis using keeps_order_ask [OF assms, of cb] by (cases m) (simp_all add: Deliver)
qed

text \<open>
  C16: A producer with the demand dispatcher keeps the order, after any sequence of subscriptions, asks,
  cancels and mode switches: the events sent so far followed by the buffer are events
  \<open>handleDemand\<close> has returned, in the order it returned them, none twice. And if at no time more of
  them were unsent than the buffer may hold, they are all of them. (A buffer that is full drops
  events, at its head or at its end.)
\<close>

theorem demand_in_order:
  assumes "po_dispatcher opts = None \<or> po_dispatcher opts = Some DemandConfig"
    and "run = (\<lambda>xs. fold (stage_run (logged cb)) xs (pr_init view (s0, []) opts))"
  shows "subseq (contents (pr_sent (run xs)) @ pr_buffer (run xs)) (snd (pr_state (run xs)))
     \<and> ((\<forall>ys zs. xs = ys @ zs \<longrightarrow>
           int (length (snd (pr_state (run ys)))) - int (length (contents (pr_sent (run ys)))) \<le> pr_bufferSize (run ys)) \<longrightarrow>
         contents (pr_sent (run xs)) @ pr_buffer (run xs) = snd (pr_state (run xs)))"
proof -
  have start: "in_order (run [])" "complete (run [])"
    using assms(1) by (auto simp: assms(2) in_order_def complete_def pr_init_def createDispatcher_def)
  have "in_order (run xs) \<and> ((\<forall>ys zs. xs = ys @ zs \<longrightarrow> unsent (run ys) \<le> pr_bufferSize (run ys)) \<longrightarrow> complete (run xs))"
  proof (induction xs rule: rev_induct)
    case (snoc x xs)
    have "run (xs @ [x]) = stage_run (logged cb) x (run xs)" by (simp add: assms(2))
    then have K: "keeps_order (complete (run xs)) (run (xs @ [x]))" using keeps_order_run [OF conjunct1 [OF snoc.IH], of cb x] by simp
    show ?case
    proof (intro conjI impI)
      show "in_order (run (xs @ [x]))" using K by (simp add: keeps_order_def)
      assume all: "\<forall>ys zs. xs @ [x] = ys @ zs \<longrightarrow> unsent (run ys) \<le> pr_bufferSize (run ys)"
      have "unsent (run (xs @ [x])) \<le> pr_bufferSize (run (xs @ [x]))" using all [rule_format, of "xs @ [x]" "[]"] by simp
      moreover have "complete (run xs)"
        by (rule conjunct2 [OF snoc.IH, THEN mp]) (use all in \<open>metis append_assoc\<close>)
      ultimately show "complete (run (xs @ [x]))" using K by (simp only: keeps_order_def)
    qed
  qed (use start in simp)
  then show ?thesis by (simp add: in_order_def complete_def unsent_def)
qed

section \<open>A consumer left waiting\<close>

definition wait_opts :: "'e producer_options" where
  "wait_opts = \<lparr>po_bufferSize = None, po_bufferKeep = None, po_dispatcher = Some BroadcastConfig, po_demand = None\<rparr>"

text \<open>A producer that broadcasts; consumers \<open>a\<close> and \<open>b\<close> subscribe, \<open>a\<close> asks, \<open>b\<close> cancels.\<close>

definition w0 :: "('e \<Rightarrow> event_view) \<Rightarrow> 's \<Rightarrow> (string \<Rightarrow> 'c) \<Rightarrow> ('s, 'c, 'e) net" where
  "w0 view s0 cs = joined ''b'' ''u'' (joined ''a'' ''t'' (new_net (pr_init view s0 wait_opts) (stage_ref ''p'') cs))"


lemmas wait_simps = w0_def joined_def run_consumer_def run_producer_def new_net_def pr_init_def wait_opts_def
  createDispatcher_def co_init_def co_subscribeToProducer_def new_consumer_sub_def default_subscription_def
  maxDemand_of_def minDemand_of_def pr_handleSubscribe_def bc_subscribe_def new_sub_def stage_ref_def Let_def
  co_sendInitialDemand_def co_askProducer_def co_cancelSubscription_def pr_handleCancel_def bc_cancel_def
  pr_handleAsk_def bc_ask_def jmodify_def jhas_def syncDemands_def min_demand_def add_demand_def all_demands_def
  bc_dispatch_def

definition w1 :: "('e \<Rightarrow> event_view) \<Rightarrow> 's \<Rightarrow> (string \<Rightarrow> 'c) \<Rightarrow> ('s, 'c, 'e) net" where
  "w1 view s0 cs = run_consumer ''a'' (co_handleCast (\<lambda>_ _ s. s) (DeferredAsk ''t''))
     ((w0 view s0 cs)\<lparr>nt_timers := remove1 (''a'', ''t'') (nt_timers (w0 view s0 cs))\<rparr>)"

definition produced :: "(int \<Rightarrow> 's \<Rightarrow> 'e list \<times> 's) \<Rightarrow> 'e stage_msg \<Rightarrow> ('s, 'c, 'e) net \<Rightarrow> ('s, 'c, 'e) net" where
  "produced cb m N = run_producer (snd (pr_handleCast cb m (nt_prod N))) (N\<lparr>nt_asks := remove1 m (nt_asks N)\<rparr>)"

definition w3 :: "('e \<Rightarrow> event_view) \<Rightarrow> (int \<Rightarrow> 's \<Rightarrow> 'e list \<times> 's) \<Rightarrow> 's \<Rightarrow> (string \<Rightarrow> 'c) \<Rightarrow> ('s, 'c, 'e) net" where
  "w3 view cb s0 cs = run_consumer ''b'' (\<lambda>C. snd (co_cancelSubscription ''u'' ''cancel'' C))
     (produced cb (Ask ''t'' 1000) (w1 view s0 cs))"

definition w5 :: "('e \<Rightarrow> event_view) \<Rightarrow> (int \<Rightarrow> 's \<Rightarrow> 'e list \<times> 's) \<Rightarrow> 's \<Rightarrow> (string \<Rightarrow> 'c) \<Rightarrow> ('s, 'c, 'e) net" where
  "w5 view cb s0 cs = run_consumer ''b'' (co_handleCast (\<lambda>_ _ s. s) (DeferredAsk ''u''))
     ((produced cb (Cancel ''u'' ''cancel'') (w3 view cb s0 cs))\<lparr>nt_timers := []\<rparr>)"

lemma w1_eq:
  "nt_asks (w1 view s0 cs) = [Ask ''t'' 1000]" "nt_events (w1 view s0 cs) = []" "nt_timers (w1 view s0 cs) = [(''b'', ''u'')]"
  "pr_disp (nt_prod (w1 view s0 cs)) = BroadcastDispatcher \<lparr>bc_subs = [(''t'', new_sub (stage_ref ''a'') 1000 750),
     (''u'', new_sub (stage_ref ''b'') 1000 750)], bc_waiting = 0, bc_requested = 0\<rparr>"
  "pr_buffer (nt_prod (w1 view s0 cs)) = []" "pr_sent (nt_prod (w1 view s0 cs)) = []"
  "pr_state (nt_prod (w1 view s0 cs)) = s0"
  "co_subs (nt_cons (w1 view s0 cs) ''a'') =
     [(''t'', (new_consumer_sub (stage_ref ''p'') default_subscription)\<lparr>cs_pending := 1000\<rparr>)]"
  "co_subs (nt_cons (w1 view s0 cs) ''b'') = [(''u'', new_consumer_sub (stage_ref ''p'') default_subscription)]"
  "co_out (nt_cons (w1 view s0 cs) c) = []"
  by (simp_all add: w1_def wait_simps)


lemma deferred_any: "co_handleCast he (DeferredAsk t) = co_handleCast (\<lambda>_ _ s. s) (DeferredAsk t)"
  by (rule ext) simp

lemma w2_eq:
  fixes view cb s0 cs
  defines "N \<equiv> produced cb (Ask ''t'' 1000) (w1 view s0 cs)"
  shows "nt_asks N = []" "nt_events N = []" "nt_timers N = [(''b'', ''u'')]" "nt_cons N = nt_cons (w1 view s0 cs)"
    "pr_disp (nt_prod N) = BroadcastDispatcher \<lparr>bc_subs = [(''t'', (new_sub (stage_ref ''a'') 1000 750)\<lparr>ps_demand := 1000\<rparr>),
       (''u'', new_sub (stage_ref ''b'') 1000 750)], bc_waiting = 0, bc_requested = 0\<rparr>"
    "pr_buffer (nt_prod N) = []" "pr_sent (nt_prod N) = []" "pr_state (nt_prod N) = s0"
    "fst (pr_handleAsk cb ''t'' 1000 (nt_prod (w1 view s0 cs))) = None"
  by (simp_all add: N_def produced_def run_producer_def pr_handleAsk_def w1_eq bc_ask_def jhas_def jmodify_def syncDemands_def
      min_demand_def new_sub_def add_demand_def Let_def bc_dispatch_def)

lemma w3_eq:
  "nt_asks (w3 view cb s0 cs) = [Cancel ''u'' ''cancel'']" "nt_events (w3 view cb s0 cs) = []"
  "nt_timers (w3 view cb s0 cs) = [(''b'', ''u'')]"
  "nt_prod (w3 view cb s0 cs) = nt_prod (produced cb (Ask ''t'' 1000) (w1 view s0 cs))"
  "co_subs (nt_cons (w3 view cb s0 cs) ''a'') =
     [(''t'', (new_consumer_sub (stage_ref ''p'') default_subscription)\<lparr>cs_pending := 1000\<rparr>)]"
  "co_subs (nt_cons (w3 view cb s0 cs) ''b'') = []" "co_out (nt_cons (w3 view cb s0 cs) ''b'') = []"
  by (simp_all add: w3_def run_consumer_def Let_def w2_eq w1_eq co_cancelSubscription_def)

text \<open>
  A consumer of a broadcast can wait for ever. Two consumers subscribe, one asks for 1000 events,
  the other cancels before it has asked. The cancel frees the demand of the first, but what
  \<open>syncDemands\<close> then says is to be requested upstream is thrown away: the network is quiet, the
  consumer has its full demand outstanding as credit, and \<open>handleDemand\<close> has never been called,
  whatever it would return.
\<close>

theorem broadcast_cancel_starves:
  "\<exists>N sub. (net_step cb he)\<^sup>*\<^sup>* (new_net (pr_init view s0 wait_opts) (stage_ref ''p'') cs) N
     \<and> nt_asks N = [] \<and> nt_events N = [] \<and> nt_timers N = []
     \<and> jget (co_subs (nt_cons N ''a'')) ''t'' = Some sub \<and> cs_pending sub = 1000
     \<and> disp_credit (pr_disp (nt_prod N)) ''t'' = 1000 \<and> pr_state (nt_prod N) = s0"
proof -
  let ?step = "net_step cb he" and ?N0 = "new_net (pr_init view s0 wait_opts) (stage_ref ''p'') cs"
  let ?w2 = "produced cb (Ask ''t'' 1000) (w1 view s0 cs)" and ?w3 = "w3 view cb s0 cs"
  let ?w4 = "produced cb (Cancel ''u'' ''cancel'') ?w3" and ?w5 = "w5 view cb s0 cs"
  have P: "(m \<in> set (nt_asks N) \<Longrightarrow> fst (pr_handleCast cb m (nt_prod N)) = None \<Longrightarrow> ?step N (produced cb m N))" for m N
    unfolding produced_def by (rule net_step.to_producer) (auto simp: prod_eq_iff)
  have "?step ?N0 (joined ''a'' ''t'' ?N0)" by (rule joined_step) (simp_all add: wait_simps)
  moreover have "?step (joined ''a'' ''t'' ?N0) (w0 view s0 cs)"
    unfolding w0_def by (rule joined_step) (simp_all add: wait_simps)
  moreover have "(''a'', ''t'') \<in> set (nt_timers (w0 view s0 cs))" by (simp add: wait_simps)
  from net_step.timer [OF this, of cb he] have "?step (w0 view s0 cs) (w1 view s0 cs)" by (simp add: w1_def deferred_any [of he])
  moreover have "?step (w1 view s0 cs) ?w2" by (rule P) (simp_all add: w1_eq w2_eq)
  moreover have "?step ?w2 ?w3" unfolding w3_def by (rule net_step.cancel)
  moreover have "?step ?w3 ?w4" by (rule P) (simp_all add: w3_eq)
  moreover have w4: "nt_timers ?w4 = [(''b'', ''u'')]" "nt_asks ?w4 = []" "nt_events ?w4 = []" "nt_cons ?w4 = nt_cons ?w3"
    "disp_credit (pr_disp (nt_prod ?w4)) ''t'' = 1000" "pr_state (nt_prod ?w4) = s0"
    by (simp_all add: produced_def [of cb "Cancel ''u'' ''cancel''"] run_producer_def w3_eq w2_eq pr_handleCancel_def bc_cancel_def Let_def syncDemands_def
        min_demand_def new_sub_def all_demands_def add_demand_def bc_credit_def)
  moreover have "?step ?w4 ?w5"
    using net_step.timer [of "''b''" "''u''" ?w4 cb he] w4(1) by (simp add: w5_def deferred_any [of he])
  ultimately have "?step\<^sup>*\<^sup>* ?N0 ?w5" by (meson converse_rtranclp_into_rtranclp rtranclp.rtrancl_refl)
  moreover have "nt_asks ?w5 = []" "nt_events ?w5 = []" "nt_timers ?w5 = []" "nt_prod ?w5 = nt_prod ?w4"
    "co_subs (nt_cons ?w5 ''a'') = co_subs (nt_cons ?w3 ''a'')"
    by (simp_all add: w5_def run_consumer_def Let_def w4 w3_eq co_sendInitialDemand_def)
  ultimately show ?thesis using w4
    by (intro exI [of _ ?w5] exI [of _ "(new_consumer_sub (stage_ref ''p'') default_subscription)\<lparr>cs_pending := 1000\<rparr>"])
      (simp add: w3_eq(5))
qed


section \<open>Events overtaken in a partition\<close>

definition one_partition :: "'e producer_options" where
  "one_partition = \<lparr>po_bufferSize = None, po_bufferKeep = None, po_dispatcher = Some (PartitionConfig 1 (Some (\<lambda>_. Some 0))),
     po_demand = None\<rparr>"

text \<open>A stage that passes events on, through subscriptions and messages.\<close>

fun pc_run :: "'e stage_op list \<Rightarrow> ('s, 'e) producer_consumer \<Rightarrow> ('s, 'e) producer_consumer" where
  "pc_run [] P = P"
| "pc_run (Subscribe t r mx mn part # xs) P =
     pc_run xs (case pc_handleSubscribe t r mx mn part P of Inl e \<Rightarrow> P | Inr P' \<Rightarrow> P')"
| "pc_run (Deliver m # xs) P = pc_run xs (snd (pc_handleCast (\<lambda>es _ s. (es, s)) m P))"

definition held_back :: "'e \<Rightarrow> 'e \<Rightarrow> 'e stage_op list" where
  "held_back e1 e2 =
     [Subscribe ''t'' (stage_ref ''a'') 1 0 (Some (PNumber 0)), Deliver (Ask ''t'' 1),
      Deliver (Events ''up'' (stage_ref ''p'') [e1, e2]), Deliver (Cancel ''t'' ''cancel''),
      Subscribe ''u'' (stage_ref ''b'') 1 0 (Some (PNumber 0)), Deliver (Ask ''u'' 1)]"

definition pass_stage :: "('e \<Rightarrow> event_view) \<Rightarrow> 's \<Rightarrow> ('s, 'e) producer_consumer" where
  "pass_stage view s0 = pc_subscribeToProducer ''up'' (stage_ref ''p'') default_subscription (pc_init view s0 one_partition)"

lemmas pass_simps = pass_stage_def held_back_def pc_init_def one_partition_def createDispatcher_def new_partition_def
  pc_subscribeToProducer_def new_consumer_sub_def default_subscription_def maxDemand_of_def minDemand_of_def
  pc_handleSubscribe_def pd_subscribe_def new_sub_def handleDownstreamAsk_def pd_ask_def give_slot_def add_demand_def
  handleUpstreamEvents_def received_def pc_dispatchOrBuffer_def pd_dispatch_def slot_demand_def pd_drain_def pd_batches_def
  pc_ask_def pc_handleCancel_def pd_cancel_def jhas_def Let_def pd_credit_def

text \<open>
  A \<open>ProducerConsumer\<close> with partitions can hold an event back and let later ones pass it. Its
  \<open>handleDownstreamAsk\<close> looks only at its own buffer, not at those of the dispatcher: an event
  left there by a consumer that went away is not sent to the next consumer, although that one
  has asked; and the next event from upstream goes out first, using up the demand.
\<close>

theorem partition_overtakes:
  "pc_sent (pc_run (held_back e1 e2) (pass_stage view s0)) = [(stage_ref ''a'', ''t'', [e1])]
   \<and> disp_credit (pc_disp (pc_run (held_back e1 e2) (pass_stage view s0))) ''u'' = 1
   \<and> pc_sent (pc_run (held_back e1 e2 @ [Deliver (Events ''up'' (stage_ref ''p'') [e3])]) (pass_stage view s0))
       = [(stage_ref ''a'', ''t'', [e1]), (stage_ref ''b'', ''u'', [e3])]
   \<and> (\<exists>d. pc_disp (pc_run (held_back e1 e2 @ [Deliver (Events ''up'' (stage_ref ''p'') [e3])]) (pass_stage view s0))
         = PartitionDispatcher d \<and> pd_buffers d = [[e2]])"
  by (simp add: pass_simps)

section \<open>Witness\<close>

definition two_asked :: "nat stage_op list" where
  "two_asked = [Subscribe ''t'' (stage_ref ''a'') 10 7 None, Deliver (Ask ''t'' 2)]"

definition count_up :: "int \<Rightarrow> nat \<Rightarrow> nat list \<times> nat" where
  "count_up n s = ([s..<s + 3], s + 3)"

theorem demand_in_order_witness:
  "contents (pr_sent (fold (stage_run (logged count_up)) two_asked (pr_init (\<lambda>_. EOther) (0, [])
      (one_partition\<lparr>po_dispatcher := None\<rparr>)))) = [0, 1]"
proof -
  define run where "run = (\<lambda>xs. fold (stage_run (logged count_up)) xs (pr_init (\<lambda>_. EOther) (0, []) (one_partition\<lparr>po_dispatcher := None\<rparr>)))"
  let ?a = "Subscribe ''t'' (stage_ref ''a'') 10 7 None" and ?b = "Deliver (Ask ''t'' 2)"
  note defs = run_def two_asked_def pr_init_def one_partition_def createDispatcher_def pr_handleSubscribe_def dd_subscribe_def
    new_sub_def pr_handleAsk_def dd_ask_def jmodify_def add_demand_def totalDemand_def dd_dispatch_def Let_def
    pr_produce_def logged_def count_up_def pr_dispatchOrBuffer_def addToBuffer_def upt_conv_Cons
  have P: "pr_buffer (run two_asked) = [2]" "snd (pr_state (run two_asked)) = [0, 1, 2]"
    "length (contents (pr_sent (run two_asked))) = 2" "pr_bufferSize (run two_asked) = 10000"
    "snd (pr_state (run [])) = []" "pr_bufferSize (run []) = 10000" "snd (pr_state (run [?a])) = []" "pr_bufferSize (run [?a]) = 10000"
    by (simp_all add: defs)
  have room: "int (length (snd (pr_state (run ys)))) - int (length (contents (pr_sent (run ys)))) \<le> pr_bufferSize (run ys)"
    if "two_asked = ys @ zs" for ys zs
  proof -
    have "ys = [] \<or> ys = [?a] \<or> ys = two_asked" using that by (auto simp: two_asked_def Cons_eq_append_conv)
    then show ?thesis using P by auto
  qed
  have "contents (pr_sent (run two_asked)) @ pr_buffer (run two_asked) = snd (pr_state (run two_asked))"
    by (rule conjunct2 [OF demand_in_order [OF _ run_def], THEN mp]) (use room in \<open>auto simp: one_partition_def\<close>)
  then show ?thesis unfolding P by (simp add: run_def)
qed

end
