(* ===== verification/Restart_Strategies.thy ===== *)
theory Restart_Strategies
  imports Supervision
begin

text \<open>
  What the strategies of \<open>src/child_supervisor.ts\<close> achieve: which children a crash replaces, in
  which order, and with what. The order of the children is followed through \<open>stop\<close> by the
  relation \<open>prunes\<close>: the dead leave the orders, and nothing else about the living changes.
\<close>

section \<open>Orders of children\<close>

definition order :: "sys \<Rightarrow> string \<Rightarrow> actor_ref list option" where
  "order s a = map_option a_childOrder (getActor s a)"

definition ident :: "sys \<Rightarrow> string \<Rightarrow> (actor_class \<times> actor_ref) option" where
  "ident s a = map_option (\<lambda>x. (a_class x, a_self x)) (getActor s a)"

text \<open>A live child in the order of an actor has it as its parent, and stands there once.\<close>

definition family :: "sys \<Rightarrow> bool" where
  "family s \<longleftrightarrow> (\<forall>p xs. order s p = Some xs \<longrightarrow> distinct (map ref_id xs) \<and>
     (\<forall>x\<in>set xs. alive s (ref_id x) \<longrightarrow>
        (\<exists>m q. jget (actorMetadata s) (ref_id x) = Some m \<and> md_parent m = Some q \<and> ref_id q = p)))"

definition prunes :: "sys \<Rightarrow> sys \<Rightarrow> bool" where
  "prunes s s' \<longleftrightarrow> sys_id s' = sys_id s \<and> remoteChildren s' = remoteChildren s \<and>
     settings s' = settings s \<and>
     (\<forall>a. alive s' a \<longrightarrow> alive s a \<and> ident s' a = ident s a \<and>
        jget (actorMetadata s') a = jget (actorMetadata s) a \<and>
        order s' a = map_option (filter (\<lambda>x. alive s (ref_id x) \<longrightarrow> alive s' (ref_id x))) (order s a))"

lemma prunes_refl: "prunes s s"
proof -
  have "filter (\<lambda>x. True) = (id :: actor_ref list \<Rightarrow> _)" by (rule ext) simp
  then show ?thesis by (simp add: prunes_def option.map_id)
qed

lemma prunes_trans:
  assumes "prunes s s1" and "prunes s1 s2"
  shows "prunes s s2"
proof -
  have alive: "alive s1 a \<Longrightarrow> alive s a" "alive s2 a \<Longrightarrow> alive s1 a" for a
    using assms by (auto simp: prunes_def)
  have "(alive s a \<longrightarrow> alive s1 a) \<and> (alive s1 a \<longrightarrow> alive s2 a) \<longleftrightarrow> (alive s a \<longrightarrow> alive s2 a)" for a
    using alive by blast
  moreover have "order s2 a = map_option (filter (\<lambda>x. (alive s (ref_id x) \<longrightarrow> alive s1 (ref_id x)) \<and>
      (alive s1 (ref_id x) \<longrightarrow> alive s2 (ref_id x)))) (order s a)" if "alive s2 a" for a
  proof -
    have "alive s1 a" using alive that by blast
    then show ?thesis using assms that by (simp add: prunes_def option.map_comp comp_def)
  qed
  ultimately show ?thesis using assms alive unfolding prunes_def by simp
qed

lemma family_prunes:
  assumes "family s" and "prunes s s'"
  shows "family s'"
  unfolding family_def
proof (intro allI impI)
  fix p xs assume xs: "order s' p = Some xs"
  then have "alive s' p" by (auto simp: order_def jhas_def)
  then obtain ys where ys: "order s p = Some ys" and f: "xs = filter (\<lambda>x. alive s (ref_id x) \<longrightarrow> alive s' (ref_id x)) ys"
    using xs assms(2) by (auto simp: prunes_def)
  have F: "distinct (map ref_id ys)" "\<forall>x\<in>set ys. alive s (ref_id x) \<longrightarrow>
      (\<exists>m q. jget (actorMetadata s) (ref_id x) = Some m \<and> md_parent m = Some q \<and> ref_id q = p)"
    using assms(1) ys unfolding family_def by blast+
  have "\<exists>m q. jget (actorMetadata s') (ref_id x) = Some m \<and> md_parent m = Some q \<and> ref_id q = p"
    if "x \<in> set ys" "alive s' (ref_id x)" for x
  proof -
    have "jget (actorMetadata s') (ref_id x) = jget (actorMetadata s) (ref_id x)" "alive s (ref_id x)"
      using assms(2) that(2) by (simp_all add: prunes_def)
    then show ?thesis using F(2) that(1) by simp
  qed
  with F(1) show "distinct (map ref_id xs) \<and> (\<forall>x\<in>set xs. alive s' (ref_id x) \<longrightarrow>
      (\<exists>m q. jget (actorMetadata s') (ref_id x) = Some m \<and> md_parent m = Some q \<and> ref_id q = p))"
    unfolding f by (auto simp: distinct_map_filter)
qed

section \<open>Stopping prunes\<close>

lemma filter_absent: "\<forall>x\<in>set xs. ref_id x \<noteq> i \<Longrightarrow> filter (\<lambda>c. ref_id c \<noteq> i) xs = xs"
  by (rule filter_True) simp

lemma remove_first_filter:
  "distinct (map ref_id xs) \<Longrightarrow> remove_first (\<lambda>c. ref_id c = i) xs = filter (\<lambda>c. ref_id c \<noteq> i) xs"
  by (induction xs) (auto simp: image_iff intro!: filter_absent [symmetric])

lemma same_tree_shapes:
  assumes "same_tree s s'"
  shows "order s' a = order s a" "ident s' a = ident s a"
proof -
  have "shapes s' a = shapes s a" using assms by (simp add: same_tree_def)
  then have "map_option (\<lambda>(c, e, k, o'). o') (shapes s' a) = map_option (\<lambda>(c, e, k, o'). o') (shapes s a)"
    "map_option (\<lambda>(c, e, k, o'). (c, e)) (shapes s' a) = map_option (\<lambda>(c, e, k, o'). (c, e)) (shapes s a)"
    by simp_all
  then show "order s' a = order s a" "ident s' a = ident s a"
    by (simp_all add: shapes_def order_def ident_def option.map_comp comp_def)
qed

lemma detach_shapes:
  "ident (detach r s) a = ident s a"
  "order (detach r s) a = (if \<exists>m p. jget (actorMetadata s) (ref_id r) = Some m \<and> md_parent m = Some p \<and> ref_id p = a
     then map_option (remove_first (\<lambda>c. ref_id c = ref_id r)) (order s a) else order s a)"
  by (auto simp: detach_def ident_def order_def remove_child_def option.map_comp comp_def split: option.split)

lemma prunes_burial:
  assumes fam: "family s" and live: "alive s (ref_id r)" and t: "same_tree (detach r s) s1"
  shows "prunes s (bury r s1)"
proof -
  let ?i = "ref_id r"
  have alive: "alive (bury r s1) a \<longleftrightarrow> alive s a \<and> a \<noteq> ?i" for a
  proof -
    have "alive (detach r s) a = alive s a" unfolding jhas_iff detach_simps ..
    then show ?thesis using same_tree_alive [OF t, of a] by (auto simp: bury_simps)
  qed
  have b: "order (bury r s1) a = order (detach r s) a" if "a \<noteq> ?i" for a
    using that same_tree_shapes(1) [OF t] by (simp add: order_def bury_simps)
  have ord: "order (bury r s1) a = map_option (filter (\<lambda>x. ref_id x \<noteq> ?i)) (order s a)" if "a \<noteq> ?i" for a
  proof (cases "order s a")
    case (Some xs)
    have F: "distinct (map ref_id xs)" "\<forall>x\<in>set xs. alive s (ref_id x) \<longrightarrow>
        (\<exists>m q. jget (actorMetadata s) (ref_id x) = Some m \<and> md_parent m = Some q \<and> ref_id q = a)"
      using fam Some unfolding family_def by blast+
    show ?thesis
    proof (cases "\<exists>m p. jget (actorMetadata s) ?i = Some m \<and> md_parent m = Some p \<and> ref_id p = a")
      case True
      then show ?thesis using Some by (simp add: b [OF that] detach_shapes remove_first_filter [OF F(1)])
    next
      case False
      then have "\<forall>x\<in>set xs. ref_id x \<noteq> ?i" using F(2) live by metis
      moreover have "order (detach r s) a = order s a" by (simp only: detach_shapes if_not_P [OF False])
      ultimately show ?thesis using Some by (simp add: b [OF that] filter_absent)
    qed
  qed (simp add: b [OF that] detach_shapes)
  have cond: "(alive s (ref_id x) \<longrightarrow> alive (bury r s1) (ref_id x)) \<longleftrightarrow> ref_id x \<noteq> ?i" for x
    using alive [of "ref_id x"] live by (cases "ref_id x = ?i") simp_all
  have "ident (bury r s1) a = ident s a" "jget (actorMetadata (bury r s1)) a = jget (actorMetadata s) a" if "a \<noteq> ?i" for a
    using that same_tree_shapes(2) [OF t, of a] t by (simp_all add: ident_def bury_simps detach_shapes(1) [unfolded ident_def] same_tree_def)
  with alive ord t show ?thesis
    unfolding prunes_def cond by (simp add: bury_simps same_tree_def)
qed

lemma prunes_stop_self: "family s \<Longrightarrow> alive s (ref_id r) \<Longrightarrow> prunes s (stop_self r s)"
  using stop_self_tree [of r s] prunes_burial by metis

lemma subtree_rank:
  assumes "ranked_tree rank s" and "x \<in> subtree s c"
  shows "rank x \<le> rank c"
proof -
  have "edges s p \<subseteq> {x. rank x \<le> rank c}" if "p \<in> {x. rank x \<le> rank c}" for p
    using assms(1) that unfolding ranked_tree_def by (blast dest: less_imp_le le_trans)
  then have "subtree s c \<subseteq> {x. rank x \<le> rank c}" by (intro subtree_closed) simp_all
  then show ?thesis using assms(2) by blast
qed

lemma prunes_stop_fuel:
  assumes "ranked_tree rank s" and "remotes_ok s" and "family s" and "remoteChildren s = []" and "rank (ref_id r) < n"
  shows "prunes s (stop_fuel n env r s)"
  using assms
proof (induction n arbitrary: r s)
  case (Suc n)
  let ?f = "\<lambda>c s. if ref_node c = sys_id s then stop_fuel n env c s else stopRemoteChild env (ref_id c) s"
  have F: "prunes s (fold ?f cs t) \<and> alive (fold ?f cs t) (ref_id r)"
    if "prunes s t" "alive t (ref_id r)" "ranked_tree rank t" "remotes_ok t"
      "\<forall>c\<in>set cs. ref_node c = sys_id t \<longrightarrow> alive t (ref_id c) \<longrightarrow> rank (ref_id c) < rank (ref_id r)" for cs t
    using that
  proof (induction cs arbitrary: t)
    case (Cons c cs)
    have t: "family t" "remoteChildren t = []"
      using Suc.prems Cons.prems(1) by (auto simp: family_prunes prunes_def)
    have "prunes t (?f c t) \<and> (\<exists>ts. trim ts t (?f c t) \<and> ref_id r \<notin> set ts)"
    proof (cases "ref_node c = sys_id t \<and> alive t (ref_id c)")
      case True
      then have less: "rank (ref_id c) < rank (ref_id r)" "rank (ref_id c) < n"
        using Cons.prems(5) Suc.prems(5) by auto
      obtain ts where ts: "trim ts t (stop_fuel n env c t)" "set ts \<subseteq> subtree t (ref_id c)"
        using stop_fuel_trims [OF Cons.prems(3,4), of c n env] True less by blast
      then have "ref_id r \<notin> set ts" using subtree_rank [OF Cons.prems(3)] less(1) by fastforce
      then show ?thesis using Suc.IH [OF Cons.prems(3,4) t less(2)] ts(1) True by auto
    next
      case False
      then have "?f c t = t" using t(2) by (auto simp: stopRemoteChild_def stop_fuel_dead simp del: stop_fuel.simps)
      then show ?thesis using trim_refl [OF Cons.prems(4)] prunes_refl [of t] by (intro conjI exI [of _ "[]"]) simp_all
    qed
    then obtain ts where p: "prunes t (?f c t)" and ts: "trim ts t (?f c t)" "ref_id r \<notin> set ts" by blast
    have "\<forall>c\<in>set cs. ref_node c = sys_id (?f c' t) \<longrightarrow> alive (?f c' t) (ref_id c) \<longrightarrow> rank (ref_id c) < rank (ref_id r)"
      if "c' = c" for c'
      using Cons.prems(5) trim_alive [OF ts(1)] ts(1) unfolding that trim_def by simp
    then have "prunes s (fold ?f cs (?f c t)) \<and> alive (fold ?f cs (?f c t)) (ref_id r)"
      using Cons.prems(2) trim_alive [OF ts(1)] ts
      by (intro Cons.IH [OF prunes_trans [OF Cons.prems(1) p] _ ranked_trim [OF Cons.prems(3) ts(1)]]) (auto simp: trim_def)
    then show ?case by simp
  qed simp
  show ?case
  proof (cases "getActor s (ref_id r)")
    case (Some act)
    let ?t = "fold ?f (a_children act) s"
    have "\<forall>c\<in>set (a_children act). ref_node c = sys_id s \<longrightarrow> alive s (ref_id c) \<longrightarrow> rank (ref_id c) < rank (ref_id r)"
      using Suc.prems(1) kid_edge [OF Some] unfolding ranked_tree_def by blast
    from F [OF prunes_refl _ Suc.prems(1,2) this] Some
    have t: "prunes s ?t" "alive ?t (ref_id r)" by (simp_all add: jhas_def)
    show ?thesis
      using prunes_trans [OF t(1) prunes_stop_self [OF family_prunes [OF Suc.prems(3) t(1)] t(2)]] Some by simp
  qed (simp add: prunes_refl)
qed simp

lemma prunes_stop:
  assumes "tree_ok s" and "family s" and "remoteChildren s = []"
  shows "prunes s (stop env r s)"
proof -
  have "later (jkeys (actors s)) (ref_id r) < Suc (length (actors s))"
    using later_bound [of "jkeys (actors s)" "ref_id r"] by simp
  then show ?thesis
    using prunes_stop_fuel [of "later (jkeys (actors s))" s r "Suc (length (actors s))" env] assms
    by (simp add: stop_def tree_ok_def)
qed

section \<open>Stopping several children\<close>

text \<open>The children an actor has are the live local members of its order.\<close>

definition orders_match :: "sys \<Rightarrow> bool" where
  "orders_match s \<longleftrightarrow> (\<forall>p xs. order s p = Some xs \<longrightarrow>
     edges s p = ref_id ` {x \<in> set xs. ref_node x = sys_id s \<and> alive s (ref_id x)})"

lemma one_parent:
  assumes "family s" and "orders_match s" and "c \<in> edges s p" and "c \<in> edges s q"
  shows "p = q"
proof -
  have "\<exists>m r. jget (actorMetadata s) c = Some m \<and> md_parent m = Some r \<and> ref_id r = a" if e: "c \<in> edges s a" for a
  proof -
    have "alive s a" using e by (auto simp: edges_def kids_def jhas_def)
    then obtain xs where xs: "order s a = Some xs" by (auto simp: order_def jhas_def)
    then have "edges s a = ref_id ` {x \<in> set xs. ref_node x = sys_id s \<and> alive s (ref_id x)}"
      using assms(2) unfolding orders_match_def by blast
    then obtain x where "x \<in> set xs" "ref_id x = c" "alive s c" using e by auto
    then show ?thesis using assms(1) xs unfolding family_def by blast
  qed
  from this [OF assms(3)] this [OF assms(4)] show ?thesis by auto
qed

lemma sibling_outside:
  assumes "tree_ok s" and "family s" and "orders_match s"
    and "c \<in> edges s p" and "d \<in> edges s p" and "d \<noteq> c"
  shows "d \<notin> subtree s c" and "p \<notin> subtree s c"
proof -
  have rank: "ranked_tree (later (jkeys (actors s))) s" using assms(1) by (simp add: tree_ok_def)
  show p: "p \<notin> subtree s c"
    using subtree_rank [OF rank, of p c] rank assms(4) unfolding ranked_tree_def by fastforce
  show "d \<notin> subtree s c"
  proof
    assume "d \<in> subtree s c"
    then have "(\<lambda>p c. c \<in> edges s p)\<^sup>*\<^sup>* c d" by (simp add: subtree_def)
    then obtain q where "(\<lambda>p c. c \<in> edges s p)\<^sup>*\<^sup>* c q" "d \<in> edges s q"
      using assms(6) by (cases rule: rtranclp.cases) auto
    then show False using p one_parent [OF assms(2,3,5)] by (auto simp: subtree_def)
  qed
qed

text \<open>
  Stopping children of \<open>p\<close> one after the other: they die with what is below them, and nothing
  outside is touched.
\<close>

lemma stop_siblings:
  assumes "tree_ok s" and "family s" and "remoteChildren s = []"
    and "\<And>a. edges s a \<subseteq> edges s0 a"
  shows "prunes s (fold (stop env) cs s) \<and> tree_ok (fold (stop env) cs s) \<and>
     (\<forall>c\<in>set cs. \<not> alive (fold (stop env) cs s) (ref_id c)) \<and>
     (\<forall>a. alive s a \<longrightarrow> (\<forall>c\<in>set cs. a \<notin> subtree s0 (ref_id c)) \<longrightarrow> alive (fold (stop env) cs s) a)"
  using assms
proof (induction cs arbitrary: s)
  case Nil
  then show ?case by (simp add: prunes_refl)
next
  case (Cons c cs)
  let ?s = "stop env c s"
  have p: "prunes s ?s" by (rule prunes_stop [OF Cons.prems(1-3)])
  have sub: "subtree s x \<subseteq> subtree s0 x" for x by (rule subtree_mono) (rule Cons.prems(4))
  have "tree_ok ?s \<and> \<not> alive ?s (ref_id c) \<and> (\<forall>a. edges ?s a \<subseteq> edges s a) \<and> (\<forall>a. alive ?s a \<longrightarrow> alive s a) \<and>
     (\<forall>a. alive s a \<longrightarrow> a \<notin> subtree s (ref_id c) \<longrightarrow> alive ?s a)"
  proof (cases "alive s (ref_id c)")
    case True
    from stop_trims [OF Cons.prems(1) True, of env] obtain ts where
      ts: "trim ts s ?s" "set ts = subtree s (ref_id c)" "ref_id c \<in> set ts" by blast
    show ?thesis
      using tree_ok_trim [OF Cons.prems(1) ts(1)] trim_alive [OF ts(1)] trim_edges_subset [OF ts(1)] ts(2,3) by auto
  next
    case False
    then show ?thesis using Cons.prems(1) by (simp add: stop_def stop_fuel_dead del: stop_fuel.simps)
  qed
  note S = this
  have "prunes ?s (fold (stop env) cs ?s) \<and> tree_ok (fold (stop env) cs ?s) \<and>
     (\<forall>c\<in>set cs. \<not> alive (fold (stop env) cs ?s) (ref_id c)) \<and>
     (\<forall>a. alive ?s a \<longrightarrow> (\<forall>c\<in>set cs. a \<notin> subtree s0 (ref_id c)) \<longrightarrow> alive (fold (stop env) cs ?s) a)"
  proof (rule Cons.IH)
    show "tree_ok ?s" "family ?s" "remoteChildren ?s = []"
      using S family_prunes [OF Cons.prems(2) p] p Cons.prems(3) by (simp_all add: prunes_def)
    show "edges ?s a \<subseteq> edges s0 a" for a using S Cons.prems(4) by blast
  qed
  note R = this
  have "\<not> alive (fold (stop env) cs ?s) (ref_id c)"
    using R S unfolding prunes_def by blast
  moreover have "alive (fold (stop env) cs ?s) a" if "alive s a" "\<forall>d\<in>set (c # cs). a \<notin> subtree s0 (ref_id d)" for a
    using R S sub that by (meson list.set_intros(1,2) subsetD)
  ultimately show ?case using R prunes_trans [OF p] by simp
qed

section \<open>Respawning\<close>

fun new_refs :: "env \<Rightarrow> string \<Rightarrow> nat \<Rightarrow> actor_metadata list \<Rightarrow> actor_ref list" where
  "new_refs env node n [] = []"
| "new_refs env node n (m # ms) =
     \<lparr>ref_node = node, ref_id = env_uuid env n, ref_name = so_name (md_options m), ref_original = True\<rparr>
       # new_refs env node (Suc n) ms"

text \<open>The children as they were spawned, under the given parent.\<close>

definition respawned :: "sys \<Rightarrow> actor_ref \<Rightarrow> actor_ref \<Rightarrow> actor_metadata \<Rightarrow> bool" where
  "respawned s parent r m \<longleftrightarrow> alive s (ref_id r) \<and>
     jget (actorMetadata s) (ref_id r) = Some \<lparr>md_class = md_class m, md_options = md_options m, md_parent = Some parent\<rparr>"

lemma respawn_result:
  assumes "alive s (ref_id parent)" and "\<not> isShuttingDown s" and "\<not> isDraining s"
    and "inj (env_uuid env)" and "\<forall>n\<ge>uuids s. \<not> alive s (env_uuid env n)"
    and "order s (ref_id parent) = Some xs"
  shows "order (respawn env parent (map Some ms) s) (ref_id parent) = Some (xs @ new_refs env (sys_id s) (uuids s) ms) \<and>
     list_all2 (respawned (respawn env parent (map Some ms) s) parent) (new_refs env (sys_id s) (uuids s) ms) ms \<and>
     (\<forall>a. alive s a \<longrightarrow> alive (respawn env parent (map Some ms) s) a \<and>
        jget (actorMetadata (respawn env parent (map Some ms) s)) a = jget (actorMetadata s) a) \<and>
     (\<forall>a. alive (respawn env parent (map Some ms) s) a \<longrightarrow> alive s a \<or> (\<exists>n\<ge>uuids s. a = env_uuid env n))"
  using assms(1-3,5,6)
proof (induction ms arbitrary: s xs)
  case (Cons m ms)
  let ?u = "env_uuid env" and ?p = "ref_id parent"
  define r where "r = \<lparr>ref_node = sys_id s, ref_id = ?u (uuids s), ref_name = so_name (md_options m), ref_original = True\<rparr>"
  obtain s1 where s1: "spawnChild env parent (md_class m) (md_options m) s = Inr (r, s1)"
    using Cons.prems by (simp add: spawnChild_def Let_def r_def)
  have ne: "?p \<noteq> ?u n" if "uuids s \<le> n" for n using Cons.prems(1,4) that by metis
  note R = spawnChild_result [OF s1]
  have id: "ref_id r = ?u (uuids s)" by (simp add: r_def)
  have flags: "isShuttingDown s1 = isShuttingDown s" "isDraining s1 = isDraining s" "uuids s1 = Suc (uuids s)"
      "jget (actorMetadata s1) a = (if a = ref_id r then Some \<lparr>md_class = md_class m, md_options = md_options m,
         md_parent = Some parent\<rparr> else jget (actorMetadata s) a)" for a
  proof -
    let ?s = "s\<lparr>uuids := Suc (uuids s)\<rparr>"
    let ?add = "\<lambda>q. q\<lparr>a_children := sadd (a_children q) r, a_childOrder := a_childOrder q @ [r]\<rparr>"
    have e: "s1 = scheduleProcessMailbox (ref_id r) (emit (CallInit (ref_id r)) (register_name (md_options m) (ref_id r)
        (on_actor ?p ?add (add_actor (env_now env) (md_class m) (md_options m) r (Some parent) ?s))))"
      using s1 Cons.prems(1,2,3) by (simp add: spawnChild_def Let_def r_def)
    have "settings s1 = settings ?s" unfolding e by simp
    from settings_fields [OF this] show "isShuttingDown s1 = isShuttingDown s" "isDraining s1 = isDraining s"
      "uuids s1 = Suc (uuids s)" by simp_all
    show "jget (actorMetadata s1) a = (if a = ref_id r then Some \<lparr>md_class = md_class m, md_options = md_options m,
         md_parent = Some parent\<rparr> else jget (actorMetadata s) a)"
      unfolding e by simp
  qed
  have alive1: "alive s1 a \<longleftrightarrow> a = ref_id r \<or> alive s a" for a using R by simp
  have order1: "order s1 ?p = Some (xs @ [r])"
    using R Cons.prems(5) ne [of "uuids s"] by (auto simp: order_def id)
  have fresh1: "\<forall>n\<ge>uuids s1. \<not> alive s1 (?u n)"
    using Cons.prems(4) alive1 flags(3) assms(4) by (auto simp: id inj_eq)
  note IH = Cons.IH [OF _ _ _ fresh1 order1]
  have nf: "\<not> alive s (ref_id r)" using Cons.prems(4) by (simp add: id)
  have "alive (respawn env parent (map Some ms) s1) (ref_id r) \<and>
      jget (actorMetadata (respawn env parent (map Some ms) s1)) (ref_id r) = jget (actorMetadata s1) (ref_id r)"
    using IH Cons.prems alive1 flags by auto
  then have resp: "respawned (respawn env parent (map Some ms) s1) parent r m"
    by (simp add: respawned_def flags)
  have "alive (respawn env parent (map Some ms) s1) a \<and>
      jget (actorMetadata (respawn env parent (map Some ms) s1)) a = jget (actorMetadata s) a" if "alive s a" for a
    using IH Cons.prems(1-3) alive1 flags that nf by (metis (full_types))
  moreover have "alive s a \<or> (\<exists>n\<ge>uuids s. a = ?u n)" if "alive (respawn env parent (map Some ms) s1) a" for a
    using IH Cons.prems(1-3) alive1 flags that id by (metis Suc_leD order_refl)
  ultimately show ?case
    using IH Cons.prems(1-3) alive1 flags(1-3) resp R s1 r_def by simp
qed simp

section \<open>Group strategies\<close>

lemma childRestarts_frame [simp]:
  "order (s\<lparr>childRestarts := m\<rparr>) = order s" "kids (s\<lparr>childRestarts := m\<rparr>) = kids s"
  "edges (s\<lparr>childRestarts := m\<rparr>) = edges s" "tree_ok (s\<lparr>childRestarts := m\<rparr>) = tree_ok s"
  "family (s\<lparr>childRestarts := m\<rparr>) = family s" "orders_match (s\<lparr>childRestarts := m\<rparr>) = orders_match s"
  "metadata_of (s\<lparr>childRestarts := m\<rparr>) xs = metadata_of s xs"
proof -
  show o: "order (s\<lparr>childRestarts := m\<rparr>) = order s" by (rule ext) (simp add: order_def)
  show k: "kids (s\<lparr>childRestarts := m\<rparr>) = kids s" by (rule ext) (simp add: kids_def)
  show e: "edges (s\<lparr>childRestarts := m\<rparr>) = edges s" by (rule ext) (simp add: edges_def k)
  show "tree_ok (s\<lparr>childRestarts := m\<rparr>) = tree_ok s" by (simp add: tree_ok_def ranked_tree_def remotes_ok_def e)
  show "family (s\<lparr>childRestarts := m\<rparr>) = family s" by (simp add: family_def o)
  show "orders_match (s\<lparr>childRestarts := m\<rparr>) = orders_match s" by (simp add: orders_match_def o e)
qed (simp add: metadata_of_def)

text \<open>The children from \<open>rest\<close> on are replaced, whatever the strategy that chose them.\<close>

lemma replace_rest:
  assumes ok: "tree_ok s" "family s" "orders_match s" "remoteChildren s = []"
    and parent: "order s (ref_id q) = Some (pre @ rest)"
    and loc: "\<forall>x\<in>set (pre @ rest). ref_node x = sys_id s \<and> alive s (ref_id x)"
    and run: "\<not> isShuttingDown s" "\<not> isDraining s"
    and fresh: "inj (env_uuid env)" "\<forall>n\<ge>uuids s. \<not> alive s (env_uuid env n)"
  defines "ms \<equiv> map (\<lambda>x. the (jget (actorMetadata s) (ref_id x))) rest"
  defines "s' \<equiv> respawn env q (metadata_of s rest) (stop_all env rest s)"
  shows "order s' (ref_id q) = Some (pre @ new_refs env (sys_id s) (uuids s) ms) \<and>
     list_all2 (respawned s' q) (new_refs env (sys_id s) (uuids s) ms) ms \<and>
     (\<forall>x\<in>set rest. \<not> alive s' (ref_id x)) \<and>
     (\<forall>x\<in>set pre. alive s' (ref_id x) \<and> jget (actorMetadata s') (ref_id x) = jget (actorMetadata s) (ref_id x))"
proof -
  let ?q = "ref_id q" and ?t = "fold (stop env) (rev rest) s"
  have dist: "distinct (map ref_id (pre @ rest))" using ok(2) parent unfolding family_def by blast
  have edge: "ref_id x \<in> edges s ?q" if "x \<in> set (pre @ rest)" for x
    using ok(3) parent loc that unfolding orders_match_def by blast
  note S = stop_siblings [OF ok(1,2,4), where ?s0.0 = s and cs = "rev rest" and env = env, OF subset_refl]
  have p: "prunes s ?t" and dead: "\<forall>x\<in>set rest. \<not> alive ?t (ref_id x)" using S by auto
  have apart: "ref_id x \<notin> subtree s (ref_id c)" if "x \<in> set pre" "c \<in> set rest" for x c
  proof (rule sibling_outside(1) [OF ok(1-3), of _ ?q])
    show "ref_id c \<in> edges s ?q" "ref_id x \<in> edges s ?q" using edge that by auto
    show "ref_id x \<noteq> ref_id c" using dist that by (auto simp: image_iff)
  qed
  have kept: "alive ?t (ref_id x)" if "x \<in> set pre" for x
    using S loc that apart [OF that] by auto
  have q: "alive ?t ?q"
  proof -
    have "?q \<notin> subtree s (ref_id c)" if "c \<in> set rest" for c
    proof
      assume "?q \<in> subtree s (ref_id c)"
      then have "later (jkeys (actors s)) ?q \<le> later (jkeys (actors s)) (ref_id c)"
        using ok(1) subtree_rank unfolding tree_ok_def by blast
      then show False using ok(1) edge [of c] that unfolding tree_ok_def ranked_tree_def by fastforce
    qed
    moreover have "alive s ?q" using parent by (auto simp: order_def jhas_def)
    ultimately show ?thesis using S by auto
  qed
  have order: "order ?t ?q = Some pre"
  proof -
    have "filter (\<lambda>x. alive s (ref_id x) \<longrightarrow> alive ?t (ref_id x)) rest = []"
      using dead loc by (simp add: filter_empty_conv)
    moreover have "filter (\<lambda>x. alive s (ref_id x) \<longrightarrow> alive ?t (ref_id x)) pre = pre"
      using kept by simp
    ultimately show ?thesis using p q parent by (simp add: prunes_def)
  qed
  have meta: "metadata_of s rest = map Some ms"
  proof -
    have "\<exists>m. jget (actorMetadata s) (ref_id x) = Some m" if "x \<in> set rest" for x
      using ok(2) parent loc that unfolding family_def by (metis UnCI set_append)
    then show ?thesis by (auto simp: metadata_of_def ms_def)
  qed
  have set: "settings ?t = settings s" "sys_id ?t = sys_id s" using p by (simp_all add: prunes_def)
  note f = settings_fields [OF set(1)]
  have fresh': "\<forall>n\<ge>uuids ?t. \<not> alive ?t (env_uuid env n)" using fresh(2) p f by (auto simp: prunes_def)
  have s': "s' = respawn env q (map Some ms) ?t" by (simp add: s'_def stop_all_def meta)
  note R = respawn_result [OF q _ _ fresh(1) fresh' order, of ms, folded s']
  have "\<not> alive s' (ref_id x)" if "x \<in> set rest" for x
  proof -
    have "alive ?t a \<or> (\<exists>n\<ge>uuids s. a = env_uuid env n)" if "alive s' a" for a
      using R run that by (simp add: f)
    then show ?thesis using dead loc fresh(2) that by (metis UnCI set_append)
  qed
  moreover have "alive s' (ref_id x) \<and> jget (actorMetadata s') (ref_id x) = jget (actorMetadata s) (ref_id x)"
    if "x \<in> set pre" for x
    using R run kept [OF that] p by (simp add: f prunes_def)
  ultimately show ?thesis using R run by (simp add: f set(2))
qed

text \<open>
  A child on another node is not in the tables of this one: the strategies a local crash starts
  neither stop it nor start a new one for it.
\<close>

lemma stops_keep_dead:
  "tree_ok s \<Longrightarrow> \<not> alive s i \<Longrightarrow> tree_ok (fold (stop env) xs s) \<and> \<not> alive (fold (stop env) xs s) i"
proof (induction xs arbitrary: s)
  case (Cons x xs)
  have "tree_ok (stop env x s) \<and> \<not> alive (stop env x s) i"
  proof (cases "alive s (ref_id x)")
    case True
    then obtain ts where t: "trim ts s (stop env x s)" using stop_trims [OF Cons.prems(1)] by blast
    show ?thesis using tree_ok_trim [OF Cons.prems(1) t] trim_alive [OF t, of i] Cons.prems(2) by blast
  next
    case False
    have "stop env x s = s" unfolding stop_def by (rule stop_fuel_dead [OF False])
    then show ?thesis using Cons.prems by simp
  qed
  then show ?case using Cons.IH by simp
qed simp

lemma respawn_skips: "respawn env q (xs @ None # ys) s = respawn env q (xs @ ys) s"
proof (induction xs arbitrary: s)
  case (Cons x xs)
  then show ?case by (cases x) (simp_all split: sum.split)
qed simp

lemma remote_sibling_left:
  assumes "tree_ok s" and "\<not> alive s (ref_id c)" and "jget (actorMetadata s) (ref_id c) = None"
    and "a_childOrder p = pre @ c # post"
  shows "handleOneForAll se p s = handleOneForAll se (p\<lparr>a_childOrder := pre @ post\<rparr>) s"
proof -
  let ?t = "fold (stop (se_env se)) (rev post) s"
  have "\<not> alive ?t (ref_id c)" using stops_keep_dead [OF assms(1,2)] by blast
  then have "stop (se_env se) c ?t = ?t" unfolding stop_def by (rule stop_fuel_dead)
  then have "stop_all (se_env se) (pre @ c # post) s = stop_all (se_env se) (pre @ post) s" by (simp add: stop_all_def)
  then show ?thesis using assms(3,4) by (simp add: handleOneForAll_def metadata_of_def respawn_skips)
qed

text \<open>
  C10: One-for-all and rest-for-one among local children. Let all children of the supervising actor
  be on its own node and alive, the node supervise no remote children, the restart be granted,
  and the stops run to completion without other events in between. Then, when one of the children
  crashes, all children (under rest-for-one, the crashed one and those started after it) are
  stopped and replaced, in the order they were in, by new actors of the same classes with the
  same options; the children before them stay as they are, and the order of the parent lists the
  kept ones and then the new ones. (A child on another node is left alone by the strategies that a
  local crash starts: \<open>remote_sibling_left\<close>.)
\<close>

theorem group_restart:
  assumes ok: "tree_ok s" "family s" "orders_match s" "remoteChildren s = []"
    and m: "jget (actorMetadata s) (ref_id r) = Some m" "md_parent m = Some q"
    and parent: "getActor s (ref_id q) = Some p" "ref_id (a_self p) = ref_id q" "a_childOrder p = pre @ rest"
    and strategy: "cs_strategy (ac_supervision (a_class p)) = OneForAll \<and> pre = [] \<or>
       cs_strategy (ac_supervision (a_class p)) = RestForOne \<and> rest \<noteq> [] \<and> ref_id (hd rest) = ref_id r"
    and loc: "\<forall>x\<in>set (pre @ rest). ref_node x = sys_id s \<and> alive s (ref_id x)"
    and allowed: "fst (canRestart (env_now (se_env se)) (ac_supervision (a_class p))
       (getRestartKey se (ref_id r) (ref_id q) s) s)"
    and run: "\<not> isShuttingDown s" "\<not> isDraining s"
    and fresh: "inj (env_uuid (se_env se))" "\<forall>n\<ge>uuids s. \<not> alive s (env_uuid (se_env se) n)"
    and new: "new = new_refs (se_env se) (sys_id s) (uuids s) (map (\<lambda>x. the (jget (actorMetadata s) (ref_id x))) rest)"
    and s': "s' = handleCrash se r err s"
  shows "order s' (ref_id q) = Some (pre @ new) \<and>
     list_all2 (respawned s' (a_self p)) new (map (\<lambda>x. the (jget (actorMetadata s) (ref_id x))) rest) \<and>
     (\<forall>x\<in>set rest. \<not> alive s' (ref_id x)) \<and>
     (\<forall>x\<in>set pre. alive s' (ref_id x) \<and> jget (actorMetadata s') (ref_id x) = jget (actorMetadata s) (ref_id x))"
proof -
  obtain cm where c: "canRestart (env_now (se_env se)) (ac_supervision (a_class p))
      (getRestartKey se (ref_id r) (ref_id q) s) s = (True, s\<lparr>childRestarts := cm\<rparr>)"
    using canRestart_state allowed by (metis prod.collapse)
  let ?s = "s\<lparr>childRestarts := cm\<rparr>"
  have ord: "order s (ref_id (a_self p)) = Some (pre @ rest)" using parent by (simp add: order_def)
  have dist: "distinct (map ref_id (pre @ rest))" using ok(2) ord unfolding family_def by blast
  have "rest_from (ref_id r) (pre @ rest) = rest" if "rest \<noteq> []" "ref_id (hd rest) = ref_id r"
    using that dist by (cases rest) (auto simp: rest_from_def dropWhile_append image_iff)
  then have H: "s' = respawn (se_env se) (a_self p) (metadata_of ?s rest) (stop_all (se_env se) rest ?s)"
    using m parent strategy c
    by (auto simp: s' handleCrash_def crash_step_def handleChildCrash_def Let_def handleOneForAll_def handleRestForOne_def)
  show ?thesis
    using replace_rest [of ?s "a_self p" pre rest "se_env se"] ok ord loc run fresh
    by (simp add: H new parent(2) del: set_append)
qed

section \<open>Witnesses\<close>

definition demo_group :: sys where
  "demo_group = (new_system ''n'' None None)\<lparr>
     actors := [(''p'', (new_actor (demo_class\<lparr>ac_supervision := \<lparr>cs_strategy = RestForOne, cs_maxRestarts = 3, cs_periodMs = 5000\<rparr>\<rparr>)
                   (demo_id ''n'' ''p'') None 0)
                   \<lparr>a_children := [demo_id ''n'' ''a'', demo_id ''n'' ''b''], a_childOrder := [demo_id ''n'' ''a'', demo_id ''n'' ''b'']\<rparr>),
                (''a'', new_actor demo_class (demo_id ''n'' ''a'') (Some (demo_id ''n'' ''p'')) 0),
                (''b'', new_actor demo_class (demo_id ''n'' ''b'') (Some (demo_id ''n'' ''p'')) 0)],
     actorMetadata := [(''a'', \<lparr>md_class = demo_class, md_options = no_options, md_parent = Some (demo_id ''n'' ''p'')\<rparr>),
                       (''b'', \<lparr>md_class = demo_class, md_options = no_options, md_parent = Some (demo_id ''n'' ''p'')\<rparr>)]\<rparr>"

lemma demo_group_facts:
  "sys_id demo_group = ''n''" "remoteChildren demo_group = []" "uuids demo_group = 0" "childRestarts demo_group = []"
  "\<not> isShuttingDown demo_group" "\<not> isDraining demo_group" "jkeys (actors demo_group) = [''p'', ''a'', ''b'']"
  "alive demo_group x \<longleftrightarrow> x \<in> {''p'', ''a'', ''b''}"
  "kids demo_group x = (if x = ''p'' then Some [demo_id ''n'' ''a'', demo_id ''n'' ''b'']
     else if x \<in> {''a'', ''b''} then Some [] else None)"
  "order demo_group x = (if x = ''p'' then Some [demo_id ''n'' ''a'', demo_id ''n'' ''b'']
     else if x \<in> {''a'', ''b''} then Some [] else None)"
  by (auto simp: demo_group_def new_system_def jhas_def kids_def order_def new_actor_def)

lemma demo_id_sel [simp]:
  "ref_id (demo_id n a) = a" "ref_node (demo_id n a) = n" "ref_name (demo_id n a) = None"
  by (simp_all add: demo_id_def)

lemma edges_list:
  "kids s p = Some ks \<Longrightarrow>
     edges s p = set (map ref_id (filter (\<lambda>x. ref_node x = sys_id s \<and> alive s (ref_id x)) ks))"
  by (auto simp: edges_def)

lemma filter_image: "f ` {x \<in> set xs. P x} = set (map f (filter P xs))"
  by (simp only: set_map set_filter)

lemma demo_group_edges: "edges demo_group p = (if p = ''p'' then {''a'', ''b''} else {})"
proof (cases "p = ''p''")
  case True
  then show ?thesis
    using edges_list [of demo_group "''p''"] by (simp add: demo_group_facts del: set_map set_filter)
next
  case False
  then show ?thesis by (simp add: edges_def demo_group_facts)
qed

lemma demo_group_ok: "tree_ok demo_group" "family demo_group" "orders_match demo_group"
proof -
  show "tree_ok demo_group"
    by (simp add: tree_ok_def ranked_tree_def demo_group_edges demo_group_facts later_def remotes_ok_def del: map_map)
  show "family demo_group"
    by (simp add: family_def demo_group_facts) (simp add: demo_group_def)
  show "orders_match demo_group"
    by (simp add: orders_match_def demo_group_facts demo_group_edges filter_image del: set_map set_filter)
qed

theorem group_restart_witness:
  "order (handleCrash demo_sup (demo_id ''n'' ''b'') ''boom'' demo_group) ''p''
     = Some [demo_id ''n'' ''a'', demo_id ''n'' ''j'']"
proof -
  let ?p = "the (getActor demo_group ''p'')"
  have p: "getActor demo_group (ref_id (demo_id ''n'' ''p'')) = Some ?p" "ref_id (a_self ?p) = ref_id (demo_id ''n'' ''p'')"
    "a_childOrder ?p = [demo_id ''n'' ''a''] @ [demo_id ''n'' ''b'']"
    "ac_supervision (a_class ?p) = \<lparr>cs_strategy = RestForOne, cs_maxRestarts = 3, cs_periodMs = 5000\<rparr>"
    by (simp_all add: demo_group_def new_actor_def)
  have m: "jget (actorMetadata demo_group) (ref_id (demo_id ''n'' ''b''))
      = Some \<lparr>md_class = demo_class, md_options = no_options, md_parent = Some (demo_id ''n'' ''p'')\<rparr>"
    by (simp add: demo_group_def demo_id_def)
  have "fst (canRestart (env_now (se_env demo_sup)) (ac_supervision (a_class ?p)) key demo_group)" for key
    by (simp add: canRestart_def canRestart_in_def restart_record_for_def Let_def demo_group_facts p(4))
  from group_restart [OF demo_group_ok demo_group_facts(2) m _ p(1-3) _ _ this demo_group_facts(5,6) _ _ refl refl]
  show ?thesis
    using m by (simp add: p(4) demo_group_facts demo_id_def demo_sup_def demo_env_def no_options_def inj_def)
qed

section \<open>Children without a name\<close>

text \<open>Crashes of the successive instances of one child: the time and the id of the instance.\<close>

fun decisions ::
  "sup_env \<Rightarrow> child_supervision \<Rightarrow> string \<Rightarrow> spawn_options \<Rightarrow> (int \<times> string) list \<Rightarrow>
   (string, restart_record) jsmap \<Rightarrow> bool list" where
  "decisions se opts parent o' [] m = []"
| "decisions se opts parent o' ((t, i) # cs) m =
     (let (ok, m') = canRestart_in t opts (getRestartKeyForRemote se i parent o') m
      in ok # decisions se opts parent o' cs m')"

lemma canRestart_in_other: "k \<noteq> key \<Longrightarrow> jget (snd (canRestart_in now opts key m)) k = jget m k"
  by (simp add: canRestart_in_def Let_def)

text \<open>
  The limit of a child holds only if it has a name or arguments: then every instance has the
  same key. The key of a child spawned with neither is its instance id, which changes with
  every restart, so however often and however fast it crashes it is restarted every time.
\<close>

theorem unnamed_child_unlimited:
  assumes "truthy_name (so_name o') = None" and "so_args o' = None" and "inj (se_id se)"
    and "distinct (map snd crashes)" and "0 < cs_maxRestarts opts" and "0 \<le> cs_periodMs opts"
  shows "decisions se opts parent o' crashes [] = replicate (length crashes) True
     \<and> (truthy_name (so_name n) = Some nm \<longrightarrow> getRestartKeyForRemote se i parent n = getRestartKeyForRemote se j parent n)"
proof
  have key: "getRestartKeyForRemote se i parent o' = getRestartKeyForRemote se j parent o' \<longleftrightarrow> i = j" for i j
    using assms(1-3) by (simp add: getRestartKeyForRemote_def restart_key_def inj_eq)
  have "decisions se opts parent o' crashes m = replicate (length crashes) True"
    if "\<forall>i\<in>snd ` set crashes. jget m (getRestartKeyForRemote se i parent o') = None" "distinct (map snd crashes)" for m
    using that
  proof (induction crashes arbitrary: m)
    case (Cons c cs)
    obtain t i where c: "c = (t, i)" by (cases c)
    let ?k = "getRestartKeyForRemote se i parent o'"
    let ?m = "snd (canRestart_in t opts ?k m)"
    have "fst (canRestart_in t opts ?k m)"
      using canRestart_in_None(1) [of m ?k opts t] Cons.prems(1) assms(5,6) by (simp add: c)
    moreover have "decisions se opts parent o' cs ?m = replicate (length cs) True"
    proof (rule Cons.IH)
      show "\<forall>j\<in>snd ` set cs. jget ?m (getRestartKeyForRemote se j parent o') = None"
      proof
        fix j assume j: "j \<in> snd ` set cs"
        then have "j \<noteq> i" using Cons.prems(2) by (auto simp: c)
        then show "jget ?m (getRestartKeyForRemote se j parent o') = None"
          using Cons.prems(1) j by (auto simp: canRestart_in_other key)
      qed
    qed (use Cons.prems(2) in simp)
    ultimately show ?case by (simp add: c Let_def split_beta)
  qed simp
  then show "decisions se opts parent o' crashes [] = replicate (length crashes) True"
    using assms(4) by simp
  show "truthy_name (so_name n) = Some nm \<longrightarrow> getRestartKeyForRemote se i parent n = getRestartKeyForRemote se j parent n"
    by (simp add: getRestartKeyForRemote_def restart_key_def)
qed

theorem unnamed_child_unlimited_witness:
  "decisions demo_sup DEFAULT_CHILD_SUPERVISION ''p'' no_options
     [(0, ''a''), (0, ''b''), (0, ''c''), (0, ''d''), (0, ''e'')] [] = [True, True, True, True, True]"
proof -
  have "inj (se_id demo_sup)" by (simp add: demo_sup_def inj_def)
  from unnamed_child_unlimited [OF _ _ this, of no_options "[(0, ''a''), (0, ''b''), (0, ''c''), (0, ''d''), (0, ''e'')]"
      DEFAULT_CHILD_SUPERVISION "''p''"]
  show ?thesis by (simp add: no_options_def truthy_name_def DEFAULT_CHILD_SUPERVISION_def del: decisions.simps)
qed

section \<open>A child on another node\<close>

text \<open>
  The tables of the parent's node \<open>p\<close> and of the child's node \<open>q\<close> agree about the child with
  instance id \<open>i\<close> of the actor \<open>a\<close>.
\<close>

definition remote_pair :: "sys \<Rightarrow> sys \<Rightarrow> string \<Rightarrow> string \<Rightarrow> remote_child \<Rightarrow> bool" where
  "remote_pair p q a i e \<longleftrightarrow> jget (remoteChildren p) i = Some e \<and> ref_id (rc_ref e) = i \<and> rc_node e = sys_id q \<and>
     ref_id (rc_parent e) = a \<and> alive q i \<and>
     jget (remoteParents q) i = Some \<lparr>rp_node = sys_id p, rp_actor = a\<rparr> \<and>
     jget (actorMetadata q) i = Some \<lparr>md_class = rc_class e, md_options = rc_options e, md_parent = None\<rparr>"

lemma remote_spawn_handled:
  "classes cname = Some c \<Longrightarrow> handleRemoteChildSpawn now classes i cname o' pn pa q = (r, q') \<Longrightarrow>
     r = Inr i \<and> alive q' i \<and> (\<forall>a. alive q' a \<longleftrightarrow> a = i \<or> alive q a) \<and> sys_id q' = sys_id q \<and>
     jget (remoteParents q') i = Some \<lparr>rp_node = pn, rp_actor = pa\<rparr> \<and>
     (\<forall>j. j \<noteq> i \<longrightarrow> jget (remoteParents q') j = jget (remoteParents q) j) \<and>
     jget (actorMetadata q') i = Some \<lparr>md_class = c, md_options = o', md_parent = None\<rparr>"
  using settings_fields(6) [OF settings_new(1)] settings_fields(6) [OF settings_new(2)]
  by (auto simp: handleRemoteChildSpawn_def Let_def add_actor_def)

lemma replace_order:
  "i \<in> set (map ref_id xs) \<Longrightarrow> distinct (map ref_id xs) \<Longrightarrow>
     map ref_id (takeWhile (\<lambda>c. ref_id c \<noteq> i) xs @ r # tl (dropWhile (\<lambda>c. ref_id c \<noteq> i) xs))
       = map (\<lambda>x. if x = i then ref_id r else x) (map ref_id xs)"
proof (induction xs)
  case (Cons x xs)
  then show ?case by (cases "ref_id x = i") (auto simp: image_iff intro!: map_cong)
qed simp

lemma stop_dead: "\<not> alive (stop env r s) (ref_id r)"
proof (cases "getActor s (ref_id r)")
  case (Some act)
  then obtain t where "stop env r s = stop_self r t" by (auto simp: stop_def)
  then show ?thesis using stop_self_tree [of r t] by (auto simp: bury_simps)
qed (simp add: stop_def jhas_def)

text \<open>
  Restarting and stopping a child on another node, with both nodes handling their part: a
  restart replaces the instance on both, in the same place of the parent's order, and the
  tables agree about the new one; a stop removes it from both.
\<close>

theorem remote_child_life:
  assumes pair: "remote_pair p q a i e" and ok: "tree_ok q"
    and cls: "classes (ac_name (rc_class e)) = Some (rc_class e)"
    and parent: "order p a = Some xs" "distinct (map ref_id xs)" "i \<in> set (map ref_id xs)"
    and new: "env_uuid env (uuids p) = j" "j \<noteq> i"
    and answers: "env_answers env (sys_id q)" "env_success env (sys_id q)"
    and R: "restartRemoteChild env e p = (r, p')"
    and H: "handleRemoteChildRestart env' classes i j (sys_id p) a q = (ans, q')"
    and S: "stopRemoteChild env i p = p''" and T: "handleRemoteChildStop env' i q = (b, q'')"
  shows "last (outbox p') = RequestTo (sys_id q) (ChildRestart i j (sys_id p) a) \<and> ans = Inr j
     \<and> (\<exists>e'. remote_pair p' q' a j e') \<and> jget (remoteChildren p') i = None
     \<and> \<not> alive q' i \<and> jget (remoteParents q') i = None
     \<and> map_option (map ref_id) (order p' a) = Some (map (\<lambda>x. if x = i then j else x) (map ref_id xs))
     \<and> b \<and> jget (remoteChildren p'') i = None \<and> \<not> alive q'' i \<and> jget (remoteParents q'') i = None
     \<and> map_option (map ref_id) (order p'' a) = Some (filter (\<lambda>x. x \<noteq> i) (map ref_id xs))"
proof -
  obtain act where act: "getActor p a = Some act" "a_childOrder act = xs"
    using parent(1) by (auto simp: order_def)
  have e: "jget (remoteChildren p) i = Some e" "ref_id (rc_ref e) = i" "rc_node e = sys_id q" "ref_id (rc_parent e) = a"
    and live: "alive q i" and md: "jget (actorMetadata q) i = Some \<lparr>md_class = rc_class e, md_options = rc_options e, md_parent = None\<rparr>"
    using pair by (simp_all add: remote_pair_def)
  define new_r where "new_r = \<lparr>ref_node = sys_id q, ref_id = j, ref_name = so_name (rc_options e), ref_original = True\<rparr>"
  have p': "p' = on_actor a (replace_child (rc_ref e) new_r)
      ((emit (RequestTo (sys_id q) (ChildRestart i j (sys_id p) a)) (p\<lparr>uuids := Suc (uuids p)\<rparr>))
        \<lparr>remoteChildren := jput (jdel (remoteChildren p) i) j (e\<lparr>rc_ref := new_r\<rparr>)\<rparr>)"
    using R answers by (simp add: restartRemoteChild_def Let_def e new new_r_def)
  have order': "order p' a = Some (a_childOrder (replace_child (rc_ref e) new_r act))"
    using act by (simp add: p' order_def)
  have "dropWhile (\<lambda>c. ref_id c \<noteq> i) xs \<noteq> []" using parent(3) by (auto simp: dropWhile_eq_Nil_conv)
  then have ids: "map ref_id (a_childOrder (replace_child (rc_ref e) new_r act)) = map (\<lambda>x. if x = i then j else x) (map ref_id xs)"
    using replace_order [OF parent(3,2), of new_r] act(2) by (simp add: replace_child_def Let_def e new_r_def)
  define q1 where "q1 = stop env' (rebuilt_ref i q) q"
  have id: "ref_id (rebuilt_ref i q) = i" by (simp add: rebuilt_ref_def)
  have q1: "\<not> alive q1 i" "remoteParents q1 = remoteParents q" "sys_id q1 = sys_id q"
    using stop_dead [of env' "rebuilt_ref i q" q] settings_fields(6) [OF settings_stop, of env' "rebuilt_ref i q" q]
      stop_trims [OF ok, of "rebuilt_ref i q" env'] live id by (auto simp: q1_def trim_def)
  have h: "handleRemoteChildSpawn (env_now env') classes j (ac_name (rc_class e)) (rc_options e) (sys_id p) a (forget_parent i q1) = (ans, q')"
    using H md live by (simp add: handleRemoteChildRestart_def q1_def)
  note h' = remote_spawn_handled [OF cls h]
  have q': "\<not> alive q' i" "jget (remoteParents q') i = None"
    using h' q1(1) new(2) by (simp_all add: forget_parent_def)
  have "remote_pair p' q' a j (e\<lparr>rc_ref := new_r\<rparr>)"
    using h' e q1(3) by (simp add: remote_pair_def p' new_r_def forget_parent_def)
  moreover have "b \<and> q'' = stop env' (rebuilt_ref i q) (forget_parent i q)"
    using T live by (simp add: handleRemoteChildStop_def)
  moreover have "p'' = on_actor a (remove_child (rc_ref e))
      ((emit (RequestTo (sys_id q) (ChildStop i (sys_id p) a)) p)\<lparr>remoteChildren := jdel (remoteChildren p) i\<rparr>)"
    using S answers by (simp add: stopRemoteChild_def Let_def e)
  moreover have "map ref_id (filter (\<lambda>c. ref_id c \<noteq> i) xs) = filter (\<lambda>x. x \<noteq> i) (map ref_id xs)"
    by (simp add: filter_map comp_def)
  ultimately show ?thesis
    using h' q' order' ids new(2) act stop_dead [of env' "rebuilt_ref i q" "forget_parent i q"] id
      settings_fields(6) [OF settings_stop, of env' "rebuilt_ref i q" "forget_parent i q"]
    by (auto simp: p' order_def remove_child_def remove_first_filter [OF parent(2)] e forget_parent_def)
qed

definition demo_entry :: remote_child where
  "demo_entry = \<lparr>rc_ref = demo_id ''m'' ''c'', rc_node = ''m'', rc_parent = demo_id ''n'' ''a'', rc_class = demo_class,
     rc_options = no_options\<rparr>"

definition demo_parent_node :: sys where
  "demo_parent_node = (new_system ''n'' None None)\<lparr>
     actors := [(''a'', (new_actor demo_class (demo_id ''n'' ''a'') None 0)
        \<lparr>a_children := [demo_id ''m'' ''c''], a_childOrder := [demo_id ''m'' ''c'']\<rparr>)],
     remoteChildren := [(''c'', demo_entry)]\<rparr>"

definition demo_child_node :: sys where
  "demo_child_node = (new_system ''m'' None None)\<lparr>
     actors := [(''c'', new_actor demo_class (demo_id ''m'' ''c'') None 0)],
     actorMetadata := [(''c'', \<lparr>md_class = demo_class, md_options = no_options, md_parent = None\<rparr>)],
     remoteParents := [(''c'', \<lparr>rp_node = ''n'', rp_actor = ''a''\<rparr>)]\<rparr>"

lemma demo_pair: "remote_pair demo_parent_node demo_child_node ''a'' ''c'' demo_entry"
  by (simp add: remote_pair_def demo_parent_node_def demo_child_node_def demo_entry_def new_system_def jhas_def)

lemma demo_child_ok: "tree_ok demo_child_node"
  by (simp add: tree_ok_def ranked_tree_def edges_def kids_def demo_child_node_def new_system_def new_actor_def remotes_ok_def)

theorem remote_child_life_witness:
  "\<not> alive (snd (handleRemoteChildRestart (demo_env CHR ''k'') (\<lambda>_. Some demo_class) ''c'' ''j'' ''n'' ''a'' demo_child_node)) ''c''"
proof -
  have o: "order demo_parent_node ''a'' = Some [demo_id ''m'' ''c'']"
    by (simp add: order_def demo_parent_node_def)
  have ids: "sys_id demo_parent_node = ''n''" "uuids demo_parent_node = 0"
    by (simp_all add: demo_parent_node_def new_system_def)
  let ?h = "handleRemoteChildRestart (demo_env CHR ''k'') (\<lambda>_. Some demo_class) ''c'' ''j'' (sys_id demo_parent_node) ''a'' demo_child_node"
  have h: "?h = (fst ?h, snd ?h)" by simp
  have "env_uuid (demo_env CHR ''j'') (uuids demo_parent_node) = ''j''" "''j'' \<noteq> ''c''"
    "env_answers (demo_env CHR ''j'') (sys_id demo_child_node)" "env_success (demo_env CHR ''j'') (sys_id demo_child_node)"
    by (simp_all add: demo_env_def ids)
  moreover have "(\<lambda>_. Some demo_class) (ac_name (rc_class demo_entry)) = Some (rc_class demo_entry)"
    by (simp add: demo_entry_def)
  moreover have "distinct (map ref_id [demo_id ''m'' ''c''])" "''c'' \<in> set (map ref_id [demo_id ''m'' ''c''])" by simp_all
  ultimately show ?thesis
    using remote_child_life [OF demo_pair demo_child_ok _ o _ _ _ _ _ _ prod.collapse [symmetric] h refl prod.collapse [symmetric]]
    by (simp add: ids)
qed

end
