(* ===== verification/Placement.thy ===== *)
theory Placement
  imports Actor_State
begin

text \<open>
  \<open>PlacementEngine\<close> of \<open>src/placement.ts\<close>: which node a new actor goes to. The state is the
  table of round-robin counters, one per role; the cluster is what the engine asks it, and
  \<open>getMembersByRole\<close> is optional. The local cluster of \<open>src/local_cluster.ts\<close> is one such view.
\<close>

record cluster_view =
  cl_nodeId :: string
  cl_members :: "string list"
  cl_byRole :: "(string \<Rightarrow> string list) option"

type_synonym counters = "(string, nat) jsmap"

definition LocalCluster :: "string \<Rightarrow> cluster_view" where
  "LocalCluster node = \<lparr>cl_nodeId = node, cl_members = [node], cl_byRole = Some (\<lambda>_. [node])\<rparr>"

text \<open>\<open>role && this.cluster.getMembersByRole\<close>: the empty string is no role.\<close>

definition role_members :: "cluster_view \<Rightarrow> string option \<Rightarrow> string list option" where
  "role_members c role =
     (case truthy_name role of None \<Rightarrow> None | Some r \<Rightarrow> map_option (\<lambda>f. f r) (cl_byRole c))"

text \<open>The key of a counter, \<open>role ?? '__all__'\<close>, and the next value, \<open>(get ?? -1) + 1\<close>.\<close>

definition counter_key :: "string option \<Rightarrow> string" where
  "counter_key role = (case role of None \<Rightarrow> ''__all__'' | Some r \<Rightarrow> r)"

definition next_counter :: "counters \<Rightarrow> string \<Rightarrow> nat" where
  "next_counter cs k = (case jget cs k of None \<Rightarrow> 0 | Some n \<Rightarrow> Suc n)"

definition selectNode ::
  "cluster_view \<Rightarrow> placement_strategy \<Rightarrow> string option \<Rightarrow> counters \<Rightarrow> (js_error + string) \<times> counters" where
  "selectNode c strategy role cs =
     (case strategy of
        LocalPlacement \<Rightarrow>
          (case role_members c role of
             Some matching \<Rightarrow>
               if cl_nodeId c \<in> set matching then (Inr (cl_nodeId c), cs)
               else (Inl (NoRoleMatchError (the role) (Some (cl_nodeId c))), cs)
           | None \<Rightarrow> (Inr (cl_nodeId c), cs))
      | RoundRobin \<Rightarrow>
          (let members = (case role_members c role of Some ms \<Rightarrow> ms | None \<Rightarrow> cl_members c)
           in if members = [] then
                (case truthy_name role of
                   Some r \<Rightarrow> (Inl (NoRoleMatchError r None), cs)
                 | None \<Rightarrow> (Inr (cl_nodeId c), cs))
              else
                (let k = counter_key role; n = next_counter cs k
                 in (Inr (members ! (n mod length members)), jput cs k n))))"

text \<open>What \<open>spawn\<close> asks for: \<open>strategy\<close> is local by default.\<close>

definition place_for :: "cluster_view \<Rightarrow> spawn_options \<Rightarrow> counters \<Rightarrow> (js_error + string) \<times> counters" where
  "place_for c opts cs =
     selectNode c (case so_strategy opts of None \<Rightarrow> LocalPlacement | Some st \<Rightarrow> st) (so_role opts) cs"

text \<open>Several selections in a row, with the cluster as it is.\<close>

fun select_times :: "nat \<Rightarrow> cluster_view \<Rightarrow> string option \<Rightarrow> counters \<Rightarrow> (js_error + string) list \<times> counters" where
  "select_times 0 c role cs = ([], cs)"
| "select_times (Suc k) c role cs =
     (let (x, cs1) = selectNode c RoundRobin role cs; (xs, cs2) = select_times k c role cs1
      in (x # xs, cs2))"

section \<open>Round robin\<close>

definition candidates :: "cluster_view \<Rightarrow> string option \<Rightarrow> string list" where
  "candidates c role = (case role_members c role of Some ms \<Rightarrow> ms | None \<Rightarrow> cl_members c)"

lemma select_step:
  "candidates c role \<noteq> [] \<Longrightarrow> selectNode c RoundRobin role cs =
     (Inr (candidates c role ! (next_counter cs (counter_key role) mod length (candidates c role))),
      jput cs (counter_key role) (next_counter cs (counter_key role)))"
  by (simp add: selectNode_def candidates_def Let_def)

lemma next_counter_put [simp]: "next_counter (jput cs k n) k' = (if k' = k then Suc n else next_counter cs k')"
  by (simp add: next_counter_def)

lemma select_times_eq:
  assumes "candidates c role \<noteq> []"
  shows "fst (select_times k c role cs) = map (\<lambda>i. Inr (candidates c role ! (i mod length (candidates c role))))
     [next_counter cs (counter_key role) ..< next_counter cs (counter_key role) + k]"
proof (induction k arbitrary: cs)
  case (Suc k)
  let ?n = "next_counter cs (counter_key role)"
  have "[?n ..< ?n + Suc k] = ?n # [Suc ?n ..< Suc ?n + k]" by (simp add: upt_conv_Cons del: upt_Suc)
  then show ?case
    by (simp only:) (simp add: select_step [OF assms] Let_def split_beta Suc.IH del: upt_Suc)
qed simp

text \<open>A window of \<open>n\<close> consecutive counters meets every residue once.\<close>

lemma residue_window:
  assumes "0 < (n::nat)"
  shows "mset (map (\<lambda>i. i mod n) [a ..< a + n]) = mset [0 ..< n]"
proof (induction a)
  case 0
  have "map (\<lambda>i. i mod n) [0 ..< n] = [0 ..< n]" by (rule map_idI) simp
  then show ?case by simp
next
  case (Suc a)
  have "[a ..< a + n] = a # [Suc a ..< a + n]" using assms by (simp add: upt_conv_Cons)
  then have "mset (map (\<lambda>i. i mod n) [Suc a ..< Suc a + n]) = mset (map (\<lambda>i. i mod n) [a ..< a + n])"
    using assms by simp
  then show ?case using Suc.IH by simp
qed

lemma residue_windows:
  assumes "0 < (n::nat)"
  shows "mset (map (\<lambda>i. i mod n) [a ..< a + q * n]) = repeat_mset q (mset [0 ..< n])"
proof (induction q)
  case (Suc q)
  have "[a ..< a + Suc q * n] = [a ..< a + q * n] @ [a + q * n ..< (a + q * n) + n]"
    using upt_add_eq_append [of a "a + q * n" n] by (simp add: ac_simps)
  then show ?case using Suc.IH residue_window [OF assms, of "a + q * n"] by simp
qed simp

text \<open>
  Round robin is fair: over any \<open>q\<close> rounds of as many selections as there are candidates, each
  candidate is selected exactly \<open>q\<close> times, wherever the counter stood before.
\<close>

theorem round_robin_fair:
  assumes ne: "candidates c role \<noteq> []"
  shows "mset (fst (select_times (q * length (candidates c role)) c role cs))
     = repeat_mset q (mset (map Inr (candidates c role)))"
proof -
  let ?ms = "candidates c role" and ?n = "next_counter cs (counter_key role)"
  have "fst (select_times (q * length ?ms) c role cs)
      = map (\<lambda>j. Inr (?ms ! j)) (map (\<lambda>i. i mod length ?ms) [?n ..< ?n + q * length ?ms])"
    by (simp add: select_times_eq [OF ne])
  then have "mset (fst (select_times (q * length ?ms) c role cs))
      = image_mset (\<lambda>j. Inr (?ms ! j)) (repeat_mset q (mset [0 ..< length ?ms]))"
    using residue_windows [of "length ?ms" ?n q] ne by (simp only: mset_map) simp
  also have "\<dots> = repeat_mset q (mset (map (\<lambda>j. Inr (?ms ! j)) [0 ..< length ?ms]))"
    by (induction q) (simp_all del: mset_upt)
  also have "map (\<lambda>j. Inr (?ms ! j)) [0 ..< length ?ms] = map Inr ?ms"
    by (rule nth_equalityI) simp_all
  finally show ?thesis .
qed

theorem round_robin_fair_witness:
  "mset (fst (select_times 2 \<lparr>cl_nodeId = ''a'', cl_members = [''a'', ''b''], cl_byRole = None\<rparr> None []))
     = mset [Inr ''a'', Inr ''b'']"
  using round_robin_fair [of "\<lparr>cl_nodeId = ''a'', cl_members = [''a'', ''b''], cl_byRole = None\<rparr>" None 1 "[]"]
  by (simp add: candidates_def role_members_def truthy_name_def numeral_2_eq_2 del: select_times.simps)

text \<open>
  C30: A role is respected: a selection for a role goes to a node with the role, or fails with
  \<open>NoRoleMatchError\<close>, provided the cluster can tell roles at all. A cluster without
  \<open>getMembersByRole\<close> ignores the role.
\<close>

theorem placement_respects_role:
  assumes "truthy_name role = Some r"
  shows "case fst (selectNode c strategy role cs) of
      Inr node \<Rightarrow> (case cl_byRole c of Some f \<Rightarrow> node \<in> set (f r) | None \<Rightarrow> True)
    | Inl e \<Rightarrow> error_code e = Some ''NO_ROLE_MATCH''"
  using assms by (cases strategy)
    (auto simp: selectNode_def role_members_def Let_def split: option.splits)

theorem placement_respects_role_witness:
  "case fst (selectNode \<lparr>cl_nodeId = ''a'', cl_members = [''a''], cl_byRole = Some (\<lambda>r. if r = ''gpu'' then [''b''] else [])\<rparr>
       RoundRobin (Some ''gpu'') []) of Inr node \<Rightarrow> node \<in> set [''b''] | Inl e \<Rightarrow> error_code e = Some ''NO_ROLE_MATCH''"
  using placement_respects_role [of "Some ''gpu''" "''gpu''"
      "\<lparr>cl_nodeId = ''a'', cl_members = [''a''], cl_byRole = Some (\<lambda>r. if r = ''gpu'' then [''b''] else [])\<rparr>" RoundRobin "[]"]
  by (auto simp: truthy_name_def split: sum.splits)

end
