(* ===== verification/Agent.thy ===== *)
theory Agent
  imports Event_Loop
begin

text \<open>
  \<open>src/agent.ts\<close>: a value behind an actor. The messages of the event loop are texts here, so
  \<open>decode\<close> says which agent message one stands for, and \<open>shw\<close> which text a value; on one node the
  code passes the objects themselves. The functions callers send may throw. The value of an
  agent is what the messages it handled have made of its initial one; a restarted agent is a new
  instance and begins with the initial value again. The public class only spawns this actor and
  sends it messages.
\<close>

section \<open>The actor\<close>

datatype 't agent_message =
    Get
  | Update "'t \<Rightarrow> string + 't"
  | GetAndUpdate "'t \<Rightarrow> string + 't"

text \<open>\<open>handleCall\<close>: the error a function throws, or the answer and the new value.\<close>

fun agent_handleCall :: "'t agent_message \<Rightarrow> 't \<Rightarrow> string + 't \<times> 't" where
  "agent_handleCall Get x = Inr (x, x)"
| "agent_handleCall (Update f) x = (case f x of Inl e \<Rightarrow> Inl e | Inr y \<Rightarrow> Inr (y, y))"
| "agent_handleCall (GetAndUpdate f) x = (case f x of Inl e \<Rightarrow> Inl e | Inr y \<Rightarrow> Inr (x, y))"

fun agent_handleCast :: "'t agent_message \<Rightarrow> 't \<Rightarrow> string + 't" where
  "agent_handleCast (Update f) x = f x"
| "agent_handleCast m x = Inr x"

text \<open>The value after a message; a handler that throws has not assigned it.\<close>

definition agent_step :: "(string \<Rightarrow> 't agent_message) \<Rightarrow> string stashed_message \<Rightarrow> 't \<Rightarrow> 't" where
  "agent_step decode m x =
     (case sm_type m of
        CallMsg \<Rightarrow> (case agent_handleCall (decode (sm_message m)) x of Inl _ \<Rightarrow> x | Inr (_, y) \<Rightarrow> y)
      | CastMsg \<Rightarrow> (case agent_handleCast (decode (sm_message m)) x of Inl _ \<Rightarrow> x | Inr y \<Rightarrow> y))"

definition agent_value :: "(string \<Rightarrow> 't agent_message) \<Rightarrow> 't \<Rightarrow> string \<Rightarrow> log \<Rightarrow> 't" where
  "agent_value decode init i l = fold (\<lambda>(j, m) x. if j = i then agent_step decode m x else x) l init"

text \<open>The handler, in the event loop: the log ends with the message it is to handle.\<close>

definition agent_behaviour ::
  "(string \<Rightarrow> 't agent_message) \<Rightarrow> ('t \<Rightarrow> string) \<Rightarrow> 't \<Rightarrow> string \<Rightarrow> string stashed_message \<Rightarrow> log \<Rightarrow> outcome" where
  "agent_behaviour decode shw init i m l =
     (let x = agent_value decode init i (butlast l)
      in case sm_type m of
           CallMsg \<Rightarrow> (case agent_handleCall (decode (sm_message m)) x of Inl e \<Rightarrow> Throws e | Inr (v, _) \<Rightarrow> Returns (shw v))
         | CastMsg \<Rightarrow> (case agent_handleCast (decode (sm_message m)) x of Inl e \<Rightarrow> Throws e | Inr _ \<Rightarrow> Returns ''''))"

definition agent :: "(string \<Rightarrow> 't agent_message) \<Rightarrow> ('t \<Rightarrow> string) \<Rightarrow> 't \<Rightarrow> handler" where
  "agent decode shw init = immediate (agent_behaviour decode shw init)"

text \<open>The reference: a list of updates applied to a value, none of which throws.\<close>

fun cast_all :: "(string \<Rightarrow> 't agent_message) \<Rightarrow> string list \<Rightarrow> 't \<Rightarrow> 't option" where
  "cast_all decode [] x = Some x"
| "cast_all decode (m # ms) x =
     (case agent_handleCast (decode m) x of Inl _ \<Rightarrow> None | Inr y \<Rightarrow> cast_all decode ms y)"

lemma agent_value_append: "agent_value decode init i (l @ map (Pair i) ms) = fold (agent_step decode) ms (agent_value decode init i l)"
  by (induction ms arbitrary: l rule: rev_induct) (simp_all add: agent_value_def)

lemma cast_all_step: "cast_all decode ms x = Some y \<Longrightarrow> fold (agent_step decode) (map cast_message ms) x = y"
  by (induction ms arbitrary: x) (auto simp: agent_step_def cast_message_def split: sum.splits)

lemma cast_all_calm:
  "cast_all decode ms (agent_value decode init i l) = Some y \<Longrightarrow> calm (agent_behaviour decode shw init) i l (map cast_message ms)"
proof (induction ms arbitrary: l)
  case (Cons m ms)
  let ?x = "agent_value decode init i l" and ?m = "cast_message m"
  obtain z where z: "agent_handleCast (decode m) ?x = Inr z" "cast_all decode ms z = Some y"
    using Cons.prems by (auto split: sum.splits)
  have "agent_value decode init i (l @ [(i, ?m)]) = z"
    using agent_value_append [of decode init i l "[?m]"] z(1) by (simp add: agent_step_def cast_message_def)
  then have "calm (agent_behaviour decode shw init) i (l @ [(i, ?m)]) (map cast_message ms)"
    using Cons.IH z(2) by simp
  moreover have "agent_behaviour decode shw init i ?m (l @ [(i, ?m)]) = Returns ''''"
    using z(1) by (simp add: agent_behaviour_def cast_message_def)
  ultimately show ?case by simp
qed simp

section \<open>Messages on their way to an actor\<close>

text \<open>
  An actor that is working off its queue: its mailbox is unbounded, it has stashed nothing, no
  handler of it is running, and it has a callback exactly if messages wait.
\<close>

definition open_queue :: "string \<Rightarrow> sched \<Rightarrow> string stashed_message list \<Rightarrow> bool" where
  "open_queue i S xs \<longleftrightarrow> queue_of i S xs \<and> (\<forall>mb. jget (mailboxes (sc_sys S)) i = Some mb \<longrightarrow> mb_maxSize mb = None) \<and>
     unstashed i S \<and> i \<notin> set (processingActors (sc_sys S)) \<and> \<not> isShuttingDown (sc_sys S) \<and>
     sc_ticks S = (if xs = [] then [] else [i]) \<and> (i \<in> set (mailboxScheduled (sc_sys S)) \<longleftrightarrow> xs \<noteq> [])"

lemma open_enqueue:
  assumes "open_queue i S xs"
  obtains mb mb' where "jget (mailboxes (sc_sys S)) i = Some mb" "enqueue mb m = (mb', Inr True, [])"
    "open_queue i (on_sys (scheduleProcessMailbox i) (S\<lparr>sc_sys := set_mailbox i mb' (sc_sys S)\<rparr>)) (xs @ [m])"
proof -
  obtain mb where mb: "jget (mailboxes (sc_sys S)) i = Some mb" "mb_rep mb xs" "mb_maxSize mb = None"
    using assms by (auto simp: open_queue_def queue_of_def)
  have "\<not> isFull mb" using mb(3) by (simp add: isFull_def)
  note e = enqueue_room [OF mb(2) this, of m]
  obtain mb' where mb': "enqueue mb m = (mb', Inr True, [])" "mb_rep mb' (xs @ [m])" "mb_maxSize mb' = None"
    using e enqueue_config(1) [of mb m] mb(3) by (metis fst_conv prod.collapse)
  have "open_queue i (on_sys (scheduleProcessMailbox i) (S\<lparr>sc_sys := set_mailbox i mb' (sc_sys S)\<rparr>)) (xs @ [m])"
    using assms mb'
    by (auto simp: open_queue_def queue_of_def on_sys_def Let_def scheduleProcessMailbox_def set_mailbox_def unstashed_def)
  with mb(1) mb'(1) show ?thesis by (rule that)
qed

text \<open>A local reference without a name.\<close>

definition local_ref :: "actor_ref \<Rightarrow> string \<Rightarrow> sched \<Rightarrow> bool" where
  "local_ref r i S \<longleftrightarrow> ref_id r = i \<and> ref_node r = sys_id (sc_sys S) \<and> ref_node r \<noteq> '''' \<and> ref_name r = None"

lemma local_ref_on_sys: "sys_id s = sys_id (sc_sys S) \<Longrightarrow> local_ref r i (S\<lparr>sc_sys := s\<rparr>) = local_ref r i S"
  by (simp add: local_ref_def)

lemma open_cast:
  assumes "open_queue i S xs" and "local_ref r i S"
  shows "open_queue i (dispatchCast lookup r msg S) (xs @ [cast_message msg])" and "local_ref r i (dispatchCast lookup r msg S)"
    and "sc_started (dispatchCast lookup r msg S) = sc_started S" and "sc_settled (dispatchCast lookup r msg S) = sc_settled S"
proof -
  obtain mb mb' where e: "jget (mailboxes (sc_sys S)) i = Some mb" "enqueue mb (cast_message msg) = (mb', Inr True, [])"
    "open_queue i (on_sys (scheduleProcessMailbox i) (S\<lparr>sc_sys := set_mailbox i mb' (sc_sys S)\<rparr>)) (xs @ [cast_message msg])"
    by (rule open_enqueue [OF assms(1)])
  have d: "dispatchCast lookup r msg S = on_sys (scheduleProcessMailbox i) (S\<lparr>sc_sys := set_mailbox i mb' (sc_sys S)\<rparr>)"
    using assms e(1,2) by (simp add: dispatchCast_def truthy_name_def enqueue_cast_def reject_all_def open_queue_def queue_of_def local_ref_def)
  then show "open_queue i (dispatchCast lookup r msg S) (xs @ [cast_message msg])" using e(3) by simp
  show "local_ref r i (dispatchCast lookup r msg S)" "sc_started (dispatchCast lookup r msg S) = sc_started S"
    "sc_settled (dispatchCast lookup r msg S) = sc_settled S"
    using assms(2) by (auto simp: d on_sys_def Let_def local_ref_def set_mailbox_def scheduleProcessMailbox_def)
qed

lemma open_casts:
  assumes "open_queue i S xs" and "local_ref r i S"
  shows "open_queue i (fold (dispatchCast lookup r) ms S) (xs @ map cast_message ms) \<and>
    local_ref r i (fold (dispatchCast lookup r) ms S) \<and> sc_started (fold (dispatchCast lookup r) ms S) = sc_started S \<and>
    sc_settled (fold (dispatchCast lookup r) ms S) = sc_settled S"
  using assms
proof (induction ms arbitrary: S xs)
  case (Cons m ms)
  note C = open_cast [OF Cons.prems, of lookup m]
  from Cons.IH [OF C(1,2)] show ?case by (simp add: C(3,4))
qed simp

definition call_message :: "nat \<Rightarrow> string \<Rightarrow> string stashed_message" where
  "call_message n msg = \<lparr>sm_type = CallMsg, sm_message = msg, sm_reply = Some n\<rparr>"

text \<open>A call to an actor with messages waiting is queued behind them.\<close>

lemma open_call:
  assumes "open_queue i S xs" and "local_ref r i S" and "xs \<noteq> []"
  shows "open_queue i (dispatchCall h se lookup n r msg S) (xs @ [call_message n msg])"
    and "sc_started (dispatchCall h se lookup n r msg S) = sc_started S"
    and "sc_settled (dispatchCall h se lookup n r msg S) = sc_settled S"
proof -
  obtain mb mb' where e: "jget (mailboxes (sc_sys S)) i = Some mb" "enqueue mb (call_message n msg) = (mb', Inr True, [])"
    "open_queue i (on_sys (scheduleProcessMailbox i) (S\<lparr>sc_sys := set_mailbox i mb' (sc_sys S)\<rparr>)) (xs @ [call_message n msg])"
    by (rule open_enqueue [OF assms(1)])
  have "pending_count i (sc_sys S) \<noteq> 0"
    using assms(1,3) by (auto simp: open_queue_def queue_of_def pending_count_def mb_rep_size)
  then have d: "dispatchCall h se lookup n r msg S = on_sys (scheduleProcessMailbox i) (S\<lparr>sc_sys := set_mailbox i mb' (sc_sys S)\<rparr>)"
    using assms(1,2) e(1,2)
    by (auto simp: dispatchCall_def target_node_def Let_def truthy_name_def enqueue_call_def call_message_def reject_all_def
        open_queue_def queue_of_def local_ref_def)
  then show "open_queue i (dispatchCall h se lookup n r msg S) (xs @ [call_message n msg])" using e(3) by simp
  show "sc_started (dispatchCall h se lookup n r msg S) = sc_started S"
    "sc_settled (dispatchCall h se lookup n r msg S) = sc_settled S"
    by (simp_all add: d on_sys_def Let_def)
qed

section \<open>An agent applies updates in order\<close>

text \<open>The synchronous path: nothing is waiting, so the call is answered at once.\<close>

lemma idle_call:
  fixes se :: sup_env and lookup :: "string \<Rightarrow> string option"
  assumes "open_queue i S []" and "local_ref r i S" and "\<not> jhas (sc_settled S) n"
    and f: "f i \<lparr>sm_type = CallMsg, sm_message = msg, sm_reply = None\<rparr>
      (sc_started S @ [(i, \<lparr>sm_type = CallMsg, sm_message = msg, sm_reply = None\<rparr>)]) = Returns v"
  defines "S' \<equiv> dispatchCall (immediate f) se lookup n r msg S"
  shows "jget (sc_settled S') n = Some (Resolved v)" and "sc_ticks S' = []" and "queue_of i S' []"
    and "sc_started S' = sc_started S @ [(i, \<lparr>sm_type = CallMsg, sm_message = msg, sm_reply = None\<rparr>)]"
proof -
  obtain mb where mb: "jget (mailboxes (sc_sys S)) i = Some mb" "mb_rep mb []" "mb_size mb = 0"
    using assms(1) by (auto simp: open_queue_def queue_of_def mb_rep_size)
  obtain act where act: "getActor (sc_sys S) i = Some act" "a_stash act = []"
    using assms(1) by (auto simp: open_queue_def queue_of_def jhas_def unstashed_def)
  let ?m = "\<lparr>sm_type = CallMsg, sm_message = msg, sm_reply = None\<rparr>"
  have "S' = syncLocalCall (immediate f) se n i msg S"
    using assms(1,2) mb unfolding S'_def
    by (auto simp: dispatchCall_def target_node_def Let_def truthy_name_def open_queue_def queue_of_def local_ref_def
        pending_count_def jhas_def)
  moreover obtain s where s: "lock_scheduled i (begin_processing i (resetIdleTimeout (env_now (se_env se)) i (set_current i (Some ?m) (sc_sys S)))) = s"
    "mailboxes s = mailboxes (sc_sys S)" "pausedMailboxes s = pausedMailboxes (sc_sys S)" "\<not> stashed i ?m s" "alive s i"
    using act by (auto simp: lock_scheduled_def begin_processing_def resetIdleTimeout_def set_current_def stashed_def jhas_def)
  moreover have "run_handler (immediate f) i ?m (S\<lparr>sc_sys := s\<rparr>) = (Returns v, S\<lparr>sc_sys := s, sc_started := sc_started S @ [(i, ?m)]\<rparr>)"
    using f by (simp add: run_handler_def immediate_def)
  ultimately have "S' = sync_call_finish i (a_current act)
      (settle n (Resolved v) (S\<lparr>sc_sys := s, sc_started := sc_started S @ [(i, ?m)]\<rparr>))"
    using act by (simp add: syncLocalCall_def Let_def sync_call_result_def)
  moreover have "pending_count i (end_processing i (set_current i (a_current act) s)) = 0"
    using mb s(2) by (simp add: pending_count_def end_processing_def set_current_def)
  ultimately have S': "S' = S\<lparr>sc_sys := unschedule i (end_processing i (set_current i (a_current act) s)),
      sc_started := sc_started S @ [(i, ?m)], sc_settled := jput (sc_settled S) n (Resolved v)\<rparr>"
    using assms(3) by (simp add: sync_call_finish_def Let_def settle_def)
  show "jget (sc_settled S') n = Some (Resolved v)" "sc_started S' = sc_started S @ [(i, ?m)]" by (simp_all add: S')
  show "sc_ticks S' = []" using assms(1) by (simp add: S' open_queue_def)
  show "queue_of i S' []"
    using assms(1) s(2,3,5) mb(1,2)
    by (simp add: S' open_queue_def queue_of_def unschedule_def end_processing_def set_current_def)
qed

lemma run_empty: "queue_of i S [] \<Longrightarrow> sc_ticks S = [] \<Longrightarrow> run_ticks h se k S = S"
  by (rule run_ticks_idle)

lemma answers_casts: "answers f i l (map cast_message ms) = []"
  by (induction ms arbitrary: l) (simp_all add: cast_message_def)

lemma agent_serves:
  fixes se :: sup_env and lookup :: "string \<Rightarrow> string option" and shw :: "'t \<Rightarrow> string"
  assumes "open_queue i S []" and "local_ref r i S" and "\<not> jhas (sc_settled S) n"
    and casts: "cast_all decode ms (agent_value decode init i (sc_started S)) = Some x"
    and call: "agent_handleCall (decode g) x = Inr (v, y)" and "length ms < 64 * k"
  defines "S' \<equiv> run_ticks (agent decode shw init) se k
    (dispatchCall (agent decode shw init) se lookup n r g (fold (dispatchCast lookup r) ms S))"
  shows "jget (sc_settled S') n = Some (Resolved (shw v)) \<and> agent_value decode init i (sc_started S') = y \<and>
    queue_of i S' [] \<and> sc_ticks S' = []"
proof -
  let ?f = "agent_behaviour decode shw init" and ?l = "sc_started S"
  let ?S1 = "fold (dispatchCast lookup r) ms S"
  let ?S2 = "dispatchCall (immediate ?f) se lookup n r g ?S1"
  have C: "open_queue i ?S1 (map cast_message ms)" "local_ref r i ?S1" "sc_started ?S1 = ?l" "sc_settled ?S1 = sc_settled S"
    using open_casts [OF assms(1,2), of lookup ms] by simp_all
  have after: "agent_value decode init i (?l @ map (Pair i) (map cast_message ms)) = x"
    unfolding agent_value_append by (rule cast_all_step [OF casts])
  have ret: "?f i m (?l @ map (Pair i) (map cast_message ms) @ [(i, m)]) = Returns (shw v)"
    "agent_value decode init i (?l @ map (Pair i) (map cast_message ms) @ [(i, m)]) = y"
    if "sm_type m = CallMsg" "sm_message m = g" for m
    using that after call agent_value_append [of decode init i "?l @ map (Pair i) (map cast_message ms)" "[m]"]
    by (simp_all add: agent_behaviour_def agent_step_def butlast_append)
  show ?thesis
  proof (cases "ms = []")
    case True
    let ?m = "\<lparr>sm_type = CallMsg, sm_message = g, sm_reply = None :: nat option\<rparr>"
    have r: "?f i ?m (sc_started S @ [(i, ?m)]) = Returns (shw v)" "agent_value decode init i (sc_started S @ [(i, ?m)]) = y"
      using ret [of ?m] True by simp_all
    note I = idle_call [where f = ?f and msg = g and v = "shw v" and se = se and lookup = lookup, OF assms(1-3) r(1)] r(2)
    have "S' = dispatchCall (immediate ?f) se lookup n r g S"
      using run_ticks_idle [OF I(2)] True by (simp add: S'_def agent_def)
    then show ?thesis using I by simp
  next
    case False
    let ?xs = "map cast_message ms @ [call_message n g]"
    have Q: "open_queue i ?S2 ?xs" "sc_started ?S2 = ?l" "sc_settled ?S2 = sc_settled S"
      using open_call [OF C(1,2), of "immediate ?f" se lookup n g] False C(3,4) by auto
    have r: "?f i (call_message n g) (?l @ map (Pair i) (map cast_message ms) @ [(i, call_message n g)]) = Returns (shw v)"
      "agent_value decode init i (?l @ map (Pair i) (map cast_message ms) @ [(i, call_message n g)]) = y"
      using ret [of "call_message n g"] by (simp_all add: call_message_def)
    have calm: "calm ?f i (sc_started ?S2) ?xs"
      unfolding calm_append Q(2) using cast_all_calm [OF casts, of shw] r(1) by simp
    have ans: "answers ?f i (sc_started ?S2) ?xs = [(n, Resolved (shw v))]"
      unfolding answers_append answers_casts Q(2) using r(1) by (simp add: call_message_def)
    have k: "length ?xs \<le> 64 * k" "0 < k" using assms(6) by (cases k; simp)+
    have q: "queue_of i ?S2 ?xs" "sc_ticks ?S2 = [i]" "unstashed i (?S2\<lparr>sc_ticks := []\<rparr>)"
      using Q(1) by (simp_all add: open_queue_def unstashed_def)
    have S': "S' = run_ticks (immediate ?f) se k ?S2" by (simp add: S'_def agent_def)
    note W = queue_worked_off_core [OF q(1) calm q(2) k, of se, folded S', unfolded batch_done_def]
    have "sc_settled S' = settle_list [(n, Resolved (shw v))] (sc_settled S)" "sc_started S' = ?l @ map (Pair i) ?xs"
      using W q(3) ans Q(2,3) by simp_all
    then show ?thesis using W assms(3) r(2) by simp
  qed
qed

lemma cast_all_updates: "map decode ms = map (\<lambda>f. Update (\<lambda>z. Inr (f z))) fs \<Longrightarrow> cast_all decode ms x = Some (fold (\<lambda>f. f) fs x)"
proof (induction fs arbitrary: ms x)
  case (Cons f fs)
  then show ?case by (cases ms) simp_all
qed simp

text \<open>
  C20: A call to an agent sees all casts made before it, in order, and answers what its kind says.
  Let the casts \<open>ms\<close> send the functions \<open>fs\<close>, none of which throws, and let \<open>x\<close> be what they make of
  the agent's value, one after the other. Then after enough callbacks (one per 64 messages) a
  \<open>get\<close> is answered \<open>x\<close> and the value is \<open>x\<close>; an \<open>update\<close> with \<open>h\<close> is answered the new value \<open>h x\<close>
  and leaves it; a \<open>getAndUpdate\<close> with \<open>h\<close> is answered the old value \<open>x\<close> and leaves \<open>h x\<close>. Nothing is
  waiting then. The agent is idle at the start, on the caller's node, its mailbox is unbounded and
  no other actor has a callback pending.
\<close>

theorem agent_applies_in_order:
  fixes se :: sup_env and lookup :: "string \<Rightarrow> string option" and shw :: "'t \<Rightarrow> string"
  assumes "open_queue i S []" and "local_ref r i S" and "\<not> jhas (sc_settled S) n"
    and "map decode ms = map (\<lambda>f. Update (\<lambda>z. Inr (f z))) fs" and "length ms < 64 * k"
    and "x = fold (\<lambda>f. f) fs (agent_value decode init i (sc_started S))"
    and "decode g = Get \<and> v = x \<and> y = x \<or> decode g = Update (\<lambda>z. Inr (h z)) \<and> v = h x \<and> y = h x
       \<or> decode g = GetAndUpdate (\<lambda>z. Inr (h z)) \<and> v = x \<and> y = h x"
  defines "S' \<equiv> run_ticks (agent decode shw init) se k
    (dispatchCall (agent decode shw init) se lookup n r g (fold (dispatchCast lookup r) ms S))"
  shows "jget (sc_settled S') n = Some (Resolved (shw v)) \<and> agent_value decode init i (sc_started S') = y \<and>
    queue_of i S' [] \<and> sc_ticks S' = []"
proof -
  have call: "agent_handleCall (decode g) x = Inr (v, y)" using assms(7) by auto
  have casts: "cast_all decode ms (agent_value decode init i (sc_started S)) = Some x"
    unfolding assms(6) by (rule cast_all_updates [OF assms(4)])
  show ?thesis unfolding S'_def by (rule agent_serves [OF assms(1-3) casts call assms(5)])
qed

text \<open>An agent that counts, on the node \<open>demo_idle\<close> after its first callback.\<close>

definition demo_agent :: sched where
  "demo_agent = demo_idle\<lparr>sc_ticks := [], sc_sys := unschedule ''j'' (sc_sys demo_idle)\<rparr>"

definition count_message :: "string \<Rightarrow> nat agent_message" where
  "count_message m = (if m = ''+'' then Update (\<lambda>x. Inr (Suc x)) else if m = ''*'' then GetAndUpdate (\<lambda>x. Inr (10 * x)) else Get)"

lemma demo_agent_open: "open_queue ''j'' demo_agent []" "local_ref (demo_id ''n'' ''j'') ''j'' demo_agent"
  "sc_settled demo_agent = []" "sc_started demo_agent = []"
proof -
  have "queue_of ''j'' demo_agent []"
    using demo_idle_fields(1) by (simp add: queue_of_def demo_agent_def unschedule_def)
  then show "open_queue ''j'' demo_agent []"
    by (simp add: open_queue_def)
      (simp add: demo_agent_def demo_idle_def demo_run unstashed_def unschedule_def sdel_def new_mailbox_def
        merge_mailbox_config_def DEFAULT_MAILBOX_CONFIG_def)
qed (simp_all add: demo_agent_def demo_idle_def demo_run unschedule_def local_ref_def)

theorem agent_applies_in_order_witness:
  "jget (sc_settled (run_ticks (agent count_message (\<lambda>n. replicate n CHR ''x'') 0) demo_sup 1
     (dispatchCall (agent count_message (\<lambda>n. replicate n CHR ''x'') 0) demo_sup (\<lambda>_. None) 0 (demo_id ''n'' ''j'') ''*''
       (fold (dispatchCast (\<lambda>_. None) (demo_id ''n'' ''j'')) [''+'', ''+''] demo_agent)))) 0 = Some (Resolved ''xx'')"
proof -
  have c: "map count_message [''+'', ''+''] = map (\<lambda>f. Update (\<lambda>z. Inr (f z))) [Suc, Suc]" by (simp add: count_message_def)
  have x: "2 = fold (\<lambda>f. f) [Suc, Suc] (agent_value count_message 0 ''j'' (sc_started demo_agent))"
    by (simp add: demo_agent_open(4) agent_value_def)
  have g: "count_message ''*'' = Get \<and> 2 = (2::nat) \<and> 20 = (2::nat) \<or> count_message ''*'' = Update (\<lambda>z. Inr (10 * z)) \<and> 2 = 10 * (2::nat) \<and> 20 = 10 * (2::nat)
      \<or> count_message ''*'' = GetAndUpdate (\<lambda>z. Inr (10 * z)) \<and> 2 = (2::nat) \<and> 20 = 10 * (2::nat)" by (simp add: count_message_def)
  have n: "\<not> jhas (sc_settled demo_agent) 0" "length [''+'', ''+''] < 64 * 1" by (simp_all add: demo_agent_open(3) jhas_def)
  have "replicate 2 CHR ''x'' = ''xx''" by (simp add: numeral_2_eq_2)
  with agent_applies_in_order [OF demo_agent_open(1,2) n(1) c n(2) x g, where shw = "\<lambda>n. replicate n CHR ''x''"] show ?thesis by simp
qed

end
