(* ===== verification/Functional_Actor.thy ===== *)
theory Functional_Actor
  imports System_Ops
begin

text \<open>
  \<open>src/create_actor.ts\<close>: actors written as a function. The factory is user code that calls the
  methods of a builder; here it is the list of those calls. A handler is an element of some type
  \<open>'h\<close>, and dispatching a message says which handler is invoked with which arguments. The timer
  methods of the builder and the functions of the context are those of \<open>Actor_Api\<close>, except \<open>exit\<close>.
\<close>

section \<open>The builder\<close>

record 'h handler_registry =
  fr_calls :: "(string, 'h) jsmap"
  fr_casts :: "(string, 'h) jsmap"
  fr_infos :: "(string, 'h) jsmap"
  fr_terminate :: "'h list"
  fr_continue :: "'h option"
  fr_migratable :: "('h \<times> 'h) option"
  fr_supervision :: "child_supervision option"

definition new_registry :: "'h handler_registry" where
  "new_registry = \<lparr>fr_calls = [], fr_casts = [], fr_infos = [], fr_terminate = [], fr_continue = None,
     fr_migratable = None, fr_supervision = None\<rparr>"

definition onCall :: "string \<Rightarrow> 'h \<Rightarrow> 'h handler_registry \<Rightarrow> 'h handler_registry" where
  "onCall name h reg = reg\<lparr>fr_calls := jput (fr_calls reg) name h\<rparr>"

definition onCast :: "string \<Rightarrow> 'h \<Rightarrow> 'h handler_registry \<Rightarrow> 'h handler_registry" where
  "onCast name h reg = reg\<lparr>fr_casts := jput (fr_casts reg) name h\<rparr>"

definition onInfo :: "string \<Rightarrow> 'h \<Rightarrow> 'h handler_registry \<Rightarrow> 'h handler_registry" where
  "onInfo type h reg = reg\<lparr>fr_infos := jput (fr_infos reg) type h\<rparr>"

definition onTerminate :: "'h \<Rightarrow> 'h handler_registry \<Rightarrow> 'h handler_registry" where
  "onTerminate h reg = reg\<lparr>fr_terminate := fr_terminate reg @ [h]\<rparr>"

definition onContinue :: "'h \<Rightarrow> 'h handler_registry \<Rightarrow> 'h handler_registry" where
  "onContinue h reg = reg\<lparr>fr_continue := Some h\<rparr>"

definition migratable :: "'h \<Rightarrow> 'h \<Rightarrow> 'h handler_registry \<Rightarrow> 'h handler_registry" where
  "migratable getState setState reg = reg\<lparr>fr_migratable := Some (getState, setState)\<rparr>"

definition childSupervision :: "child_supervision \<Rightarrow> 'h handler_registry \<Rightarrow> 'h handler_registry" where
  "childSupervision opts reg = reg\<lparr>fr_supervision := Some opts\<rparr>"

datatype 'h build_op =
    OnCall string 'h | OnCast string 'h | OnInfo string 'h | OnTerminate 'h | OnContinue 'h
  | OnMigrate 'h 'h | OnSupervise child_supervision

fun build_step :: "'h build_op \<Rightarrow> 'h handler_registry \<Rightarrow> 'h handler_registry" where
  "build_step (OnCall n h) reg = onCall n h reg"
| "build_step (OnCast n h) reg = onCast n h reg"
| "build_step (OnInfo n h) reg = onInfo n h reg"
| "build_step (OnTerminate h) reg = onTerminate h reg"
| "build_step (OnContinue h) reg = onContinue h reg"
| "build_step (OnMigrate g s) reg = migratable g s reg"
| "build_step (OnSupervise opts) reg = childSupervision opts reg"

text \<open>What \<open>init\<close> leaves in \<open>handlers\<close>.\<close>

definition fa_init :: "'h build_op list \<Rightarrow> 'h handler_registry" where
  "fa_init factory = fold build_step factory new_registry"

section \<open>The actor\<close>

definition fa_handleCall :: "'h handler_registry \<Rightarrow> string \<Rightarrow> string list \<Rightarrow> js_error + 'h \<times> string list" where
  "fa_handleCall reg method args =
     (case jget (fr_calls reg) method of
        None \<Rightarrow> Inl (PlainError (''Unknown call method: '' @ method))
      | Some h \<Rightarrow> Inr (h, args))"

definition fa_handleCast :: "'h handler_registry \<Rightarrow> string \<Rightarrow> string list \<Rightarrow> ('h \<times> string list) option" where
  "fa_handleCast reg method args = map_option (\<lambda>h. (h, args)) (jget (fr_casts reg) method)"

text \<open>\<open>type\<close> is \<open>None\<close> when the message has no \<open>type\<close> that is a string.\<close>

definition fa_handleInfo :: "'h handler_registry \<Rightarrow> string option \<Rightarrow> 'h option" where
  "fa_handleInfo reg type = (case type of None \<Rightarrow> None | Some t \<Rightarrow> jget (fr_infos reg) t)"

definition fa_handleContinue :: "'h handler_registry \<Rightarrow> 'h option" where
  "fa_handleContinue reg = fr_continue reg"

definition fa_childSupervision :: "'h handler_registry \<Rightarrow> child_supervision" where
  "fa_childSupervision reg = (case fr_supervision reg of None \<Rightarrow> DEFAULT_CHILD_SUPERVISION | Some opts \<Rightarrow> opts)"

text \<open>
  \<open>terminate\<close> awaits the handlers one after the other; the first that throws or rejects (\<open>ok\<close> is
  false) ends it. The result is the handlers invoked and whether it resolves.
\<close>

fun run_terminate :: "('h \<Rightarrow> bool) \<Rightarrow> 'h list \<Rightarrow> 'h list \<times> bool" where
  "run_terminate ok [] = ([], True)"
| "run_terminate ok (h # hs) =
     (if ok h then (case run_terminate ok hs of (called, b) \<Rightarrow> (h # called, b)) else ([h], False))"

definition fa_terminate :: "('h \<Rightarrow> bool) \<Rightarrow> 'h handler_registry \<Rightarrow> 'h list \<times> bool" where
  "fa_terminate ok reg = run_terminate ok (fr_terminate reg)"

text \<open>\<open>exit\<close> of the context: a normal or missing reason, and \<open>kill\<close>, stop the actor.\<close>

definition ctx_exit :: "sup_env \<Rightarrow> actor_ref \<Rightarrow> string option \<Rightarrow> sys \<Rightarrow> sys" where
  "ctx_exit se self reason s =
     (case truthy_name reason of
        None \<Rightarrow> stop (se_env se) self s
      | Some x \<Rightarrow>
          if x = ''normal'' \<or> x = ''kill'' then stop (se_env se) self s
          else sendExit (handleCrash se) (stop (se_env se)) self self x s)"

text \<open>
  The class \<open>createActor\<close> returns, as the actor system sees an instance after \<open>init\<close>: every such
  class is declared under the same name.
\<close>

definition createActor :: "'h build_op list \<Rightarrow> actor_class" where
  "createActor factory =
     (let reg = fa_init factory
      in \<lparr>ac_name = ''FunctionalActor'', ac_supervision = fa_childSupervision reg,
          ac_getState = (fr_migratable reg \<noteq> None), ac_setState = (fr_migratable reg \<noteq> None)\<rparr>)"

section \<open>What a factory means\<close>

text \<open>The reference: the last registration for a name counts.\<close>

definition last_some :: "('a \<Rightarrow> 'b option) \<Rightarrow> 'a list \<Rightarrow> 'b option" where
  "last_some f xs = fold (\<lambda>x r. case f x of None \<Rightarrow> r | Some y \<Rightarrow> Some y) xs None"

lemma last_some_snoc [simp]:
  "last_some f [] = None" "last_some f (xs @ [x]) = (case f x of None \<Rightarrow> last_some f xs | Some y \<Rightarrow> Some y)"
  by (simp_all add: last_some_def split: option.split)

fun call_for :: "string \<Rightarrow> 'h build_op \<Rightarrow> 'h option" where
  "call_for m (OnCall n h) = (if n = m then Some h else None)" | "call_for m _ = None"

fun cast_for :: "string \<Rightarrow> 'h build_op \<Rightarrow> 'h option" where
  "cast_for m (OnCast n h) = (if n = m then Some h else None)" | "cast_for m _ = None"

fun info_for :: "string \<Rightarrow> 'h build_op \<Rightarrow> 'h option" where
  "info_for m (OnInfo n h) = (if n = m then Some h else None)" | "info_for m _ = None"

fun terminator :: "'h build_op \<Rightarrow> 'h list" where
  "terminator (OnTerminate h) = [h]" | "terminator _ = []"

lemma fa_init_snoc: "fa_init (fs @ [op]) = build_step op (fa_init fs)"
  by (simp add: fa_init_def)

lemmas build_defs = onCall_def onCast_def onInfo_def onTerminate_def onContinue_def migratable_def childSupervision_def

lemma fa_init_maps:
  "jget (fr_calls (fa_init fs)) m = last_some (call_for m) fs" "jget (fr_casts (fa_init fs)) m = last_some (cast_for m) fs"
  "jget (fr_infos (fa_init fs)) m = last_some (info_for m) fs" "fr_terminate (fa_init fs) = concat (map terminator fs)"
proof (induction fs rule: rev_induct)
  case (snoc op fs)
  {
    case 1 then show ?case using snoc by (cases op) (simp_all add: fa_init_snoc build_defs)
  next
    case 2 then show ?case using snoc by (cases op) (simp_all add: fa_init_snoc build_defs)
  next
    case 3 then show ?case using snoc by (cases op) (simp_all add: fa_init_snoc build_defs)
  next
    case 4 then show ?case using snoc by (cases op) (simp_all add: fa_init_snoc build_defs)
  }
qed (simp_all add: fa_init_def new_registry_def)

lemma run_terminate_takes: "run_terminate ok hs = (case dropWhile ok hs of [] \<Rightarrow> (hs, True) | h # _ \<Rightarrow> (takeWhile ok hs @ [h], False))"
proof (induction hs)
  case (Cons a hs)
  show ?case
  proof (cases "dropWhile ok hs")
    case Nil
    with Cons have "run_terminate ok hs = (hs, True)" by (simp only: list.case)
    then show ?thesis by (simp only: run_terminate.simps dropWhile.simps takeWhile.simps Nil) simp
  next
    case (Cons h t)
    with Cons.IH have "run_terminate ok hs = (takeWhile ok hs @ [h], False)" by (simp only: list.case)
    then show ?thesis by (simp only: run_terminate.simps dropWhile.simps takeWhile.simps Cons) simp
  qed
qed simp

text \<open>
  A functional actor dispatches as its factory says, in whatever order it registered things: a
  call or a cast goes with its arguments to the handler registered last for its method, a call
  without one throws and a cast without one is dropped, information goes by its type, and
  termination runs all its handlers in the order they were registered, up to the first that fails.
\<close>

theorem functional_dispatch:
  "fa_handleCall (fa_init fs) method args =
     (case last_some (call_for method) fs of None \<Rightarrow> Inl (PlainError (''Unknown call method: '' @ method)) | Some h \<Rightarrow> Inr (h, args))
   \<and> fa_handleCast (fa_init fs) method args = map_option (\<lambda>h. (h, args)) (last_some (cast_for method) fs)
   \<and> fa_handleInfo (fa_init fs) (Some method) = last_some (info_for method) fs
   \<and> fa_terminate ok (fa_init fs) =
      (let hs = concat (map terminator fs)
       in case dropWhile ok hs of [] \<Rightarrow> (hs, True) | h # _ \<Rightarrow> (takeWhile ok hs @ [h], False))"
  by (simp add: fa_handleCall_def fa_handleCast_def fa_handleInfo_def fa_terminate_def fa_init_maps run_terminate_takes Let_def)

section \<open>Functional classes and other nodes\<close>

text \<open>
  Functional actors cannot be told apart by name. A node that registers two definitions, as
  \<open>System.register\<close> does, keeps only the second: a request of another node to spawn the first, by
  the name of its class, spawns the second, whatever the two definitions are.
\<close>

theorem functional_classes_collide:
  assumes "\<not> isShuttingDown s" and "\<not> isDraining s" and "place = Inr (sys_id s)"
    and "classes = registerActorClasses [createActor f, createActor g] []"
  shows "\<exists>r s'. handleSpawnRpc env place (\<lambda>n. getActorClass n classes) (ac_name (createActor f)) ref opts s = Inr (r, s')
     \<and> map_option a_class (getActor s' (ref_id r)) = Some (createActor g)"
  using assms
  by (auto simp: handleSpawnRpc_def getActorClass_def registerActorClasses_def registerActorClass_def createActor_def Let_def
      truthy_name_def spawn_def scheduleProcessMailbox_def register_name_def add_actor_def new_actor_def split: option.split)

theorem functional_classes_collide_witness:
  "\<exists>r s'. handleSpawnRpc (demo_env CHR ''i'') (Inr ''n'')
      (\<lambda>n. getActorClass n (registerActorClasses [createActor [OnCall ''get'' (0::nat)], createActor [OnMigrate (1::nat) 2]] []))
      ''FunctionalActor'' (demo_id ''m'' ''r'') no_options (new_system ''n'' None None) = Inr (r, s')
     \<and> map_option isMigratable (map_option a_class (getActor s' (ref_id r))) = Some True
     \<and> \<not> isMigratable (createActor [OnCall ''get'' (0::nat)])"
proof -
  have n: "\<not> isShuttingDown (new_system ''n'' None None)" "\<not> isDraining (new_system ''n'' None None)"
    "Inr ''n'' = Inr (sys_id (new_system ''n'' None None))"
    by (simp_all add: new_system_def)
  obtain r s' where c: "handleSpawnRpc (demo_env CHR ''i'') (Inr ''n'')
      (\<lambda>n. getActorClass n (registerActorClasses [createActor [OnCall ''get'' (0::nat)], createActor [OnMigrate (1::nat) 2]] []))
      (ac_name (createActor [OnCall ''get'' (0::nat)])) (demo_id ''m'' ''r'') no_options (new_system ''n'' None None) = Inr (r, s')"
    "map_option a_class (getActor s' (ref_id r)) = Some (createActor [OnMigrate 1 2 :: nat build_op])"
    using functional_classes_collide [OF n refl, where f = "[OnCall ''get'' (0::nat)]" and g = "[OnMigrate (1::nat) 2]"
        and env = "demo_env CHR ''i''" and ref = "demo_id ''m'' ''r''" and opts = no_options] by blast
  have "ac_name (createActor fs) = ''FunctionalActor''" for fs :: "nat build_op list" by (simp add: createActor_def Let_def)
  moreover have "isMigratable (createActor [OnMigrate 1 2 :: nat build_op])" "\<not> isMigratable (createActor [OnCall ''get'' (0::nat)])"
    by (simp_all add: createActor_def Let_def isMigratable_def fa_init_def build_defs new_registry_def)
  ultimately show ?thesis using c by (intro exI [of _ r] exI [of _ s']) auto
qed

end
