(* ===== verification/Telemetry.thy ===== *)
theory Telemetry
  imports Errors
begin

text \<open>
  \<open>src/telemetry.ts\<close>: handlers attached to events. Two maps: the entries of every event key, in
  the order they were attached, and the keys of every handler id. Executing an event calls
  handlers; here it is the list of entries that are called. A handler that throws is ignored, and
  handlers that attach or detach while they run are not considered. An entry is an object with an
  id of its own while it is attached, so it is its id and its handler.
\<close>

section \<open>The operations\<close>

record 'h telemetry =
  tl_handlers :: "(string, (string \<times> 'h) list) jsmap"
  tl_keys :: "(string, string list) jsmap"

definition new_telemetry :: "'h telemetry" where
  "new_telemetry = \<lparr>tl_handlers = [], tl_keys = []\<rparr>"

text \<open>\<open>name.join(".")\<close>\<close>

fun event_key :: "string list \<Rightarrow> string" where
  "event_key [] = ''''"
| "event_key [x] = x"
| "event_key (x # xs) = x @ ''.'' @ event_key xs"

definition entries_in :: "(string, (string \<times> 'h) list) jsmap \<Rightarrow> string \<Rightarrow> (string \<times> 'h) list" where
  "entries_in m key = (case jget m key of None \<Rightarrow> [] | Some es \<Rightarrow> es)"

definition attach_key :: "string \<times> 'h \<Rightarrow> string \<Rightarrow> (string, (string \<times> 'h) list) jsmap \<Rightarrow> (string, (string \<times> 'h) list) jsmap" where
  "attach_key entry key m = jput m key (sadd (entries_in m key) entry)"

definition tl_attach :: "string \<Rightarrow> string list list \<Rightarrow> 'h \<Rightarrow> 'h telemetry \<Rightarrow> js_error + 'h telemetry" where
  "tl_attach i names h t =
     (if jhas (tl_keys t) i
      then Inl (PlainError (''Telemetry handler \"'' @ i @ ''\" is already attached. Detach first.''))
      else (let keys = map event_key names
            in Inr (t\<lparr>tl_handlers := fold (attach_key (i, h)) keys (tl_handlers t),
                      tl_keys := jput (tl_keys t) i keys\<rparr>)))"

text \<open>The first entry with the id.\<close>

fun drop_entry :: "string \<Rightarrow> (string \<times> 'h) list \<Rightarrow> (string \<times> 'h) list" where
  "drop_entry i [] = []"
| "drop_entry i (e # es) = (if fst e = i then es else e # drop_entry i es)"

definition detach_key :: "string \<Rightarrow> string \<Rightarrow> (string, (string \<times> 'h) list) jsmap \<Rightarrow> (string, (string \<times> 'h) list) jsmap" where
  "detach_key i key m =
     (case jget m key of
        None \<Rightarrow> m
      | Some es \<Rightarrow> if drop_entry i es = [] then jdel m key else jput m key (drop_entry i es))"

definition tl_detach :: "string \<Rightarrow> 'h telemetry \<Rightarrow> bool \<times> 'h telemetry" where
  "tl_detach i t =
     (case jget (tl_keys t) i of
        None \<Rightarrow> (False, t)
      | Some keys \<Rightarrow> (True, t\<lparr>tl_handlers := fold (detach_key i) keys (tl_handlers t), tl_keys := jdel (tl_keys t) i\<rparr>))"

definition tl_execute :: "string list \<Rightarrow> 'h telemetry \<Rightarrow> (string \<times> 'h) list" where
  "tl_execute name t = entries_in (tl_handlers t) (event_key name)"

definition tl_hasHandlers :: "string list \<Rightarrow> 'h telemetry \<Rightarrow> bool" where
  "tl_hasHandlers name t = (case jget (tl_handlers t) (event_key name) of None \<Rightarrow> False | Some es \<Rightarrow> 0 < length es)"

definition tl_listHandlers :: "'h telemetry \<Rightarrow> string list" where
  "tl_listHandlers t = jkeys (tl_keys t)"

definition tl_reset :: "'h telemetry \<Rightarrow> 'h telemetry" where
  "tl_reset t = t\<lparr>tl_handlers := [], tl_keys := []\<rparr>"

text \<open>
  \<open>span\<close>: what the function does (an \<open>async\<close> one returns a promise that settles later), and the
  events that are executed around it, in order. It returns or throws what the function does.
\<close>

datatype span_result = SpanReturns | SpanThrows | SpanResolves | SpanRejects

definition tl_span :: "string list \<Rightarrow> span_result \<Rightarrow> string list list" where
  "tl_span name r = [name @ [''start''],
     (case r of SpanReturns \<Rightarrow> name @ [''stop''] | SpanResolves \<Rightarrow> name @ [''stop'']
      | SpanThrows \<Rightarrow> name @ [''exception''] | SpanRejects \<Rightarrow> name @ [''exception''])]"

section \<open>The attachments\<close>

text \<open>
  The specification: a list of attachments, each an id, its keys and its handler, in the order
  they were made.
\<close>

datatype 'h tel_op = Attach string "string list list" 'h | Detach string | Reset

fun tel_step :: "'h tel_op \<Rightarrow> 'h telemetry \<Rightarrow> 'h telemetry" where
  "tel_step (Attach i names h) t = (case tl_attach i names h t of Inl _ \<Rightarrow> t | Inr t' \<Rightarrow> t')"
| "tel_step (Detach i) t = snd (tl_detach i t)"
| "tel_step Reset t = tl_reset t"

fun spec_step :: "'h tel_op \<Rightarrow> (string \<times> string list \<times> 'h) list \<Rightarrow> (string \<times> string list \<times> 'h) list" where
  "spec_step (Attach i names h) as = (if i \<in> fst ` set as then as else as @ [(i, map event_key names, h)])"
| "spec_step (Detach i) as = filter (\<lambda>a. fst a \<noteq> i) as"
| "spec_step Reset as = []"

definition called :: "string \<Rightarrow> (string \<times> string list \<times> 'h) list \<Rightarrow> (string \<times> 'h) list" where
  "called key as = map (\<lambda>(i, ks, h). (i, h)) (filter (\<lambda>(i, ks, h). key \<in> set ks) as)"

definition tel_rep :: "'h telemetry \<Rightarrow> (string \<times> string list \<times> 'h) list \<Rightarrow> bool" where
  "tel_rep t as \<longleftrightarrow> distinct (map fst as) \<and> tl_keys t = map (\<lambda>(i, ks, h). (i, ks)) as \<and>
     (\<forall>key. entries_in (tl_handlers t) key = called key as \<and> jget (tl_handlers t) key \<noteq> Some [])"

lemma sadd_twice [simp]: "sadd (sadd s x) x = sadd s x"
  by (auto simp: sadd_def)

lemma sadd_nonempty [simp]: "sadd s x \<noteq> []"
  by (auto simp: sadd_def)

lemma entries_jput [simp]: "entries_in (jput m k es) key = (if key = k then es else entries_in m key)"
  by (simp add: entries_in_def)

lemma attach_keys:
  "entries_in (fold (attach_key e) keys m) key = (if key \<in> set keys then sadd (entries_in m key) e else entries_in m key)"
  "(\<forall>k. jget m k \<noteq> Some []) \<Longrightarrow> jget (fold (attach_key e) keys m) key \<noteq> Some []"
proof -
  show "entries_in (fold (attach_key e) keys m) key = (if key \<in> set keys then sadd (entries_in m key) e else entries_in m key)"
    by (induction keys arbitrary: m) (auto simp: attach_key_def)
  show "(\<forall>k. jget m k \<noteq> Some []) \<Longrightarrow> jget (fold (attach_key e) keys m) key \<noteq> Some []"
    by (induction keys arbitrary: m) (simp_all add: attach_key_def)
qed

lemma drop_entry_filter: "distinct (map fst es) \<Longrightarrow> drop_entry i es = filter (\<lambda>e. fst e \<noteq> i) es"
proof (induction es)
  case (Cons e es)
  show ?case
  proof (cases "fst e = i")
    case True
    then have "i \<notin> fst ` set es" using Cons.prems by simp
    then have "\<forall>x \<in> set es. fst x \<noteq> i" by blast
    then show ?thesis using True by (simp add: filter_True)
  qed (use Cons in simp)
qed simp

lemma detach_keys:
  assumes "\<forall>k. distinct (map fst (entries_in m k)) \<and> jget m k \<noteq> Some []"
  shows "entries_in (fold (detach_key i) keys m) key =
      (if key \<in> set keys then filter (\<lambda>e. fst e \<noteq> i) (entries_in m key) else entries_in m key)
    \<and> jget (fold (detach_key i) keys m) key \<noteq> Some []"
  using assms
proof (induction keys arbitrary: m)
  case (Cons k keys)
  have e: "entries_in (detach_key i k m) x = (if x = k then filter (\<lambda>e. fst e \<noteq> i) (entries_in m x) else entries_in m x)" for x
    using Cons.prems [rule_format, of k] drop_entry_filter [of "entries_in m k" i]
    by (auto simp: detach_key_def entries_in_def split: option.split)
  have "jget (detach_key i k m) x \<noteq> Some []" for x
    using Cons.prems by (simp add: detach_key_def split: option.split)
  moreover have "distinct (map fst (entries_in (detach_key i k m) x))" for x
    using Cons.prems by (simp add: e distinct_map_filter)
  ultimately show ?case using Cons.IH [of "detach_key i k m"] by (auto simp: e)
qed simp

lemma called_simps [simp]:
  "called key [] = []" "called key (as @ [(i, ks, h)]) = called key as @ (if key \<in> set ks then [(i, h)] else [])"
  "called key (filter (\<lambda>a. fst a \<noteq> i) as) = filter (\<lambda>e. fst e \<noteq> i) (called key as)"
  by (induction as) (auto simp: called_def)

lemma called_ids: "fst ` set (called key as) \<subseteq> fst ` set as" "distinct (map fst as) \<Longrightarrow> distinct (map fst (called key as))"
proof -
  show "fst ` set (called key as) \<subseteq> fst ` set as" by (force simp: called_def)
  show "distinct (map fst as) \<Longrightarrow> distinct (map fst (called key as))"
    by (induction as) (force simp: called_def)+
qed

lemma jput_fresh: "i \<notin> fst ` set m \<Longrightarrow> jput m i ks = m @ [(i, ks)]"
  by (induction m) auto

lemma tel_rep_step: "tel_rep t as \<Longrightarrow> tel_rep (tel_step op t) (spec_step op as)"
proof (cases op)
  case (Attach i names h)
  assume rep: "tel_rep t as"
  have has: "jhas (tl_keys t) i \<longleftrightarrow> i \<in> fst ` set as"
    using rep by (force simp: tel_rep_def jhas_iff)
  show ?thesis
  proof (cases "i \<in> fst ` set as")
    case True
    then show ?thesis using rep has Attach by (simp add: tl_attach_def)
  next
    case False
    have "(i, h) \<notin> set (called key as)" for key using False called_ids(1) [of key as] by force
    then have "sadd (called key as) (i, h) = called key as @ [(i, h)]" for key by (simp add: sadd_def)
    moreover have "jput (tl_keys t) i ks = tl_keys t @ [(i, ks)]" for ks
      using False rep by (intro jput_fresh) (force simp: tel_rep_def)
    ultimately show ?thesis
      using rep has Attach False attach_keys(2) [of "tl_handlers t" "(i, h)"]
      by (auto simp: tl_attach_def tel_rep_def Let_def attach_keys(1))
  qed
next
  case (Detach i)
  assume rep: "tel_rep t as"
  show ?thesis
  proof (cases "jget (tl_keys t) i")
    case None
    then have "i \<notin> fst ` set as" using rep by (force simp: tel_rep_def map_of_eq_None_iff)
    then have "filter (\<lambda>a. fst a \<noteq> i) as = as" by (auto intro: filter_True)
    then show ?thesis using rep None Detach by (simp add: tl_detach_def)
  next
    case (Some keys)
    have keys: "key \<in> set keys" if c: "(i, h) \<in> set (called key as)" for key h
    proof -
      obtain ks where a: "(i, ks, h) \<in> set as" "key \<in> set ks" using c by (auto simp: called_def)
      then have "(i, ks) \<in> set (tl_keys t)" using rep by (force simp: tel_rep_def)
      moreover have "jwf (tl_keys t)" using rep by (simp add: tel_rep_def comp_def split_beta)
      ultimately have "jget (tl_keys t) i = Some ks" by (simp add: jget_in_set [symmetric])
      then show ?thesis using Some a(2) by simp
    qed
    then have gone: "filter (\<lambda>e. fst e \<noteq> i) (called key as) = called key as" if "key \<notin> set keys" for key
      using that by (force intro: filter_True)
    have m: "\<forall>k. distinct (map fst (entries_in (tl_handlers t) k)) \<and> jget (tl_handlers t) k \<noteq> Some []"
      using rep called_ids(2) by (auto simp: tel_rep_def)
    have "jdel (tl_keys t) i = map (\<lambda>(i, ks, h). (i, ks)) (filter (\<lambda>a. fst a \<noteq> i) as)"
      using rep by (simp add: tel_rep_def AList.delete_eq filter_map comp_def split_beta eq_commute [of i])
    then show ?thesis
      using rep Some Detach detach_keys [OF m, of i keys] gone
      by (auto simp: tl_detach_def tel_rep_def distinct_map_filter)
  qed
qed (simp add: tl_reset_def tel_rep_def entries_in_def)

text \<open>
  C21: Telemetry does what its list of attachments says: after any sequence of attaching, detaching
  and resetting, executing an event calls exactly the handlers attached to its key, once each and
  in the order they were attached; \<open>hasHandlers\<close> tells whether there are any, \<open>listHandlers\<close> gives
  the ids, and attaching fails exactly for an id among them.
\<close>

theorem telemetry_refines:
  assumes "t = fold tel_step ops new_telemetry" and "as = fold spec_step ops []"
  shows "tl_execute name t = called (event_key name) as \<and> (tl_hasHandlers name t \<longleftrightarrow> called (event_key name) as \<noteq> []) \<and>
     tl_listHandlers t = map fst as \<and> (isl (tl_attach i names h t) \<longleftrightarrow> i \<in> fst ` set as)"
proof -
  have "tel_rep (fold tel_step ops u) (fold spec_step ops bs)" if "tel_rep u bs" for u bs
    using that by (induction ops arbitrary: u bs) (simp_all add: tel_rep_step)
  moreover have "tel_rep new_telemetry []" by (simp add: tel_rep_def new_telemetry_def entries_in_def)
  ultimately have rep: "tel_rep t as" using assms by blast
  then have e: "entries_in (tl_handlers t) (event_key name) = called (event_key name) as"
    and some: "jget (tl_handlers t) (event_key name) \<noteq> Some []" and keys: "tl_keys t = map (\<lambda>(i, ks, h). (i, ks)) as"
    by (simp_all add: tel_rep_def)
  have has: "tl_hasHandlers name t \<longleftrightarrow> entries_in (tl_handlers t) (event_key name) \<noteq> []"
    using some by (simp add: tl_hasHandlers_def entries_in_def split: option.split)
  have "map fst (map (\<lambda>(i, ks, h). (i, ks)) as) = map fst as" by (simp add: comp_def split_beta)
  moreover have "jhas (tl_keys t) i \<longleftrightarrow> i \<in> fst ` set as" using rep by (force simp: tel_rep_def jhas_iff)
  ultimately show ?thesis
    using e keys has by (simp add: tl_execute_def tl_listHandlers_def tl_attach_def Let_def)
qed

theorem telemetry_refines_witness:
  "tl_execute [''a'', ''b''] (fold tel_step [Attach ''x'' [[''a'', ''b''], [''c'']] (1::nat), Attach ''y'' [[''a.b'']] 2, Detach ''x'']
     new_telemetry) = [(''y'', 2)]"
  using telemetry_refines [OF refl refl, of "[''a'', ''b'']"
      "[Attach ''x'' [[''a'', ''b''], [''c'']] (1::nat), Attach ''y'' [[''a.b'']] 2, Detach ''x'']"]
  by (simp add: called_def)

text \<open>Events whose names differ only in where the dots are share their handlers.\<close>

lemma event_keys_collide: "event_key [''a.b''] = event_key [''a'', ''b'']"
  by simp

end
