(* ===== verification/Gossip.thy ===== *)
theory Gossip
  imports Prelude
begin

text \<open>
  \<open>src/gossip.ts\<close>, \<open>src/gossip_protocol.ts\<close> and \<open>src/distributed_cluster.ts\<close>: the peer table
  every node gossips, its merge rule, failure detection, and the cluster view on top. Time and
  randomness are arguments: \<open>now\<close> is what \<open>Date.now()\<close> returns and \<open>rnd i\<close> the index the
  shuffle draws below \<open>i + 1\<close>. UDP and the authenticator are not modelled: a message is handed
  to the receiver as it was built. The events and the messages sent are recorded in order.
\<close>

section \<open>Data\<close>

datatype peer_status = PeerAlive | PeerLeaving | PeerDead

record peer_state =
  p_id :: string
  p_address :: string
  p_heartbeat :: int
  p_generation :: int
  p_gossipAddress :: string
  p_lastUpdated :: int
  p_status :: "peer_status option"
  p_roles :: "string list option"
  p_metadata :: "(string, string) jsmap option"

record gossip_message =
  gm_version :: "nat option"
  gm_senderId :: string
  gm_peers :: "peer_state list"

definition GOSSIP_PROTOCOL_VERSION :: nat where
  "GOSSIP_PROTOCOL_VERSION = 1"

record gossip_options =
  go_failureTimeoutMs :: int
  go_gossipFanout :: nat
  go_seedNodes :: "string list"

datatype member_event = MemberJoin peer_state | MemberUpdate peer_state | MemberLeave peer_state

text \<open>
  The table holds the object \<open>self\<close> itself until gossip about the node overwrites the entry;
  \<open>gp_shared\<close> says whether it still does.
\<close>

record gossip =
  gp_self :: peer_state
  gp_shared :: bool
  gp_peers :: "(string, peer_state) jsmap"
  gp_options :: gossip_options
  gp_leaving :: bool
  gp_stopped :: bool
  gp_events :: "member_event list"
  gp_sent :: "(string \<times> gossip_message) list"

definition new_gossip ::
  "string \<Rightarrow> string \<Rightarrow> string \<Rightarrow> gossip_options \<Rightarrow> string list \<Rightarrow> int \<Rightarrow> gossip" where
  "new_gossip node rpc gaddr opts roles now =
     (let self = \<lparr>p_id = node, p_address = rpc, p_heartbeat = 0, p_generation = now,
            p_gossipAddress = gaddr, p_lastUpdated = now, p_status = Some PeerAlive,
            p_roles = (if roles = [] then None else Some roles), p_metadata = None\<rparr>
      in \<lparr>gp_self = self, gp_shared = True, gp_peers = [(node, self)], gp_options = opts,
          gp_leaving = False, gp_stopped = False, gp_events = [], gp_sent = []\<rparr>)"

definition setMetadata :: "string \<Rightarrow> string \<Rightarrow> gossip \<Rightarrow> gossip" where
  "setMetadata key v s =
     (let old = (case p_metadata (gp_self s) of None \<Rightarrow> [] | Some m \<Rightarrow> m);
          self = (gp_self s)\<lparr>p_metadata := Some (jput old key v)\<rparr>
      in s\<lparr>gp_self := self,
           gp_peers := (if gp_shared s then jput (gp_peers s) (p_id self) self else gp_peers s)\<rparr>)"

definition getPeerMetadata :: "string \<Rightarrow> string \<Rightarrow> gossip \<Rightarrow> string option" where
  "getPeerMetadata node key s =
     (case jget (gp_peers s) node of None \<Rightarrow> None
      | Some p \<Rightarrow> (case p_metadata p of None \<Rightarrow> None | Some m \<Rightarrow> jget m key))"

section \<open>Sending\<close>

definition gossip_view :: "gossip \<Rightarrow> gossip_message" where
  "gossip_view s = \<lparr>gm_version = Some GOSSIP_PROTOCOL_VERSION, gm_senderId = p_id (gp_self s),
     gm_peers = jvals (gp_peers s)\<rparr>"

definition sendGossipMessage :: "string \<Rightarrow> gossip \<Rightarrow> gossip" where
  "sendGossipMessage addr s = s\<lparr>gp_sent := gp_sent s @ [(addr, gossip_view s)]\<rparr>"

text \<open>Fisher-Yates: the loop runs \<open>i\<close> from the last index down to \<open>1\<close>.\<close>

fun shuffle_from :: "(nat \<Rightarrow> nat) \<Rightarrow> nat \<Rightarrow> 'a list \<Rightarrow> 'a list" where
  "shuffle_from rnd 0 xs = xs"
| "shuffle_from rnd (Suc i) xs =
     (let j = rnd (Suc i) in shuffle_from rnd i (xs[Suc i := xs ! j, j := xs ! Suc i]))"

definition shuffleArray :: "(nat \<Rightarrow> nat) \<Rightarrow> 'a list \<Rightarrow> 'a list" where
  "shuffleArray rnd xs = shuffle_from rnd (length xs - 1) xs"

definition touch_self :: "int \<Rightarrow> gossip \<Rightarrow> gossip" where
  "touch_self now s =
     (let self = (gp_self s)\<lparr>p_heartbeat := p_heartbeat (gp_self s) + 1, p_lastUpdated := now\<rparr>
      in s\<lparr>gp_self := self, gp_peers := jput (gp_peers s) (p_id self) self, gp_shared := True\<rparr>)"

definition other_peers :: "gossip \<Rightarrow> peer_state list" where
  "other_peers s = filter (\<lambda>p. p_id p \<noteq> p_id (gp_self s)) (jvals (gp_peers s))"

definition gossipLoop :: "int \<Rightarrow> (nat \<Rightarrow> nat) \<Rightarrow> gossip \<Rightarrow> gossip" where
  "gossipLoop now rnd s =
     (let s = touch_self now s; others = other_peers s; seeds = go_seedNodes (gp_options s)
      in if others \<noteq> []
         then fold (\<lambda>p. sendGossipMessage (p_gossipAddress p))
                (take (go_gossipFanout (gp_options s)) (shuffleArray rnd others)) s
         else if seeds \<noteq> [] then sendGossipMessage (seeds ! rnd (length seeds - 1)) s
         else s)"

definition broadcastToAllPeers :: "gossip \<Rightarrow> gossip" where
  "broadcastToAllPeers s = fold (\<lambda>p. sendGossipMessage (p_gossipAddress p)) (other_peers s) s"

definition gossip_stop :: "gossip \<Rightarrow> gossip" where
  "gossip_stop s = s\<lparr>gp_peers := [], gp_shared := False, gp_stopped := True\<rparr>"

definition gossip_leave :: "nat \<Rightarrow> int \<Rightarrow> gossip \<Rightarrow> gossip" where
  "gossip_leave broadcastCount now s =
     (if gp_leaving s then s
      else let s1 = touch_self now (s\<lparr>gp_leaving := True,
                       gp_self := (gp_self s)\<lparr>p_status := Some PeerLeaving\<rparr>\<rparr>)
           in gossip_stop ((broadcastToAllPeers ^^ broadcastCount) s1))"

section \<open>Receiving\<close>

definition store_peer :: "int \<Rightarrow> peer_state \<Rightarrow> gossip \<Rightarrow> gossip" where
  "store_peer now p s =
     s\<lparr>gp_peers := jput (gp_peers s) (p_id p) (p\<lparr>p_lastUpdated := now\<rparr>),
       gp_shared := (gp_shared s \<and> p_id p \<noteq> p_id (gp_self s))\<rparr>"

definition member_emit :: "member_event \<Rightarrow> gossip \<Rightarrow> gossip" where
  "member_emit e s = s\<lparr>gp_events := gp_events s @ [e]\<rparr>"

definition merge_peer :: "int \<Rightarrow> peer_state \<Rightarrow> gossip \<Rightarrow> gossip" where
  "merge_peer now incoming s =
     (case jget (gp_peers s) (p_id incoming) of
        None \<Rightarrow>
          if p_status incoming = Some PeerLeaving then s
          else member_emit (MemberJoin incoming) (store_peer now incoming s)
      | Some local \<Rightarrow>
          if p_generation incoming > p_generation local
          then member_emit (MemberUpdate incoming) (store_peer now incoming s)
          else if p_generation incoming = p_generation local \<and> p_heartbeat incoming > p_heartbeat local
          then (let wasAlive = p_status local \<noteq> Some PeerLeaving;
                    isNowLeaving = p_status incoming = Some PeerLeaving
                in member_emit (if wasAlive \<and> isNowLeaving then MemberLeave incoming else MemberUpdate incoming)
                     (store_peer now incoming s))
          else s)"

definition handleGossipMessage :: "int \<Rightarrow> gossip_message \<Rightarrow> gossip \<Rightarrow> gossip" where
  "handleGossipMessage now m s =
     (if gm_version m \<noteq> None \<and> gm_version m \<noteq> Some GOSSIP_PROTOCOL_VERSION then s
      else fold (merge_peer now) (gm_peers m) s)"

section \<open>Failure detection\<close>

definition failureDetectionLoop :: "int \<Rightarrow> gossip \<Rightarrow> gossip" where
  "failureDetectionLoop now s =
     fold (\<lambda>(i, p) s.
         if i = p_id (gp_self s) then s
         else if now - p_lastUpdated p > go_failureTimeoutMs (gp_options s)
         then member_emit (MemberLeave p) (s\<lparr>gp_peers := jdel (gp_peers s) i\<rparr>)
         else s)
       (gp_peers s) s"

definition getLivePeers :: "int \<Rightarrow> gossip \<Rightarrow> peer_state list" where
  "getLivePeers now s = filter (\<lambda>p.
     if p_status p = Some PeerLeaving \<and> p_id p \<noteq> p_id (gp_self s) then False
     else p_id p = p_id (gp_self s) \<or> now - p_lastUpdated p < go_failureTimeoutMs (gp_options s))
     (jvals (gp_peers s))"

section \<open>The cluster view\<close>

text \<open>\<open>DistributedCluster\<close> passes on joins and leaves, by node id, and ignores updates.\<close>

datatype cluster_event = ClusterJoin string | ClusterLeave string

definition cluster_events :: "member_event list \<Rightarrow> cluster_event list" where
  "cluster_events es = concat (map (\<lambda>e. case e of
     MemberJoin p \<Rightarrow> [ClusterJoin (p_id p)] | MemberLeave p \<Rightarrow> [ClusterLeave (p_id p)]
   | MemberUpdate _ \<Rightarrow> []) es)"

definition getMembers :: "int \<Rightarrow> gossip \<Rightarrow> string list" where
  "getMembers now s = map p_id (getLivePeers now s)"

definition getPeerState :: "int \<Rightarrow> string \<Rightarrow> gossip \<Rightarrow> peer_state option" where
  "getPeerState now node s = find (\<lambda>p. p_id p = node) (getLivePeers now s)"

definition getMembersByRole :: "int \<Rightarrow> string \<Rightarrow> gossip \<Rightarrow> string list" where
  "getMembersByRole now role s = map p_id
     (filter (\<lambda>p. case p_roles p of None \<Rightarrow> False | Some rs \<Rightarrow> role \<in> set rs) (getLivePeers now s))"

datatype health_status = Healthy | Degraded | Unhealthy

definition cluster_getHealth :: "int \<Rightarrow> gossip \<Rightarrow> health_status \<times> nat" where
  "cluster_getHealth now s =
     (let n = length (getLivePeers now s) in if gp_leaving s then (Degraded, n) else (Healthy, n))"

section \<open>Well-formed tables\<close>

definition gossip_ok :: "gossip \<Rightarrow> bool" where
  "gossip_ok s \<longleftrightarrow> jwf (gp_peers s) \<and> (\<forall>i p. jget (gp_peers s) i = Some p \<longrightarrow> p_id p = i)"

lemma store_peer_simps [simp]:
  "gp_peers (store_peer now p s) = jput (gp_peers s) (p_id p) (p\<lparr>p_lastUpdated := now\<rparr>)"
  "gp_self (store_peer now p s) = gp_self s" "gp_options (store_peer now p s) = gp_options s"
  "gp_events (store_peer now p s) = gp_events s"
  by (simp_all add: store_peer_def)

lemma member_emit_simps [simp]:
  "gp_peers (member_emit e s) = gp_peers s" "gp_self (member_emit e s) = gp_self s"
  "gp_options (member_emit e s) = gp_options s" "gp_events (member_emit e s) = gp_events s @ [e]"
  by (simp_all add: member_emit_def)

lemma gossip_ok_emit [simp]: "gossip_ok (member_emit e s) = gossip_ok s"
  by (simp add: gossip_ok_def)

lemma gossip_ok_store: "gossip_ok s \<Longrightarrow> gossip_ok (store_peer now p s)"
  by (simp add: gossip_ok_def)

lemma gossip_ok_merge: "gossip_ok s \<Longrightarrow> gossip_ok (merge_peer now p s)"
  by (simp add: merge_peer_def Let_def gossip_ok_store split: option.split)

lemma gossip_ok_handle: "gossip_ok s \<Longrightarrow> gossip_ok (handleGossipMessage now m s)"
  by (simp add: handleGossipMessage_def) (auto intro: fold_inv gossip_ok_merge)

section \<open>What merging does to an entry\<close>

definition newer_peer :: "peer_state \<Rightarrow> peer_state \<Rightarrow> bool" where
  "newer_peer p q \<longleftrightarrow> p_generation p > p_generation q \<or>
     p_generation p = p_generation q \<and> p_heartbeat p > p_heartbeat q"

definition merged :: "int \<Rightarrow> peer_state \<Rightarrow> peer_state option \<Rightarrow> peer_state option" where
  "merged now q l = (case l of
     None \<Rightarrow> if p_status q = Some PeerLeaving then None else Some (q\<lparr>p_lastUpdated := now\<rparr>)
   | Some p \<Rightarrow> Some (if newer_peer q p then q\<lparr>p_lastUpdated := now\<rparr> else p))"

lemma newer_touch [simp]:
  "newer_peer (p\<lparr>p_lastUpdated := t\<rparr>) q = newer_peer p q" "newer_peer p (q\<lparr>p_lastUpdated := t\<rparr>) = newer_peer p q"
  by (simp_all add: newer_peer_def)

lemma newer_irrefl [simp]: "\<not> newer_peer p p"
  by (simp add: newer_peer_def)

lemma newer_asym: "newer_peer p q \<Longrightarrow> \<not> newer_peer q p"
  by (auto simp: newer_peer_def)

lemma merge_peer_get:
  "jget (gp_peers (merge_peer now q s)) i =
     (if i = p_id q then merged now q (jget (gp_peers s) i) else jget (gp_peers s) i)"
  by (auto simp: merge_peer_def Let_def merged_def newer_peer_def split: option.split)

lemma merge_peer_self [simp]: "gp_self (merge_peer now q s) = gp_self s"
  "gp_options (merge_peer now q s) = gp_options s"
  by (simp_all add: merge_peer_def Let_def split: option.split)

lemma merge_peer_stale:
  assumes "case jget (gp_peers s) (p_id q) of None \<Rightarrow> p_status q = Some PeerLeaving | Some p \<Rightarrow> \<not> newer_peer q p"
  shows "merge_peer now q s = s"
  using assms by (auto simp: merge_peer_def newer_peer_def split: option.splits)

lemma fold_merge_other:
  "i \<notin> p_id ` set qs \<Longrightarrow> jget (gp_peers (fold (merge_peer now) qs s)) i = jget (gp_peers s) i"
  by (induction qs arbitrary: s) (simp_all add: merge_peer_get)

lemma fold_merge_get:
  "distinct (map p_id qs) \<Longrightarrow> q \<in> set qs \<Longrightarrow>
     jget (gp_peers (fold (merge_peer now) qs s)) (p_id q) = merged now q (jget (gp_peers s) (p_id q))"
proof (induction qs arbitrary: s)
  case (Cons x qs)
  show ?case
  proof (cases "q = x")
    case True
    then show ?thesis using Cons.prems by (simp add: fold_merge_other merge_peer_get)
  next
    case False
    then have "p_id q \<in> p_id ` set qs" using Cons.prems(2) by simp
    then have "p_id q \<noteq> p_id x" using Cons.prems(1) by auto
    then show ?thesis using Cons False by (simp add: merge_peer_get)
  qed
qed simp

lemma fold_merge_self [simp]: "gp_self (fold (merge_peer now) qs s) = gp_self s"
  "gp_options (fold (merge_peer now) qs s) = gp_options s"
  by (induction qs arbitrary: s) simp_all

lemma fold_merge_stale:
  "\<forall>q\<in>set qs. merge_peer now q s = s \<Longrightarrow> fold (merge_peer now) qs s = s"
  by (induction qs) simp_all

lemma merged_fresh:
  "case merged now q l of None \<Rightarrow> p_status q = Some PeerLeaving | Some p \<Rightarrow> \<not> newer_peer q p"
  by (auto simp: merged_def split: option.split)

section \<open>Failure detection, entry by entry\<close>

definition expired :: "int \<Rightarrow> gossip \<Rightarrow> peer_state \<Rightarrow> bool" where
  "expired now s p \<longleftrightarrow> now - p_lastUpdated p > go_failureTimeoutMs (gp_options s)"

lemma failure_fold:
  defines "step \<equiv> (\<lambda>now (i, p) s.
         if i = p_id (gp_self s) then s
         else if now - p_lastUpdated p > go_failureTimeoutMs (gp_options s)
         then member_emit (MemberLeave p) (s\<lparr>gp_peers := jdel (gp_peers s) i\<rparr>)
         else s)"
  shows "gp_self (fold (step now) xs s) = gp_self s \<and> gp_options (fold (step now) xs s) = gp_options s \<and>
    gp_events (fold (step now) xs s) = gp_events s @
      map (MemberLeave \<circ> snd) (filter (\<lambda>(i, p). i \<noteq> p_id (gp_self s) \<and> expired now s p) xs) \<and>
    jget (gp_peers (fold (step now) xs s)) k =
      (if k \<noteq> p_id (gp_self s) \<and> (\<exists>p. (k, p) \<in> set xs \<and> expired now s p) then None else jget (gp_peers s) k)"
proof (induction xs arbitrary: s)
  case (Cons x xs)
  show ?case
    using Cons.IH [of "step now x s"]
    by (cases x) (auto simp: step_def expired_def)
qed simp

section \<open>Properties\<close>

text \<open>
  C26: Merging gossip is a join: the entry of every peer is the newest of what the node knew
  and what the message says, by generation and then heartbeat; a known peer is never
  forgotten; peers the message does not mention keep their entry; an unknown peer that is
  leaving is not added; and a message received again, at any later time, changes nothing and
  announces nothing.
\<close>

theorem gossip_merge_newest:
  assumes ver: "gm_version m = None \<or> gm_version m = Some GOSSIP_PROTOCOL_VERSION"
    and dist: "distinct (map p_id (gm_peers m))" and s': "s' = handleGossipMessage now m s"
  shows "(\<forall>q\<in>set (gm_peers m). jget (gp_peers s') (p_id q) = merged now q (jget (gp_peers s) (p_id q)))
     \<and> (\<forall>i. i \<notin> p_id ` set (gm_peers m) \<longrightarrow> jget (gp_peers s') i = jget (gp_peers s) i)
     \<and> (\<forall>i p. jget (gp_peers s) i = Some p \<longrightarrow> (\<exists>p'. jget (gp_peers s') i = Some p' \<and> \<not> newer_peer p p'))
     \<and> handleGossipMessage now' m s' = s'"
proof -
  have S: "s' = fold (merge_peer now) (gm_peers m) s" using ver s' by (auto simp: handleGossipMessage_def)
  have hit: "\<forall>q\<in>set (gm_peers m). jget (gp_peers s') (p_id q) = merged now q (jget (gp_peers s) (p_id q))"
    using fold_merge_get [OF dist] by (simp add: S)
  have miss: "\<forall>i. i \<notin> p_id ` set (gm_peers m) \<longrightarrow> jget (gp_peers s') i = jget (gp_peers s) i"
    by (simp add: S fold_merge_other)
  have keep: "\<exists>p'. jget (gp_peers s') i = Some p' \<and> \<not> newer_peer p p'" if "jget (gp_peers s) i = Some p" for i p
  proof (cases "i \<in> p_id ` set (gm_peers m)")
    case True
    then show ?thesis using hit that newer_asym by (auto simp: merged_def)
  qed (use miss that in simp)
  have "merge_peer now' q s' = s'" if "q \<in> set (gm_peers m)" for q
    by (rule merge_peer_stale) (use hit that merged_fresh in simp)
  then have "handleGossipMessage now' m s' = s'"
    using ver by (auto simp: handleGossipMessage_def intro: fold_merge_stale)
  then show ?thesis using hit miss keep by blast
qed

definition demo_opts :: gossip_options where
  "demo_opts = \<lparr>go_failureTimeoutMs = 5000, go_gossipFanout = 3, go_seedNodes = []\<rparr>"

definition demo_gossip :: "string \<Rightarrow> gossip" where
  "demo_gossip n = new_gossip n ''tcp'' ''udp'' demo_opts [] 0"

definition demo_peer_entry :: "string \<Rightarrow> int \<Rightarrow> peer_state" where
  "demo_peer_entry n t = \<lparr>p_id = n, p_address = ''tcp'', p_heartbeat = 7, p_generation = 3,
     p_gossipAddress = ''udp'', p_lastUpdated = t, p_status = Some PeerAlive, p_roles = None, p_metadata = None\<rparr>"

definition demo_news :: gossip_message where
  "demo_news = \<lparr>gm_version = Some 1, gm_senderId = ''b'', gm_peers = [demo_peer_entry ''c'' 90]\<rparr>"

theorem gossip_merge_newest_witness:
  "handleGossipMessage 200 demo_news (handleGossipMessage 100 demo_news (demo_gossip ''a'')) =
   handleGossipMessage 100 demo_news (demo_gossip ''a'')"
  using gossip_merge_newest [of demo_news _ 100 "demo_gossip ''a''" 200, OF _ _ refl]
  by (simp add: demo_news_def GOSSIP_PROTOCOL_VERSION_def)

text \<open>
  Failure detection removes exactly the other peers not heard of for longer than the
  timeout, announces each of them once and in table order, and never removes the node itself;
  afterwards every other peer was heard of within the timeout.
\<close>

theorem failure_detection_exact:
  assumes ok: "gossip_ok s" and s': "s' = failureDetectionLoop now s"
  shows "(\<forall>i. jget (gp_peers s') i = (case jget (gp_peers s) i of None \<Rightarrow> None
            | Some p \<Rightarrow> if i \<noteq> p_id (gp_self s) \<and> expired now s p then None else Some p))
     \<and> gp_events s' = gp_events s @ map MemberLeave
           (filter (\<lambda>p. p_id p \<noteq> p_id (gp_self s) \<and> expired now s p) (jvals (gp_peers s)))
     \<and> (\<forall>i p. jget (gp_peers s') i = Some p \<longrightarrow> i \<noteq> p_id (gp_self s) \<longrightarrow>
            now - p_lastUpdated p \<le> go_failureTimeoutMs (gp_options s'))"
proof -
  note F = failure_fold [of now "gp_peers s" s]
  have wf: "jwf (gp_peers s)" using ok by (simp add: gossip_ok_def)
  have key: "p_id p = i" if "(i, p) \<in> set (gp_peers s)" for i p
    using ok that jget_in_set [OF wf, of i p] unfolding gossip_ok_def by blast
  have G: "jget (gp_peers s') i = (case jget (gp_peers s) i of None \<Rightarrow> None
            | Some p \<Rightarrow> if i \<noteq> p_id (gp_self s) \<and> expired now s p then None else Some p)" for i
    using F [of i] by (auto simp: s' failureDetectionLoop_def jget_in_set [OF wf] split: option.split)
  have "filter (\<lambda>(i, p). i \<noteq> p_id (gp_self s) \<and> expired now s p) (gp_peers s) =
      filter (\<lambda>(i, p). p_id p \<noteq> p_id (gp_self s) \<and> expired now s p) (gp_peers s)"
    by (rule filter_cong [OF refl]) (clarsimp simp: key)
  then have E: "gp_events s' = gp_events s @ map MemberLeave
           (filter (\<lambda>p. p_id p \<noteq> p_id (gp_self s) \<and> expired now s p) (jvals (gp_peers s)))"
    using F by (simp add: s' failureDetectionLoop_def filter_map comp_def case_prod_unfold)
  have "gp_options s' = gp_options s" using F by (simp add: s' failureDetectionLoop_def)
  then show ?thesis using G E by (auto simp: expired_def split: option.splits if_splits)
qed

theorem failure_detection_exact_witness:
  "gp_events (failureDetectionLoop 9000 (handleGossipMessage 100 demo_news (demo_gossip ''a''))) =
     [MemberJoin (demo_peer_entry ''c'' 90), MemberLeave (demo_peer_entry ''c'' 100)]"
proof -
  have "gossip_ok (handleGossipMessage 100 demo_news (demo_gossip ''a''))"
    by (rule gossip_ok_handle) (simp add: gossip_ok_def demo_gossip_def new_gossip_def Let_def)
  note failure_detection_exact [OF this refl, THEN conjunct2, THEN conjunct1, of 9000]
  then show ?thesis
    by (simp add: demo_news_def demo_gossip_def new_gossip_def Let_def handleGossipMessage_def GOSSIP_PROTOCOL_VERSION_def
        merge_peer_def demo_peer_entry_def expired_def demo_opts_def)
qed

text \<open>
  A node that left and comes back before the others dropped its entry is never announced:
  its new generation makes it a live member again, but the only event is an update, which the
  cluster ignores, so nothing that waits for a join (the registry's and the process groups'
  anti-entropy, the peer list of the transport) runs for it.
\<close>

theorem restart_not_announced:
  assumes old: "jget (gp_peers s) (p_id q) = Some p" and left: "p_status p = Some PeerLeaving"
    and other: "p_id q \<noteq> p_id (gp_self s)"
    and new: "p_generation q > p_generation p" "p_status q = Some PeerAlive"
    and timeout: "0 < go_failureTimeoutMs (gp_options s)" and ok: "gossip_ok s"
    and s': "s' = handleGossipMessage now \<lparr>gm_version = Some GOSSIP_PROTOCOL_VERSION, gm_senderId = n, gm_peers = [q]\<rparr> s"
  shows "p_id q \<notin> set (getMembers now s) \<and> p_id q \<in> set (getMembers now s')
     \<and> cluster_events (gp_events s') = cluster_events (gp_events s)"
proof -
  have wf: "jwf (gp_peers s)" and key: "\<And>i r. jget (gp_peers s) i = Some r \<Longrightarrow> p_id r = i"
    using ok by (simp_all add: gossip_ok_def)
  have S: "s' = member_emit (MemberUpdate q) (store_peer now q s)"
    using old new by (simp add: s' handleGossipMessage_def merge_peer_def)
  have "p_id q \<notin> set (getMembers now s)"
  proof
    assume "p_id q \<in> set (getMembers now s)"
    then obtain r where r: "r \<in> set (getLivePeers now s)" "p_id r = p_id q" by (auto simp: getMembers_def)
    then have "r \<in> set (jvals (gp_peers s))" by (simp add: getLivePeers_def)
    then obtain i where i: "jget (gp_peers s) i = Some r" using jvals_iff [OF wf] by blast
    then have "r = p" using key [OF i] r(2) old by simp
    then show False using r left other by (simp add: getLivePeers_def)
  qed
  moreover have "q\<lparr>p_lastUpdated := now\<rparr> \<in> set (getLivePeers now s')"
  proof -
    have "q\<lparr>p_lastUpdated := now\<rparr> \<in> set (jvals (gp_peers s'))"
      by (rule jget_jvals [of _ "p_id q"]) (simp add: S)
    then show ?thesis using new timeout by (simp add: getLivePeers_def S)
  qed
  then have "p_id q \<in> set (getMembers now s')" unfolding getMembers_def by (metis imageI list.set_map
      peer_state.ext_inject peer_state.surjective peer_state.update_convs(6) peer_state.select_convs(1))
  ultimately show ?thesis by (simp add: S cluster_events_def)
qed

definition demo_left :: gossip where
  "demo_left = (demo_gossip ''a'')\<lparr>gp_peers :=
     [(''c'', (demo_peer_entry ''c'' 0)\<lparr>p_status := Some PeerLeaving\<rparr>)]\<rparr>"

theorem restart_not_announced_witness:
  "''c'' \<in> set (getMembers 100 (handleGossipMessage 100
     \<lparr>gm_version = Some GOSSIP_PROTOCOL_VERSION, gm_senderId = ''b'',
      gm_peers = [(demo_peer_entry ''c'' 90)\<lparr>p_generation := 4\<rparr>]\<rparr> demo_left))"
  using restart_not_announced [of demo_left "(demo_peer_entry ''c'' 90)\<lparr>p_generation := 4\<rparr>"
      "(demo_peer_entry ''c'' 0)\<lparr>p_status := Some PeerLeaving\<rparr>" _ 100 "''b''", OF _ _ _ _ _ _ _ refl]
  by (simp add: demo_left_def demo_peer_entry_def demo_gossip_def new_gossip_def Let_def demo_opts_def gossip_ok_def)

text \<open>
  Two nodes that run failure detection and then hear from each other, in turns, at arbitrary
  times: \<open>zombie_rounds\<close> gives both states after the rounds.
\<close>

fun zombie_rounds :: "int list \<Rightarrow> gossip \<Rightarrow> gossip \<Rightarrow> gossip \<times> gossip" where
  "zombie_rounds [] a b = (a, b)"
| "zombie_rounds (t # ts) a b =
     zombie_rounds ts b (handleGossipMessage t (gossip_view b) (failureDetectionLoop t a))"

definition believes_alive :: "string \<Rightarrow> gossip \<Rightarrow> bool" where
  "believes_alive c s \<longleftrightarrow> gossip_ok s \<and> c \<noteq> p_id (gp_self s) \<and>
     (\<exists>p. jget (gp_peers s) c = Some p \<and> p_status p \<noteq> Some PeerLeaving)"

lemma gossip_ok_failure: "gossip_ok s \<Longrightarrow> gossip_ok (failureDetectionLoop now s)"
  unfolding failureDetectionLoop_def
  by (rule fold_inv [where P = gossip_ok]) (auto simp: gossip_ok_def split: prod.split)

lemma failure_self [simp]: "gp_self (failureDetectionLoop now s) = gp_self s"
  using failure_fold [of now "gp_peers s" s] by (simp add: failureDetectionLoop_def)

lemma view_ids: "gossip_ok s \<Longrightarrow> distinct (map p_id (gm_peers (gossip_view s)))"
  using map_snd_keys [of "gp_peers s" p_id] by (simp add: gossip_ok_def gossip_view_def del: map_map)

lemma believes_round:
  assumes a: "gossip_ok a" "c \<noteq> p_id (gp_self a)"
     "\<forall>p. jget (gp_peers a) c = Some p \<longrightarrow> p_status p \<noteq> Some PeerLeaving"
    and b: "believes_alive c b"
  shows "believes_alive c (handleGossipMessage t (gossip_view b) (failureDetectionLoop t a))"
proof -
  obtain q where q: "jget (gp_peers b) c = Some q" "p_status q \<noteq> Some PeerLeaving" "p_id q = c"
    using b by (auto simp: believes_alive_def gossip_ok_def)
  let ?a = "failureDetectionLoop t a"
  have "q \<in> set (gm_peers (gossip_view b))" using jget_jvals [OF q(1)] by (simp add: gossip_view_def)
  then have "jget (gp_peers (fold (merge_peer t) (gm_peers (gossip_view b)) ?a)) c =
      merged t q (jget (gp_peers ?a) c)"
    using fold_merge_get [OF view_ids, of b q t ?a] b q(3) by (simp add: believes_alive_def)
  moreover have "\<forall>p. jget (gp_peers ?a) c = Some p \<longrightarrow> p_status p \<noteq> Some PeerLeaving"
    using a(3) failure_fold [of t "gp_peers a" a c] by (auto simp: failureDetectionLoop_def split: if_splits)
  ultimately show ?thesis
    using a q gossip_ok_handle [OF gossip_ok_failure [OF a(1)], of t "gossip_view b" t]
    by (auto simp: believes_alive_def handleGossipMessage_def gossip_view_def GOSSIP_PROTOCOL_VERSION_def
        merged_def split: option.splits)
qed

text \<open>
  A dead peer can outlive its death: two nodes that drop it in turns, each before it
  hears from the other, keep handing it to each other, so after any number of rounds, at
  whatever times, both tables still hold it as alive although its heartbeat never moved.
\<close>

theorem dead_peer_survives:
  assumes "believes_alive c a" and "believes_alive c b"
  shows "believes_alive c (fst (zombie_rounds ts a b)) \<and> believes_alive c (snd (zombie_rounds ts a b))"
  using assms
proof (induction ts arbitrary: a b)
  case (Cons t ts)
  have "believes_alive c (handleGossipMessage t (gossip_view b) (failureDetectionLoop t a))"
    using Cons.prems by (intro believes_round) (auto simp: believes_alive_def)
  then show ?case using Cons by simp
qed simp

definition demo_knows :: "string \<Rightarrow> gossip" where
  "demo_knows n = (demo_gossip n)\<lparr>gp_peers := [(''c'', demo_peer_entry ''c'' 0)]\<rparr>"

theorem dead_peer_survives_witness:
  "believes_alive ''c'' (fst (zombie_rounds [9000, 20000, 31000] (demo_knows ''a'') (demo_knows ''b'')))"
proof -
  have "believes_alive ''c'' (demo_knows ''a'')" "believes_alive ''c'' (demo_knows ''b'')"
    by (simp_all add: believes_alive_def demo_knows_def demo_gossip_def new_gossip_def Let_def gossip_ok_def
        demo_peer_entry_def)
  from dead_peer_survives [OF this] show ?thesis by (rule conjunct1)
qed

section \<open>Whom a node gossips to\<close>

lemma mset_shuffle_from:
  "i < length xs \<Longrightarrow> (\<And>k. rnd k \<le> k) \<Longrightarrow> mset (shuffle_from rnd i xs) = mset xs"
proof (induction i arbitrary: xs)
  case (Suc i)
  have "rnd (Suc i) < length xs" using Suc.prems(1) Suc.prems(2) [of "Suc i"] by simp
  then have "mset (xs[Suc i := xs ! rnd (Suc i), rnd (Suc i) := xs ! Suc i]) = mset xs"
    using Suc.prems(1) by (simp add: mset_swap)
  then show ?case using Suc by (simp add: Let_def)
qed simp

lemma mset_shuffle: "(\<And>k. rnd k \<le> k) \<Longrightarrow> mset (shuffleArray rnd xs) = mset xs"
  by (cases xs) (simp_all add: shuffleArray_def mset_shuffle_from)

lemma sent_fold:
  "gp_sent (fold (\<lambda>p. sendGossipMessage (p_gossipAddress p)) ps s) =
     gp_sent s @ map (\<lambda>p. (p_gossipAddress p, gossip_view s)) ps"
  by (induction ps arbitrary: s) (simp_all add: sendGossipMessage_def gossip_view_def)

text \<open>
  One round of gossip goes to \<open>gossipFanout\<close> different other peers, or to all of them if
  there are fewer, whatever the shuffle draws; each gets the whole table with the node's own
  heartbeat just raised. A node that knows no one writes to one of the seeds, if it has any.
\<close>

theorem gossip_round_targets:
  assumes rnd: "\<And>k. rnd k \<le> k" and s': "s' = gossipLoop now rnd s"
    and s1: "s1 = touch_self now s"
  shows "\<exists>ps. gp_sent s' = gp_sent s @ ps
     \<and> (other_peers s1 \<noteq> [] \<longrightarrow> (\<exists>qs. ps = map (\<lambda>p. (p_gossipAddress p, gossip_view s1)) qs
          \<and> mset qs \<subseteq># mset (other_peers s1)
          \<and> length qs = min (go_gossipFanout (gp_options s)) (length (other_peers s1))))
     \<and> (other_peers s1 = [] \<longrightarrow> (if go_seedNodes (gp_options s) = [] then ps = []
          else \<exists>a\<in>set (go_seedNodes (gp_options s)). ps = [(a, gossip_view s1)]))
     \<and> p_heartbeat (gp_self s1) = p_heartbeat (gp_self s) + 1
     \<and> jget (gp_peers s1) (p_id (gp_self s)) = Some (gp_self s1)"
proof -
  have sent1: "gp_sent s1 = gp_sent s" "gp_options s1 = gp_options s"
    and hb: "p_heartbeat (gp_self s1) = p_heartbeat (gp_self s) + 1"
    "jget (gp_peers s1) (p_id (gp_self s)) = Some (gp_self s1)"
    by (simp_all add: s1 touch_self_def Let_def)
  show ?thesis
  proof (cases "other_peers s1 = []")
    case False
    let ?qs = "take (go_gossipFanout (gp_options s)) (shuffleArray rnd (other_peers s1))"
    have perm: "mset (shuffleArray rnd (other_peers s1)) = mset (other_peers s1)"
      by (rule mset_shuffle) (rule rnd)
    have "mset ?qs \<subseteq># mset (other_peers s1)"
      unfolding perm [symmetric] by (metis append_take_drop_id mset_append mset_subset_eq_add_left)
    moreover have "length ?qs = min (go_gossipFanout (gp_options s)) (length (other_peers s1))"
      using perm [THEN arg_cong, of size] by simp
    moreover have "gp_sent s' = gp_sent s @ map (\<lambda>p. (p_gossipAddress p, gossip_view s1)) ?qs"
      using False by (simp add: s' gossipLoop_def Let_def s1 [symmetric] sent_fold sent1)
    ultimately show ?thesis using False hb by blast
  next
    case True
    have "rnd (length xs - 1) < length xs" if "xs \<noteq> []" for xs :: "string list"
      using rnd [of "length xs - 1"] that by (cases xs) auto
    then show ?thesis
      using True hb by (auto simp: s' gossipLoop_def Let_def s1 [symmetric] sendGossipMessage_def sent1)
  qed
qed

theorem gossip_round_targets_witness:
  "\<exists>ps. gp_sent (gossipLoop 10 (\<lambda>k. 0) (demo_knows ''a'')) = gp_sent (demo_knows ''a'') @ ps"
  using gossip_round_targets [of "\<lambda>k. 0" _ 10 "demo_knows ''a''", OF _ refl refl] by auto

end
