(* ===== verification/Auth.thy ===== *)
theory Auth
  imports Gossip Errors
begin

text \<open>
  Authentication of \<open>src/auth.ts\<close>: the Z85 encoding, the cookie authenticator with its cache of
  nonces, and the keyring that lets a cookie be replaced while nodes run. Key derivation, the
  HMAC and the fingerprint of the crypto library are parameters.
\<close>

unbundle bit_operations_syntax

section \<open>Z85\<close>

definition Z85_CHARS :: string where
  "Z85_CHARS = ''0123456789abcdefghijklmnopqrstuvwxyzABCDEFGHIJKLMNOPQRSTUVWXYZ.-:+=^!/*?&<>()[]{}@%$#''"

text \<open>\<open>indexOf\<close>: \<open>-1\<close> when absent.\<close>

fun indexOf :: "'a list \<Rightarrow> 'a \<Rightarrow> int" where
  "indexOf [] c = -1"
| "indexOf (x # xs) c = (if x = c then 0 else let r = indexOf xs c in if r < 0 then -1 else r + 1)"

text \<open>Four bytes as one number; the shifts are on 32 bits and \<open>>>> 0\<close> makes it unsigned.\<close>

definition z85_value :: "8 word \<Rightarrow> 8 word \<Rightarrow> 8 word \<Rightarrow> 8 word \<Rightarrow> 32 word" where
  "z85_value a b c d = push_bit 24 (ucast a) OR push_bit 16 (ucast b) OR push_bit 8 (ucast c) OR ucast d"

text \<open>\<open>chars[j]\<close> from \<open>j = 4\<close> down.\<close>

fun z85_digits :: "nat \<Rightarrow> nat \<Rightarrow> nat list" where
  "z85_digits 0 v = []"
| "z85_digits (Suc j) v = z85_digits j (v div 85) @ [v mod 85]"

fun z85_chunks :: "8 word list \<Rightarrow> string" where
  "z85_chunks (a # b # c # d # bs) = map ((!) Z85_CHARS) (z85_digits 5 (unat (z85_value a b c d))) @ z85_chunks bs"
| "z85_chunks _ = []"

definition z85Encode :: "8 word list \<Rightarrow> js_error + string" where
  "z85Encode bs =
     (if length bs mod 4 \<noteq> 0 then Inl (PlainError ''Z85 encode: data length must be a multiple of 4'')
      else Inr (z85_chunks bs))"

text \<open>The bytes of a decoded number: \<open>value >> n\<close> converts to 32 bits first.\<close>

definition z85_bytes :: "int \<Rightarrow> 8 word list" where
  "z85_bytes v = (let w = (word_of_int v :: 32 word) in [ucast (drop_bit 24 w), ucast (drop_bit 16 w), ucast (drop_bit 8 w), ucast w])"

definition z85_number :: "string \<Rightarrow> int" where
  "z85_number cs = fold (\<lambda>c v. v * 85 + indexOf Z85_CHARS c) cs 0"

fun z85_unchunk :: "string \<Rightarrow> 8 word list" where
  "z85_unchunk (c1 # c2 # c3 # c4 # c5 # cs) = z85_bytes (z85_number [c1, c2, c3, c4, c5]) @ z85_unchunk cs"
| "z85_unchunk _ = []"

definition z85Decode :: "string \<Rightarrow> js_error + 8 word list" where
  "z85Decode str =
     (if length str mod 5 \<noteq> 0 then Inl (PlainError ''Z85 decode: string length must be a multiple of 5'')
      else Inr (z85_unchunk str))"

section \<open>CookieAuthenticator\<close>

record auth_message = gossip_message +
  am_nonce :: "string option"
  am_hmac :: "string option"

record key_pair =
  kp_public :: string
  kp_secret :: string

text \<open>
  \<open>ca_cache\<close>: the nonces seen, with the time, in the order of arrival. A negative size of the
  cache, for which the eviction would not end, is not represented.
\<close>

record 'k cookie_auth =
  ca_key :: 'k
  ca_pair :: key_pair
  ca_nonceTtlMs :: int
  ca_nonceCacheMaxSize :: nat
  ca_cache :: "(string, int) jsmap"

record auth_options =
  ao_nonceTtlMs :: "int option"
  ao_nonceCacheMaxSize :: "nat option"
  ao_salt :: "string option"

definition MIN_COOKIE_LENGTH :: nat where
  "MIN_COOKIE_LENGTH = 16"

definition default_salt :: "auth_options \<Rightarrow> string" where
  "default_salt opts = (case ao_salt opts of None \<Rightarrow> ''libeam-v2'' | Some x \<Rightarrow> x)"

text \<open>
  \<open>derive\<close>: the HMAC key, the raw public key and the seed the crypto library derives from cookie
  and salt.
\<close>

definition deriveKeys ::
  "(string \<Rightarrow> string \<Rightarrow> 'k \<times> 8 word list \<times> 8 word list) \<Rightarrow> string \<Rightarrow> string \<Rightarrow> js_error + 'k \<times> key_pair" where
  "deriveKeys derive cookie salt =
     (case derive cookie salt of (key, rawPub, seed) \<Rightarrow>
        (case z85Encode rawPub of
           Inl e \<Rightarrow> Inl e
         | Inr pub \<Rightarrow> (case z85Encode seed of
             Inl e \<Rightarrow> Inl e
           | Inr sec \<Rightarrow> Inr (key, \<lparr>kp_public = pub, kp_secret = sec\<rparr>))))"

definition new_cookie_auth ::
  "(string \<Rightarrow> string \<Rightarrow> 'k \<times> 8 word list \<times> 8 word list) \<Rightarrow> string \<Rightarrow> auth_options \<Rightarrow> js_error + 'k cookie_auth" where
  "new_cookie_auth derive cookie opts =
     (if length cookie < MIN_COOKIE_LENGTH
      then Inl (PlainError (''Cookie must be at least '' @ js_nat MIN_COOKIE_LENGTH @ '' characters for secure key derivation.''))
      else case deriveKeys derive cookie (default_salt opts) of
        Inl e \<Rightarrow> Inl e
      | Inr (key, pair) \<Rightarrow>
          Inr \<lparr>ca_key = key, ca_pair = pair,
               ca_nonceTtlMs = (case ao_nonceTtlMs opts of None \<Rightarrow> 10000 | Some n \<Rightarrow> n),
               ca_nonceCacheMaxSize = (case ao_nonceCacheMaxSize opts of None \<Rightarrow> 10000 | Some n \<Rightarrow> n),
               ca_cache = []\<rparr>)"

text \<open>\<open>mac\<close>: the hex digest of the JSON text of sender, peers and nonce under a key.\<close>

type_synonym 'k mac = "'k \<Rightarrow> string \<times> peer_state list \<times> string \<Rightarrow> string"

definition computeGossipHmac :: "'k mac \<Rightarrow> 'k cookie_auth \<Rightarrow> auth_message \<Rightarrow> string \<Rightarrow> string" where
  "computeGossipHmac mac a m nonce = mac (ca_key a) (gm_senderId m, gm_peers m, nonce)"

definition signGossip :: "'k mac \<Rightarrow> string \<Rightarrow> 'k cookie_auth \<Rightarrow> auth_message \<Rightarrow> auth_message" where
  "signGossip mac nonce a m = m\<lparr>am_nonce := Some nonce, am_hmac := Some (computeGossipHmac mac a m nonce)\<rparr>"

text \<open>\<open>Buffer.from(text, 'hex')\<close>: pairs of digits, up to the first that is none.\<close>

definition hex_value :: "char \<Rightarrow> nat option" where
  "hex_value c =
     (let n = of_char c :: nat
      in if 48 \<le> n \<and> n \<le> 57 then Some (n - 48)
         else if 97 \<le> n \<and> n \<le> 102 then Some (n - 87)
         else if 65 \<le> n \<and> n \<le> 70 then Some (n - 55) else None)"

fun hex_bytes :: "string \<Rightarrow> nat list" where
  "hex_bytes (a # b # cs) =
     (case (hex_value a, hex_value b) of
        (Some x, Some y) \<Rightarrow> (16 * x + y) # hex_bytes cs
      | _ \<Rightarrow> [])"
| "hex_bytes _ = []"

definition evictExpiredNonces :: "int \<Rightarrow> 'k cookie_auth \<Rightarrow> 'k cookie_auth" where
  "evictExpiredNonces now a = a\<lparr>ca_cache := filter (\<lambda>(n, ts). \<not> now - ts > ca_nonceTtlMs a) (ca_cache a)\<rparr>"

definition evictOverflowNonces :: "'k cookie_auth \<Rightarrow> 'k cookie_auth" where
  "evictOverflowNonces a = a\<lparr>ca_cache := drop (length (ca_cache a) - ca_nonceCacheMaxSize a) (ca_cache a)\<rparr>"

definition truthy :: "string option \<Rightarrow> string option" where
  "truthy x = (case x of None \<Rightarrow> None | Some t \<Rightarrow> if t = '''' then None else Some t)"

definition verifyGossip :: "'k mac \<Rightarrow> int \<Rightarrow> auth_message \<Rightarrow> 'k cookie_auth \<Rightarrow> bool \<times> 'k cookie_auth" where
  "verifyGossip mac now m a =
     (case (truthy (am_nonce m), truthy (am_hmac m)) of
        (Some nonce, Some h) \<Rightarrow>
          if hex_bytes (computeGossipHmac mac a m nonce) \<noteq> hex_bytes h then (False, a)
          else (let a1 = evictExpiredNonces now a
                in if jhas (ca_cache a1) nonce then (False, a1)
                   else (True, evictOverflowNonces (a1\<lparr>ca_cache := jput (ca_cache a1) nonce now\<rparr>)))
      | _ \<Rightarrow> (False, a))"

section \<open>KeyringAuthenticator\<close>

record 'k keyring =
  kr_primary :: "'k cookie_auth"
  kr_secondary :: "'k cookie_auth option"
  kr_salt :: string

definition new_keyring ::
  "(string \<Rightarrow> string \<Rightarrow> 'k \<times> 8 word list \<times> 8 word list) \<Rightarrow> string \<Rightarrow> auth_options \<Rightarrow> js_error + 'k keyring" where
  "new_keyring derive cookie opts =
     map_sum id (\<lambda>a. \<lparr>kr_primary = a, kr_secondary = None, kr_salt = default_salt opts\<rparr>) (new_cookie_auth derive cookie opts)"

text \<open>The new authenticator gets the salt, not the other options.\<close>

definition install ::
  "(string \<Rightarrow> string \<Rightarrow> 'k \<times> 8 word list \<times> 8 word list) \<Rightarrow> string \<Rightarrow> 'k keyring \<Rightarrow> js_error + 'k keyring" where
  "install derive cookie k =
     (case kr_secondary k of
        Some _ \<Rightarrow> Inl (CookieRotationError ''A pending cookie is already installed. Call activate() or remove() first.'')
      | None \<Rightarrow>
          map_sum id (\<lambda>a. k\<lparr>kr_secondary := Some a\<rparr>)
            (new_cookie_auth derive cookie \<lparr>ao_nonceTtlMs = None, ao_nonceCacheMaxSize = None, ao_salt = Some (kr_salt k)\<rparr>))"

definition activate :: "'k keyring \<Rightarrow> js_error + key_pair \<times> 'k keyring" where
  "activate k =
     (case kr_secondary k of
        None \<Rightarrow> Inl (CookieRotationError ''No pending cookie installed. Call install() first.'')
      | Some a \<Rightarrow> Inr (ca_pair a, k\<lparr>kr_primary := a, kr_secondary := Some (kr_primary k)\<rparr>))"

definition remove_secondary :: "'k keyring \<Rightarrow> 'k keyring" where
  "remove_secondary k = k\<lparr>kr_secondary := None\<rparr>"

definition list_keys :: "(string \<Rightarrow> string) \<Rightarrow> 'k keyring \<Rightarrow> string list" where
  "list_keys fingerprint k = fingerprint (kp_public (ca_pair (kr_primary k))) #
     (case kr_secondary k of None \<Rightarrow> [] | Some a \<Rightarrow> [fingerprint (kp_public (ca_pair a))])"

definition kr_signGossip :: "'k mac \<Rightarrow> string \<Rightarrow> 'k keyring \<Rightarrow> auth_message \<Rightarrow> auth_message" where
  "kr_signGossip mac nonce k = signGossip mac nonce (kr_primary k)"

definition kr_verifyGossip :: "'k mac \<Rightarrow> int \<Rightarrow> auth_message \<Rightarrow> 'k keyring \<Rightarrow> bool \<times> 'k keyring" where
  "kr_verifyGossip mac now m k =
     (let (ok, p) = verifyGossip mac now m (kr_primary k); k1 = k\<lparr>kr_primary := p\<rparr>
      in if ok then (True, k1)
         else case kr_secondary k of
           None \<Rightarrow> (False, k1)
         | Some a \<Rightarrow> (let (ok2, a') = verifyGossip mac now m a in (ok2, k1\<lparr>kr_secondary := Some a'\<rparr>)))"

text \<open>\<open>NullAuthenticator\<close>\<close>

definition null_verifyGossip :: "auth_message \<Rightarrow> bool" where
  "null_verifyGossip m = True"


section \<open>The encoding can be undone\<close>

lemma Z85_length: "length Z85_CHARS = 85"
  by (simp add: Z85_CHARS_def)

lemma Z85_distinct: "distinct Z85_CHARS"
  by (simp add: Z85_CHARS_def)

lemma indexOf_nth: "distinct xs \<Longrightarrow> i < length xs \<Longrightarrow> indexOf xs (xs ! i) = int i"
proof (induction xs arbitrary: i)
  case (Cons x xs)
  then show ?case by (cases i) (auto simp: Let_def nth_equal_first_eq)
qed simp

lemma length_digits [simp]: "length (z85_digits n v) = n"
  by (induction n arbitrary: v) simp_all

lemma digits_small: "d \<in> set (z85_digits n v) \<Longrightarrow> d < 85"
  by (induction n arbitrary: v) auto

lemma number_digits: "v < 85 ^ n \<Longrightarrow> z85_number (map ((!) Z85_CHARS) (z85_digits n v)) = int v"
proof (induction n arbitrary: v)
  case (Suc n)
  have "v div 85 < 85 ^ n" using Suc.prems by (simp add: less_mult_imp_div_less mult.commute)
  note IH = Suc.IH [OF this]
  have "indexOf Z85_CHARS (Z85_CHARS ! (v mod 85)) = int (v mod 85)"
    by (rule indexOf_nth [OF Z85_distinct]) (simp add: Z85_length)
  then have "z85_number (map ((!) Z85_CHARS) (z85_digits (Suc n) v)) = int (v div 85) * 85 + int (v mod 85)"
    using IH by (simp add: z85_number_def)
  also have "\<dots> = int v" by (metis of_nat_add of_nat_mult of_nat_numeral div_mult_mod_eq)
  finally show ?case .
qed (simp add: z85_number_def)

lemma z85_bytes_value: "z85_bytes (uint (z85_value a b c d)) = [a, b, c, d]"
proof -
  let ?v = "z85_value a b c d"
  have e: "word_of_int (uint ?v) = ?v" by simp
  have "ucast (drop_bit 24 ?v) = a" "ucast (drop_bit 16 ?v) = b" "ucast (drop_bit 8 ?v) = c" "ucast ?v = d"
    by (rule bit_word_eqI, auto simp: z85_value_def bit_simps dest: bit_imp_le_length)+
  then show ?thesis unfolding z85_bytes_def e Let_def by simp
qed

lemma unchunk_append: "length cs = 5 \<Longrightarrow> z85_unchunk (cs @ ds) = z85_bytes (z85_number cs) @ z85_unchunk ds"
  by (simp add: length_Suc_conv numeral_eq_Suc) auto

lemma unchunk_chunks: "length bs mod 4 = 0 \<Longrightarrow> z85_unchunk (z85_chunks bs) = bs \<and> length (z85_chunks bs) mod 5 = 0"
proof (induction bs rule: z85_chunks.induct)
  case (1 a b c d bs)
  let ?v = "unat (z85_value a b c d)"
  have "?v < 2 ^ 32" using unsigned_less [of "z85_value a b c d"] by simp
  then have "?v < 85 ^ 5" by simp
  from number_digits [OF this] have "z85_number (map ((!) Z85_CHARS) (z85_digits 5 ?v)) = int ?v" .
  moreover have "length bs mod 4 = 0" using "1.prems" by (simp add: mod_Suc split: if_splits)
  ultimately show ?case using "1.IH" by (simp add: unchunk_append z85_bytes_value)
qed simp_all

text \<open>
  C28: Encoding keys and decoding them again gives the same bytes, for every sequence of bytes whose
  length is a multiple of four; of any other length the encoder throws.
\<close>

theorem z85_roundtrip:
  "(case z85Encode bs of Inr str \<Rightarrow> z85Decode str = Inr bs | Inl e \<Rightarrow> length bs mod 4 \<noteq> 0)"
  using unchunk_chunks [of bs] by (simp add: z85Encode_def z85Decode_def)


section \<open>Replays\<close>

lemma jput_new: "k \<notin> set (jkeys m) \<Longrightarrow> jput m k v = m @ [(k, v)]"
  by (induction m) auto

lemma verify_fields [simp]:
  "ca_nonceTtlMs (snd (verifyGossip mac now m a)) = ca_nonceTtlMs a"
  "ca_nonceCacheMaxSize (snd (verifyGossip mac now m a)) = ca_nonceCacheMaxSize a"
  "ca_key (snd (verifyGossip mac now m a)) = ca_key a"
  by (simp_all add: verifyGossip_def Let_def evictExpiredNonces_def evictOverflowNonces_def split: option.split)

lemma cache_accepted:
  assumes "verifyGossip mac now m a = (True, a')"
  obtains n where "truthy (am_nonce m) = Some n"
    "ca_cache a' = (let c = filter (\<lambda>(x, ts). \<not> now - ts > ca_nonceTtlMs a) (ca_cache a) @ [(n, now)]
       in drop (length c - ca_nonceCacheMaxSize a) c)"
    "\<not> jhas (filter (\<lambda>(x, ts). \<not> now - ts > ca_nonceTtlMs a) (ca_cache a)) n"
proof -
  obtain n h where n: "truthy (am_nonce m) = Some n" "truthy (am_hmac m) = Some h"
    using assms by (auto simp: verifyGossip_def split: option.splits)
  let ?c = "filter (\<lambda>(x, ts). \<not> now - ts > ca_nonceTtlMs a) (ca_cache a)"
  have no: "\<not> jhas ?c n" and a': "a' = evictOverflowNonces ((evictExpiredNonces now a)\<lparr>ca_cache := jput ?c n now\<rparr>)"
    using assms by (auto simp: verifyGossip_def n Let_def evictExpiredNonces_def split: if_splits)
  have "jput ?c n now = ?c @ [(n, now)]" using no by (simp add: jhas_iff jput_new del: set_map) 
  then show thesis using n(1) no by (intro that) (simp_all add: a' evictOverflowNonces_def evictExpiredNonces_def Let_def)
qed

text \<open>Where the nonce is in the cache: at most \<open>k\<close> entries came after it.\<close>

definition remembered :: "string \<Rightarrow> int \<Rightarrow> nat \<Rightarrow> 'k cookie_auth \<Rightarrow> bool" where
  "remembered n t k a \<longleftrightarrow> (\<exists>xs ys. ca_cache a = xs @ (n, t) # ys \<and> length ys \<le> k)"

lemma remembered_filter:
  assumes "remembered n t k a" and "P (n, t)"
  shows "remembered n t k (a\<lparr>ca_cache := filter P (ca_cache a)\<rparr>)"
proof -
  obtain xs ys where c: "ca_cache a = xs @ (n, t) # ys" "length ys \<le> k" using assms(1) by (auto simp: remembered_def)
  then have "filter P (ca_cache a) = filter P xs @ (n, t) # filter P ys" "length (filter P ys) \<le> k"
    using assms(2) by (simp_all add: le_trans [OF length_filter_le])
  then show ?thesis unfolding remembered_def by auto
qed

lemma remembered_accept:
  assumes "remembered n t k a" and "k + 1 < ca_nonceCacheMaxSize a"
  shows "remembered n t (Suc k) (evictOverflowNonces (a\<lparr>ca_cache := ca_cache a @ [x]\<rparr>))"
proof -
  obtain xs ys where c: "ca_cache a = xs @ (n, t) # ys" "length ys \<le> k" using assms(1) by (auto simp: remembered_def)
  let ?l = "length (ca_cache a @ [x]) - ca_nonceCacheMaxSize a"
  have "?l \<le> length xs" using c assms(2) by simp
  then have "drop ?l (ca_cache a @ [x]) = drop ?l xs @ (n, t) # (ys @ [x])" using c by simp
  then show ?thesis
    unfolding remembered_def evictOverflowNonces_def using c(2) by (intro exI [of _ "drop ?l xs"] exI [of _ "ys @ [x]"]) simp
qed

lemma remembered_rejects:
  assumes R: "remembered n t k a" and now: "now - t \<le> ca_nonceTtlMs a" and "truthy (am_nonce m) = Some n"
  shows "\<not> fst (verifyGossip mac now m a)"
proof -
  have "remembered n t k (evictExpiredNonces now a)"
    unfolding evictExpiredNonces_def by (rule remembered_filter [OF R]) (use now in simp)
  then have "jhas (ca_cache (evictExpiredNonces now a)) n" by (auto simp: remembered_def jhas_iff)
  then show ?thesis using assms(3) by (auto simp: verifyGossip_def Let_def split: option.split)
qed

lemma remembered_verify:
  assumes R: "remembered n t k a" and k: "k + 1 < ca_nonceCacheMaxSize a" and now: "now - t \<le> ca_nonceTtlMs a"
  shows "remembered n t (Suc k) (snd (verifyGossip mac now m a))"
proof -
  have E: "remembered n t k (evictExpiredNonces now a)"
    unfolding evictExpiredNonces_def by (rule remembered_filter [OF R]) (use now in simp)
  have weak: "remembered n t (Suc k) b" if "remembered n t k b" for b :: "'a cookie_auth"
    using that by (fastforce simp: remembered_def)
  have "remembered n t (Suc k) (evictOverflowNonces ((evictExpiredNonces now a)\<lparr>ca_cache := jput (ca_cache (evictExpiredNonces now a)) x now\<rparr>))"
    if no: "\<not> jhas (ca_cache (evictExpiredNonces now a)) x" for x
  proof -
    have "jput (ca_cache (evictExpiredNonces now a)) x now = ca_cache (evictExpiredNonces now a) @ [(x, now)]"
      using no by (simp add: jhas_iff jput_new del: set_map)
    moreover have "k + 1 < ca_nonceCacheMaxSize (evictExpiredNonces now a)" using k by (simp add: evictExpiredNonces_def)
    ultimately show ?thesis using remembered_accept [OF E] by simp
  qed
  then show ?thesis
    using weak [OF R] weak [OF E] by (simp add: verifyGossip_def Let_def split: option.split)
qed

text \<open>Messages that arrive one after the other.\<close>

definition verify_all :: "'k mac \<Rightarrow> (int \<times> auth_message) list \<Rightarrow> 'k cookie_auth \<Rightarrow> 'k cookie_auth" where
  "verify_all mac xs a = fold (\<lambda>(now, m) a. snd (verifyGossip mac now m a)) xs a"

lemma remembered_all:
  "remembered n t k a \<Longrightarrow> k + length xs < ca_nonceCacheMaxSize a \<Longrightarrow> \<forall>(now, m)\<in>set xs. now - t \<le> ca_nonceTtlMs a \<Longrightarrow>
     remembered n t (k + length xs) (verify_all mac xs a)"
proof (induction xs arbitrary: a k)
  case (Cons x xs)
  obtain now m where x: "x = (now, m)" by (cases x)
  have "remembered n t (Suc k) (snd (verifyGossip mac now m a))"
    using Cons.prems x by (intro remembered_verify) auto
  from Cons.IH [OF this] Cons.prems x show ?case by (simp add: verify_all_def)
qed (simp add: verify_all_def)

text \<open>
  C29: A replay is rejected: once a message has been accepted, no message with the same nonce is
  accepted again within the lifetime of nonces, whatever else arrives, as long as fewer messages
  arrive in between than the cache holds. (The cache of the example holds three nonces; the two
  others fill it.)
\<close>

theorem replay_rejected:
  assumes "verifyGossip mac t m a = (True, a')" and "length xs < ca_nonceCacheMaxSize a"
    and "\<forall>(now, x)\<in>set xs. now \<le> t + ca_nonceTtlMs a" and "t' \<le> t + ca_nonceTtlMs a"
    and "am_nonce m' = am_nonce m"
  shows "\<not> fst (verifyGossip mac t' m' (verify_all mac xs a'))"
proof -
  obtain n where n: "truthy (am_nonce m) = Some n"
    "ca_cache a' = (let c = filter (\<lambda>(x, ts). \<not> t - ts > ca_nonceTtlMs a) (ca_cache a) @ [(n, t)]
       in drop (length c - ca_nonceCacheMaxSize a) c)"
    by (rule cache_accepted [OF assms(1)])
  have f: "ca_nonceTtlMs a' = ca_nonceTtlMs a" "ca_nonceCacheMaxSize a' = ca_nonceCacheMaxSize a"
    using verify_fields [of mac t m a] assms(1) by simp_all
  have "remembered n t 0 a'" using assms(2) by (auto simp: remembered_def n(2) Let_def)
  then have R: "remembered n t (0 + length xs) (verify_all mac xs a')"
    using assms(2,3) by (intro remembered_all) (auto simp: f)
  have g: "ca_nonceTtlMs (verify_all mac xs b) = ca_nonceTtlMs b \<and>
      ca_nonceCacheMaxSize (verify_all mac xs b) = ca_nonceCacheMaxSize b" for b
    by (induction xs arbitrary: b) (auto simp: verify_all_def)
  show ?thesis
    by (rule remembered_rejects [OF R]) (use assms n g f in auto)
qed

text \<open>A message with an HMAC that is its own key's, in the examples below.\<close>

definition toy_mac :: "string mac" where
  "toy_mac k x = k @ ''00''"

definition toy_auth :: "string cookie_auth" where
  "toy_auth = \<lparr>ca_key = ''ab'', ca_pair = \<lparr>kp_public = '''', kp_secret = ''''\<rparr>, ca_nonceTtlMs = 10000, ca_nonceCacheMaxSize = 3, ca_cache = []\<rparr>"

definition toy_message :: "string \<Rightarrow> auth_message" where
  "toy_message n = signGossip toy_mac n toy_auth \<lparr>gm_version = Some 1, gm_senderId = ''a'', gm_peers = [], am_nonce = None, am_hmac = None\<rparr>"

lemma toy_accepted:
  "n \<noteq> '''' \<Longrightarrow> \<not> jhas c n \<Longrightarrow> \<forall>(x, ts)\<in>set c. ts = 0 \<Longrightarrow> now \<le> 10000 \<Longrightarrow> length c < 3 \<Longrightarrow>
     verifyGossip toy_mac now (toy_message n) (toy_auth\<lparr>ca_cache := c\<rparr>) = (True, toy_auth\<lparr>ca_cache := c @ [(n, now)]\<rparr>)"
proof -
  assume a: "n \<noteq> ''''" "\<not> jhas c n" "\<forall>(x, ts)\<in>set c. ts = 0" "now \<le> 10000" "length c < 3"
  have "filter (\<lambda>(x, ts). \<not> now - ts > 10000) c = c" using a by (intro filter_True) auto
  then show ?thesis using a
    by (simp add: verifyGossip_def toy_message_def signGossip_def computeGossipHmac_def toy_mac_def toy_auth_def truthy_def
        evictExpiredNonces_def evictOverflowNonces_def jhas_iff jput_new)
qed

theorem replay_rejected_witness:
  "\<not> fst (verifyGossip toy_mac 10000 (toy_message ''n1'')
      (verify_all toy_mac [(500, toy_message ''n2''), (600, toy_message ''n3'')] (toy_auth\<lparr>ca_cache := [(''n1'', 0)]\<rparr>)))"
proof (rule replay_rejected [where t = 0 and a = toy_auth and m = "toy_message ''n1''"])
  show "verifyGossip toy_mac 0 (toy_message ''n1'') toy_auth = (True, toy_auth\<lparr>ca_cache := [(''n1'', 0)]\<rparr>)"
    using toy_accepted [of "''n1''" "[]" 0] by (simp add: toy_auth_def jhas_def)
qed (simp_all add: toy_auth_def)

text \<open>
  After the lifetime the nonce is forgotten, the message carries no time, and its HMAC is as valid
  as before: whoever recorded an accepted message can have it accepted once more.
\<close>

theorem replay_after_ttl:
  assumes "verifyGossip mac t m a = (True, a')" and "t' > t + ca_nonceTtlMs a"
    and "\<forall>n ts. (n, ts) \<in> set (ca_cache a) \<longrightarrow> ts \<le> t"
  shows "fst (verifyGossip mac t' m a')"
proof -
  obtain n where n: "truthy (am_nonce m) = Some n"
    "ca_cache a' = (let c = filter (\<lambda>(x, ts). \<not> t - ts > ca_nonceTtlMs a) (ca_cache a) @ [(n, t)]
       in drop (length c - ca_nonceCacheMaxSize a) c)"
    by (rule cache_accepted [OF assms(1)])
  have f: "ca_nonceTtlMs a' = ca_nonceTtlMs a" "ca_key a' = ca_key a"
    using verify_fields [of mac t m a] assms(1) by simp_all
  have "ts \<le> t" if "(x, ts) \<in> set (ca_cache a')" for x ts
    using in_set_dropD [OF that [unfolded n(2) Let_def]] assms(3) by auto
  then have "ca_cache (evictExpiredNonces t' a') = []"
    using assms(2) f by (force simp: evictExpiredNonces_def filter_empty_conv)
  then show ?thesis
    using assms(1) n(1) f
    by (auto simp: verifyGossip_def Let_def jhas_def computeGossipHmac_def split: option.splits if_splits)
qed

theorem replay_after_ttl_witness:
  "fst (verifyGossip toy_mac 10001 (toy_message ''n1'') (toy_auth\<lparr>ca_cache := [(''n1'', 0)]\<rparr>))"
proof (rule replay_after_ttl [where t = 0 and a = toy_auth])
  show "verifyGossip toy_mac 0 (toy_message ''n1'') toy_auth = (True, toy_auth\<lparr>ca_cache := [(''n1'', 0)]\<rparr>)"
    using toy_accepted [of "''n1''" "[]" 0] by (simp add: toy_auth_def jhas_def)
qed (simp_all add: toy_auth_def)


section \<open>Rotation of the cookie\<close>

text \<open>
  The life of a node's keyring while the cookie \<open>old\<close> is replaced by \<open>new\<close>: after 0 steps
  created, then installed, activated and removed, verifying messages at any time.
\<close>

inductive rotation ::
  "(string \<Rightarrow> string \<Rightarrow> 'k \<times> 8 word list \<times> 8 word list) \<Rightarrow> 'k mac \<Rightarrow> string \<Rightarrow> string \<Rightarrow> auth_options \<Rightarrow> nat \<Rightarrow> 'k keyring \<Rightarrow> bool"
  for derive mac old new opts where
  rot_new: "new_keyring derive old opts = Inr k \<Longrightarrow> rotation derive mac old new opts 0 k"
| rot_install: "rotation derive mac old new opts 0 k \<Longrightarrow> install derive new k = Inr k' \<Longrightarrow> rotation derive mac old new opts 1 k'"
| rot_activate: "rotation derive mac old new opts 1 k \<Longrightarrow> activate k = Inr (pair, k') \<Longrightarrow> rotation derive mac old new opts 2 k'"
| rot_remove: "rotation derive mac old new opts 2 k \<Longrightarrow> rotation derive mac old new opts 3 (remove_secondary k)"
| rot_verify: "rotation derive mac old new opts i k \<Longrightarrow> rotation derive mac old new opts i (snd (kr_verifyGossip mac now m k))"

definition kr_keys :: "'k keyring \<Rightarrow> 'k list" where
  "kr_keys k = ca_key (kr_primary k) # (case kr_secondary k of None \<Rightarrow> [] | Some a \<Rightarrow> [ca_key a])"

definition stage_keys :: "'k \<Rightarrow> 'k \<Rightarrow> nat \<Rightarrow> 'k list" where
  "stage_keys ko kn i = [[ko], [ko, kn], [kn, ko], [kn]] ! i"

lemma new_cookie_auth_key: "new_cookie_auth derive c opts = Inr a \<Longrightarrow> ca_key a = fst (derive c (default_salt opts))"
  by (auto simp: new_cookie_auth_def deriveKeys_def split: if_splits sum.splits prod.splits)

lemma map_sum_Inr: "map_sum id f x = Inr y \<longleftrightarrow> (\<exists>a. x = Inr a \<and> y = f a)"
  by (cases x) auto

lemma verify_key: "verifyGossip mac now m a = (b, a') \<Longrightarrow> ca_key a' = ca_key a"
  by (metis snd_conv verify_fields(3))

lemma kr_verify_keys [simp]: "kr_keys (snd (kr_verifyGossip mac now m k)) = kr_keys k"
  "kr_salt (snd (kr_verifyGossip mac now m k)) = kr_salt k"
  by (cases "verifyGossip mac now m (kr_primary k)"; cases "kr_secondary k";
      cases "verifyGossip mac now m (the (kr_secondary k))"; simp add: kr_verifyGossip_def kr_keys_def Let_def verify_key)+

lemma rotation_keys:
  "rotation derive mac old new opts i k \<Longrightarrow>
     i < 4 \<and> kr_salt k = default_salt opts \<and>
     kr_keys k = stage_keys (fst (derive old (default_salt opts))) (fst (derive new (default_salt opts))) i"
proof (induction rule: rotation.induct)
  case (rot_new k)
  then show ?case by (auto simp: new_keyring_def map_sum_Inr kr_keys_def stage_keys_def dest: new_cookie_auth_key)
next
  case (rot_install k k')
  then show ?case
    by (auto simp: install_def map_sum_Inr kr_keys_def stage_keys_def default_salt_def dest!: new_cookie_auth_key split: option.splits)
next
  case (rot_activate k pair k')
  then show ?case by (auto simp: activate_def kr_keys_def stage_keys_def split: option.splits)
next
  case (rot_remove k)
  then show ?case by (auto simp: remove_secondary_def kr_keys_def stage_keys_def split: option.splits)
qed simp

lemma kr_verify_fresh:
  assumes nonce: "nonce \<noteq> ''''" and h: "\<And>k. mac k (gm_senderId m, gm_peers m, nonce) \<noteq> ''''"
    and fresh: "\<And>a. a \<in> {kr_primary kb} \<union> set_option (kr_secondary kb) \<Longrightarrow> \<not> jhas (ca_cache a) nonce"
  shows "fst (kr_verifyGossip mac now (kr_signGossip mac nonce ka m) kb) \<longleftrightarrow>
    (\<exists>k\<in>set (kr_keys kb). hex_bytes (mac k (gm_senderId m, gm_peers m, nonce)) =
      hex_bytes (mac (ca_key (kr_primary ka)) (gm_senderId m, gm_peers m, nonce)))"
proof -
  have v: "fst (verifyGossip mac now (kr_signGossip mac nonce ka m) a) \<longleftrightarrow>
      hex_bytes (mac (ca_key a) (gm_senderId m, gm_peers m, nonce)) =
      hex_bytes (mac (ca_key (kr_primary ka)) (gm_senderId m, gm_peers m, nonce))"
    if "\<not> jhas (ca_cache a) nonce" for a
  proof -
    have "\<not> jhas (ca_cache (evictExpiredNonces now a)) nonce"
      using that by (auto simp: jhas_iff evictExpiredNonces_def)
    then show ?thesis
      using nonce h by (simp add: verifyGossip_def kr_signGossip_def signGossip_def computeGossipHmac_def truthy_def Let_def)
  qed
  show ?thesis
    using v [of "kr_primary kb"] v [of "the (kr_secondary kb)"] fresh
    by (auto simp: kr_verifyGossip_def kr_keys_def Let_def split: option.split prod.split)
qed

text \<open>
  While the cookie is rotated, a node accepts a fresh message of another exactly when the sender
  has not activated and the receiver has not removed the old cookie, or the sender has activated
  and the receiver has installed the new one. So two nodes accept each other's messages whenever
  their stages differ by at most one, and a node that activates before all others have installed
  is not heard by them.
\<close>

theorem rotation_window:
  assumes "rotation derive mac old new opts i ka" and "rotation derive mac old new opts j kb"
    and "nonce \<noteq> ''''" and "\<And>k. mac k (gm_senderId m, gm_peers m, nonce) \<noteq> ''''"
    and "\<And>a. a \<in> {kr_primary kb} \<union> set_option (kr_secondary kb) \<Longrightarrow> \<not> jhas (ca_cache a) nonce"
    and "hex_bytes (mac (fst (derive old (default_salt opts))) (gm_senderId m, gm_peers m, nonce)) \<noteq>
      hex_bytes (mac (fst (derive new (default_salt opts))) (gm_senderId m, gm_peers m, nonce))"
  shows "fst (kr_verifyGossip mac now (kr_signGossip mac nonce ka m) kb) \<longleftrightarrow> (if i < 2 then j \<le> 2 else 1 \<le> j)"
proof -
  have k: "kr_keys ka = stage_keys (fst (derive old (default_salt opts))) (fst (derive new (default_salt opts))) i"
    "kr_keys kb = stage_keys (fst (derive old (default_salt opts))) (fst (derive new (default_salt opts))) j" "i < 4" "j < 4"
    using rotation_keys assms(1,2) by blast+
  have p: "ca_key (kr_primary ka) = hd (kr_keys ka)" by (simp add: kr_keys_def)
  have "i = 0 \<or> i = 1 \<or> i = 2 \<or> i = 3" "j = 0 \<or> j = 1 \<or> j = 2 \<or> j = 3" using k by auto
  moreover have "fst (kr_verifyGossip mac now (kr_signGossip mac nonce ka m) kb) \<longleftrightarrow>
    (\<exists>k\<in>set (kr_keys kb). hex_bytes (mac k (gm_senderId m, gm_peers m, nonce)) =
      hex_bytes (mac (hd (kr_keys ka)) (gm_senderId m, gm_peers m, nonce)))"
    unfolding p [symmetric] by (rule kr_verify_fresh) (use assms(3-5) in blast)+
  ultimately show ?thesis
    unfolding k using assms(6) by (elim disjE) (simp_all add: stage_keys_def)
qed


text \<open>The node that activated first, and one that has not installed the new cookie.\<close>

definition toy_derive :: "string \<Rightarrow> string \<Rightarrow> string \<times> 8 word list \<times> 8 word list" where
  "toy_derive c s = (c, [], [])"

definition toy_cookie :: "string \<Rightarrow> string cookie_auth" where
  "toy_cookie c = \<lparr>ca_key = c, ca_pair = \<lparr>kp_public = '''', kp_secret = ''''\<rparr>, ca_nonceTtlMs = 10000,
     ca_nonceCacheMaxSize = 10000, ca_cache = []\<rparr>"

definition toy_ring :: "string \<Rightarrow> string option \<Rightarrow> string keyring" where
  "toy_ring c d = \<lparr>kr_primary = toy_cookie c, kr_secondary = map_option toy_cookie d, kr_salt = ''libeam-v2''\<rparr>"

definition no_auth_options :: auth_options where
  "no_auth_options = \<lparr>ao_nonceTtlMs = None, ao_nonceCacheMaxSize = None, ao_salt = None\<rparr>"

lemma toy_new: "16 \<le> length c \<Longrightarrow> new_cookie_auth toy_derive c \<lparr>ao_nonceTtlMs = None, ao_nonceCacheMaxSize = None, ao_salt = x\<rparr> = Inr (toy_cookie c)"
  by (simp add: new_cookie_auth_def MIN_COOKIE_LENGTH_def deriveKeys_def toy_derive_def toy_cookie_def z85Encode_def)

lemma toy_rotation:
  assumes "16 \<le> length old" and "16 \<le> length new"
  shows "rotation toy_derive mac old new no_auth_options 0 (toy_ring old None)"
    and "rotation toy_derive mac old new no_auth_options 2 (toy_ring new (Some old))"
proof -
  show 0: "rotation toy_derive mac old new no_auth_options 0 (toy_ring old None)"
    by (rule rot_new) (simp add: new_keyring_def no_auth_options_def toy_new assms toy_ring_def default_salt_def)
  have 1: "rotation toy_derive mac old new no_auth_options 1 (toy_ring old (Some new))"
    by (rule rot_install [OF 0]) (simp add: install_def toy_ring_def toy_new assms)
  show "rotation toy_derive mac old new no_auth_options 2 (toy_ring new (Some old))"
    by (rule rot_activate [OF 1]) (simp add: activate_def toy_ring_def)
qed

theorem rotation_window_witness:
  "\<not> fst (kr_verifyGossip toy_mac 5
      (kr_signGossip toy_mac ''n1'' (toy_ring ''bbbbbbbbbbbbbbbb'' (Some ''aaaaaaaaaaaaaaaa''))
        \<lparr>gm_version = Some 1, gm_senderId = ''a'', gm_peers = [], am_nonce = None, am_hmac = None\<rparr>)
      (toy_ring ''aaaaaaaaaaaaaaaa'' None))"
proof -
  let ?o = "''aaaaaaaaaaaaaaaa''" and ?n = "''bbbbbbbbbbbbbbbb''"
  let ?m = "\<lparr>gm_version = Some 1, gm_senderId = ''a'', gm_peers = [], am_nonce = None, am_hmac = None\<rparr>"
  have l: "16 \<le> length ?o" "16 \<le> length ?n" by simp_all
  have "hex_bytes (toy_mac ?o x) \<noteq> hex_bytes (toy_mac ?n x)" for x
    by (simp add: toy_mac_def hex_value_def Let_def)
  then show ?thesis
    using rotation_window [where nonce = "''n1''" and m = ?m and mac = toy_mac and now = 5,
        OF toy_rotation(2) [OF l] toy_rotation(1) [OF l]]
    by (simp add: toy_ring_def toy_cookie_def jhas_def toy_derive_def toy_mac_def)
qed

end
