(* ===== verification/Create_System.thy ===== *)
theory Create_System
  imports Gossip Auth
begin

text \<open>
  \<open>src/create_system.ts\<close>: waiting for a cluster to be ready, the checks and the authentication of a
  distributed configuration, and the order in which a system is shut down. Sockets, and the
  construction of the components, are not modelled.
\<close>

section \<open>Waiting for the cluster\<close>

record wait_options =
  wo_minMembers :: "int option"
  wo_nodes :: "string list option"
  wo_timeout :: "int option"

text \<open>A count of \<open>0\<close> is as good as none.\<close>

definition isClusterReady :: "string list \<Rightarrow> int option \<Rightarrow> string list option \<Rightarrow> bool" where
  "isClusterReady members minMembers nodes =
     (if (case minMembers of None \<Rightarrow> False | Some n \<Rightarrow> n \<noteq> 0 \<and> int (length members) < n) then False
      else case nodes of None \<Rightarrow> True | Some ns \<Rightarrow> \<forall>n\<in>set ns. n \<in> set members)"

definition wait_ms :: "wait_options \<Rightarrow> int" where
  "wait_ms opts = (case wo_timeout opts of None \<Rightarrow> 30000 | Some t \<Rightarrow> t)"

text \<open>A cluster of one process: its members never change, so there is nothing to wait for.\<close>

definition waitForCluster_local :: "string list \<Rightarrow> wait_options \<Rightarrow> js_error + unit" where
  "waitForCluster_local members opts =
     (if (case wo_minMembers opts of None \<Rightarrow> True | Some n \<Rightarrow> n = 0) \<and> (case wo_nodes opts of None \<Rightarrow> True | Some ns \<Rightarrow> length ns = 0)
      then Inr ()
      else if isClusterReady members (wo_minMembers opts) (wo_nodes opts) then Inr ()
      else Inl (TimeoutError ''waitForCluster'' (wait_ms opts)))"

text \<open>The promise of a distributed one; the listener is there as long as it is waiting.\<close>

datatype waiter = Waiting | Ready | Failed js_error

definition effective_min :: "wait_options \<Rightarrow> int" where
  "effective_min opts = (case wo_minMembers opts of None \<Rightarrow> 2 | Some n \<Rightarrow> n)"

definition requiredNodes :: "wait_options \<Rightarrow> string list option" where
  "requiredNodes opts = (case wo_nodes opts of None \<Rightarrow> None | Some ns \<Rightarrow> if length ns = 0 then None else Some ns)"

definition ready_now :: "wait_options \<Rightarrow> int \<Rightarrow> gossip \<Rightarrow> bool" where
  "ready_now opts now s = isClusterReady (getMembers now s) (Some (effective_min opts)) (requiredNodes opts)"

definition waitForCluster :: "wait_options \<Rightarrow> int \<Rightarrow> gossip \<Rightarrow> waiter" where
  "waitForCluster opts now s = (if ready_now opts now s then Ready else Waiting)"

definition onMemberJoin :: "wait_options \<Rightarrow> int \<Rightarrow> gossip \<Rightarrow> waiter \<Rightarrow> waiter" where
  "onMemberJoin opts now s w = (case w of Waiting \<Rightarrow> if ready_now opts now s then Ready else Waiting | _ \<Rightarrow> w)"

definition wait_expires :: "wait_options \<Rightarrow> waiter \<Rightarrow> waiter" where
  "wait_expires opts w = (case w of Waiting \<Rightarrow> Failed (TimeoutError ''waitForCluster'' (wait_ms opts)) | _ \<Rightarrow> w)"

text \<open>
  The listener runs while a gossip message is being merged, after each peer whose merging
  announces a member.
\<close>

definition announces :: "gossip \<Rightarrow> gossip \<Rightarrow> bool" where
  "announces s s' = (case drop (length (gp_events s)) (gp_events s') of MemberJoin _ # _ \<Rightarrow> True | _ \<Rightarrow> False)"

definition merge_waiting :: "wait_options \<Rightarrow> int \<Rightarrow> peer_state \<Rightarrow> gossip \<times> waiter \<Rightarrow> gossip \<times> waiter" where
  "merge_waiting opts now p = (\<lambda>(s, w).
     let s' = merge_peer now p s in (s', if announces s s' then onMemberJoin opts now s' w else w))"

definition gossip_waiting :: "wait_options \<Rightarrow> int \<Rightarrow> gossip_message \<Rightarrow> gossip \<times> waiter \<Rightarrow> gossip \<times> waiter" where
  "gossip_waiting opts now m c =
     (if gm_version m \<noteq> None \<and> gm_version m \<noteq> Some GOSSIP_PROTOCOL_VERSION then c
      else fold (merge_waiting opts now) (gm_peers m) c)"

text \<open>A run while waiting: what happens, and when.\<close>

datatype wait_event = Gossip int gossip_message | Detect int | Beat int "nat \<Rightarrow> nat" | Expires

fun wait_step :: "wait_options \<Rightarrow> wait_event \<Rightarrow> gossip \<times> waiter \<Rightarrow> gossip \<times> waiter" where
  "wait_step opts (Gossip now m) c = gossip_waiting opts now m c"
| "wait_step opts (Detect now) (s, w) = (failureDetectionLoop now s, w)"
| "wait_step opts (Beat now rnd) (s, w) = (gossipLoop now rnd s, w)"
| "wait_step opts Expires (s, w) = (s, wait_expires opts w)"

section \<open>The configuration\<close>

text \<open>\<open>'a\<close> is a custom authenticator.\<close>

record 'a distributed_config =
  dc_port :: "int option"
  dc_ports :: "(int \<times> int \<times> int) option"
  dc_cookie :: "string option"
  dc_salt :: "string option"
  dc_auth :: "'a option"

datatype ('a, 'k) gossip_auth = CustomAuth 'a | KeyringAuth "'k keyring"

record ('a, 'k) resolved_auth =
  ra_gossipAuth :: "('a, 'k) gossip_auth option"
  ra_curveKeyPair :: "key_pair option"
  ra_keyringAuth :: "'k keyring option"

definition first_text :: "string option \<Rightarrow> string option \<Rightarrow> string option" where
  "first_text a b = (case a of None \<Rightarrow> b | Some x \<Rightarrow> Some x)"

definition resolveAuth ::
  "(string \<Rightarrow> string \<Rightarrow> 'k \<times> 8 word list \<times> 8 word list) \<Rightarrow> string option \<Rightarrow> 'a distributed_config \<Rightarrow>
     js_error + ('a, 'k) resolved_auth" where
  "resolveAuth derive env_cookie cfg =
     (case truthy (first_text (dc_cookie cfg) env_cookie) of
        Some cookie \<Rightarrow>
          map_sum id
            (\<lambda>k. \<lparr>ra_gossipAuth = (case dc_auth cfg of None \<Rightarrow> Some (KeyringAuth k) | Some a \<Rightarrow> Some (CustomAuth a)),
                  ra_curveKeyPair = Some (ca_pair (kr_primary k)), ra_keyringAuth = Some k\<rparr>)
            (new_keyring derive cookie
               \<lparr>ao_nonceTtlMs = None, ao_nonceCacheMaxSize = None,
                ao_salt = Some (case dc_salt cfg of None \<Rightarrow> ''libeam-v2'' | Some x \<Rightarrow> x)\<rparr>)
      | None \<Rightarrow> Inr \<lparr>ra_gossipAuth = map_option CustomAuth (dc_auth cfg), ra_curveKeyPair = None, ra_keyringAuth = None\<rparr>)"

definition port_missing :: js_error where
  "port_missing = PlainError (''Distributed config requires either '' @ [CHR 0x27] @ ''port'' @ [CHR 0x27] @ '' or '' @
     [CHR 0x27] @ ''ports'' @ [CHR 0x27])"

definition resolve_ports :: "'a distributed_config \<Rightarrow> js_error + int \<times> int \<times> int" where
  "resolve_ports cfg =
     (case dc_ports cfg of
        Some p \<Rightarrow> Inr p
      | None \<Rightarrow>
          (case dc_port cfg of
             None \<Rightarrow> Inl port_missing
           | Some p \<Rightarrow> if p = 0 then Inl port_missing
                       else Inr (p, p + 1, p + 2)))"

text \<open>
  \<open>createDistributedSystem\<close> up to the first socket: the ports and the authentication it goes on with.
  \<open>curve\<close> says whether the library has the encryption.
\<close>

definition check_config ::
  "(string \<Rightarrow> string \<Rightarrow> 'k \<times> 8 word list \<times> 8 word list) \<Rightarrow> bool \<Rightarrow> string option \<Rightarrow> 'a distributed_config \<Rightarrow>
     js_error + (int \<times> int \<times> int) \<times> ('a, 'k) resolved_auth" where
  "check_config derive curve env_cookie cfg =
     (if dc_cookie cfg = Some ''''
      then Inl (PlainError ''cookie must not be empty. Provide a non-empty string or omit the option.'')
      else case resolve_ports cfg of
        Inl e \<Rightarrow> Inl e
      | Inr ports \<Rightarrow>
          (case resolveAuth derive env_cookie cfg of
             Inl e \<Rightarrow> Inl e
           | Inr ra \<Rightarrow>
               if ra_curveKeyPair ra \<noteq> None \<and> \<not> curve
               then Inl (PlainError (''CurveZMQ not available: libzmq was built without libsodium. '' @
                      ''Install zeromq with Curve support or run without authentication.''))
               else Inr (ports, ra)))"

section \<open>The end\<close>

datatype shutdown_part = ShutdownSystem | LeaveCluster | DisconnectTransport | DisconnectRegistry

text \<open>
  The parts in the order of \<open>shutdown\<close>; each is awaited, and one that fails ends it. \<open>ok\<close> says which
  succeed. The result is what was begun, and whether the shutdown succeeded.
\<close>

fun run_parts :: "(shutdown_part \<Rightarrow> bool) \<Rightarrow> shutdown_part list \<Rightarrow> shutdown_part list \<times> bool" where
  "run_parts ok [] = ([], True)"
| "run_parts ok (p # ps) = (if ok p then (case run_parts ok ps of (ps', b) \<Rightarrow> (p # ps', b)) else ([p], False))"

definition system_shutdown :: "(shutdown_part \<Rightarrow> bool) \<Rightarrow> bool \<Rightarrow> shutdown_part list \<times> bool" where
  "system_shutdown ok distributed =
     run_parts ok (ShutdownSystem # (if distributed then [LeaveCluster] else []) @ [DisconnectTransport, DisconnectRegistry])"

section \<open>When a wait ends\<close>

lemma fold_merge_waiting:
  "fst (fold (merge_waiting opts now) ps (s, w)) = fold (merge_peer now) ps s"
  "w \<noteq> Waiting \<Longrightarrow> snd (fold (merge_waiting opts now) ps (s, w)) = w"
proof -
  show "fst (fold (merge_waiting opts now) ps (s, w)) = fold (merge_peer now) ps s"
    by (induction ps arbitrary: s w) (simp_all add: merge_waiting_def Let_def)
  show "w \<noteq> Waiting \<Longrightarrow> snd (fold (merge_waiting opts now) ps (s, w)) = w"
    by (induction ps arbitrary: s w) (auto simp: merge_waiting_def Let_def onMemberJoin_def split: waiter.split)
qed

lemma split_last: "(\<exists>qs q rs. ps @ [p] = qs @ q # rs \<and> P qs q) \<longleftrightarrow> (\<exists>qs q rs. ps = qs @ q # rs \<and> P qs q) \<or> P ps p"
proof
  assume "\<exists>qs q rs. ps @ [p] = qs @ q # rs \<and> P qs q"
  then obtain qs q rs where "ps @ [p] = qs @ q # rs" "P qs q" by blast
  then show "(\<exists>qs q rs. ps = qs @ q # rs \<and> P qs q) \<or> P ps p" by (cases rs rule: rev_cases) auto
next
  assume "(\<exists>qs q rs. ps = qs @ q # rs \<and> P qs q) \<or> P ps p"
  then show "\<exists>qs q rs. ps @ [p] = qs @ q # rs \<and> P qs q"
  proof
    assume "\<exists>qs q rs. ps = qs @ q # rs \<and> P qs q"
    then obtain qs q rs where "ps @ [p] = qs @ q # (rs @ [p])" "P qs q" by auto
    then show ?thesis by blast
  qed blast
qed

text \<open>
  A wait for the cluster ends well exactly at a join: while a gossip message is merged, the promise
  is resolved if and only if the merging of one of its peers announced a member and left a table
  whose live peers are enough; the later peers of the message do not matter. The table becomes the
  one it would have become without a waiter.
\<close>

theorem wait_ends_at_join:
  assumes "M = (\<lambda>qs. fold (merge_peer now) qs s)"
  shows "fst (fold (merge_waiting opts now) ps (s, Waiting)) = M ps \<and>
     snd (fold (merge_waiting opts now) ps (s, Waiting)) =
       (if \<exists>qs q rs. ps = qs @ q # rs \<and> announces (M qs) (M (qs @ [q])) \<and> ready_now opts now (M (qs @ [q])) then Ready else Waiting)"
proof -
  define E where "E ps \<longleftrightarrow> (\<exists>qs q rs. ps = qs @ q # rs \<and> announces (M qs) (M (qs @ [q])) \<and> ready_now opts now (M (qs @ [q])))" for ps
  have E: "E (ps @ [p]) \<longleftrightarrow> E ps \<or> announces (M ps) (M (ps @ [p])) \<and> ready_now opts now (M (ps @ [p]))" for ps p
    unfolding E_def by (rule split_last)
  have "snd (fold (merge_waiting opts now) ps (s, Waiting)) = (if E ps then Ready else Waiting)"
  proof (induction ps rule: rev_induct)
    case (snoc p ps)
    have "snd (fold (merge_waiting opts now) (ps @ [p]) (s, Waiting)) =
        (if announces (M ps) (M (ps @ [p]))
         then onMemberJoin opts now (M (ps @ [p])) (snd (fold (merge_waiting opts now) ps (s, Waiting)))
         else snd (fold (merge_waiting opts now) ps (s, Waiting)))"
      using fold_merge_waiting(1) [of opts now ps s Waiting] by (simp add: merge_waiting_def Let_def split_beta assms)
    then show ?case by (simp only: snoc.IH E) (simp add: onMemberJoin_def)
  qed (simp add: E_def)
  then show ?thesis using fold_merge_waiting(1) assms by (simp only: E_def)
qed

text \<open>Three members in one message, of which the second makes two with the node itself.\<close>

theorem wait_ends_at_join_witness:
  "snd (fold (merge_waiting \<lparr>wo_minMembers = None, wo_nodes = None, wo_timeout = None\<rparr> 100)
     [demo_peer_entry ''b'' 3, demo_peer_entry ''c'' 3] (demo_gossip ''a'', Waiting)) = Ready"
proof -
  let ?M = "\<lambda>qs. fold (merge_peer 100) qs (demo_gossip ''a'')"
  have "\<exists>qs q rs. [demo_peer_entry ''b'' 3, demo_peer_entry ''c'' 3] = qs @ q # rs \<and> announces (?M qs) (?M (qs @ [q])) \<and>
      ready_now \<lparr>wo_minMembers = None, wo_nodes = None, wo_timeout = None\<rparr> 100 (?M (qs @ [q]))"
    by (intro exI [of _ "[]"] exI [of _ "demo_peer_entry ''b'' 3"] exI [of _ "[demo_peer_entry ''c'' 3]"])
      (simp add: announces_def ready_now_def isClusterReady_def effective_min_def requiredNodes_def getMembers_def getLivePeers_def
        merge_peer_def demo_peer_entry_def demo_gossip_def new_gossip_def Let_def demo_opts_def store_peer_def member_emit_def)
  then show ?thesis
    using wait_ends_at_join [OF refl, of _ 100 "[demo_peer_entry ''b'' 3, demo_peer_entry ''c'' 3]" "demo_gossip ''a''"] by simp
qed

section \<open>What a wait misses\<close>

lemma known_merge: "jhas (gp_peers s) (p_id p) \<Longrightarrow> \<not> announces s (merge_peer now p s)"
  by (auto simp: announces_def merge_peer_def jhas_def Let_def split: option.split)

lemma has_merge: "jhas (gp_peers s) i \<Longrightarrow> jhas (gp_peers (merge_peer now p s)) i"
  by (auto simp: merge_peer_def Let_def split: option.split)

lemma has_merges: "jhas (gp_peers s) i \<Longrightarrow> jhas (gp_peers (fold (merge_peer now) ps s)) i"
  by (induction ps arbitrary: s) (simp_all add: has_merge)

lemma known_waiting:
  "\<forall>p\<in>set ps. jhas (gp_peers s) (p_id p) \<Longrightarrow> snd (fold (merge_waiting opts now) ps (s, w)) = w"
  by (induction ps arbitrary: s) (simp_all add: merge_waiting_def Let_def known_merge has_merge)

lemma sent_peers: "gp_peers (fold (\<lambda>p. sendGossipMessage (f p)) ps s) = gp_peers s"
  by (induction ps arbitrary: s) (simp_all add: sendGossipMessage_def)

lemma has_loop: "jhas (gp_peers s) i \<Longrightarrow> jhas (gp_peers (gossipLoop now rnd s)) i"
  by (simp add: gossipLoop_def Let_def sent_peers touch_self_def) (simp add: sendGossipMessage_def touch_self_def)

text \<open>What a node hears of nodes it has in its table.\<close>

fun hears_known :: "gossip \<Rightarrow> wait_event \<Rightarrow> bool" where
  "hears_known s (Gossip now m) = (\<forall>p\<in>set (gm_peers m). jhas (gp_peers s) (p_id p))"
| "hears_known s (Beat now rnd) = True"
| "hears_known s e = False"

lemma known_run:
  "\<forall>e\<in>set es. hears_known s e \<Longrightarrow> (\<And>i. jhas (gp_peers s) i \<Longrightarrow> jhas (gp_peers t) i) \<Longrightarrow>
     snd (fold (wait_step opts) es (t, w)) = w"
proof (induction es arbitrary: t)
  case (Cons e es)
  have "snd (wait_step opts e (t, w)) = w \<and> (\<forall>i. jhas (gp_peers t) i \<longrightarrow> jhas (gp_peers (fst (wait_step opts e (t, w)))) i)"
    using Cons.prems
    by (cases e) (auto simp: gossip_waiting_def known_waiting fold_merge_waiting(1) has_merges has_loop)
  then show ?case using Cons by (cases "wait_step opts e (t, w)") auto
qed simp

text \<open>
  C35: A wait can fail although the cluster is ready: while a node only hears of nodes its table already
  holds - one that left and came back, or one whose silence was not yet noticed - nothing is
  announced, so the promise stays pending, and its timer rejects it with \<open>TimeoutError\<close>, even when a
  wait begun at that moment would return at once.
\<close>

theorem wait_misses_return:
  assumes "waitForCluster opts t0 s = Waiting" and "\<forall>e\<in>set es. hears_known s e"
    and "fold (wait_step opts) es (s, waitForCluster opts t0 s) = (s', w)" and "waitForCluster opts now s' = Ready"
  shows "w = Waiting \<and> wait_step opts Expires (s', w) = (s', Failed (TimeoutError ''waitForCluster'' (wait_ms opts)))"
proof -
  have "w = Waiting" using known_run [OF assms(2), of s opts Waiting] assms(1,3) by simp
  then show ?thesis by (simp add: wait_expires_def)
qed

theorem wait_misses_return_witness:
  "snd (wait_step \<lparr>wo_minMembers = Some 1, wo_nodes = Some [''c''], wo_timeout = None\<rparr> Expires
     (wait_step \<lparr>wo_minMembers = Some 1, wo_nodes = Some [''c''], wo_timeout = None\<rparr>
       (Gossip 100 \<lparr>gm_version = Some GOSSIP_PROTOCOL_VERSION, gm_senderId = ''b'',
          gm_peers = [(demo_peer_entry ''c'' 90)\<lparr>p_generation := 4\<rparr>]\<rparr>) (demo_left, Waiting))) =
   Failed (TimeoutError ''waitForCluster'' 30000)"
proof -
  let ?o = "\<lparr>wo_minMembers = Some 1, wo_nodes = Some [''c''], wo_timeout = None\<rparr>"
  let ?e = "Gossip 100 \<lparr>gm_version = Some GOSSIP_PROTOCOL_VERSION, gm_senderId = ''b'',
          gm_peers = [(demo_peer_entry ''c'' 90)\<lparr>p_generation := 4\<rparr>]\<rparr>"
  let ?s = "merge_peer 100 ((demo_peer_entry ''c'' 90)\<lparr>p_generation := 4\<rparr>) demo_left"
  note defs = waitForCluster_def ready_now_def isClusterReady_def effective_min_def requiredNodes_def getMembers_def getLivePeers_def
    merge_peer_def demo_left_def demo_peer_entry_def demo_gossip_def new_gossip_def Let_def demo_opts_def
  have w: "waitForCluster ?o 100 demo_left = Waiting" by (simp add: defs)
  have k: "\<forall>e\<in>set [?e]. hears_known demo_left e" by (simp add: demo_left_def demo_peer_entry_def jhas_def)
  have r: "fold (wait_step ?o) [?e] (demo_left, Waiting) = (?s, Waiting)"
    using known_run [OF k, of demo_left ?o Waiting] k known_merge [of demo_left "(demo_peer_entry ''c'' 90)\<lparr>p_generation := 4\<rparr>"]
    by (simp add: gossip_waiting_def merge_waiting_def Let_def)
  have "waitForCluster ?o 100 ?s = Ready" by (simp add: defs)
  then show ?thesis
    using wait_misses_return [of ?o 100 demo_left "[?e]" ?s Waiting 100, OF w k] r w by (simp add: wait_ms_def)
qed

section \<open>No cookie is ignored\<close>

text \<open>
  A cookie in the configuration is never ignored: if a distributed system gets as far as opening
  its sockets, the cookie has at least 16 characters, the transport is encrypted with the keys
  derived from it, the keyring holds it alone, and gossip is authenticated, by the keyring unless
  the configuration brings its own authenticator. (Without one, an empty or missing
  environment variable means that nothing is authenticated.)
\<close>

theorem cookie_never_ignored:
  assumes "dc_cookie cfg = Some c" and "check_config derive curve env_cookie cfg = Inr (ports, ra)"
  shows "16 \<le> length c \<and> curve \<and>
     (\<exists>k. ra_keyringAuth ra = Some k \<and> kr_secondary k = None \<and> ra_curveKeyPair ra = Some (ca_pair (kr_primary k)) \<and>
        deriveKeys derive c (case dc_salt cfg of None \<Rightarrow> ''libeam-v2'' | Some x \<Rightarrow> x) = Inr (ca_key (kr_primary k), ca_pair (kr_primary k)) \<and>
        ra_gossipAuth ra = Some (case dc_auth cfg of None \<Rightarrow> KeyringAuth k | Some a \<Rightarrow> CustomAuth a))"
proof -
  have c: "c \<noteq> ''''" using assms by (auto simp: check_config_def)
  then obtain ra' where "resolveAuth derive env_cookie cfg = Inr ra'" "ra' = ra" "ra_curveKeyPair ra \<noteq> None \<longrightarrow> curve"
    using assms by (auto simp: check_config_def split: sum.splits if_splits)
  then show ?thesis using c assms(1)
    by (auto simp: resolveAuth_def first_text_def truthy_def new_keyring_def new_cookie_auth_def MIN_COOKIE_LENGTH_def default_salt_def
        split: sum.splits prod.splits option.splits if_splits)
qed

theorem cookie_never_ignored_witness:
  "\<exists>ra :: (nat, string) resolved_auth. check_config toy_derive True None
      \<lparr>dc_port = Some 5000, dc_ports = None, dc_cookie = Some ''aaaaaaaaaaaaaaaa'', dc_salt = None, dc_auth = None\<rparr> =
      Inr ((5000, 5001, 5002), ra) \<and> ra_keyringAuth ra \<noteq> None"
proof -
  let ?c = "\<lparr>dc_port = Some 5000, dc_ports = None, dc_cookie = Some ''aaaaaaaaaaaaaaaa'', dc_salt = None, dc_auth = None :: nat option\<rparr>"
  obtain ra where ra: "check_config toy_derive True None ?c = Inr ((5000, 5001, 5002), ra)"
    by (simp add: check_config_def resolve_ports_def resolveAuth_def first_text_def truthy_def new_keyring_def toy_new)
  then show ?thesis using cookie_never_ignored [OF _ ra, of "''aaaaaaaaaaaaaaaa''"] by auto
qed

end
