(* ===== verification/Transport.thy ===== *)
theory Transport
  imports Gossip Auth
begin

text \<open>
  \<open>src/zeromq_transport.ts\<close>: the requests a node waits for, its connections and the addresses of its
  peers, and what \<open>create_system.ts\<close> and \<open>registry_sync.ts\<close> do to them when a node joins. The sockets of
  the library are not modelled: a socket for requests (a dealer) is its number, and what arrives on
  one is an event. \<open>connects\<close> says whether the library accepts an address. A request is named by its
  correlation id, and a request or a reply is a text; a reply may carry an error. \<open>resolve\<close> and
  \<open>reject\<close> of a promise are recorded in order, with the request; the first of a request counts.
\<close>

section \<open>Data\<close>

text \<open>\<open>ErrorReply\<close>: an object with a text as its \<open>error\<close>; an empty one does not count as one.\<close>

datatype rpc_payload = Plain string | ErrorReply string

record zmq =
  z_nodeId :: string
  z_curve :: "key_pair option"
  z_connected :: bool
  z_dealers :: "(string, nat) jsmap"
  z_next :: nat
  z_open :: "nat list"
  z_pending :: "(string, string \<times> int) jsmap"
  z_subs :: "(string, nat list) jsmap"
  z_peers :: "(string, string \<times> string) jsmap"
  z_subConnects :: "string list"
  z_asked :: "(string \<times> nat) list"
  z_settled :: "(string \<times> (js_error + rpc_payload)) list"

definition new_zmq :: "string \<Rightarrow> key_pair option \<Rightarrow> zmq" where
  "new_zmq node keys = \<lparr>z_nodeId = node, z_curve = keys, z_connected = False, z_dealers = [], z_next = 0, z_open = [],
     z_pending = [], z_subs = [], z_peers = [], z_subConnects = [], z_asked = [], z_settled = []\<rparr>"

text \<open>\<open>connect\<close> creates the sockets; peers known before are not connected to.\<close>

definition zmq_connect :: "zmq \<Rightarrow> zmq" where
  "zmq_connect z = z\<lparr>z_connected := True, z_subConnects := []\<rparr>"

section \<open>Requests\<close>

definition settle_request :: "js_error + rpc_payload \<Rightarrow> string \<Rightarrow> zmq \<Rightarrow> zmq" where
  "settle_request r c z = z\<lparr>z_pending := jdel (z_pending z) c, z_settled := z_settled z @ [(c, r)]\<rparr>"

text \<open>The dealer is created even when it cannot be connected.\<close>

definition getOrCreateConnection :: "(string \<Rightarrow> bool) \<Rightarrow> string \<Rightarrow> zmq \<Rightarrow> (js_error + nat) \<times> zmq" where
  "getOrCreateConnection connects node z =
     (case jget (z_dealers z) node of
        Some d \<Rightarrow> (Inr d, z)
      | None \<Rightarrow>
          (case jget (z_peers z) node of
             None \<Rightarrow> (Inl (PeerNotFoundError node), z)
           | Some (rpc, _) \<Rightarrow>
               (let d = z_next z; z1 = z\<lparr>z_next := Suc d, z_open := z_open z @ [d]\<rparr>
                in if \<not> connects rpc
                   then (Inl (TransportError (''Failed to connect to node '' @ node) (Some node) None), z1)
                   else (Inr d, z1\<lparr>z_dealers := jput (z_dealers z1) node d\<rparr>))))"

text \<open>\<open>request\<close> after its connection was awaited: \<open>d\<close> may have been closed since.\<close>

definition request_go :: "string \<Rightarrow> string \<Rightarrow> int \<Rightarrow> nat \<Rightarrow> zmq \<Rightarrow> zmq" where
  "request_go c node timeout d z = z\<lparr>z_pending := jput (z_pending z) c (node, timeout), z_asked := z_asked z @ [(c, d)]\<rparr>"

definition send_fails :: "string \<Rightarrow> string \<Rightarrow> zmq \<Rightarrow> zmq" where
  "send_fails c node = settle_request (Inl (TransportError (''Failed to send message to '' @ node) (Some node) None)) c"

text \<open>The timer of a request runs as long as the request is pending.\<close>

definition request_expires :: "string \<Rightarrow> zmq \<Rightarrow> zmq" where
  "request_expires c z =
     (case jget (z_pending z) c of
        None \<Rightarrow> z
      | Some (node, timeout) \<Rightarrow> settle_request (Inl (TimeoutError (''request to '' @ node) timeout)) c z)"

definition handleDealerResponse :: "string \<Rightarrow> rpc_payload \<Rightarrow> zmq \<Rightarrow> zmq" where
  "handleDealerResponse c p z =
     (if jhas (z_pending z) c
      then settle_request (case p of ErrorReply e \<Rightarrow> if e = '''' then Inr p else Inl (PlainError e) | Plain _ \<Rightarrow> Inr p) c z
      else z)"

definition reject_all :: "js_error \<Rightarrow> zmq \<Rightarrow> zmq" where
  "reject_all e z = z\<lparr>z_settled := z_settled z @ map (\<lambda>c. (c, Inl e)) (jkeys (z_pending z)), z_pending := []\<rparr>"

definition close_dealers :: "zmq \<Rightarrow> zmq" where
  "close_dealers z = z\<lparr>z_open := filter (\<lambda>d. d \<notin> set (jvals (z_dealers z))) (z_open z), z_dealers := []\<rparr>"

text \<open>\<open>rotateCurveKeys\<close>: up to the binding of the new sockets, which is awaited, and from there.\<close>

definition rotateCurveKeys :: "key_pair \<Rightarrow> zmq \<Rightarrow> zmq" where
  "rotateCurveKeys keys z =
     reject_all (TransportError ''Transport rotating keys'' (Some (z_nodeId z)) None) (close_dealers (z\<lparr>z_curve := Some keys\<rparr>))"

definition rotated :: "zmq \<Rightarrow> zmq" where
  "rotated z = z\<lparr>z_connected := True, z_subConnects := map (\<lambda>(_, _, pub). pub) (z_peers z)\<rparr>"

text \<open>\<open>disconnect\<close> keeps the addresses: a later request connects again.\<close>

definition zmq_disconnect :: "zmq \<Rightarrow> zmq" where
  "zmq_disconnect z = close_dealers (reject_all (PlainError ''Transport disconnected'') z)"

text \<open>\<open>KeyringImpl.use\<close>: the keyring, then the sockets, to the first \<open>await\<close>.\<close>

definition keyring_use :: "'k keyring \<Rightarrow> zmq \<Rightarrow> js_error + 'k keyring \<times> zmq" where
  "keyring_use k z = (case activate k of Inl e \<Rightarrow> Inl e | Inr (pair, k') \<Rightarrow> Inr (k', rotateCurveKeys pair z))"

section \<open>Requests of other nodes\<close>

datatype wire = RequestWire string string | MessageWire string | OtherWire

text \<open>
  The reply to a message on the socket for requests, with its correlation id, and what is given to
  the handler of messages. \<open>answer\<close> is the request handler, which may throw.
\<close>

fun handleRouterMessage :: "(string \<Rightarrow> string + rpc_payload) option \<Rightarrow> bool \<Rightarrow> wire \<Rightarrow> (string \<times> rpc_payload) option \<times> string option" where
  "handleRouterMessage None hasMessageHandler (RequestWire c p) = (None, None)"
| "handleRouterMessage (Some answer) hasMessageHandler (RequestWire c p) =
     (Some (c, case answer p of Inl e \<Rightarrow> ErrorReply e | Inr r \<Rightarrow> r), None)"
| "handleRouterMessage h hasMessageHandler (MessageWire p) = (None, if hasMessageHandler then Some p else None)"
| "handleRouterMessage h hasMessageHandler OtherWire = (None, None)"

section \<open>Topics\<close>

definition zmq_subscribe :: "string \<Rightarrow> nat \<Rightarrow> zmq \<Rightarrow> js_error + zmq" where
  "zmq_subscribe topic h z =
     (if \<not> z_connected z then Inl (PlainError ''Transport not connected'')
      else Inr (z\<lparr>z_subs := jput (z_subs z) topic
                    ((case jget (z_subs z) topic of None \<Rightarrow> [] | Some hs \<Rightarrow> hs) @ [h])\<rparr>))"

definition zmq_unsubscribe :: "string \<Rightarrow> nat \<Rightarrow> zmq \<Rightarrow> zmq" where
  "zmq_unsubscribe topic h z =
     (case jget (z_subs z) topic of
        None \<Rightarrow> z
      | Some hs \<Rightarrow>
          (let hs' = remove1 h hs
           in z\<lparr>z_subs := (if length hs' = 0 then jdel (z_subs z) topic else jput (z_subs z) topic hs')\<rparr>))"

text \<open>A message of a topic: the handlers called; one that throws keeps it from the others.\<close>

fun call_handlers :: "(nat \<Rightarrow> bool) \<Rightarrow> nat list \<Rightarrow> nat list" where
  "call_handlers throws [] = []"
| "call_handlers throws (h # hs) = h # (if throws h then [] else call_handlers throws hs)"

definition topic_message :: "(nat \<Rightarrow> bool) \<Rightarrow> string \<Rightarrow> zmq \<Rightarrow> nat list" where
  "topic_message throws topic z = (case jget (z_subs z) topic of None \<Rightarrow> [] | Some hs \<Rightarrow> call_handlers throws hs)"

section \<open>Peers\<close>

definition is_digit :: "char \<Rightarrow> bool" where
  "is_digit c \<longleftrightarrow> 48 \<le> (of_char c :: nat) \<and> (of_char c :: nat) \<le> 57"

definition digits_value :: "string \<Rightarrow> int" where
  "digits_value ds = fold (\<lambda>c n. 10 * n + (int (of_char c) - 48)) ds 0"

text \<open>The first match of \<open>tcp://\<close>, a host without colon, a colon and digits, anywhere in the text.\<close>

definition address_here :: "string \<Rightarrow> (string \<times> int) option" where
  "address_here s =
     (if take 6 s = ''tcp://''
      then (let host = takeWhile (\<lambda>c. c \<noteq> CHR '':'') (drop 6 s); rest = drop (6 + length host) s; ds = takeWhile is_digit (tl rest)
            in if host \<noteq> [] \<and> rest \<noteq> [] \<and> ds \<noteq> [] then Some (host, digits_value ds) else None)
      else None)"

fun parse_address :: "string \<Rightarrow> (string \<times> int) option" where
  "parse_address [] = None"
| "parse_address (c # cs) = (case address_here (c # cs) of Some x \<Rightarrow> Some x | None \<Rightarrow> parse_address cs)"

definition remove_peer :: "string list \<Rightarrow> string \<Rightarrow> zmq \<Rightarrow> zmq" where
  "remove_peer new i z =
     (if i \<in> set new then z
      else (let z1 = (case jget (z_dealers z) i of
                 None \<Rightarrow> z
               | Some d \<Rightarrow> z\<lparr>z_open := filter (\<lambda>x. x \<noteq> d) (z_open z), z_dealers := jdel (z_dealers z) i\<rparr>)
            in z1\<lparr>z_peers := jdel (z_peers z1) i\<rparr>))"

definition add_peer :: "string \<times> string \<Rightarrow> zmq \<Rightarrow> zmq" where
  "add_peer = (\<lambda>(i, addr) z.
     if \<not> jhas (z_peers z) i \<and> i \<noteq> z_nodeId z
     then (case parse_address addr of
             None \<Rightarrow> z
           | Some (host, port) \<Rightarrow>
               (let pub = ''tcp://'' @ host @ '':'' @ js_int (port + 1);
                    z1 = z\<lparr>z_peers := jput (z_peers z) i (addr, pub)\<rparr>
                in if z_connected z1 then z1\<lparr>z_subConnects := z_subConnects z1 @ [pub]\<rparr> else z1))
     else z)"

definition updatePeers :: "(string \<times> string) list \<Rightarrow> zmq \<Rightarrow> zmq" where
  "updatePeers ps z = fold add_peer ps (fold (remove_peer (map fst ps)) (jkeys (z_peers z)) z)"

text \<open>
  A node joins: the listener of \<open>createDistributedSystem\<close>, then that of \<open>RegistrySync\<close>, in the order
  they were added.
\<close>

definition peer_address :: "peer_state option \<Rightarrow> string option" where
  "peer_address p = (case p of None \<Rightarrow> None | Some x \<Rightarrow> if p_address x = '''' then None else Some (p_address x))"

definition wire_join :: "int \<Rightarrow> gossip \<Rightarrow> string \<Rightarrow> zmq \<Rightarrow> zmq" where
  "wire_join now g i z = (case peer_address (getPeerState now i g) of None \<Rightarrow> z | Some addr \<Rightarrow> updatePeers [(i, addr)] z)"

definition peer_list :: "string \<Rightarrow> int \<Rightarrow> gossip \<Rightarrow> (string \<times> string) list" where
  "peer_list self now g = map (\<lambda>p. (p_id p, p_address p)) (filter (\<lambda>p. p_id p \<noteq> self \<and> p_address p \<noteq> '''') (getLivePeers now g))"

definition syncPeers :: "string \<Rightarrow> int \<Rightarrow> gossip \<Rightarrow> zmq \<Rightarrow> zmq" where
  "syncPeers self now g z = (if 0 < length (peer_list self now g) then updatePeers (peer_list self now g) z else z)"

definition member_joins :: "int \<Rightarrow> gossip \<Rightarrow> string \<Rightarrow> zmq \<Rightarrow> zmq" where
  "member_joins now g i z = syncPeers (z_nodeId z) now g (wire_join now g i z)"

section \<open>Updating the peers\<close>

lemma remove_peer_simps [simp]:
  "z_nodeId (remove_peer new i z) = z_nodeId z" "z_next (remove_peer new i z) = z_next z"
  "z_pending (remove_peer new i z) = z_pending z" "z_asked (remove_peer new i z) = z_asked z"
  "z_settled (remove_peer new i z) = z_settled z"
  "jget (z_peers (remove_peer new i z)) k = (if k = i \<and> i \<notin> set new then None else jget (z_peers z) k)"
  "jget (z_dealers (remove_peer new i z)) k = (if k = i \<and> i \<notin> set new then None else jget (z_dealers z) k)"
  "set (z_open (remove_peer new i z)) = (if i \<in> set new then set (z_open z) else {d \<in> set (z_open z). jget (z_dealers z) i \<noteq> Some d})"
  by (auto simp: remove_peer_def Let_def split: option.split)

lemma remove_peers:
  "z_nodeId (fold (remove_peer new) is z) = z_nodeId z" "z_next (fold (remove_peer new) is z) = z_next z"
  "z_pending (fold (remove_peer new) is z) = z_pending z" "z_asked (fold (remove_peer new) is z) = z_asked z"
  "z_settled (fold (remove_peer new) is z) = z_settled z"
  "jget (z_peers (fold (remove_peer new) is z)) k = (if k \<in> set is \<and> k \<notin> set new then None else jget (z_peers z) k)"
  "jget (z_dealers (fold (remove_peer new) is z)) k = (if k \<in> set is \<and> k \<notin> set new then None else jget (z_dealers z) k)"
  by (induction "is" arbitrary: z) auto

lemma remove_peers_open:
  "d \<in> set (z_open (fold (remove_peer new) is z)) \<longleftrightarrow>
     d \<in> set (z_open z) \<and> (\<forall>i. i \<in> set is \<and> i \<notin> set new \<longrightarrow> jget (z_dealers z) i \<noteq> Some d)"
proof (induction "is" arbitrary: z)
  case (Cons i "is")
  show ?case
    using Cons.IH [of "remove_peer new i z"]
    by (cases "i \<in> set new") auto
qed simp

text \<open>The entry of an address.\<close>

definition peer_entry :: "string \<Rightarrow> (string \<times> string) option" where
  "peer_entry addr = map_option (\<lambda>(host, port). (addr, ''tcp://'' @ host @ '':'' @ js_int (port + 1))) (parse_address addr)"

lemma add_peer_simps [simp]:
  "z_nodeId (add_peer p z) = z_nodeId z" "z_next (add_peer p z) = z_next z" "z_pending (add_peer p z) = z_pending z"
  "z_asked (add_peer p z) = z_asked z" "z_settled (add_peer p z) = z_settled z" "z_dealers (add_peer p z) = z_dealers z"
  "z_open (add_peer p z) = z_open z"
  by (cases p; simp add: add_peer_def Let_def split: option.split prod.split)+

lemma add_peers:
  "z_nodeId (fold add_peer ps z) = z_nodeId z" "z_next (fold add_peer ps z) = z_next z"
  "z_pending (fold add_peer ps z) = z_pending z" "z_asked (fold add_peer ps z) = z_asked z"
  "z_settled (fold add_peer ps z) = z_settled z" "z_dealers (fold add_peer ps z) = z_dealers z"
  "z_open (fold add_peer ps z) = z_open z"
  by (induction ps arbitrary: z) simp_all

lemma add_peer_get:
  "jget (z_peers (add_peer (i, addr) z)) k =
     (if k = i \<and> jget (z_peers z) k = None \<and> i \<noteq> z_nodeId z then peer_entry addr else jget (z_peers z) k)"
  by (auto simp: add_peer_def jhas_def peer_entry_def Let_def split: option.split)

lemma add_peers_get:
  "distinct (map fst ps) \<Longrightarrow> jget (z_peers (fold add_peer ps z)) k =
     (case jget (z_peers z) k of
        Some x \<Rightarrow> Some x
      | None \<Rightarrow> if k = z_nodeId z then None else Option.bind (map_of ps k) peer_entry)"
proof (induction ps arbitrary: z)
  case (Cons p ps)
  have "fst p \<notin> set (map fst ps)" using Cons.prems by simp
  then have "map_of ps (fst p) = None" by (simp add: map_of_eq_None_iff)
  then show ?case using Cons by (cases p) (auto simp: add_peer_get split: option.split)
qed (simp split: option.split)

lemma updatePeers_facts:
  assumes "distinct (map fst ps)" and "\<forall>i. jhas (z_dealers z) i \<longrightarrow> jhas (z_peers z) i"
  shows "jget (z_peers (updatePeers ps z)) k =
       (case jget ps k of None \<Rightarrow> None
        | Some addr \<Rightarrow> (case jget (z_peers z) k of Some x \<Rightarrow> Some x | None \<Rightarrow> if k = z_nodeId z then None else peer_entry addr))"
    and "jget (z_dealers (updatePeers ps z)) k = (if jget ps k = None then None else jget (z_dealers z) k)"
    and "set (z_open (updatePeers ps z)) = set (z_open z) - {d. \<exists>i. jget ps i = None \<and> jget (z_dealers z) i = Some d}"
proof -
  have new: "i \<notin> fst ` set ps \<longleftrightarrow> jget ps i = None" for i
    using map_of_eq_None_iff [of ps i] by simp
  have known: "i \<in> fst ` set (z_peers z)" if "jget (z_dealers z) i = Some d" for i d
    using assms(2) [rule_format, of i] that by (simp add: jhas_def [of "z_dealers z"] jhas_iff [of "z_peers z"])
  have gone: "jget (z_peers z) i = None" if "i \<notin> fst ` set (z_peers z)" for i
    using that by (simp add: map_of_eq_None_iff)
  show "jget (z_peers (updatePeers ps z)) k =
       (case jget ps k of None \<Rightarrow> None
        | Some addr \<Rightarrow> (case jget (z_peers z) k of Some x \<Rightarrow> Some x | None \<Rightarrow> if k = z_nodeId z then None else peer_entry addr))"
    using gone [of k]
    by (cases "jget ps k"; cases "k \<in> fst ` set (z_peers z)")
      (simp_all add: updatePeers_def add_peers_get [OF assms(1)] remove_peers new split: option.split)
  show "jget (z_dealers (updatePeers ps z)) k = (if jget ps k = None then None else jget (z_dealers z) k)"
    using known [of k] by (cases "jget (z_dealers z) k") (simp_all add: updatePeers_def add_peers remove_peers new)
  show "set (z_open (updatePeers ps z)) = set (z_open z) - {d. \<exists>i. jget ps i = None \<and> jget (z_dealers z) i = Some d}"
  proof (rule set_eqI)
    fix x
    have "x \<in> set (z_open (updatePeers ps z)) \<longleftrightarrow>
        x \<in> set (z_open z) \<and> (\<forall>i. i \<in> fst ` set (z_peers z) \<and> jget ps i = None \<longrightarrow> jget (z_dealers z) i \<noteq> Some x)"
      by (simp add: updatePeers_def add_peers remove_peers_open new)
    also have "\<dots> \<longleftrightarrow> x \<in> set (z_open z) \<and> \<not> (\<exists>i. jget ps i = None \<and> jget (z_dealers z) i = Some x)" using known by blast
    finally show "x \<in> set (z_open (updatePeers ps z)) \<longleftrightarrow>
        x \<in> set (z_open z) - {d. \<exists>i. jget ps i = None \<and> jget (z_dealers z) i = Some d}" by simp
  qed
qed

text \<open>
  \<open>updatePeers\<close> takes its argument as the whole list of peers: afterwards the transport knows exactly
  the listed peers it could parse the address of, itself excepted; a peer it knew keeps the address
  it had, whatever the list says; the connections of all others are closed, and those of the listed
  peers are left alone.
\<close>

theorem updatePeers_exact:
  assumes "distinct (map fst ps)" and "\<forall>i. jhas (z_dealers z) i \<longrightarrow> jhas (z_peers z) i"
  shows "jget (z_peers (updatePeers ps z)) k =
       (case jget ps k of None \<Rightarrow> None
        | Some addr \<Rightarrow> (case jget (z_peers z) k of Some x \<Rightarrow> Some x | None \<Rightarrow> if k = z_nodeId z then None else peer_entry addr))
     \<and> jget (z_dealers (updatePeers ps z)) k = (if jget ps k = None then None else jget (z_dealers z) k)
     \<and> set (z_open (updatePeers ps z)) = set (z_open z) - {d. \<exists>i. jget ps i = None \<and> jget (z_dealers z) i = Some d}"
  using updatePeers_facts [OF assms] by blast

lemma js_6: "js_int 6 = ''6''"
  by code_simp

theorem updatePeers_exact_witness:
  "jget (z_peers (updatePeers [(''b'', ''tcp://h:5'')] (new_zmq ''a'' None))) ''b'' = Some (''tcp://h:5'', ''tcp://h:6'')"
  using updatePeers_exact [of "[(''b'', ''tcp://h:5'')]" "new_zmq ''a'' None" "''b''"]
  by (simp add: new_zmq_def jhas_def peer_entry_def address_here_def is_digit_def digits_value_def js_6 Let_def)

section \<open>The requests of a node\<close>

text \<open>
  What can happen to the transport. A reply comes on the connection its request went out on, as the
  sockets of the library route it, and a correlation id is new.
\<close>

inductive zmq_step :: "(string \<Rightarrow> bool) \<Rightarrow> zmq \<Rightarrow> zmq \<Rightarrow> bool" for connects :: "string \<Rightarrow> bool" where
  open_connection: "zmq_step connects z (snd (getOrCreateConnection connects node z))"
| go: "d < z_next z \<Longrightarrow> \<not> jhas (z_asked z) c \<Longrightarrow> zmq_step connects z (request_go c node timeout d z)"
| fails: "jhas (z_asked z) c \<Longrightarrow> zmq_step connects z (send_fails c node z)"
| expires: "zmq_step connects z (request_expires c z)"
| response: "(c, d) \<in> set (z_asked z) \<Longrightarrow> d \<in> set (z_open z) \<Longrightarrow> zmq_step connects z (handleDealerResponse c p z)"
| rotate: "zmq_step connects z (rotateCurveKeys keys z)"
| rotate_end: "zmq_step connects z (rotated z)"
| connected: "zmq_step connects z (zmq_connect z)"
| disconnected: "zmq_step connects z (zmq_disconnect z)"
| peers: "zmq_step connects z (updatePeers ps z)"
| topic: "zmq_subscribe t h z = Inr z' \<Longrightarrow> zmq_step connects z z'"
| no_topic: "zmq_step connects z (zmq_unsubscribe t h z)"

lemma reject_all_simps [simp]:
  "z_pending (reject_all e z) = []" "z_asked (reject_all e z) = z_asked z" "z_next (reject_all e z) = z_next z"
  "z_open (reject_all e z) = z_open z" "z_dealers (reject_all e z) = z_dealers z" "z_peers (reject_all e z) = z_peers z"
  "jhas (z_settled (reject_all e z)) c \<longleftrightarrow> jhas (z_settled z) c \<or> jhas (z_pending z) c"
  by (auto simp: reject_all_def jhas_iff image_Un image_image)

lemma close_dealers_simps [simp]:
  "z_pending (close_dealers z) = z_pending z" "z_asked (close_dealers z) = z_asked z" "z_next (close_dealers z) = z_next z"
  "z_settled (close_dealers z) = z_settled z" "z_dealers (close_dealers z) = []" "z_peers (close_dealers z) = z_peers z"
  "set (z_open (close_dealers z)) \<subseteq> set (z_open z)"
  by (auto simp: close_dealers_def)

text \<open>Two halves: the requests, and the connections.\<close>

definition requests_ok :: "zmq \<Rightarrow> bool" where
  "requests_ok z \<longleftrightarrow> distinct (map fst (z_asked z)) \<and> (\<forall>(c, d) \<in> set (z_asked z). d < z_next z)
     \<and> (\<forall>c. jhas (z_pending z) c \<longleftrightarrow> jhas (z_asked z) c \<and> \<not> jhas (z_settled z) c)
     \<and> (\<forall>c. jhas (z_settled z) c \<longrightarrow> jhas (z_asked z) c)"

lemma jhas_append [simp]: "jhas (m @ [(c, x)]) k \<longleftrightarrow> jhas m k \<or> k = c"
  by (auto simp: jhas_iff)

definition connections_ok :: "zmq \<Rightarrow> bool" where
  "connections_ok z \<longleftrightarrow> (\<forall>d \<in> set (z_open z). d < z_next z) \<and> (\<forall>i d. jget (z_dealers z) i = Some d \<longrightarrow> d < z_next z)
     \<and> (\<forall>i d e. jget (z_dealers z) i = Some d \<and> jget (z_dealers z) e = Some d \<longrightarrow> i = e)
     \<and> (\<forall>i. jhas (z_dealers z) i \<longrightarrow> jhas (z_peers z) i)"

lemma requests_ok_cong:
  "requests_ok z \<Longrightarrow> z_asked z' = z_asked z \<Longrightarrow> z_pending z' = z_pending z \<Longrightarrow> z_settled z' = z_settled z \<Longrightarrow> z_next z \<le> z_next z' \<Longrightarrow>
     requests_ok z'"
  unfolding requests_ok_def by fastforce

lemma requests_ok_settle:
  "requests_ok z \<Longrightarrow> jhas (z_asked z) c \<Longrightarrow> requests_ok (settle_request r c z)"
  unfolding requests_ok_def settle_request_def by (simp add: jhas_append) blast

lemma requests_ok_reject: "requests_ok z \<Longrightarrow> requests_ok (reject_all e z)"
  unfolding requests_ok_def by (simp add: jhas_def [of "[]"])

lemma requests_ok_go: "requests_ok z \<Longrightarrow> d < z_next z \<Longrightarrow> \<not> jhas (z_asked z) c \<Longrightarrow> requests_ok (request_go c node t d z)"
  unfolding requests_ok_def request_go_def by (simp add: jhas_iff [of "z_asked z"]) (auto simp: jhas_iff [of "z_asked z"])

lemma get_connection_simps:
  "z_asked (snd (getOrCreateConnection connects node z)) = z_asked z"
  "z_pending (snd (getOrCreateConnection connects node z)) = z_pending z"
  "z_settled (snd (getOrCreateConnection connects node z)) = z_settled z"
  "z_peers (snd (getOrCreateConnection connects node z)) = z_peers z"
  "z_next z \<le> z_next (snd (getOrCreateConnection connects node z))"
  by (auto simp: getOrCreateConnection_def Let_def split: option.split)

lemma updatePeers_simps:
  "z_asked (updatePeers ps z) = z_asked z" "z_pending (updatePeers ps z) = z_pending z" "z_settled (updatePeers ps z) = z_settled z"
  "z_next (updatePeers ps z) = z_next z" "z_nodeId (updatePeers ps z) = z_nodeId z"
  by (simp_all add: updatePeers_def add_peers remove_peers)

lemma requests_ok_step: "zmq_step connects z z' \<Longrightarrow> requests_ok z \<Longrightarrow> requests_ok z'"
proof (induction rule: zmq_step.induct)
  case (open_connection z node)
  then show ?case by (rule requests_ok_cong) (simp_all add: get_connection_simps)
next
  case (go d z c node timeout)
  then show ?case by (simp add: requests_ok_go)
next
  case (fails c z node)
  then show ?case by (simp add: send_fails_def requests_ok_settle)
next
  case (expires z c)
  have "jhas (z_asked z) c" if "jget (z_pending z) c \<noteq> None"
    using expires that unfolding requests_ok_def jhas_def [of "z_pending z"] by blast
  then show ?case using expires by (auto simp: request_expires_def requests_ok_settle split: option.split)
next
  case (response c d z p)
  then have "jhas (z_asked z) c" by (force simp: jhas_iff)
  then show ?case using response by (simp add: handleDealerResponse_def requests_ok_settle)
next
  case (rotate z keys)
  have "requests_ok (close_dealers (z\<lparr>z_curve := Some keys\<rparr>))" by (rule requests_ok_cong [OF rotate]) simp_all
  then show ?case by (simp add: rotateCurveKeys_def requests_ok_reject)
next
  case (rotate_end z)
  then show ?case by (rule requests_ok_cong) (simp_all add: rotated_def)
next
  case (connected z)
  then show ?case by (rule requests_ok_cong) (simp_all add: zmq_connect_def)
next
  case (disconnected z)
  have "requests_ok (reject_all (PlainError ''Transport disconnected'') z)" by (rule requests_ok_reject [OF disconnected])
  then show ?case unfolding zmq_disconnect_def by (rule requests_ok_cong) simp_all
next
  case (peers z ps)
  then show ?case by (rule requests_ok_cong) (simp_all add: updatePeers_simps)
next
  case (topic t h z z')
  then show ?case by (elim requests_ok_cong) (auto simp: zmq_subscribe_def split: if_splits)
next
  case (no_topic z t h)
  then show ?case by (rule requests_ok_cong) (simp_all add: zmq_unsubscribe_def Let_def split: option.split)
qed

lemma connections_ok_less:
  assumes "connections_ok z" and "set (z_open z') \<subseteq> set (z_open z)" and "z_next z \<le> z_next z'"
    and "\<And>i d. jget (z_dealers z') i = Some d \<Longrightarrow> jget (z_dealers z) i = Some d \<and> jhas (z_peers z') i"
  shows "connections_ok z'"
  unfolding connections_ok_def
proof (intro conjI)
  show "\<forall>d\<in>set (z_open z'). d < z_next z'" using assms(1-3) unfolding connections_ok_def by fastforce
  show "\<forall>i d. jget (z_dealers z') i = Some d \<longrightarrow> d < z_next z'"
    using assms(1,3,4) unfolding connections_ok_def by fastforce
  show "\<forall>i d e. jget (z_dealers z') i = Some d \<and> jget (z_dealers z') e = Some d \<longrightarrow> i = e"
    using assms(1,4) unfolding connections_ok_def by blast
  show "\<forall>i. jhas (z_dealers z') i \<longrightarrow> jhas (z_peers z') i" using assms(4) unfolding jhas_def [of "z_dealers z'"] by blast
qed

lemma connections_ok_same:
  "connections_ok z \<Longrightarrow> z_open z' = z_open z \<Longrightarrow> z_dealers z' = z_dealers z \<Longrightarrow> z_peers z' = z_peers z \<Longrightarrow> z_next z' = z_next z \<Longrightarrow>
     connections_ok z'"
  by (simp add: connections_ok_def)

lemma connections_ok_get: "connections_ok z \<Longrightarrow> connections_ok (snd (getOrCreateConnection connects node z))"
proof -
  assume ok: "connections_ok z"
  have new: "jget (z_dealers z) i \<noteq> Some (z_next z)" for i using ok by (auto simp: connections_ok_def)
  show ?thesis
  proof (cases "jget (z_dealers z) node = None \<and> jget (z_peers z) node \<noteq> None")
    case True
    then obtain rpc pub where "jget (z_peers z) node = Some (rpc, pub)" by auto
    then show ?thesis using True ok new
      by (auto simp: getOrCreateConnection_def Let_def connections_ok_def jhas_def less_Suc_eq)
  qed (use ok in \<open>auto simp: getOrCreateConnection_def split: option.split\<close>)
qed

lemma add_peers_keep: "jhas (z_peers z) k \<Longrightarrow> jhas (z_peers (fold add_peer ps z)) k"
proof (induction ps arbitrary: z)
  case (Cons p ps)
  have "jhas (z_peers (add_peer p z)) k" using Cons.prems by (cases p) (auto simp: add_peer_get jhas_def)
  then show ?case using Cons.IH by simp
qed simp

lemma connections_ok_update: "connections_ok z \<Longrightarrow> connections_ok (updatePeers ps z)"
proof (rule connections_ok_less)
  fix i d
  assume ok: "connections_ok z" and d: "jget (z_dealers (updatePeers ps z)) i = Some d"
  then have "jget (z_dealers z) i = Some d" "\<not> (i \<in> set (jkeys (z_peers z)) \<and> i \<notin> set (map fst ps))"
    by (auto simp: updatePeers_def add_peers remove_peers split: if_splits)
  moreover have "jhas (z_peers z) i" using calculation(1) ok by (auto simp: connections_ok_def jhas_def)
  ultimately have "jhas (z_peers (fold (remove_peer (map fst ps)) (jkeys (z_peers z)) z)) i"
    by (simp add: jhas_def remove_peers map_of_eq_None_iff)
  then show "jget (z_dealers z) i = Some d \<and> jhas (z_peers (updatePeers ps z)) i"
    using \<open>jget (z_dealers z) i = Some d\<close> by (simp add: updatePeers_def add_peers_keep)
qed (auto simp: updatePeers_simps updatePeers_def add_peers remove_peers remove_peers_open)

lemma connections_ok_step: "zmq_step connects z z' \<Longrightarrow> connections_ok z \<Longrightarrow> connections_ok z'"
proof (induction rule: zmq_step.induct)
  case (open_connection z node)
  then show ?case by (rule connections_ok_get)
next
  case (peers z ps)
  then show ?case by (rule connections_ok_update)
next
  case (rotate z keys)
  have "set (z_open (close_dealers (z\<lparr>z_curve := Some keys\<rparr>))) \<subseteq> set (z_open z)"
    using close_dealers_simps(7) [of "z\<lparr>z_curve := Some keys\<rparr>"] by simp
  then show ?case by (intro connections_ok_less [OF rotate]) (simp_all add: rotateCurveKeys_def)
next
  case (disconnected z)
  have "set (z_open (zmq_disconnect z)) \<subseteq> set (z_open z)"
    using close_dealers_simps(7) [of "reject_all e z" for e] by (simp add: zmq_disconnect_def)
  then show ?case by (intro connections_ok_less [OF disconnected]) (simp_all add: zmq_disconnect_def)
next
  case (topic t h z z')
  then show ?case by (elim connections_ok_same) (auto simp: zmq_subscribe_def split: if_splits)
qed (erule connections_ok_same;
    simp add: request_go_def send_fails_def settle_request_def request_expires_def handleDealerResponse_def rotated_def zmq_connect_def
      zmq_unsubscribe_def Let_def split: option.split prod.split)+

lemma new_zmq_ok: "requests_ok (new_zmq n k)" "connections_ok (new_zmq n k)"
  by (simp_all add: new_zmq_def requests_ok_def connections_ok_def jhas_def)

lemma zmq_reachable_ok:
  "(zmq_step connects)\<^sup>*\<^sup>* (new_zmq n k) z \<Longrightarrow> requests_ok z \<and> connections_ok z"
  by (induction rule: rtranclp_induct) (auto simp: new_zmq_ok intro: requests_ok_step connections_ok_step)

lemma settled_grows: "zmq_step connects z z' \<Longrightarrow> \<exists>ys. z_settled z' = z_settled z @ ys"
  by (induction rule: zmq_step.induct)
    (auto simp: get_connection_simps updatePeers_simps request_go_def send_fails_def settle_request_def request_expires_def
      handleDealerResponse_def rotateCurveKeys_def reject_all_def close_dealers_def rotated_def zmq_connect_def zmq_disconnect_def
      zmq_subscribe_def zmq_unsubscribe_def Let_def split: option.split if_splits)

lemma settled_stays:
  "(zmq_step connects)\<^sup>*\<^sup>* z z' \<Longrightarrow> jget (z_settled z) c = Some r \<Longrightarrow> jget (z_settled z') c = Some r"
proof (induction rule: rtranclp_induct)
  case (step y z')
  then show ?case using settled_grows [OF step(2)] by auto
qed

text \<open>
  C27: A request is never forgotten: in every reachable state of the transport - whatever connects,
  closes, fails, answers or is rotated in between - a request that went out either waits, with a
  timer that would settle it, or is settled; and once it is settled its outcome stays.
\<close>

theorem requests_settle:
  assumes "(zmq_step connects)\<^sup>*\<^sup>* (new_zmq n k) z" and "jhas (z_asked z) c"
  shows "(jhas (z_pending z) c \<longleftrightarrow> jget (z_settled z) c = None)
     \<and> jget (z_settled (request_expires c z)) c \<noteq> None
     \<and> ((zmq_step connects)\<^sup>*\<^sup>* z z' \<longrightarrow> (\<forall>r. jget (z_settled z) c = Some r \<longrightarrow> jget (z_settled z') c = Some r))"
proof -
  have ok: "jhas (z_pending z) c \<longleftrightarrow> jget (z_settled z) c = None"
    using zmq_reachable_ok [OF assms(1)] assms(2) by (simp add: requests_ok_def jhas_def [of "z_settled z"])
  moreover have "jget (z_settled (request_expires c z)) c \<noteq> None"
  proof (cases "jget (z_pending z) c")
    case None
    then have "jget (z_settled z) c \<noteq> None" using ok by (simp add: jhas_def)
    then show ?thesis using None by (simp add: request_expires_def)
  next
    case (Some p)
    then show ?thesis by (cases p) (simp add: request_expires_def settle_request_def map_add_def split: option.split)
  qed
  ultimately show ?thesis using settled_stays by blast
qed

text \<open>A node with one peer that has asked it something.\<close>

definition demo_asking :: zmq where
  "demo_asking = request_go ''c1'' ''b'' 5000 0
     (snd (getOrCreateConnection (\<lambda>_. True) ''b'' (updatePeers [(''b'', ''tcp://b:5'')] (new_zmq ''a'' None))))"

lemma demo_asking_fields:
  "demo_asking = \<lparr>z_nodeId = ''a'', z_curve = None, z_connected = False, z_dealers = [(''b'', 0)], z_next = 1, z_open = [0],
     z_pending = [(''c1'', ''b'', 5000)], z_subs = [], z_peers = [(''b'', ''tcp://b:5'', ''tcp://b:6'')], z_subConnects = [],
     z_asked = [(''c1'', 0)], z_settled = []\<rparr>"
  by (simp add: demo_asking_def request_go_def getOrCreateConnection_def updatePeers_def add_peer_def new_zmq_def jhas_def
      address_here_def is_digit_def digits_value_def js_6 Let_def)

lemma demo_asking_reach: "(zmq_step (\<lambda>_. True))\<^sup>*\<^sup>* (new_zmq ''a'' None) demo_asking"
proof -
  let ?z = "updatePeers [(''b'', ''tcp://b:5'')] (new_zmq ''a'' None)"
  let ?y = "snd (getOrCreateConnection (\<lambda>_. True) ''b'' ?z)"
  have 1: "zmq_step (\<lambda>_. True) (new_zmq ''a'' None) ?z" by (rule zmq_step.peers)
  have 2: "zmq_step (\<lambda>_. True) ?z ?y" by (rule zmq_step.open_connection)
  have y: "0 < z_next ?y" "\<not> jhas (z_asked ?y) ''c1''"
    by (simp_all add: getOrCreateConnection_def updatePeers_def add_peer_def new_zmq_def jhas_def address_here_def is_digit_def Let_def)
  have 3: "zmq_step (\<lambda>_. True) ?y demo_asking" unfolding demo_asking_def by (rule zmq_step.go [OF y])
  show ?thesis
    by (rule rtranclp.rtrancl_into_rtrancl, rule rtranclp.rtrancl_into_rtrancl, rule r_into_rtranclp, rule 1, rule 2, rule 3)
qed

theorem requests_settle_witness:
  "jhas (z_pending demo_asking) ''c1'' \<and> jget (z_settled (request_expires ''c1'' demo_asking)) ''c1'' \<noteq> None"
  using requests_settle [OF demo_asking_reach, of "''c1''" demo_asking] by (simp add: demo_asking_fields jhas_def)

section \<open>A node joins\<close>

text \<open>A connection that was closed stays closed, and what went out on it is never answered.\<close>

definition cut_off :: "string \<Rightarrow> nat \<Rightarrow> zmq \<Rightarrow> bool" where
  "cut_off c d z \<longleftrightarrow> requests_ok z \<and> (c, d) \<in> set (z_asked z) \<and> d \<notin> set (z_open z) \<and> (\<forall>p. (c, Inr p) \<notin> set (z_settled z))"

lemma closed_stays: "zmq_step connects z z' \<Longrightarrow> d < z_next z \<Longrightarrow> d \<notin> set (z_open z) \<Longrightarrow> d \<notin> set (z_open z')"
  by (induction rule: zmq_step.induct)
    (auto simp: getOrCreateConnection_def updatePeers_def add_peers remove_peers_open request_go_def send_fails_def settle_request_def
      request_expires_def handleDealerResponse_def rotateCurveKeys_def reject_all_def close_dealers_def rotated_def zmq_connect_def
      zmq_disconnect_def zmq_subscribe_def zmq_unsubscribe_def Let_def split: option.split if_splits)

lemma asked_stays: "zmq_step connects z z' \<Longrightarrow> set (z_asked z) \<subseteq> set (z_asked z')"
  by (induction rule: zmq_step.induct)
    (auto simp: get_connection_simps updatePeers_simps request_go_def send_fails_def settle_request_def request_expires_def
      handleDealerResponse_def rotateCurveKeys_def reject_all_def close_dealers_def rotated_def zmq_connect_def zmq_disconnect_def
      zmq_subscribe_def zmq_unsubscribe_def Let_def split: option.split if_splits)

lemma resolved_only_by_response:
  "zmq_step connects z z' \<Longrightarrow> (c, Inr p) \<in> set (z_settled z') \<Longrightarrow>
     (c, Inr p) \<in> set (z_settled z) \<or> (\<exists>d. (c, d) \<in> set (z_asked z) \<and> d \<in> set (z_open z))"
  by (induction rule: zmq_step.induct)
    (auto simp: get_connection_simps updatePeers_simps request_go_def send_fails_def settle_request_def request_expires_def
      handleDealerResponse_def rotateCurveKeys_def reject_all_def close_dealers_def rotated_def zmq_connect_def zmq_disconnect_def
      zmq_subscribe_def zmq_unsubscribe_def Let_def split: option.splits if_splits)

lemma cut_off_step: "zmq_step connects z z' \<Longrightarrow> cut_off c d z \<Longrightarrow> cut_off c d z'"
proof -
  assume st: "zmq_step connects z z'" and cut: "cut_off c d z"
  then have ok: "requests_ok z" and asked: "(c, d) \<in> set (z_asked z)" and closed: "d \<notin> set (z_open z)" by (auto simp: cut_off_def)
  have "d < z_next z" using ok asked by (auto simp: requests_ok_def)
  moreover have "d' = d" if "(c, d') \<in> set (z_asked z)" for d'
    by (rule eq_key_imp_eq_value [OF _ that asked]) (use ok in \<open>simp add: requests_ok_def\<close>)
  ultimately show ?thesis
    using cut closed asked requests_ok_step [OF st ok] closed_stays [OF st] asked_stays [OF st] resolved_only_by_response [OF st]
    unfolding cut_off_def by blast
qed

lemma cut_off_run: "(zmq_step connects)\<^sup>*\<^sup>* z z' \<Longrightarrow> cut_off c d z \<Longrightarrow> cut_off c d z'"
  by (induction rule: rtranclp_induct) (auto intro: cut_off_step)

lemma peer_list_distinct: "gossip_ok g \<Longrightarrow> distinct (map fst (peer_list self now g))"
  using view_ids [of g] by (simp add: peer_list_def gossip_view_def getLivePeers_def comp_def distinct_map_filter)

lemma sync_lists: "peer_list self now g \<noteq> [] \<Longrightarrow> syncPeers self now g z = updatePeers (peer_list self now g) z"
  by (simp add: syncPeers_def)

text \<open>
  C34: When a node joins, the connections to all others are closed: the first listener hands
  \<open>updatePeers\<close> the new node alone, which stands for all peers; the second lists them all again. So a
  peer \<open>b\<close> that is alive is known as before, but its connection is gone, and a request that waits for
  its answer is never resolved, whatever happens afterwards, although \<open>b\<close> got it. The second listener
  alone would have kept the connection.
\<close>

theorem join_drops_requests:
  assumes "(zmq_step connects)\<^sup>*\<^sup>* (new_zmq n k) z" and "gossip_ok g"
    and "jget (z_dealers z) b = Some d" and "(c, d) \<in> set (z_asked z)" and "jhas (z_pending z) c"
    and "peer_address (getPeerState now i g) = Some addr" and "b \<noteq> i"
    and "jget (peer_list (z_nodeId z) now g) b = Some a" and "peer_entry a \<noteq> None"
    and "(zmq_step connects)\<^sup>*\<^sup>* (member_joins now g i z) z'"
  shows "jhas (z_peers (member_joins now g i z)) b
     \<and> jget (z_dealers (member_joins now g i z)) b = None \<and> jhas (z_pending (member_joins now g i z)) c
     \<and> (\<forall>p. jget (z_settled z') c \<noteq> Some (Inr p))
     \<and> jget (z_dealers (syncPeers (z_nodeId z) now g z)) b = Some d"
proof -
  let ?ps = "peer_list (z_nodeId z) now g" and ?z1 = "updatePeers [(i, addr)] z"
  have ok: "requests_ok z" "connections_ok z" using zmq_reachable_ok [OF assms(1)] by simp_all
  have ne: "?ps \<noteq> []" using assms(8) by auto
  have z: "member_joins now g i z = updatePeers ?ps ?z1"
    using assms(6) by (simp add: member_joins_def wire_join_def sync_lists [OF ne])
  have keys: "\<forall>j. jhas (z_dealers y) j \<longrightarrow> jhas (z_peers y) j" if "connections_ok y" for y
    using that by (simp add: connections_ok_def)
  have ok1: "connections_ok ?z1" by (rule connections_ok_update [OF ok(2)])
  note first = updatePeers_facts [of "[(i, addr)]", OF _ keys [OF ok(2)], simplified]
  note second = updatePeers_facts [OF peer_list_distinct [OF assms(2)] keys [OF ok1], of "z_nodeId z" now]
  note alone = updatePeers_facts [OF peer_list_distinct [OF assms(2)] keys [OF ok(2)], of "z_nodeId z" now]
  have "b \<noteq> z_nodeId z" using map_of_SomeD [OF assms(8)] by (auto simp: peer_list_def)
  then have "jhas (z_peers (member_joins now g i z)) b"
    using second(1) [of b] assms(7-9) by (auto simp: z jhas_def updatePeers_simps split: option.split)
  moreover have "jget (z_dealers (member_joins now g i z)) b = None"
    using second(2) [of b] first(2) [of b] assms(7) by (simp add: z)
  moreover have "cut_off c d (member_joins now g i z)"
  proof -
    have "d \<notin> set (z_open ?z1)" using first(3) assms(3,7) by auto
    then have "d \<notin> set (z_open (member_joins now g i z))" using second(3) by (auto simp: z)
    moreover have "\<not> jhas (z_settled z) c" using ok(1) assms(5) by (auto simp: requests_ok_def)
    moreover have "requests_ok (member_joins now g i z)"
      by (rule requests_ok_cong [OF ok(1)]) (simp_all add: z updatePeers_simps)
    ultimately show ?thesis using assms(4) by (force simp: cut_off_def z updatePeers_simps jhas_iff)
  qed
  then have "cut_off c d z'" by (rule cut_off_run [OF assms(10)])
  then have "\<forall>p. jget (z_settled z') c \<noteq> Some (Inr p)" by (auto simp: cut_off_def dest: map_of_SomeD)
  moreover have "jget (z_dealers (syncPeers (z_nodeId z) now g z)) b = Some d"
    using alone(2) [of b] assms(3,8) by (simp add: sync_lists [OF ne])
  ultimately show ?thesis using assms(5) by (simp add: z updatePeers_simps)
qed

text \<open>The table of \<open>a\<close> when \<open>i\<close> has joined it and \<open>b\<close>.\<close>

definition demo_three :: gossip where
  "demo_three = fold (merge_peer 5) [(demo_peer_entry ''b'' 3)\<lparr>p_address := ''tcp://b:5''\<rparr>, (demo_peer_entry ''i'' 3)\<lparr>p_address := ''tcp://i:5''\<rparr>]
     (demo_gossip ''a'')"

theorem join_drops_requests_witness:
  "jget (z_dealers (member_joins 5 demo_three ''i'' demo_asking)) ''b'' = None \<and>
   jget (z_settled (request_expires ''c1'' (member_joins 5 demo_three ''i'' demo_asking))) ''c1'' \<noteq> Some (Inr (Plain ''ok''))"
proof -
  have ok: "gossip_ok demo_three"
    unfolding demo_three_def
    by (rule fold_inv [where P = gossip_ok]) (simp_all add: gossip_ok_merge, simp add: gossip_ok_def demo_gossip_def new_gossip_def Let_def)
  note defs = demo_three_def merge_peer_def getLivePeers_def demo_peer_entry_def demo_gossip_def new_gossip_def Let_def demo_opts_def
    store_peer_def member_emit_def
  have i: "peer_address (getPeerState 5 ''i'' demo_three) = Some ''tcp://i:5''"
    by (simp add: peer_address_def getPeerState_def defs)
  have b: "jget (peer_list (z_nodeId demo_asking) 5 demo_three) ''b'' = Some ''tcp://b:5''"
    by (simp add: peer_list_def defs demo_asking_fields)
  have e: "peer_entry ''tcp://b:5'' \<noteq> None" by (simp add: peer_entry_def address_here_def is_digit_def Let_def)
  have x: "(zmq_step (\<lambda>_. True))\<^sup>*\<^sup>* (member_joins 5 demo_three ''i'' demo_asking)
      (request_expires ''c1'' (member_joins 5 demo_three ''i'' demo_asking))" by (rule r_into_rtranclp, rule zmq_step.expires)
  show ?thesis
    using join_drops_requests [OF demo_asking_reach ok _ _ _ i _ b e x, of 0 "''c1''"] by (simp add: demo_asking_fields jhas_def)
qed

end
