(* ===== verification/Spec2Isabelle.thy ===== *)
theory Spec2Isabelle
  imports Stop_Stages System_Ops Dynamic_Supervisor Process_Group Stage_Order Restart_Strategies Placement Agent
    Functional_Actor Telemetry Create_System Transport
begin

text \<open>
  A verification library of libeam, an actor system for TypeScript in the style of Erlang/OTP.
  This theory imports all others and holds no definitions of its own.

  \<^bold>\<open>The program.\<close> A node is an \<open>ActorSystem\<close> (\<open>src/src/actor_system.ts\<close>) with tables of actors,
  mailboxes, metadata, watches, links and remote children. User code is a class of actors
  (\<open>src/src/actor.ts\<close>) whose handlers the node runs from an event loop, one batch of messages per
  callback. A crash goes to the root supervisor (\<open>supervisor.ts\<close>) or the child supervisor
  (\<open>child_supervisor.ts\<close>). Nodes find each other by gossip (\<open>gossip_protocol.ts\<close>), watch each other
  by heartbeats (\<open>heartbeat.ts\<close>), share a registry of names (\<open>registry_sync.ts\<close>) and process groups
  (\<open>process_group.ts\<close>), place and migrate actors. \<open>gen_stage.ts\<close> builds producers and consumers with
  back-pressure on top of actors.

  \<^bold>\<open>Data and containers.\<close> \<open>Prelude\<close> holds the containers of the language: a \<open>Map\<close> is an association
  list in insertion order (\<open>jsmap\<close>), a \<open>Set\<close> a list without duplicates, an array a list. \<open>Errors\<close> is
  one datatype of error values; an exception is the left side of a sum. \<open>Mailbox\<close> is the ring buffer
  of \<open>mailbox.ts\<close>, refined to a bounded list queue. \<open>Actor_State\<close> holds the records: references,
  messages, contexts of actors, and \<open>sys\<close>, the state of a node. What a node sends, asks, or makes a
  handler do is appended to its \<open>outbox\<close>, in order.

  \<^bold>\<open>The actor system.\<close>
  \<^item> \<open>Watching\<close>, \<open>Linking\<close>: watches and links on one node and across two, their notifications and the
    failure of a node. The tables agree in every reachable state; a termination tells every watcher
    and linked actor exactly once.
  \<^item> \<open>Lifecycle\<close>, \<open>Remote_Children\<close>: \<open>spawn\<close>, \<open>spawnChild\<close>, \<open>stop\<close>, \<open>stopSingle\<close>, \<open>restart\<close>, timers,
    and children on other nodes. \<open>stop\<close> recurses over the tree of children: its fuel is one more than
    the number of actors, and \<open>stop_terminates\<close> shows that this is enough and that the result satisfies
    the recursion of the code. \<open>Stop_Stages\<close> cuts \<open>stop\<close> at its awaits: the sections, run one after the
    other, have the effect of the operation; what happens when other events come in between, or when
    \<open>terminate()\<close> fails, is shown there.
  \<^item> \<open>Supervision\<close>, \<open>Restart_Strategies\<close>: what a crash does. A crash can crash linked actors in turn:
    the fuel is one more than the number of links, and \<open>crash_cascade_ends\<close> shows that this is enough.
    \<open>Live_Links\<close> interprets the interface of linking on the supervisor: after
    operations that run to completion no link names a dead actor.
  \<^item> \<open>Tree_Operations\<close>: two interfaces (locales) that state what a relation on states must keep so that
    every operation on the tree keeps it; interpreted by the wakeup relation of the event loop, the
    well-formedness of a node and the number of children of a dynamic supervisor.
  \<^item> \<open>Scheduler\<close>: the event loop: \<open>dispatchCast\<close>, \<open>dispatchCall\<close>, the synchronous paths, \<open>processMailbox\<close>
    with its batches of 64, paused mailboxes, draining and injecting. A handler is a parameter; an
    \<open>await\<close> in it ends the activation, and a separate step resumes it.
  \<^item> \<open>Actor_Api\<close>: what user code can do through \<open>this\<close>, and \<open>scripted\<close> handlers that perform any list of
    these operations. They interpret the interfaces handlers must satisfy.
  \<^item> \<open>Node\<close>: the dispatch of messages and requests of other nodes, and one step relation of a whole node,
    whose reachable states are well formed. \<open>Event_Loop\<close>: no wakeup is lost, batches are bounded and in
    order, a queue is worked off; and what goes wrong with asynchronous handlers.
  \<^item> \<open>Moved\<close>, \<open>Migration\<close>: the stages of \<open>migrate\<close> between its awaited requests, \<open>migrate\<close> as their
    composition with nothing in between, the target's handlers of prepare, execute and rollback, and
    what watchers and linked actors are told. \<open>late_messages_lost\<close> puts a call before the last stage.
  \<^item> \<open>System_Ops\<close>: drain mode, \<open>migrateAll\<close>, and \<open>shutdown\<close>, whose tasks interleave.
  \<^item> \<open>Functional_Actor\<close>: the builder and the dispatch of actors made by \<open>create_actor.ts\<close>. \<open>Agent\<close>: the actor
    of \<open>agent.ts\<close> as a handler of the event loop, and what its callers get.

  \<^bold>\<open>Around it.\<close> \<open>Process_Group\<close>, \<open>Registry\<close>, \<open>Registry_Sync\<close> with \<open>Vector_Clock\<close>: replicated tables, their
  abstract specifications, and when copies agree. \<open>Gossip\<close> and \<open>Heartbeat\<close>: membership and failure
  detection. \<open>Transport\<close>: the requests, connections and peers of \<open>zeromq_transport.ts\<close> and what a join does to
  them. \<open>Create_System\<close>: waiting for the cluster and the checks of a configuration (\<open>create_system.ts\<close>).
  \<open>Telemetry\<close>: handlers attached to events. \<open>Placement\<close>: the choice of a node. \<open>Auth\<close>: Z85, the cookie authenticator and the keyring.
  \<open>Health\<close>: reports. \<open>Dynamic_Supervisor\<close>: children on demand. \<open>Dispatchers\<close>, \<open>Gen_Stage\<close>, \<open>Pipeline\<close>,
  \<open>Stage_Order\<close>: the three dispatchers behind one interface, the stages, demand accounting over a
  network of stages, and the order of events.

  \<^bold>\<open>How time and asynchrony appear.\<close> Where the properties are about what may happen next, the model has
  a step relation in which every waiting part may go on: \<open>node_step\<close>, \<open>watch_step\<close>, \<open>net_step\<close> (stages),
  \<open>hb_step\<close>, \<open>group_step\<close>, \<open>shutdown_step\<close>, \<open>zmq_step\<close>, and \<open>stop_world\<close> for a stop among other events.
  Not every \<open>await\<close> is interleaved. \<open>stop\<close>, \<open>stopSingle\<close>, \<open>restart\<close>, the handling of a crash and
  \<open>migrate\<close> are functions that run to completion, in which what they await succeeds at once: a
  step of \<open>node_step\<close> or \<open>link_step\<close> that stops an actor stops it altogether. The properties of these
  functions hold of runs that nothing disturbs; \<open>stop_sections_refine\<close> shows for \<open>stop\<close> that the function
  is the effect of such a run. A \<open>terminate()\<close> or an \<open>unregister\<close> that fails occurs only in
  \<open>Stop_Stages\<close> (a shutdown catches what they throw). A stage whose dispatcher throws has crashed and takes no more
  part in \<open>net_step\<close>. Clocks are arguments; the delay of a timer is not modelled, so a timer may fire
  at any step.

  \<^bold>\<open>Parameters.\<close> Not under \<open>src/\<close>, and arguments of the definitions: the handlers of user code and the
  callbacks of stages, the \<open>uuid\<close> package (a counter into a function), what the transport delivers and
  answers, \<open>JSON.stringify\<close>, and the cryptographic functions. Laws assumed of them are hypotheses of the
  theorems, each with a witness. The placement of an actor is a parameter of \<open>spawn\<close>, instantiated by
  \<open>Placement\<close>. Object identity matters in two places: a \<open>Set\<close> of references deletes by identity, so a
  reference records whether it is the original object, and peers of the heartbeat manager are
  addresses in a heap.

  \<^bold>\<open>What the theorems show to be wrong.\<close> Several state how the code fails: a restart abandons the
  children, two handlers of one actor overlap, a migration is refused by the name it moves, a shutdown
  misses a child, a ring filled exactly and then emptied loses a message, a join drops the requests to all other nodes, a link
  made while an actor stops outlives it. They are proved of the same definitions as
  the properties that hold.

  \<^bold>\<open>Not modelled.\<close> Sockets and processes (below \<open>zeromq_transport.ts\<close>, \<open>gossip_udp.ts\<close>, \<open>cli/\<close>,
  \<open>orchestration/\<close>), logging, the in-memory transport, the creation and connection of the components in
  \<open>create_system.ts\<close>, and the public wrapper classes that only send a message to the actor behind them. A stash is taken to live as long as its actor,
  and messages are compared by value. Ring slots that were never written are skipped where the code
  would read \<open>undefined\<close>.
\<close>

end
